(* ===== verification/Prelude.thy ===== *)
theory Prelude
  imports Main "HOL-Library.Word" "HOL-Library.Monad_Syntax"
begin

text \<open>
  Shared vocabulary of the development.

  Machine integers keep their C width where wrap-around or bit patterns matter
  (\<open>u8\<close>, \<open>u16\<close>, \<open>u32\<close>, \<open>u64\<close>); sizes, indices and pointers that the code only counts with
  are naturals.  \<open>s32\<close> and \<open>u32_of\<close> are the two conversions of an unbounded integer to a
  32-bit C integer that the kernel's signed arithmetic needs.

  A computation that can run into undefined behaviour (an access outside an object, a null or
  dangling pointer) has the type \<open>'a option\<close>: \<open>None\<close> is the fault, and \<open>Some\<close> the
  defined outcome.  \<open>arr_get\<close> and \<open>arr_set\<close> are the bounds-checked accesses to a C array,
  and \<open>arr_copy\<close> is \<open>memcpy\<close> from the start of one array into another.

  \<open>first_index\<close> is the linear search with which the kernel looks for a free slot, a device or a
  file system; \<open>iterate\<close> is the counted \<open>for\<close> loop.
\<close>

unbundle bit_operations_syntax

named_theorems word_norm \<open>normalising machine words to naturals\<close>
named_theorems arr_simps \<open>bounds-checked array accesses\<close>

type_synonym u8 = "8 word"
type_synonym u16 = "16 word"
type_synonym u32 = "32 word"
type_synonym u64 = "64 word"

definition s32 :: "int \<Rightarrow> int" where
  "s32 i = (i + 2 ^ 31) mod 2 ^ 32 - 2 ^ 31"

definition u32_of :: "int \<Rightarrow> nat" where
  "u32_of i = nat (i mod 2 ^ 32)"

definition NUL :: char where
  "NUL = CHR 0x00"

definition arr_get :: "'a list \<Rightarrow> nat \<Rightarrow> 'a option" where
  "arr_get xs i = (if i < length xs then Some (xs ! i) else None)"

definition arr_set :: "'a list \<Rightarrow> nat \<Rightarrow> 'a \<Rightarrow> 'a list option" where
  "arr_set xs i v = (if i < length xs then Some (xs[i := v]) else None)"

definition arr_copy :: "'a list \<Rightarrow> nat \<Rightarrow> 'a list \<Rightarrow> nat \<Rightarrow> 'a list option" where
  "arr_copy dst k src n =
     (if k + n \<le> length dst \<and> n \<le> length src then Some (take k dst @ take n src @ drop (k + n) dst) else None)"

fun first_index :: "('a \<Rightarrow> bool) \<Rightarrow> 'a list \<Rightarrow> nat option" where
  "first_index P [] = None"
| "first_index P (x # xs) = (if P x then Some 0 else map_option Suc (first_index P xs))"

fun iterate :: "nat \<Rightarrow> (nat \<Rightarrow> 's \<Rightarrow> 's) \<Rightarrow> 's \<Rightarrow> 's" where
  "iterate 0 f s = s"
| "iterate (Suc n) f s = f n (iterate n f s)"

subsection \<open>Arrays\<close>

lemma arr_get_Some_iff [arr_simps]: "arr_get xs i = Some v \<longleftrightarrow> i < length xs \<and> xs ! i = v"
  by (auto simp: arr_get_def)

lemma arr_get_None_iff [arr_simps]: "arr_get xs i = None \<longleftrightarrow> length xs \<le> i"
  by (auto simp: arr_get_def)

lemma arr_set_Some_iff [arr_simps]: "arr_set xs i v = Some ys \<longleftrightarrow> i < length xs \<and> ys = xs[i := v]"
  by (auto simp: arr_set_def)

lemma arr_set_None_iff [arr_simps]: "arr_set xs i v = None \<longleftrightarrow> length xs \<le> i"
  by (auto simp: arr_set_def)

lemma arr_get_in [simp]: "i < length xs \<Longrightarrow> arr_get xs i = Some (xs ! i)"
  by (simp add: arr_get_def)

lemma arr_set_in [simp]: "i < length xs \<Longrightarrow> arr_set xs i v = Some (xs[i := v])"
  by (simp add: arr_set_def)

subsection \<open>Linear search\<close>

lemma first_index_Some_iff:
  "first_index P xs = Some i \<longleftrightarrow> i < length xs \<and> P (xs ! i) \<and> (\<forall>j<i. \<not> P (xs ! j))"
proof (induction xs arbitrary: i)
  case Nil
  then show ?case by simp
next
  case (Cons x xs)
  then show ?case
    by (cases i) (auto simp: nth_Cons less_Suc_eq_0_disj split: nat.splits)
qed

lemma first_index_None_iff: "first_index P xs = None \<longleftrightarrow> (\<forall>x \<in> set xs. \<not> P x)"
  by (induction xs) auto

lemma first_index_cong:
  "(\<And>x. x \<in> set xs \<Longrightarrow> P x = Q x) \<Longrightarrow> first_index P xs = first_index Q xs"
  by (induction xs) auto

lemma first_index_append:
  "first_index P (xs @ ys) =
     (case first_index P xs of Some i \<Rightarrow> Some i
      | None \<Rightarrow> map_option (\<lambda>i. length xs + i) (first_index P ys))"
proof (induction xs)
  case Nil
  then show ?case by (cases "first_index P ys") simp_all
next
  case (Cons x xs)
  then show ?case
    by (cases "first_index P xs"; cases "first_index P ys") simp_all
qed

lemma first_index_less: "first_index P xs = Some i \<Longrightarrow> i < length xs"
  by (simp add: first_index_Some_iff)

subsection \<open>32-bit conversions\<close>

lemma s32_id: "- (2 ^ 31) \<le> i \<Longrightarrow> i < 2 ^ 31 \<Longrightarrow> s32 i = i"
  by (simp add: s32_def)

lemma s32_range: "- (2 ^ 31) \<le> s32 i" "s32 i < 2 ^ 31"
  by (simp_all add: s32_def)

lemma u32_of_id: "0 \<le> i \<Longrightarrow> i < 2 ^ 32 \<Longrightarrow> u32_of i = nat i"
  by (simp add: u32_of_def)

lemma u32_of_less: "u32_of i < 2 ^ 32"
  by (simp add: u32_of_def nat_less_iff)

subsection \<open>Counted loops\<close>

lemma iterate_inv:
  assumes "P 0 s" and "\<And>i t. i < n \<Longrightarrow> P i t \<Longrightarrow> P (Suc i) (f i t)"
  shows "P n (iterate n f s)"
proof -
  have "m \<le> n \<Longrightarrow> P m (iterate m f s)" for m
    by (induction m) (auto intro: assms)
  then show ?thesis by simp
qed

lemma iterate_range_upd:
  "iterate n (\<lambda>i m. m(b + i := v i)) m0 =
    (\<lambda>a. if b \<le> a \<and> a < b + n then v (a - b) else m0 a)" for b :: nat
  by (induction n) (auto simp: fun_eq_iff less_Suc_eq)

subsection \<open>Characters and bytes\<close>

lemma unat_of_char: "unat (of_char c :: u8) = of_char c"
proof -
  have "(of_char c :: u8) = of_nat (of_char c)" by (simp add: of_nat_of_char)
  then show ?thesis by (simp add: unat_of_nat of_char_mod_256)
qed

lemma of_char_nonzero: "c \<noteq> NUL \<Longrightarrow> (of_char c :: u8) \<noteq> 0"
proof
  assume "c \<noteq> NUL" and "(of_char c :: u8) = 0"
  then have "(of_char c :: nat) = of_char NUL" using unat_of_char [of c] by (simp add: NUL_def)
  then show False using \<open>c \<noteq> NUL\<close> by (simp only: of_char_eq_iff)
qed

lemma char_of_unat_of_char: "char_of (unat (of_char c :: u8)) = c"
  by (simp add: unat_of_char)

lemma unat_mod_width: "unat (x :: u64) mod 18446744073709551616 = unat x" "unat (y :: u16) mod 65536 = unat y"
  using unsigned_less [of x, where 'a = nat] unsigned_less [of y, where 'a = nat] by simp_all

lemma of_char_byte: "of_char (char_of (unat b)) = (b :: u8)"
proof -
  have "unat b mod 256 = unat b" using unsigned_less [of b, where 'a = nat] by simp
  then have "unat (of_char (char_of (unat b)) :: u8) = unat b" by (simp add: unat_of_char)
  then show ?thesis by (metis word_unat_eq_iff)
qed

end
