(* ===== verification/Klib_Strings.thy ===== *)
theory Klib_Strings
  imports Prelude
begin

text \<open>
  The string routines and \<open>power\<close> of \<open>kernel/src/klib.c\<close>.

  A C string argument is a buffer: the list of all characters of the object the pointer points
  into, from the pointer to the object's end.  Each routine walks its buffers exactly as the loops
  do and yields \<open>None\<close> when it runs past the end of one of them.  \<open>holds_string buf s\<close> says
  that \<open>buf\<close> holds the NUL-terminated string \<open>s\<close>.

  The theorems characterise each routine on buffers that hold strings.  The other components
  represent a C string by its contents \<open>s\<close> and compare contents with equality, which is what
  \<open>kstrcmp_decides_equality\<close> licenses.
\<close>

fun kstrcpy :: "char list \<Rightarrow> char list \<Rightarrow> char list option" where
  "kstrcpy (d # ds) (s # ss) =
     (if s = NUL then Some (NUL # ds) else map_option ((#) s) (kstrcpy ds ss))"
| "kstrcpy _ _ = None"

fun kstrcmp :: "char list \<Rightarrow> char list \<Rightarrow> int option" where
  "kstrcmp (d # ds) (s # ss) =
     (if d = s then (if d = NUL \<and> s = NUL then Some 0 else kstrcmp ds ss) else Some 1)"
| "kstrcmp _ _ = None"

fun kstrncmp :: "char list \<Rightarrow> char list \<Rightarrow> nat \<Rightarrow> int option" where
  "kstrncmp ds ss 0 = Some 0"
| "kstrncmp (d # ds) (s # ss) (Suc len) = (if d \<noteq> s then Some 1 else kstrncmp ds ss len)"
| "kstrncmp _ _ (Suc len) = None"

fun kstrlen :: "char list \<Rightarrow> nat option" where
  "kstrlen [] = None"
| "kstrlen (c # cs) = (if c = NUL then Some 0 else map_option Suc (kstrlen cs))"

text \<open>\<open>power\<close> multiplies in \<open>uint64_t\<close>; its counter runs down to zero.\<close>

fun power_loop :: "u64 \<Rightarrow> nat \<Rightarrow> u64 \<Rightarrow> u64" where
  "power_loop x 0 res = res"
| "power_loop x (Suc y) res = power_loop x y (res * x)"

definition power_u64 :: "u64 \<Rightarrow> u64 \<Rightarrow> u64" where
  "power_u64 x y = power_loop x (unat y) 1"

definition holds_string :: "char list \<Rightarrow> string \<Rightarrow> bool" where
  "holds_string buf s \<longleftrightarrow>
     NUL \<notin> set s \<and> length s < length buf \<and> take (length s) buf = s \<and> buf ! length s = NUL"

subsection \<open>Buffers that hold strings\<close>

lemma holds_string_Nil [simp]: "holds_string [] s = False"
  by (simp add: holds_string_def)

lemma holds_string_Cons_Nil [simp]: "holds_string (c # cs) [] \<longleftrightarrow> c = NUL"
  by (simp add: holds_string_def)

lemma holds_string_Cons_Cons [simp]:
  "holds_string (c # cs) (x # xs) \<longleftrightarrow> c = x \<and> c \<noteq> NUL \<and> holds_string cs xs"
  by (auto simp: holds_string_def)

lemma holds_string_split: "holds_string buf s \<longleftrightarrow> NUL \<notin> set s \<and> (\<exists>r. buf = s @ NUL # r)"
proof (induction buf arbitrary: s)
  case Nil
  then show ?case by simp
next
  case (Cons c cs)
  show ?case
  proof (cases s)
    case Nil
    then show ?thesis by auto
  next
    case (Cons x xs)
    with Cons.IH show ?thesis by auto
  qed
qed

lemma holds_string_unique: "holds_string buf s \<Longrightarrow> holds_string buf t \<Longrightarrow> s = t"
proof (induction buf arbitrary: s t)
  case Nil
  then show ?case by simp
next
  case (Cons c cs)
  then show ?case by (cases s; cases t) auto
qed

lemma holds_string_append_NUL [simp]: "NUL \<notin> set s \<Longrightarrow> holds_string (s @ NUL # r) s"
  by (auto simp: holds_string_split)

lemma kstrlen_correct: "holds_string buf s \<Longrightarrow> kstrlen buf = Some (length s)"
proof (induction buf arbitrary: s)
  case Nil
  then show ?case by simp
next
  case (Cons c cs)
  then show ?case by (cases s) auto
qed

lemma kstrlen_fault_iff: "kstrlen buf = None \<longleftrightarrow> NUL \<notin> set buf"
  by (induction buf) auto

lemma power_loop_eq: "power_loop x n res = res * x ^ n"
  by (induction n arbitrary: res) (simp_all add: mult.assoc)

lemma power_u64_eq: "power_u64 x y = x ^ unat y"
  by (simp add: power_u64_def power_loop_eq)

lemma kstrncmp_strings:
  assumes "holds_string a s" and "holds_string b t" and "n \<le> length t"
  shows "kstrncmp a b n = Some (if take n s = take n t then 0 else 1)"
  using assms
proof (induction a b n arbitrary: s t rule: kstrncmp.induct)
  case (2 d ds c ss len)
  then show ?case by (cases s; cases t) auto
qed auto

subsection \<open>Properties\<close>

text \<open>
  On two buffers that hold NUL-terminated strings, \<open>kstrcmp\<close> stays inside both buffers and
  returns 0 exactly when the strings are equal, and 1 otherwise.
\<close>

lemma kstrcmp_decides_equality:
  assumes "holds_string d x" and "holds_string s y"
  shows "kstrcmp d s = Some (if x = y then 0 else 1)"
  using assms
proof (induction d s arbitrary: x y rule: kstrcmp.induct)
  case (1 c ds b ss)
  then show ?case by (cases x; cases y) auto
qed auto

lemma kstrcmp_decides_equality_witness:
  "kstrcmp (''bd0'' @ [NUL]) (''bd0p0'' @ [NUL]) = Some 1"
  using kstrcmp_decides_equality [of "''bd0'' @ [NUL]" "''bd0''" "''bd0p0'' @ [NUL]" "''bd0p0''"]
  by (simp add: NUL_def)

text \<open>
  \<open>kstrcpy\<close> copies exactly the source string and its terminator and leaves the rest of the
  destination alone; it overruns the destination exactly when string and terminator do not fit.
\<close>

lemma kstrcpy_copies_or_overruns:
  assumes "holds_string s x"
  shows "kstrcpy d s =
    (if length x < length d then Some (x @ NUL # drop (Suc (length x)) d) else None)"
  using assms
proof (induction d s arbitrary: x rule: kstrcpy.induct)
  case (1 c ds b ss)
  then show ?case by (cases x) auto
qed auto

lemma kstrcpy_copies_or_overruns_witness:
  "kstrcpy ''xxxxx'' (''tty'' @ [NUL]) = Some (''tty'' @ [NUL] @ ''x'')
   \<and> kstrcpy ''xxx'' (''tty'' @ [NUL]) = None"
  using kstrcpy_copies_or_overruns [of "''tty'' @ [NUL]" "''tty''" "''xxxxx''"]
    kstrcpy_copies_or_overruns [of "''tty'' @ [NUL]" "''tty''" "''xxx''"]
  by (simp add: NUL_def)

end
