(* ===== verification/Kernel_Types.thy ===== *)
theory Kernel_Types
  imports Prelude
begin

text \<open>
  The data types and constants of \<open>kernel/include/kernel.h\<close> that several components share: the
  open flags, seek origins, task states, file types, descriptor-table entries, CPU state, the two
  generations of file handles, IPC packets and the task structure.

  C strings are represented by their contents, \<open>char *\<close> arrays grown with \<open>krealloc\<close>
  (\<open>file_handles\<close>, \<open>ipc_queue\<close>, \<open>ldt\<close>) by lists whose length is the array's count field.
\<close>

abbreviation (input) O_RDONLY :: u32 where "O_RDONLY \<equiv> 2"
abbreviation (input) O_RDWR :: u32 where "O_RDWR \<equiv> 3"
abbreviation (input) O_WRONLY :: u32 where "O_WRONLY \<equiv> 5"
abbreviation (input) O_APPEND :: u32 where "O_APPEND \<equiv> 0x0008"
abbreviation (input) O_CREAT :: u32 where "O_CREAT \<equiv> 0x0010"
abbreviation (input) O_TRUNC :: u32 where "O_TRUNC \<equiv> 0x0200"

abbreviation (input) SEEK_SET :: int where "SEEK_SET \<equiv> 0"
abbreviation (input) SEEK_END :: int where "SEEK_END \<equiv> 1"
abbreviation (input) SEEK_CUR :: int where "SEEK_CUR \<equiv> 2"

abbreviation (input) PAGE_SIZE :: nat where "PAGE_SIZE \<equiv> 4096"
abbreviation (input) KRNL_MAX_TASKS :: nat where "KRNL_MAX_TASKS \<equiv> 65536"
abbreviation (input) TASK_RESERVED_SPACE :: nat where "TASK_RESERVED_SPACE \<equiv> 0x10000"
abbreviation (input) DEFAULT_STACK :: nat where "DEFAULT_STACK \<equiv> 0x10000"
abbreviation (input) MAX_SIMULTANOUS_VFS_ACCESS :: int where "MAX_SIMULTANOUS_VFS_ACCESS \<equiv> 4096"

abbreviation (input) FILE_TYPE :: int where "FILE_TYPE \<equiv> 0"
abbreviation (input) DIRECTORY_TYPE :: int where "DIRECTORY_TYPE \<equiv> 1"
abbreviation (input) DEVICE_TYPE :: int where "DEVICE_TYPE \<equiv> 2"

abbreviation (input) IO_NOT_READY :: int where "IO_NOT_READY \<equiv> -5"
abbreviation (input) DF_READ :: int where "DF_READ \<equiv> 0"
abbreviation (input) DF_WRITE :: int where "DF_WRITE \<equiv> 1"

text \<open>\<open>DIV_ROUNDUP(a,b)\<close> in 32-bit \<open>size_t\<close> arithmetic, and for operands that do not wrap.\<close>

definition DIV_ROUNDUP :: "nat \<Rightarrow> nat \<Rightarrow> nat" where
  "DIV_ROUNDUP a b = (a + (b - 1)) mod 2 ^ 32 div b"

datatype task_status = Active | Res | IoWait | IpcWait | ProcWait | VdevWait

record dt_entry =
  limit_low :: u16
  base_low :: u16
  base_mid :: u8
  dt_access :: u8
  granularity :: u8
  base_high :: u8

record gpr_state =
  eax :: u32
  ebx :: u32
  ecx :: u32
  edx :: u32
  esi :: u32
  edi :: u32
  ebp :: u32
  seg_ds :: u32
  seg_es :: u32
  seg_fs :: u32
  seg_gs :: u32
  eip :: u32
  seg_cs :: u32
  eflags :: u32
  esp :: u32
  seg_ss :: u32

record ipc_packet_t =
  pk_sender :: nat
  pk_length :: nat
  pk_payload :: nat

record file_handle_t =
  fh_free :: bool
  fh_path :: string
  fh_flags :: u32
  fh_mode :: int
  fh_ptr :: int
  fh_begin :: int
  fh_end :: int
  fh_isblock :: bool

record file_handle_v2_t =
  f2_free :: bool
  f2_mountpoint :: int
  f2_internal_handle :: int

record vfs_metadata_t =
  filename :: string
  filetype :: int
  fsize :: u64

lemma DIV_ROUNDUP_page: "a \<le> 2 ^ 32 - PAGE_SIZE \<Longrightarrow> DIV_ROUNDUP a PAGE_SIZE = (a + 4095) div 4096"
  by (simp add: DIV_ROUNDUP_def)

lemma DIV_ROUNDUP_covers: "a \<le> 2 ^ 32 - PAGE_SIZE \<Longrightarrow> a \<le> DIV_ROUNDUP a PAGE_SIZE * PAGE_SIZE"
  by (simp add: DIV_ROUNDUP_page)

end
