(* ===== verification/Handles.thy ===== *)
theory Handles
  imports Kernel_Types
begin

text \<open>
  Handle tables.  The kernel keeps four of them, each an array grown with \<open>krealloc\<close> whose slots
  carry a \<open>free\<close> flag: the two per-task tables of \<open>klib.c\<close> (\<open>create_file_handle\<close>,
  \<open>create_file_handle_v2\<close>) modelled here, and those of \<open>devfs.c\<close> and \<open>echfs.c\<close>, modelled
  in their own theories.  All of them hand out the first free slot and otherwise grow by one.

  The locale \<open>handle_table\<close> is the contract of such a table; its lemmas are proved once and
  every table interprets it.
\<close>

text \<open>The loop over the slots and the \<open>load_handle\<close> tail of the four functions.\<close>

definition create_file_handle :: "file_handle_t list \<Rightarrow> file_handle_t \<Rightarrow> nat \<times> file_handle_t list" where
  "create_file_handle hs h =
     (case first_index fh_free hs of
        Some handle_n \<Rightarrow> (handle_n, hs[handle_n := h])
      | None \<Rightarrow> (length hs, hs @ [h]))"

definition create_file_handle_v2 ::
  "file_handle_v2_t list \<Rightarrow> file_handle_v2_t \<Rightarrow> nat \<times> file_handle_v2_t list" where
  "create_file_handle_v2 hs h =
     (case first_index f2_free hs of
        Some handle_n \<Rightarrow> (handle_n, hs[handle_n := h])
      | None \<Rightarrow> (length hs, hs @ [h]))"

text \<open>A slot in use: inside the table and not marked free.\<close>

definition live :: "('h \<Rightarrow> bool) \<Rightarrow> 'h list \<Rightarrow> nat \<Rightarrow> bool" where
  "live free hs i \<longleftrightarrow> i < length hs \<and> \<not> free (hs ! i)"

subsection \<open>The contract of a handle table\<close>

locale handle_table =
  fixes is_free :: "'h \<Rightarrow> bool"
    and create :: "'h list \<Rightarrow> 'h \<Rightarrow> nat \<times> 'h list"
  assumes create_reuse: "first_index is_free hs = Some i \<Longrightarrow> create hs h = (i, hs[i := h])"
    and create_grow: "first_index is_free hs = None \<Longrightarrow> create hs h = (length hs, hs @ [h])"
begin

lemma create_cases:
  obtains (reuse) i where "first_index is_free hs = Some i" "create hs h = (i, hs[i := h])"
  | (grow) "first_index is_free hs = None" "create hs h = (length hs, hs @ [h])"
  using create_reuse create_grow by (cases "first_index is_free hs") auto

lemma create_stores:
  assumes "create hs h = (i, hs')"
  shows "i < length hs'" and "hs' ! i = h"
  using assms by (cases rule: create_cases [of hs h]; auto simp: first_index_less)+

lemma create_fresh:
  assumes "create hs h = (i, hs')"
  shows "\<not> live is_free hs i"
  using assms
  by (cases rule: create_cases [of hs h]) (auto simp: live_def first_index_Some_iff)

lemma create_lowest:
  assumes "create hs h = (i, hs')" and "j < i"
  shows "live is_free hs j"
  using assms
  by (cases rule: create_cases [of hs h])
    (auto simp: live_def first_index_Some_iff first_index_None_iff)

lemma create_frame:
  assumes "create hs h = (i, hs')" and "live is_free hs j"
  shows "live is_free hs' j \<and> hs' ! j = hs ! j"
  using assms
  by (cases rule: create_cases [of hs h])
    (auto simp: live_def first_index_Some_iff nth_append nth_list_update split: if_splits)

lemma create_length:
  assumes "create hs h = (i, hs')"
  shows "length hs' = (if \<forall>j<length hs. live is_free hs j then Suc (length hs) else length hs)"
  using assms
  by (cases rule: create_cases [of hs h])
    (auto simp: live_def first_index_Some_iff first_index_None_iff)

lemma create_spec:
  assumes "create hs h = (i, hs')"
  shows "\<not> live is_free hs i \<and> (\<forall>j<i. live is_free hs j) \<and> i < length hs' \<and> hs' ! i = h
    \<and> (\<forall>j. live is_free hs j \<longrightarrow> live is_free hs' j \<and> hs' ! j = hs ! j)
    \<and> length hs' = (if \<forall>j<length hs. live is_free hs j then Suc (length hs) else length hs)"
  using create_fresh [OF assms] create_lowest [OF assms] create_stores [OF assms]
    create_frame [OF assms] create_length [OF assms] by blast

end

interpretation fh: handle_table fh_free create_file_handle
  by unfold_locales (simp_all add: create_file_handle_def)

interpretation fh2: handle_table f2_free create_file_handle_v2
  by unfold_locales (simp_all add: create_file_handle_v2_def)

end
