(* ===== verification/Memory.thy ===== *)
theory Memory
  imports Prelude
begin

text \<open>
  Physical memory as a function from addresses to bytes, with the byte-wise \<open>memset\<close> and
  \<open>memcpy\<close> that \<open>kernel/asm/builtins.asm\<close> implements with \<open>rep stosb\<close> and
  \<open>rep movsb\<close>, and little-endian accesses of \<open>n\<close> bytes, which is how the i386 kernel reads and
  writes every multi-byte field it stores in memory or on disk.
\<close>

type_synonym memory = "nat \<Rightarrow> u8"

definition memset :: "memory \<Rightarrow> nat \<Rightarrow> u8 \<Rightarrow> nat \<Rightarrow> memory" where
  "memset m dst c n = iterate n (\<lambda>i m. m(dst + i := c)) m"

definition memcpy :: "memory \<Rightarrow> nat \<Rightarrow> nat \<Rightarrow> nat \<Rightarrow> memory" where
  "memcpy m dst src n = iterate n (\<lambda>i m. m(dst + i := m (src + i))) m"

fun rd_le :: "nat \<Rightarrow> memory \<Rightarrow> nat \<Rightarrow> nat" where
  "rd_le 0 m a = 0"
| "rd_le (Suc n) m a = unat (m a) + 256 * rd_le n m (Suc a)"

fun wr_le :: "nat \<Rightarrow> memory \<Rightarrow> nat \<Rightarrow> nat \<Rightarrow> memory" where
  "wr_le 0 m a v = m"
| "wr_le (Suc n) m a v = wr_le n (m(a := word_of_nat v)) (Suc a) (v div 256)"

subsection \<open>Block operations\<close>

lemma memset_eq: "memset m dst c n = (\<lambda>a. if dst \<le> a \<and> a < dst + n then c else m a)"
  by (simp add: memset_def iterate_range_upd)

lemma memcpy_disjoint:
  assumes "src + n \<le> dst \<or> dst + n \<le> src"
  shows "memcpy m dst src n = (\<lambda>a. if dst \<le> a \<and> a < dst + n then m (src + (a - dst)) else m a)"
proof -
  have "iterate k (\<lambda>i m. m(dst + i := m (src + i))) m =
      (\<lambda>a. if dst \<le> a \<and> a < dst + k then m (src + (a - dst)) else m a)" if "k \<le> n" for k
    using that
  proof (induction k)
    case 0
    then show ?case by (auto simp: fun_eq_iff)
  next
    case (Suc k)
    with assms show ?case by (auto simp: fun_eq_iff less_Suc_eq)
  qed
  then show ?thesis by (simp add: memcpy_def)
qed

subsection \<open>Little-endian fields\<close>

lemma wr_le_frame [simp]: "b < a \<or> a + n \<le> b \<Longrightarrow> wr_le n m a v b = m b"
  by (induction n m a v rule: wr_le.induct) auto

lemma rd_le_cong: "(\<And>i. i < n \<Longrightarrow> m (a + i) = m' (a + i)) \<Longrightarrow> rd_le n m a = rd_le n m' a"
proof (induction n arbitrary: a)
  case 0
  then show ?case by simp
next
  case (Suc n)
  have "m a = m' a" using Suc.prems [of 0] by simp
  moreover have "rd_le n m (Suc a) = rd_le n m' (Suc a)"
  proof (rule Suc.IH)
    show "m (Suc a + i) = m' (Suc a + i)" if "i < n" for i
      using Suc.prems [of "Suc i"] that by simp
  qed
  ultimately show ?case by simp
qed

lemma rd_wr_le_disjoint: "b + k \<le> a \<or> a + n \<le> b \<Longrightarrow> rd_le k (wr_le n m a v) b = rd_le k m b"
  by (rule rd_le_cong) auto

lemma rd_wr_le: "rd_le n (wr_le n m a v) a = v mod 256 ^ n"
proof (induction n arbitrary: m a v)
  case 0
  then show ?case by simp
next
  case (Suc n)
  have "wr_le (Suc n) m a v a = word_of_nat v" by simp
  moreover have "rd_le n (wr_le (Suc n) m a v) (Suc a) = v div 256 mod 256 ^ n"
    by (simp add: Suc.IH)
  moreover have "v mod 256 + 256 * (v div 256 mod 256 ^ n) = v mod (256 * 256 ^ n)"
    by (metis mod_mult2_eq add.commute)
  ultimately show ?case
    by (simp add: unat_of_nat)
qed

lemma rd_le_less: "rd_le n m a < 256 ^ n"
proof (induction n arbitrary: a)
  case 0
  then show ?case by simp
next
  case (Suc n)
  have "unat (m a) < 256" using unsigned_less [of "m a"] by simp
  with Suc.IH [of "Suc a"] show ?case
    by simp
qed

lemma wr_le_apply: "wr_le n C a x q = (if a \<le> q \<and> q < a + n then of_nat (x div 256 ^ (q - a)) else C q)"
proof (induction n arbitrary: C a x)
  case (Suc n)
  have "q - a = Suc (q - Suc a)" if "Suc a \<le> q" using that by simp
  then show ?case using Suc.IH by (auto simp: div_mult2_eq)
qed auto

subsection \<open>Strings of bytes\<close>

fun put_bytes :: "u8 list \<Rightarrow> nat \<Rightarrow> memory \<Rightarrow> memory" where
  "put_bytes [] a C = C"
| "put_bytes (b # bs) a C = put_bytes bs (Suc a) (C(a := b))"

lemma put_bytes_apply: "put_bytes bs a C q = (if a \<le> q \<and> q < a + length bs then bs ! (q - a) else C q)"
  by (induction bs arbitrary: a C) (auto simp: nth_Cons')

lemma rd_le_put_bytes: "b + length bs \<le> a \<or> a + n \<le> b \<Longrightarrow> rd_le n (put_bytes bs b C) a = rd_le n C a"
  by (rule rd_le_cong) (auto simp: put_bytes_apply)

lemma put_bytes_append: "put_bytes (xs @ ys) a C = put_bytes ys (a + length xs) (put_bytes xs a C)"
  by (induction xs arbitrary: a C) auto

lemma put_bytes_idem: "put_bytes bs a (put_bytes bs a C) = put_bytes bs a C"
  by (rule ext) (simp add: put_bytes_apply)

lemma wr_rd_le: "wr_le n m a (rd_le n m a) = m"
proof (induction n arbitrary: a)
  case (Suc n)
  have "rd_le (Suc n) m a div 256 = rd_le n m (Suc a)" using unsigned_less [of "m a", where 'a = nat] by simp
  moreover have "word_of_nat (rd_le (Suc n) m a) = m a"
  proof -
    have "(256 :: u8) = 0" by simp
    then have "(256 :: u8) * x = 0" for x by (simp only: mult_zero_left)
    then show ?thesis by simp
  qed
  ultimately show ?case using Suc.IH [of "Suc a"] by simp
qed simp

end
