(* ===== verification/Pmm.thy ===== *)
theory Pmm
  imports Memory Kernel_Types
begin

text \<open>
  The physical page allocator, \<open>kernel/src/mm/pmm.c\<close>.

  \<open>bitmap s i\<close> is bit \<open>i\<close> of the allocation bitmap (set: the page is in use), accessed with the
  \<open>bt\<close>, \<open>bts\<close> and \<open>btr\<close> instructions.  Pointers are byte addresses, and 0 is \<open>NULL\<close>.
  The search for a run of free pages starts where the last one stopped and wraps once.

  The bitmap is kept apart from the byte memory here; the end of the theory shows that
  \<open>init_pmm\<close> itself does not keep the two apart.
\<close>

record pmm =
  bitmap :: "nat \<Rightarrow> bool"
  last_used_index :: nat
  highest_page :: nat

record mmap_entry =
  me_base :: nat
  me_length :: nat
  me_type :: nat

abbreviation (input) STIVALE_MMAP_USABLE :: nat where "STIVALE_MMAP_USABLE \<equiv> 1"

definition bitmap_set :: "nat \<Rightarrow> pmm \<Rightarrow> pmm" where
  "bitmap_set i s = s\<lparr>bitmap := (bitmap s)(i := True)\<rparr>"

definition bitmap_unset :: "nat \<Rightarrow> pmm \<Rightarrow> pmm" where
  "bitmap_unset i s = s\<lparr>bitmap := (bitmap s)(i := False)\<rparr>"

subsection \<open>Initialisation\<close>

text \<open>First loop: the top of usable memory, in 32-bit \<open>uintptr_t\<close> arithmetic.\<close>

fun highest_usable :: "mmap_entry list \<Rightarrow> nat \<Rightarrow> nat" where
  "highest_usable [] hi = hi"
| "highest_usable (e # es) hi =
     (if me_type e \<noteq> STIVALE_MMAP_USABLE then highest_usable es hi
      else let t = (me_base e + me_length e) mod 2 ^ 32
           in highest_usable es (if t > hi then t else hi))"

definition bitmap_size :: "nat \<Rightarrow> nat" where
  "bitmap_size highest = DIV_ROUNDUP highest PAGE_SIZE div 8"

text \<open>Second loop: the first usable entry that can host the bitmap gives up its front.\<close>

fun place_bitmap :: "nat \<Rightarrow> mmap_entry list \<Rightarrow> nat option \<times> mmap_entry list" where
  "place_bitmap bsize [] = (None, [])"
| "place_bitmap bsize (e # es) =
     (if me_type e = STIVALE_MMAP_USABLE \<and> me_length e \<ge> bsize
      then (Some (me_base e), e\<lparr>me_base := me_base e + bsize, me_length := me_length e - bsize\<rparr> # es)
      else let (b, es') = place_bitmap bsize es in (b, e # es'))"

text \<open>
  Third loop: one bit is cleared per page of each usable entry.  The 32-bit counter \<open>j\<close> wraps,
  and the loop never ends, when an entry is longer than \<open>2 ^ 32 - PAGE_SIZE\<close>: \<open>None\<close>.
  Otherwise \<open>j\<close> takes the values \<open>i * PAGE_SIZE\<close> for \<open>i < pages_of length\<close>.
\<close>

definition pages_of :: "nat \<Rightarrow> nat" where
  "pages_of n = (n + (PAGE_SIZE - 1)) div PAGE_SIZE"

fun free_usable :: "mmap_entry list \<Rightarrow> pmm \<Rightarrow> pmm option" where
  "free_usable [] s = Some s"
| "free_usable (e # es) s =
     (if me_type e \<noteq> STIVALE_MMAP_USABLE then free_usable es s
      else if me_length e > 2 ^ 32 - PAGE_SIZE then None
      else free_usable es
        (iterate (pages_of (me_length e))
          (\<lambda>i. bitmap_unset ((me_base e + i * PAGE_SIZE) div PAGE_SIZE mod 2 ^ 32)) s))"

definition init_pmm :: "(nat \<Rightarrow> bool) \<Rightarrow> mmap_entry list \<Rightarrow> (nat option \<times> pmm) option" where
  "init_pmm garbage memmap =
     (let highest = highest_usable memmap 0;
          bsize = bitmap_size highest;
          (place, memmap') = place_bitmap bsize memmap;
          bits = (case place of None \<Rightarrow> garbage
                  | Some b \<Rightarrow> (\<lambda>i. if i < bsize * 8 then True else garbage i))
      in map_option (Pair place)
           (free_usable memmap' \<lparr>bitmap = bits, last_used_index = 0, highest_page = highest\<rparr>))"

subsection \<open>Allocation\<close>

function inner_alloc_loop :: "nat \<Rightarrow> nat \<Rightarrow> nat \<Rightarrow> pmm \<Rightarrow> nat \<times> pmm" where
  "inner_alloc_loop count limit p s =
     (let i = last_used_index s; s' = s\<lparr>last_used_index := Suc i\<rparr> in
      if i < limit then
        if \<not> bitmap s i then
          if Suc p = count then
            let page = Suc i - count
            in (page * PAGE_SIZE, iterate count (\<lambda>k. bitmap_set (page + k)) s')
          else inner_alloc_loop count limit (Suc p) s'
        else inner_alloc_loop count limit 0 s'
      else (0, s))"
  by pat_completeness auto
termination
  by (relation "measure (\<lambda>(count, limit, p, s). limit - last_used_index s)") auto

declare inner_alloc_loop.simps [simp del]

definition inner_alloc :: "nat \<Rightarrow> nat \<Rightarrow> pmm \<Rightarrow> nat \<times> pmm" where
  "inner_alloc count limit s = inner_alloc_loop count limit 0 s"

definition pmm_alloc :: "nat \<Rightarrow> pmm \<Rightarrow> nat \<times> pmm" where
  "pmm_alloc count s =
     (let l = last_used_index s;
          (ret, s1) = inner_alloc count (highest_page s div PAGE_SIZE) s
      in if ret = 0 then inner_alloc count l (s1\<lparr>last_used_index := 0\<rparr>) else (ret, s1))"

definition pmm_free :: "nat \<Rightarrow> nat \<Rightarrow> pmm \<Rightarrow> pmm" where
  "pmm_free ptr count s = iterate count (\<lambda>k. bitmap_unset (ptr div PAGE_SIZE + k)) s"

text \<open>\<open>pmm_allocz\<close> also clears the pages, 512 quadwords each.\<close>

definition pmm_allocz :: "nat \<Rightarrow> pmm \<times> memory \<Rightarrow> nat \<times> pmm \<times> memory" where
  "pmm_allocz count = (\<lambda>(s, m).
     let (ret, s') = pmm_alloc count s
     in if ret = 0 then (0, s', m) else (ret, s', memset m ret 0 (count * PAGE_SIZE)))"

text \<open>The allocator's state invariant: the search index never passes the managed pages.\<close>

definition pmm_inv :: "pmm \<Rightarrow> bool" where
  "pmm_inv s \<longleftrightarrow> last_used_index s \<le> highest_page s div PAGE_SIZE"

definition run_free :: "(nat \<Rightarrow> bool) \<Rightarrow> nat \<Rightarrow> nat \<Rightarrow> bool" where
  "run_free b page count \<longleftrightarrow> (\<forall>i<count. \<not> b (page + i))"

definition mark :: "(nat \<Rightarrow> bool) \<Rightarrow> nat \<Rightarrow> nat \<Rightarrow> bool \<Rightarrow> nat \<Rightarrow> bool" where
  "mark b page count v = (\<lambda>i. if page \<le> i \<and> i < page + count then v else b i)"

subsection \<open>Bit ranges\<close>

lemma iterate_bitmap_set:
  "iterate n (\<lambda>k. bitmap_set (b + k)) s = s\<lparr>bitmap := mark (bitmap s) b n True\<rparr>"
  by (induction n) (auto simp: bitmap_set_def mark_def fun_eq_iff intro!: pmm.equality)

lemma iterate_bitmap_unset:
  "iterate n (\<lambda>k. bitmap_unset (b + k)) s = s\<lparr>bitmap := mark (bitmap s) b n False\<rparr>"
  by (induction n) (auto simp: bitmap_unset_def mark_def fun_eq_iff intro!: pmm.equality)

lemma mark_restore: "run_free b page count \<Longrightarrow> mark (mark b page count True) page count False = b"
  by (auto simp: mark_def run_free_def fun_eq_iff) (metis le_add_diff_inverse nat_add_left_cancel_less)

subsection \<open>The search loop\<close>

text \<open>
  What one run of the search loop from index \<open>lo\<close> ends in: a run of free pages, now marked, with
  the index just behind it; or no such run below \<open>limit\<close> and the bitmap as it was.
\<close>

definition found :: "nat \<Rightarrow> nat \<Rightarrow> nat \<Rightarrow> pmm \<Rightarrow> nat \<Rightarrow> pmm \<Rightarrow> bool" where
  "found lo count limit s ret s' \<longleftrightarrow>
     (\<exists>page\<ge>lo. page + count \<le> limit \<and> run_free (bitmap s) page count \<and> ret = page * PAGE_SIZE
        \<and> s' = s\<lparr>last_used_index := page + count, bitmap := mark (bitmap s) page count True\<rparr>)"

definition exhausted :: "nat \<Rightarrow> nat \<Rightarrow> nat \<Rightarrow> pmm \<Rightarrow> nat \<Rightarrow> pmm \<Rightarrow> bool" where
  "exhausted lo count limit s ret s' \<longleftrightarrow>
     ret = 0 \<and> s' = s\<lparr>last_used_index := max limit (last_used_index s)\<rparr>
     \<and> (\<forall>page\<ge>lo. page + count \<le> limit \<longrightarrow> \<not> run_free (bitmap s) page count)"

lemma found_mono: "found lo count limit s ret s' \<Longrightarrow> lo' \<le> lo \<Longrightarrow> found lo' count limit s ret s'"
  unfolding found_def by (erule ex_forward) simp

lemma found_index: "found lo count limit (s\<lparr>last_used_index := j\<rparr>) ret s' = found lo count limit s ret s'"
  by (simp add: found_def)

lemma exhausted_step:
  assumes "exhausted (Suc i) count limit (s\<lparr>last_used_index := Suc i\<rparr>) ret s'"
    and "i = last_used_index s" and "i < limit" and "bitmap s i" and "i < lo + count"
  shows "exhausted lo count limit s ret s'"
proof -
  have "\<not> run_free (bitmap s) page count" if "lo \<le> page" "page \<le> i" for page
    using that assms(4,5) unfolding run_free_def
    by (intro notI) (drule spec [of _ "i - page"], auto)
  moreover have "\<not> run_free (bitmap s) page count" if "i < page" "page + count \<le> limit" for page
    using assms(1) that by (simp add: exhausted_def Suc_le_eq)
  ultimately have "\<not> run_free (bitmap s) page count" if "lo \<le> page" "page + count \<le> limit" for page
    using that by (cases "page \<le> i") auto
  with assms(1-3) show ?thesis by (simp add: exhausted_def max_def)
qed

lemma inner_alloc_loop_spec:
  assumes "p \<le> last_used_index s" and "run_free (bitmap s) (last_used_index s - p) p"
    and "p < count" and "inner_alloc_loop count limit p s = (ret, s')"
  shows "found (last_used_index s - p) count limit s ret s'
    \<or> exhausted (last_used_index s - p) count limit s ret s'"
  using assms
proof (induction count limit p s rule: inner_alloc_loop.induct)
  case (1 count limit p s)
  let ?i = "last_used_index s"
  let ?s = "s\<lparr>last_used_index := Suc ?i\<rparr>"
  note step = inner_alloc_loop.simps [of count limit p s]
  consider (stop) "\<not> ?i < limit" | (used) "?i < limit" "bitmap s ?i"
    | (hit) "?i < limit" "\<not> bitmap s ?i" "Suc p = count"
    | (go_on) "?i < limit" "\<not> bitmap s ?i" "Suc p \<noteq> count" by blast
  then show ?case
  proof cases
    case stop
    with "1.prems" show ?thesis by (auto simp: step exhausted_def)
  next
    case used
    with "1.prems"(4) have "inner_alloc_loop count limit 0 ?s = (ret, s')" by (simp add: step)
    then have "found (Suc ?i) count limit ?s ret s' \<or> exhausted (Suc ?i) count limit ?s ret s'"
      using "1.IH"(2) [OF refl refl] used "1.prems"(3) by (simp add: run_free_def)
    then show ?thesis
    proof
      assume "found (Suc ?i) count limit ?s ret s'"
      then show ?thesis by (intro disjI1) (rule found_mono, auto simp: found_index)
    next
      assume "exhausted (Suc ?i) count limit ?s ret s'"
      then show ?thesis
        using used "1.prems"(1,3) by (intro disjI2) (rule exhausted_step, auto)
    qed
  next
    case hit
    with "1.prems"(4) have "ret = (?i - p) * PAGE_SIZE"
      "s' = ?s\<lparr>bitmap := mark (bitmap s) (?i - p) count True\<rparr>"
      by (auto simp: step iterate_bitmap_set Let_def)
    moreover have "run_free (bitmap s) (?i - p) count"
      using "1.prems"(1,2) hit by (auto simp: run_free_def less_Suc_eq)
    ultimately show ?thesis
      using hit "1.prems"(1) unfolding found_def by (intro disjI1 exI [of _ "?i - p"]) simp
  next
    case go_on
    with "1.prems"(4) have "inner_alloc_loop count limit (Suc p) ?s = (ret, s')" by (simp add: step)
    moreover have "run_free (bitmap s) (?i - p) (Suc p)"
      using "1.prems"(1,2) go_on by (auto simp: run_free_def less_Suc_eq)
    ultimately have "found (?i - p) count limit ?s ret s' \<or> exhausted (?i - p) count limit ?s ret s'"
      using "1.IH"(1) [OF refl refl] go_on "1.prems"(1,3) by simp
    moreover from go_on(1) have "max limit (Suc ?i) = max limit ?i" by simp
    ultimately show ?thesis by (simp add: found_index exhausted_def)
  qed
qed

lemma inner_alloc_spec:
  assumes "0 < count" and "inner_alloc count limit s = (ret, s')"
  shows "found (last_used_index s) count limit s ret s'
    \<or> exhausted (last_used_index s) count limit s ret s'"
  using inner_alloc_loop_spec [of 0 s count limit ret s'] assms
  by (simp add: inner_alloc_def run_free_def)

text \<open>Both passes of \<open>pmm_alloc\<close>: found on the first, found on the second, or on neither.\<close>

lemma pmm_alloc_cases:
  assumes "0 < count" and "pmm_inv s" and "pmm_alloc count s = (ret, s')"
  obtains (fresh) page where "page + count \<le> highest_page s div PAGE_SIZE"
      "run_free (bitmap s) page count" "ret = page * PAGE_SIZE"
      "bitmap s' = mark (bitmap s) page count True" "highest_page s' = highest_page s" "pmm_inv s'"
  | (page_zero) "\<not> bitmap s 0"
  | (full) "ret = 0" "bitmap s' = bitmap s" "highest_page s' = highest_page s" "pmm_inv s'"
      "\<forall>page. page + count \<le> last_used_index s \<longrightarrow> \<not> run_free (bitmap s) page count"
      "\<forall>page\<ge>last_used_index s. page + count \<le> highest_page s div PAGE_SIZE
         \<longrightarrow> \<not> run_free (bitmap s) page count"
proof -
  let ?l = "last_used_index s" and ?N = "highest_page s div PAGE_SIZE"
  obtain r1 s1 where first: "inner_alloc count ?N s = (r1, s1)" by (cases "inner_alloc count ?N s")
  have free0: "\<not> bitmap t 0" if "found lo count m t 0 t'" for lo m t t'
    using that assms(1) by (auto simp: found_def run_free_def)
  show thesis
  proof (cases "r1 = 0")
    case False
    with assms(3) first have [simp]: "ret = r1" "s' = s1" by (simp_all add: pmm_alloc_def)
    from False inner_alloc_spec [OF assms(1) first] have "found ?l count ?N s r1 s1"
      by (auto simp: exhausted_def)
    then show thesis by (auto simp: found_def pmm_inv_def intro: fresh)
  next
    case True
    show thesis
    proof (cases "bitmap s 0")
      case False
      then show thesis by (rule page_zero)
    next
      case reserved: True
      with True inner_alloc_spec [OF assms(1) first] have ex: "exhausted ?l count ?N s 0 s1"
        by (auto dest: free0)
      then have bits: "bitmap s1 = bitmap s" "highest_page s1 = highest_page s"
        by (simp_all add: exhausted_def)
      let ?s1 = "s1\<lparr>last_used_index := 0\<rparr>"
      from True assms(3) first have snd: "inner_alloc count ?l ?s1 = (ret, s')"
        by (simp add: pmm_alloc_def)
      from inner_alloc_spec [OF assms(1) snd]
      consider "found 0 count ?l ?s1 ret s'" | "exhausted 0 count ?l ?s1 ret s'" by auto
      then show thesis
      proof cases
        case 1
        with bits assms(2) show thesis by (auto simp: found_def pmm_inv_def intro!: fresh)
      next
        case 2
        with bits ex assms(2) show thesis by (auto simp: exhausted_def pmm_inv_def intro!: full)
      qed
    qed
  qed
qed

lemma pmm_free_eq:
  "pmm_free (page * PAGE_SIZE) count s = s\<lparr>bitmap := mark (bitmap s) page count False\<rparr>"
  by (simp add: pmm_free_def iterate_bitmap_unset)

subsection \<open>Properties of allocation\<close>

text \<open>
  C6.  A successful \<open>pmm_alloc\<close> hands out \<open>count\<close> consecutive pages inside the managed memory that
  were all free, marks exactly these as used, changes no other bit and keeps the allocator's
  invariant; so two live allocations never share a page.
\<close>

theorem pmm_alloc_sound:
  assumes "pmm_inv s" and "0 < count" and "bitmap s 0" and "pmm_alloc count s = (ret, s')" and "ret \<noteq> 0"
  shows "\<exists>page. ret = page * PAGE_SIZE \<and> page + count \<le> highest_page s div PAGE_SIZE
    \<and> run_free (bitmap s) page count \<and> bitmap s' = mark (bitmap s) page count True \<and> pmm_inv s'"
  by (rule pmm_alloc_cases [OF assms(2,1,4)]) (use assms(3,5) in auto)

theorem pmm_alloc_sound_witness:
  "\<exists>page. 3 * 4096 = page * PAGE_SIZE \<and> page + 2 \<le> 8 \<and> run_free (\<lambda>i. i < 3) page 2"
proof -
  let ?s = "\<lparr>bitmap = (\<lambda>i. i < 3), last_used_index = 0, highest_page = 8 * 4096\<rparr>"
  have "fst (pmm_alloc 2 ?s) = 3 * 4096"
    by (simp add: pmm_alloc_def inner_alloc_def inner_alloc_loop.simps)
  then have "pmm_alloc 2 ?s = (3 * 4096, snd (pmm_alloc 2 ?s))" by (metis prod.collapse)
  from pmm_alloc_sound [OF _ _ _ this] show ?thesis by (auto simp: pmm_inv_def)
qed

text \<open>
  When page 0 is reserved, \<open>pmm_alloc\<close> fails only if neither the pages above the search index
  nor those below it contain a run of the requested length, and then no bit changes.
\<close>

lemma pmm_alloc_null_means_full:
  assumes "pmm_inv s" and "0 < count" and "bitmap s 0" and "pmm_alloc count s = (0, s')"
  shows "bitmap s' = bitmap s
    \<and> (\<forall>page. page + count \<le> last_used_index s \<longrightarrow> \<not> run_free (bitmap s) page count)
    \<and> (\<forall>page\<ge>last_used_index s. page + count \<le> highest_page s div PAGE_SIZE
         \<longrightarrow> \<not> run_free (bitmap s) page count)"
proof (rule pmm_alloc_cases [OF assms(2,1,4)])
  fix page
  assume "run_free (bitmap s) page count" and "0 = page * PAGE_SIZE"
  with assms(2,3) show ?thesis by (auto simp: run_free_def)
qed (use assms(3) in auto)

lemma pmm_alloc_null_means_full_witness:
  "\<not> run_free (\<lambda>i. i \<noteq> 2) 2 2"
proof -
  let ?s = "\<lparr>bitmap = (\<lambda>i. i \<noteq> 2), last_used_index = 0, highest_page = 4 * 4096\<rparr>"
  have "fst (pmm_alloc 2 ?s) = 0"
    by (simp add: pmm_alloc_def inner_alloc_def inner_alloc_loop.simps)
  then obtain s' where "pmm_alloc 2 ?s = (0, s')" by (metis prod.collapse)
  from pmm_alloc_null_means_full [OF _ _ _ this] show ?thesis by (simp add: pmm_inv_def)
qed

text \<open>
  Freeing what \<open>pmm_alloc\<close> returned, with the same page count, restores the bitmap exactly.
\<close>

lemma pmm_alloc_free_roundtrip:
  assumes "pmm_inv s" and "0 < count" and "bitmap s 0" and "pmm_alloc count s = (ret, s')" and "ret \<noteq> 0"
  shows "bitmap (pmm_free ret count s') = bitmap s"
  by (rule pmm_alloc_cases [OF assms(2,1,4)])
    (use assms(3,5) in \<open>auto simp: pmm_free_eq mark_restore\<close>)

lemma pmm_alloc_free_roundtrip_witness:
  "bitmap (pmm_free (3 * 4096) 2
     (snd (pmm_alloc 2 \<lparr>bitmap = (\<lambda>i. i < 3), last_used_index = 0, highest_page = 8 * 4096\<rparr>)))
   = (\<lambda>i. i < 3)"
proof -
  let ?s = "\<lparr>bitmap = (\<lambda>i. i < 3), last_used_index = 0, highest_page = 8 * 4096\<rparr>"
  have "fst (pmm_alloc 2 ?s) = 3 * 4096"
    by (simp add: pmm_alloc_def inner_alloc_def inner_alloc_loop.simps)
  then have "pmm_alloc 2 ?s = (3 * 4096, snd (pmm_alloc 2 ?s))" by (metis prod.collapse)
  from pmm_alloc_free_roundtrip [OF _ _ _ this] show ?thesis by (simp add: pmm_inv_def)
qed

subsection \<open>Properties of initialisation\<close>

text \<open>The pages whose bits the third loop clears for one usable entry.\<close>

definition covers :: "mmap_entry \<Rightarrow> nat \<Rightarrow> bool" where
  "covers e i \<longleftrightarrow> me_type e = STIVALE_MMAP_USABLE \<and> me_base e div PAGE_SIZE \<le> i
     \<and> i < me_base e div PAGE_SIZE + pages_of (me_length e)"

definition below_4g :: "mmap_entry \<Rightarrow> bool" where
  "below_4g e \<longleftrightarrow> me_base e + me_length e \<le> 2 ^ 32 - PAGE_SIZE"

lemma iterate_cong: "(\<And>i. i < n \<Longrightarrow> f i = g i) \<Longrightarrow> iterate n f s = iterate n g s"
  by (induction n) simp_all

lemma free_usable_entry:
  assumes "below_4g e"
  shows "iterate (pages_of (me_length e))
      (\<lambda>i. bitmap_unset ((me_base e + i * PAGE_SIZE) div PAGE_SIZE mod 2 ^ 32)) s =
    s\<lparr>bitmap := mark (bitmap s) (me_base e div PAGE_SIZE) (pages_of (me_length e)) False\<rparr>"
proof -
  have "(me_base e + i * PAGE_SIZE) div PAGE_SIZE mod 2 ^ 32 = me_base e div PAGE_SIZE + i"
    if "i < pages_of (me_length e)" for i
    using assms that by (simp add: below_4g_def pages_of_def)
  then have "iterate (pages_of (me_length e))
      (\<lambda>i. bitmap_unset ((me_base e + i * PAGE_SIZE) div PAGE_SIZE mod 2 ^ 32)) s =
    iterate (pages_of (me_length e)) (\<lambda>i. bitmap_unset (me_base e div PAGE_SIZE + i)) s"
    by (intro iterate_cong) simp
  then show ?thesis by (simp add: iterate_bitmap_unset)
qed

lemma free_usable_eq:
  assumes "\<forall>e \<in> set es. below_4g e"
  shows "free_usable es s = Some (s\<lparr>bitmap := (\<lambda>i. bitmap s i \<and> (\<forall>e \<in> set es. \<not> covers e i))\<rparr>)"
  using assms
proof (induction es arbitrary: s)
  case Nil
  then show ?case by simp
next
  case (Cons e es)
  show ?case
  proof (cases "me_type e = STIVALE_MMAP_USABLE")
    case False
    with Cons show ?thesis by (simp add: covers_def [of e])
  next
    case True
    let ?s = "s\<lparr>bitmap := mark (bitmap s) (me_base e div PAGE_SIZE) (pages_of (me_length e)) False\<rparr>"
    from Cons.prems have "free_usable (e # es) s = free_usable es ?s"
      using True free_usable_entry [of e s] by (simp add: below_4g_def)
    also have "\<dots> = Some (?s\<lparr>bitmap := (\<lambda>i. bitmap ?s i \<and> (\<forall>e \<in> set es. \<not> covers e i))\<rparr>)"
      using Cons by simp
    also have "(\<lambda>i. bitmap ?s i \<and> (\<forall>e \<in> set es. \<not> covers e i))
        = (\<lambda>i. bitmap s i \<and> (\<forall>e \<in> set (e # es). \<not> covers e i))"
      using True by (auto simp: covers_def [of e] mark_def)
    finally show ?thesis by simp
  qed
qed

lemma div_pred_eq: "m mod n \<noteq> 0 \<Longrightarrow> (m - 1) div n = m div n" for m n :: nat
  by (cases m) (simp_all add: div_Suc)

lemma place_bitmap_below_4g:
  "\<forall>e \<in> set es. below_4g e \<Longrightarrow> place_bitmap n es = (b, es') \<Longrightarrow> \<forall>e \<in> set es'. below_4g e"
  by (induction es arbitrary: b es') (auto simp: below_4g_def split: if_splits prod.splits)

lemma place_bitmap_Some:
  "place_bitmap n es = (Some b, es') \<Longrightarrow>
     \<exists>e \<in> set es. me_type e = STIVALE_MMAP_USABLE \<and> n \<le> me_length e \<and> me_base e = b
       \<and> e\<lparr>me_base := b + n, me_length := me_length e - n\<rparr> \<in> set es'"
  by (induction es arbitrary: es') (auto split: if_splits prod.splits)



text \<open>
  The bitmap lives at the front of a usable entry, and \<open>init_pmm\<close> moves that entry's base up by
  the bitmap's size without rounding to a page.  Unless the size is a multiple of the page size,
  the page that holds the bitmap's last byte is therefore marked free and will be handed out.
\<close>

lemma init_pmm_frees_own_bitmap_page:
  assumes "\<forall>e \<in> set memmap. below_4g e"
    and "n = bitmap_size (highest_usable memmap 0)"
    and "place_bitmap n memmap = (Some b, memmap')"
    and "b mod PAGE_SIZE = 0" and "n mod PAGE_SIZE \<noteq> 0"
    and "\<forall>e \<in> set memmap. me_base e = b \<longrightarrow> n < me_length e"
    and "(b + n) div PAGE_SIZE < n * 8"
  shows "\<exists>s. init_pmm garbage memmap = Some (Some b, s)
    \<and> \<not> bitmap s ((b + n - 1) div PAGE_SIZE)"
proof -
  have n: "0 < n" using assms(5) by (metis gr0I mod_0)
  from place_bitmap_Some [OF assms(3)] obtain e where e: "e \<in> set memmap"
      "me_type e = STIVALE_MMAP_USABLE" "me_base e = b"
      "e\<lparr>me_base := b + n, me_length := me_length e - n\<rparr> \<in> set memmap'" by blast
  with assms(6) have "n < me_length e" by blast
  then have "covers (e\<lparr>me_base := b + n, me_length := me_length e - n\<rparr>) ((b + n) div PAGE_SIZE)"
    using e(2) by (simp add: covers_def pages_of_def)
  moreover have "(b + n - 1) div PAGE_SIZE = (b + n) div PAGE_SIZE"
    by (rule div_pred_eq) (use assms(4,5) in \<open>simp add: mod_add_eq [symmetric]\<close>)
  moreover note free_usable_eq [OF place_bitmap_below_4g [OF assms(1,3)]]
  ultimately show ?thesis
    using assms(2,3,7) e(4) by (auto simp: init_pmm_def Let_def)
qed

lemma init_pmm_frees_own_bitmap_page_witness:
  "\<exists>s. init_pmm (\<lambda>_. False) [\<lparr>me_base = 0x10000, me_length = 0x60000, me_type = 1\<rparr>] = Some (Some 0x10000, s)
     \<and> \<not> bitmap s 16"
  using init_pmm_frees_own_bitmap_page
    [of "[\<lparr>me_base = 0x10000, me_length = 0x60000, me_type = 1\<rparr>]" 14 "0x10000"
      "[\<lparr>me_base = 0x10000 + 14, me_length = 0x60000 - 14, me_type = 1\<rparr>]" "\<lambda>_. False"]
  by (simp add: below_4g_def bitmap_size_def DIV_ROUNDUP_def)

end
