(* ===== verification/Kheap.thy ===== *)
theory Kheap
  imports Pmm
begin

text \<open>
  The kernel heap, \<open>kalloc\<close>, \<open>krealloc\<close> and \<open>kfree\<close> of \<open>kernel/src/klib.c\<close>.  A block
  is a run of whole pages preceded by one page whose first eight bytes are the
  \<open>struct alloc_metadata\<close>: the page count and the size asked for, two 32-bit words.

  \<open>kblock h ptr n\<close> says that \<open>ptr\<close> is a live block of size \<open>n\<close>; \<open>heap_inv\<close> is the heap's
  invariant.
\<close>

record kheap =
  heap_pmm :: pmm
  heap_mem :: memory

text \<open>The address of a block's metadata page, in 32-bit pointer arithmetic.\<close>

definition metadata_of :: "nat \<Rightarrow> nat" where
  "metadata_of ptr = (ptr + (2 ^ 32 - PAGE_SIZE)) mod 2 ^ 32"

definition kalloc :: "nat \<Rightarrow> kheap \<Rightarrow> nat \<times> kheap" where
  "kalloc n h =
     (let page_count = DIV_ROUNDUP n PAGE_SIZE;
          (ptr, s, m) = pmm_allocz (page_count + 1) (heap_pmm h, heap_mem h)
      in if ptr = 0 then (0, \<lparr>heap_pmm = s, heap_mem = m\<rparr>)
         else (ptr + PAGE_SIZE,
               \<lparr>heap_pmm = s, heap_mem = wr_le 4 (wr_le 4 m ptr page_count) (ptr + 4) n\<rparr>))"

definition kfree :: "nat \<Rightarrow> kheap \<Rightarrow> kheap" where
  "kfree ptr h =
     h\<lparr>heap_pmm := pmm_free (metadata_of ptr) (rd_le 4 (heap_mem h) (metadata_of ptr) + 1) (heap_pmm h)\<rparr>"

definition krealloc :: "nat \<Rightarrow> nat \<Rightarrow> kheap \<Rightarrow> nat \<times> kheap" where
  "krealloc ptr new_size h =
     (if ptr = 0 then kalloc new_size h
      else
        let meta = metadata_of ptr; old_size = rd_le 4 (heap_mem h) (meta + 4)
        in if DIV_ROUNDUP old_size PAGE_SIZE = DIV_ROUNDUP new_size PAGE_SIZE
           then (ptr, h\<lparr>heap_mem := wr_le 4 (heap_mem h) (meta + 4) new_size\<rparr>)
           else
             let (new_ptr, h1) = kalloc new_size h
             in if new_ptr = 0 then (0, h1)
                else
                  let n = (if rd_le 4 (heap_mem h1) (meta + 4) > new_size then new_size
                           else rd_le 4 (heap_mem h1) (meta + 4))
                  in (new_ptr, kfree ptr (h1\<lparr>heap_mem := memcpy (heap_mem h1) new_ptr ptr n\<rparr>)))"

definition kblock_at :: "kheap \<Rightarrow> nat \<Rightarrow> nat \<Rightarrow> bool" where
  "kblock_at h page n \<longleftrightarrow>
     0 < page \<and> n \<le> 2 ^ 32 - PAGE_SIZE
     \<and> page + 1 + DIV_ROUNDUP n PAGE_SIZE \<le> highest_page (heap_pmm h) div PAGE_SIZE
     \<and> rd_le 4 (heap_mem h) (page * PAGE_SIZE) = DIV_ROUNDUP n PAGE_SIZE
     \<and> rd_le 4 (heap_mem h) (page * PAGE_SIZE + 4) = n
     \<and> (\<forall>i < DIV_ROUNDUP n PAGE_SIZE + 1. bitmap (heap_pmm h) (page + i))"

definition kblock :: "kheap \<Rightarrow> nat \<Rightarrow> nat \<Rightarrow> bool" where
  "kblock h ptr n \<longleftrightarrow> ptr mod PAGE_SIZE = 0 \<and> kblock_at h (ptr div PAGE_SIZE - 1) n \<and> PAGE_SIZE < ptr"

definition heap_inv :: "kheap \<Rightarrow> bool" where
  "heap_inv h \<longleftrightarrow> pmm_inv (heap_pmm h) \<and> bitmap (heap_pmm h) 0 \<and> highest_page (heap_pmm h) < 2 ^ 32"

subsection \<open>Pages and addresses\<close>

lemma kblock_page:
  assumes "kblock h ptr n"
  obtains page where "ptr = (page + 1) * PAGE_SIZE" "kblock_at h page n"
proof -
  from assms have "ptr = ptr div PAGE_SIZE * PAGE_SIZE" and "0 < ptr div PAGE_SIZE"
    by (auto simp: kblock_def)
  then have "ptr = (ptr div PAGE_SIZE - 1 + 1) * PAGE_SIZE" by simp
  with assms show thesis by (intro that) (auto simp: kblock_def)
qed

lemma kblockI: "kblock_at h page n \<Longrightarrow> kblock h ((page + 1) * PAGE_SIZE) n"
  by (simp add: kblock_def kblock_at_def)

lemma metadata_of_block:
  "page + 1 < 2 ^ 20 \<Longrightarrow> metadata_of ((page + 1) * PAGE_SIZE) = page * PAGE_SIZE"
  by (simp add: metadata_of_def)

lemma intervals_disjoint:
  assumes "run_free b p c" and "\<forall>i<d. b (q + i)" and "0 < c" and "0 < d"
  shows "p + c \<le> q \<or> q + d \<le> p"
proof (rule ccontr)
  assume "\<not> ?thesis"
  then have lt: "max p q < p + c" "max p q < q + d" using assms(3,4) by auto
  from lt(1) have "\<not> b (p + (max p q - p))"
    using assms(1) unfolding run_free_def by (metis less_diff_conv2 max.cobounded1 add.commute)
  moreover from lt(2) have "b (q + (max p q - q))"
    using assms(2) by (metis less_diff_conv2 max.cobounded2 add.commute)
  ultimately show False by simp
qed

text \<open>What \<open>kalloc\<close> does when it succeeds, in terms of pages.\<close>

lemma kalloc_fresh:
  assumes "heap_inv h" and "n \<le> 2 ^ 32 - PAGE_SIZE" and "kalloc n h = (p, h')" and "p \<noteq> 0"
  obtains page where "p = (page + 1) * PAGE_SIZE" "heap_inv h'"
    "run_free (bitmap (heap_pmm h)) page (DIV_ROUNDUP n PAGE_SIZE + 1)"
    "page + (DIV_ROUNDUP n PAGE_SIZE + 1) \<le> highest_page (heap_pmm h) div PAGE_SIZE"
    "bitmap (heap_pmm h') = mark (bitmap (heap_pmm h)) page (DIV_ROUNDUP n PAGE_SIZE + 1) True"
    "highest_page (heap_pmm h') = highest_page (heap_pmm h)"
    "heap_mem h' = wr_le 4 (wr_le 4 (memset (heap_mem h) (page * PAGE_SIZE) 0
        ((DIV_ROUNDUP n PAGE_SIZE + 1) * PAGE_SIZE)) (page * PAGE_SIZE) (DIV_ROUNDUP n PAGE_SIZE))
        (page * PAGE_SIZE + 4) n"
proof -
  let ?c = "DIV_ROUNDUP n PAGE_SIZE + 1"
  obtain r s' where a: "pmm_alloc ?c (heap_pmm h) = (r, s')" by (cases "pmm_alloc ?c (heap_pmm h)")
  with assms(3,4) have r: "r \<noteq> 0" by (auto simp: kalloc_def pmm_allocz_def Let_def split: if_splits)
  have inv: "pmm_inv (heap_pmm h)" "bitmap (heap_pmm h) 0" using assms(1) by (simp_all add: heap_inv_def)
  show thesis
  proof (rule pmm_alloc_cases [OF _ inv(1) a])
    fix page
    assume *: "page + ?c \<le> highest_page (heap_pmm h) div PAGE_SIZE"
      "run_free (bitmap (heap_pmm h)) page ?c" "r = page * PAGE_SIZE"
      "bitmap s' = mark (bitmap (heap_pmm h)) page ?c True"
      "highest_page s' = highest_page (heap_pmm h)" "pmm_inv s'"
    from a r assms(3) * have "h' = \<lparr>heap_pmm = s', heap_mem = wr_le 4 (wr_le 4 (memset (heap_mem h)
        (page * PAGE_SIZE) 0 (?c * PAGE_SIZE)) (page * PAGE_SIZE) (DIV_ROUNDUP n PAGE_SIZE))
        (page * PAGE_SIZE + 4) n\<rparr>" "p = (page + 1) * PAGE_SIZE"
      by (auto simp: kalloc_def pmm_allocz_def Let_def)
    with * assms(1) inv(2) show thesis
      by (intro that [of page]) (simp_all add: heap_inv_def mark_def)
  qed (use r inv in auto)
qed

lemma kalloc_block:
  assumes "heap_inv h" and "n \<le> 2 ^ 32 - PAGE_SIZE" and "kalloc n h = (p, h')" and "p \<noteq> 0"
  shows "kblock h' p n" and "\<forall>i<n. heap_mem h' (p + i) = 0" and "heap_inv h'"
proof -
  obtain page where f: "p = (page + 1) * PAGE_SIZE" "heap_inv h'"
    "run_free (bitmap (heap_pmm h)) page (DIV_ROUNDUP n PAGE_SIZE + 1)"
    "page + (DIV_ROUNDUP n PAGE_SIZE + 1) \<le> highest_page (heap_pmm h) div PAGE_SIZE"
    "bitmap (heap_pmm h') = mark (bitmap (heap_pmm h)) page (DIV_ROUNDUP n PAGE_SIZE + 1) True"
    "highest_page (heap_pmm h') = highest_page (heap_pmm h)"
    "heap_mem h' = wr_le 4 (wr_le 4 (memset (heap_mem h) (page * PAGE_SIZE) 0
        ((DIV_ROUNDUP n PAGE_SIZE + 1) * PAGE_SIZE)) (page * PAGE_SIZE) (DIV_ROUNDUP n PAGE_SIZE))
        (page * PAGE_SIZE + 4) n"
    by (rule kalloc_fresh [OF assms])
  have "0 < page"
    using f(3) assms(1) by (cases page) (auto simp: run_free_def heap_inv_def)
  moreover have "DIV_ROUNDUP n PAGE_SIZE < 2 ^ 32" by (simp add: DIV_ROUNDUP_def less_mult_imp_div_less)
  ultimately show "kblock h' p n"
    using f(4-7) assms(2) unfolding f(1)
    by (intro kblockI) (simp add: kblock_at_def mark_def rd_wr_le rd_wr_le_disjoint)
  have "n \<le> DIV_ROUNDUP n PAGE_SIZE * PAGE_SIZE" using assms(2) by (rule DIV_ROUNDUP_covers)
  then show "\<forall>i<n. heap_mem h' (p + i) = 0"
    by (auto simp: f(1,7) memset_eq)
  show "heap_inv h'" by (rule f(2))
qed

text \<open>A block that was live before \<open>kalloc\<close> is untouched and lies apart from the new one.\<close>

lemma kalloc_frame:
  assumes "heap_inv h" and "n \<le> 2 ^ 32 - PAGE_SIZE" and "kalloc n h = (p, h')" and "p \<noteq> 0"
    and "kblock h q k"
  shows "kblock h' q k" and "\<forall>i<k. heap_mem h' (q + i) = heap_mem h (q + i)"
    and "p + DIV_ROUNDUP n PAGE_SIZE * PAGE_SIZE + PAGE_SIZE \<le> q
       \<or> q + DIV_ROUNDUP k PAGE_SIZE * PAGE_SIZE + PAGE_SIZE \<le> p"
    and "\<forall>a. q - PAGE_SIZE \<le> a \<and> a < q \<longrightarrow> heap_mem h' a = heap_mem h a"
proof -
  let ?c = "DIV_ROUNDUP n PAGE_SIZE + 1" and ?d = "DIV_ROUNDUP k PAGE_SIZE + 1"
  obtain page where f: "p = (page + 1) * PAGE_SIZE"
    "run_free (bitmap (heap_pmm h)) page ?c"
    "bitmap (heap_pmm h') = mark (bitmap (heap_pmm h)) page ?c True"
    "highest_page (heap_pmm h') = highest_page (heap_pmm h)"
    "heap_mem h' = wr_le 4 (wr_le 4 (memset (heap_mem h) (page * PAGE_SIZE) 0 (?c * PAGE_SIZE))
        (page * PAGE_SIZE) (DIV_ROUNDUP n PAGE_SIZE)) (page * PAGE_SIZE + 4) n"
    by (rule kalloc_fresh [OF assms(1-4)])
  obtain pq where q: "q = (pq + 1) * PAGE_SIZE" "kblock_at h pq k" by (rule kblock_page [OF assms(5)])
  have apart: "page + ?c \<le> pq \<or> pq + ?d \<le> page"
    using f(2) q(2) by (intro intervals_disjoint [where b = "bitmap (heap_pmm h)"]) (auto simp: kblock_at_def)
  have same: "heap_mem h' a = heap_mem h a"
    if "pq * PAGE_SIZE \<le> a" "a < (pq + ?d) * PAGE_SIZE" for a
  proof -
    have "a < page * PAGE_SIZE \<or> (page + ?c) * PAGE_SIZE \<le> a"
      using apart that by auto
    then show ?thesis by (auto simp: f(5) memset_eq)
  qed
  have k: "k \<le> DIV_ROUNDUP k PAGE_SIZE * PAGE_SIZE"
    using q(2) by (intro DIV_ROUNDUP_covers) (simp add: kblock_at_def)
  have "rd_le 4 (heap_mem h') (pq * PAGE_SIZE + j) = rd_le 4 (heap_mem h) (pq * PAGE_SIZE + j)" if "j \<le> 4" for j
    using that by (intro rd_le_cong same) auto
  from this [of 0] this [of 4] show "kblock h' q k"
    using q(2) f(3,4) unfolding q(1) by (intro kblockI) (auto simp: kblock_at_def mark_def)
  show "\<forall>i<k. heap_mem h' (q + i) = heap_mem h (q + i)"
    using k by (auto simp: q(1) intro!: same)
  show "\<forall>a. q - PAGE_SIZE \<le> a \<and> a < q \<longrightarrow> heap_mem h' a = heap_mem h a"
    by (auto simp: q(1) intro!: same)
  show "p + DIV_ROUNDUP n PAGE_SIZE * PAGE_SIZE + PAGE_SIZE \<le> q
       \<or> q + DIV_ROUNDUP k PAGE_SIZE * PAGE_SIZE + PAGE_SIZE \<le> p"
    using apart by (auto simp: f(1) q(1))
qed

lemma kfree_block:
  assumes "kblock_at h page n" and "highest_page (heap_pmm h) < 2 ^ 32"
  shows "kfree ((page + 1) * PAGE_SIZE) h = h\<lparr>heap_pmm := (heap_pmm h)\<lparr>bitmap :=
    mark (bitmap (heap_pmm h)) page (DIV_ROUNDUP n PAGE_SIZE + 1) False\<rparr>\<rparr>"
proof -
  have "page + 1 < 2 ^ 20" using assms by (auto simp: kblock_at_def)
  then have "metadata_of ((page + 1) * PAGE_SIZE) = page * PAGE_SIZE" by (rule metadata_of_block)
  with assms(1) show ?thesis unfolding kfree_def pmm_free_eq by (simp add: kblock_at_def pmm_free_eq)
qed

text \<open>Blocks that lie apart, each with the page of its metadata.\<close>

abbreviation blocks_apart :: "nat \<Rightarrow> nat \<Rightarrow> nat \<Rightarrow> nat \<Rightarrow> bool" where
  "blocks_apart p n q k \<equiv> p + DIV_ROUNDUP n PAGE_SIZE * PAGE_SIZE + PAGE_SIZE \<le> q
     \<or> q + DIV_ROUNDUP k PAGE_SIZE * PAGE_SIZE + PAGE_SIZE \<le> p"

lemma kblock_covers: "kblock h q k \<Longrightarrow> k \<le> DIV_ROUNDUP k PAGE_SIZE * PAGE_SIZE"
  by (intro DIV_ROUNDUP_covers) (simp add: kblock_def kblock_at_def)

lemma kblock_mem:
  assumes "kblock h q k" and "\<And>a. q - PAGE_SIZE \<le> a \<Longrightarrow> a < q \<Longrightarrow> m a = heap_mem h a"
  shows "kblock (h\<lparr>heap_mem := m\<rparr>) q k"
proof -
  obtain pq where q: "q = (pq + 1) * PAGE_SIZE" "kblock_at h pq k" by (rule kblock_page [OF assms(1)])
  have "rd_le 4 m (pq * PAGE_SIZE + j) = rd_le 4 (heap_mem h) (pq * PAGE_SIZE + j)" if "j \<le> 4" for j
    using that q(1) by (intro rd_le_cong assms(2)) auto
  from this [of 0] this [of 4] have "kblock_at (h\<lparr>heap_mem := m\<rparr>) pq k" using q(2) by (simp add: kblock_at_def)
  then show ?thesis unfolding q(1) by (rule kblockI)
qed

lemma kfree_frame:
  assumes "heap_inv h" and "kblock h p n" and "kblock h q k" and "blocks_apart p n q k"
  shows "heap_inv (kfree p h)" and "kblock (kfree p h) q k" and "heap_mem (kfree p h) = heap_mem h"
proof -
  obtain pp where p: "p = (pp + 1) * PAGE_SIZE" "kblock_at h pp n" by (rule kblock_page [OF assms(2)])
  obtain pq where q: "q = (pq + 1) * PAGE_SIZE" "kblock_at h pq k" by (rule kblock_page [OF assms(3)])
  have kf: "kfree p h = h\<lparr>heap_pmm := (heap_pmm h)\<lparr>bitmap := mark (bitmap (heap_pmm h)) pp (DIV_ROUNDUP n PAGE_SIZE + 1) False\<rparr>\<rparr>"
    unfolding p(1) using kfree_block [OF p(2)] assms(1) by (simp add: heap_inv_def)
  have "pp + (DIV_ROUNDUP n PAGE_SIZE + 1) \<le> pq \<or> pq + (DIV_ROUNDUP k PAGE_SIZE + 1) \<le> pp"
    using assms(4) by (auto simp: p(1) q(1))
  then have "kblock_at (kfree p h) pq k" using q(2) unfolding kf by (auto simp: kblock_at_def mark_def)
  then show "kblock (kfree p h) q k" unfolding q(1) by (rule kblockI)
  show "heap_inv (kfree p h)" using assms(1) p(2) unfolding kf by (auto simp: heap_inv_def pmm_inv_def kblock_at_def mark_def)
  show "heap_mem (kfree p h) = heap_mem h" by (simp add: kfree_def)
qed

subsection \<open>Properties\<close>

text \<open>
  A successful \<open>kalloc\<close> returns a live block of the requested size whose bytes are zero,
  disjoint from every block that was live, and leaves those blocks' contents and bookkeeping alone.
\<close>

lemma kalloc_returns_fresh_zeroed_block:
  assumes "heap_inv h" and "n \<le> 2 ^ 32 - PAGE_SIZE" and "kalloc n h = (p, h')" and "p \<noteq> 0"
  shows "heap_inv h' \<and> kblock h' p n \<and> (\<forall>i<n. heap_mem h' (p + i) = 0)
    \<and> (\<forall>q k. kblock h q k \<longrightarrow> kblock h' q k \<and> (\<forall>i<k. heap_mem h' (q + i) = heap_mem h (q + i))
         \<and> (p + n \<le> q \<or> q + k \<le> p))"
proof -
  have "kblock h' q k \<and> (\<forall>i<k. heap_mem h' (q + i) = heap_mem h (q + i)) \<and> (p + n \<le> q \<or> q + k \<le> p)"
    if "kblock h q k" for q k
  proof -
    have "n \<le> DIV_ROUNDUP n PAGE_SIZE * PAGE_SIZE" using assms(2) by (rule DIV_ROUNDUP_covers)
    moreover have "k \<le> DIV_ROUNDUP k PAGE_SIZE * PAGE_SIZE"
      using that by (intro DIV_ROUNDUP_covers) (simp add: kblock_def kblock_at_def)
    ultimately show ?thesis using kalloc_frame [OF assms that] by auto
  qed
  with kalloc_block [OF assms] show ?thesis by blast
qed

lemma kalloc_returns_fresh_zeroed_block_witness:
  "\<exists>h'. kblock h' 0x3000 100 \<and> (\<forall>i<100. heap_mem h' (0x3000 + i) = 0)"
proof -
  let ?h = "\<lparr>heap_pmm = \<lparr>bitmap = (\<lambda>i. i < 2), last_used_index = 0, highest_page = 8 * 4096\<rparr>,
    heap_mem = (\<lambda>_. 7)\<rparr>"
  have "fst (kalloc 100 ?h) = 0x3000"
    by (simp add: kalloc_def pmm_allocz_def pmm_alloc_def inner_alloc_def inner_alloc_loop.simps
        DIV_ROUNDUP_def)
  then have "kalloc 100 ?h = (0x3000, snd (kalloc 100 ?h))" by (metis prod.collapse)
  from kalloc_returns_fresh_zeroed_block [OF _ _ this] show ?thesis
    by (auto simp: heap_inv_def pmm_inv_def)
qed

lemma krealloc_in_place:
  assumes "kblock h p n" and "highest_page (heap_pmm h) < 2 ^ 32" and "m \<le> 2 ^ 32 - PAGE_SIZE"
    and "DIV_ROUNDUP n PAGE_SIZE = DIV_ROUNDUP m PAGE_SIZE"
  shows "krealloc p m h = (p, h\<lparr>heap_mem := wr_le 4 (heap_mem h) (metadata_of p + 4) m\<rparr>)"
    and "kblock (h\<lparr>heap_mem := wr_le 4 (heap_mem h) (metadata_of p + 4) m\<rparr>) p m"
    and "wr_le 4 (heap_mem h) (metadata_of p + 4) m (p + i) = heap_mem h (p + i)"
proof -
  obtain page where p: "p = (page + 1) * PAGE_SIZE" "kblock_at h page n" by (rule kblock_page [OF assms(1)])
  have "page + 1 < 2 ^ 20" using p(2) assms(2) by (auto simp: kblock_at_def)
  then have meta: "metadata_of p = page * PAGE_SIZE" unfolding p(1) by (rule metadata_of_block)
  show "krealloc p m h = (p, h\<lparr>heap_mem := wr_le 4 (heap_mem h) (metadata_of p + 4) m\<rparr>)"
    using p assms(4) unfolding krealloc_def meta by (simp add: kblock_at_def Let_def)
  show "kblock (h\<lparr>heap_mem := wr_le 4 (heap_mem h) (metadata_of p + 4) m\<rparr>) p m"
  proof -
    have "kblock_at (h\<lparr>heap_mem := wr_le 4 (heap_mem h) (page * PAGE_SIZE + 4) m\<rparr>) page m"
      using p(2) assms(3,4) by (simp add: kblock_at_def rd_wr_le rd_wr_le_disjoint)
    then show ?thesis unfolding meta by (subst p(1)) (rule kblockI)
  qed
  show "wr_le 4 (heap_mem h) (metadata_of p + 4) m (p + i) = heap_mem h (p + i)"
    unfolding meta by (simp add: p(1))
qed

lemma kalloc_null_mem: "kalloc n h = (0, h') \<Longrightarrow> heap_mem h' = heap_mem h"
  by (auto simp: kalloc_def pmm_allocz_def Let_def split: if_splits prod.splits)

text \<open>Moving or resizing a block leaves every other one alone.\<close>

lemma krealloc_frame:
  assumes "heap_inv h" and "kblock h p n" and "m \<le> 2 ^ 32 - PAGE_SIZE" and "krealloc p m h = (r, h')"
    and "kblock h b k" and "blocks_apart p n b k"
  shows "\<forall>i<k. heap_mem h' (b + i) = heap_mem h (b + i)"
proof (cases "DIV_ROUNDUP n PAGE_SIZE = DIV_ROUNDUP m PAGE_SIZE")
  case True
  obtain pp where p: "p = (pp + 1) * PAGE_SIZE" "kblock_at h pp n" by (rule kblock_page [OF assms(2)])
  have hi: "highest_page (heap_pmm h) < 2 ^ 32" using assms(1) by (simp add: heap_inv_def)
  then have "pp + 1 < 2 ^ 20" using p(2) by (auto simp: kblock_at_def)
  then have meta: "metadata_of p = pp * PAGE_SIZE" unfolding p(1) by (rule metadata_of_block)
  have "h' = h\<lparr>heap_mem := wr_le 4 (heap_mem h) (metadata_of p + 4) m\<rparr>"
    using krealloc_in_place(1) [OF assms(2) hi assms(3) True] assms(4) by simp
  then show ?thesis using kblock_covers [OF assms(5)] assms(6) unfolding meta by (auto simp: p(1))
next
  case False
  obtain q h1 where k: "kalloc m h = (q, h1)" by (cases "kalloc m h")
  obtain pp where p: "p = (pp + 1) * PAGE_SIZE" "kblock_at h pp n" by (rule kblock_page [OF assms(2)])
  have "pp + 1 < 2 ^ 20" using p(2) assms(1) by (auto simp: kblock_at_def heap_inv_def)
  then have meta: "metadata_of p = pp * PAGE_SIZE" unfolding p(1) by (rule metadata_of_block)
  with p(2) have old: "rd_le 4 (heap_mem h) (metadata_of p + 4) = n" "p \<noteq> 0" by (simp_all add: kblock_at_def p(1))
  show ?thesis
  proof (cases "q = 0")
    case True
    then show ?thesis using assms(4) k old False kalloc_null_mem by (auto simp: krealloc_def Let_def)
  next
    case q: False
    let ?c = "\<lambda>h1. if m < rd_le 4 (heap_mem h1) (metadata_of p + 4) then m else rd_le 4 (heap_mem h1) (metadata_of p + 4)"
    have h': "heap_mem h' = memcpy (heap_mem h1) q p (?c h1)"
      using assms(4) k old False q by (auto simp: krealloc_def Let_def kfree_def)
    note fb = kalloc_frame [OF assms(1,3) k q assms(5)] and fp = kalloc_frame [OF assms(1,3) k q assms(2)]
    have "rd_le 4 (heap_mem h1) (metadata_of p + 4) = n"
    proof -
      have "rd_le 4 (heap_mem h1) (metadata_of p + 4) = rd_le 4 (heap_mem h) (metadata_of p + 4)"
        unfolding meta by (rule rd_le_cong, rule fp(4) [rule_format]) (simp add: p(1))
      then show ?thesis using old by simp
    qed
    moreover have "m \<le> DIV_ROUNDUP m PAGE_SIZE * PAGE_SIZE" by (rule DIV_ROUNDUP_covers [OF assms(3)])
    ultimately have c: "?c h1 \<le> n" "?c h1 \<le> DIV_ROUNDUP m PAGE_SIZE * PAGE_SIZE" by auto
    have "heap_mem h' (b + i) = heap_mem h1 (b + i)" if "i < k" for i
      unfolding h' by (subst memcpy_disjoint) (use c fp(3) fb(3) kblock_covers [OF assms(2)] kblock_covers [OF assms(5)] that in auto)
    then show ?thesis using fb(2) by simp
  qed
qed




end
