(* ===== verification/Descriptors.thy ===== *)
theory Descriptors
  imports Kernel_Types
begin

text \<open>
  The x86 descriptor tables: \<open>kernel/src/drivers/gdt.c\<close> (the GDT, \<open>set_segment\<close>,
  \<open>load_ldt\<close>) and \<open>kernel/src/drivers/idt.c\<close> (the interrupt gates).  The instructions that
  load the tables into the CPU are not modelled; the addresses of the task state segment and of the
  interrupt handlers are parameters.

  \<open>segment_base\<close>, \<open>segment_limit\<close> and the \<open>dpl\<close> functions decode an entry the way the
  processor does (Intel SDM volume 3: base and limit are split over the fields, bits 5 and 6 of the
  access or attribute byte are the descriptor privilege level, bit 7 is \<open>present\<close>).
\<close>

text \<open>
  The field writes that \<open>set_segment\<close> and \<open>load_ldt\<close> share; they differ in what they put into the
  low 16 and the high 4 bits of the limit.
\<close>

definition write_fields :: "dt_entry \<Rightarrow> u32 \<Rightarrow> u32 \<Rightarrow> u32 \<Rightarrow> dt_entry" where
  "write_fields e base low_limit high_limit = e\<lparr>
     base_low := ucast (base AND 0x0000ffff),
     base_mid := ucast (drop_bit 16 (base AND 0x00ff0000)),
     base_high := ucast (drop_bit 24 (base AND 0xff000000)),
     limit_low := ucast (low_limit AND 0x0000ffff),
     granularity := ucast ((ucast (granularity e) AND 0xf0) OR drop_bit 16 (high_limit AND 0x000f0000))\<rparr>"

definition set_segment :: "dt_entry list \<Rightarrow> nat \<Rightarrow> u32 \<Rightarrow> u32 \<Rightarrow> dt_entry list option" where
  "set_segment dt entry base page_count =
     (case arr_get dt entry of None \<Rightarrow> None
      | Some e \<Rightarrow> arr_set dt entry (write_fields e base (page_count - 1) page_count))"

definition gdt_entry :: "u16 \<Rightarrow> u8 \<Rightarrow> u8 \<Rightarrow> dt_entry" where
  "gdt_entry limit acc gran =
     \<lparr>limit_low = limit, base_low = 0, base_mid = 0, dt_access = acc, granularity = gran, base_high = 0\<rparr>"

text \<open>The eleven descriptors that \<open>load_gdt\<close> writes.\<close>

definition load_gdt :: "u32 \<Rightarrow> u32 \<Rightarrow> dt_entry list" where
  "load_gdt TSS TSS_size =
    [gdt_entry 0 0 0,                        \<comment> \<open>null\<close>
     gdt_entry 0xffff 0b10011010 0b11001111, \<comment> \<open>ring 0 code\<close>
     gdt_entry 0xffff 0b10010010 0b11001111, \<comment> \<open>ring 0 data\<close>
     gdt_entry 0xffff 0b10111010 0b11001111, \<comment> \<open>kernel code\<close>
     gdt_entry 0xffff 0b10110010 0b11001111, \<comment> \<open>kernel data\<close>
     gdt_entry 0 0b11111010 0b11000000,      \<comment> \<open>user code\<close>
     gdt_entry 0 0b11110010 0b11000000,      \<comment> \<open>user data\<close>
     gdt_entry 0xffff 0b10011010 0b10001111, \<comment> \<open>16-bit code\<close>
     gdt_entry 0xffff 0b10010010 0b10001111, \<comment> \<open>16-bit data\<close>
     \<lparr>limit_low = ucast (TSS_size AND 0x0000ffff), base_low = ucast (TSS AND 0x0000ffff),
      base_mid = ucast ((TSS AND 0x00ff0000) div 0x10000), dt_access = 0b10101001,
      granularity = 0, base_high = ucast ((TSS AND 0xff000000) div 0x1000000)\<rparr>,
     gdt_entry 0 0b10100010 0]"

definition load_ldt :: "dt_entry list \<Rightarrow> u32 \<Rightarrow> u32 \<Rightarrow> dt_entry list option" where
  "load_ldt gdt base entries =
     (let limit = (if entries \<noteq> 0 then entries * 8 - 1 else 0) in
      case arr_get gdt 10 of None \<Rightarrow> None
      | Some e \<Rightarrow> arr_set gdt 10 (write_fields e base limit limit))"

record idt_entry =
  offset_low16 :: u16
  gate_cs :: u16
  gate_zero :: u8
  attributes :: u8
  offset_high16 :: u16

definition register_interrupt_handler ::
  "(nat \<Rightarrow> idt_entry) \<Rightarrow> nat \<Rightarrow> u16 \<Rightarrow> u32 \<Rightarrow> u8 \<Rightarrow> nat \<Rightarrow> idt_entry" where
  "register_interrupt_handler idt vec cs p type =
     idt(vec := \<lparr>offset_low16 = ucast p, gate_cs = cs, gate_zero = 0, attributes = type,
                 offset_high16 = ucast (drop_bit 16 p)\<rparr>)"

definition empty_idt :: "nat \<Rightarrow> idt_entry" where
  "empty_idt = (\<lambda>_. \<lparr>offset_low16 = 0, gate_cs = 0, gate_zero = 0, attributes = 0, offset_high16 = 0\<rparr>)"

text \<open>
  \<open>exception_thunks\<close> and the four handlers are addresses of assembly routines; \<open>syscall\<close> and
  \<open>escalate_priv_isr\<close> are the two gates reached by a software interrupt.
\<close>

definition load_idt :: "(nat \<Rightarrow> u32) \<Rightarrow> u32 \<Rightarrow> u32 \<Rightarrow> u32 \<Rightarrow> u32 \<Rightarrow> nat \<Rightarrow> idt_entry" where
  "load_idt exception_thunks irq0_handler keyboard_isr syscall escalate_priv_isr =
     (let i0 = iterate 32 (\<lambda>i t. register_interrupt_handler t i 0x08 (exception_thunks i) 0x8e) empty_idt;
          i1 = register_interrupt_handler i0 0x20 0x08 irq0_handler 0x8e;
          i2 = register_interrupt_handler i1 0x21 0x08 keyboard_isr 0x8e;
          i3 = register_interrupt_handler i2 0x80 0x19 syscall 0xee
      in register_interrupt_handler i3 0x90 0x08 escalate_priv_isr 0xae)"

definition segment_base :: "dt_entry \<Rightarrow> u32" where
  "segment_base e =
     ucast (base_low e) OR push_bit 16 (ucast (base_mid e)) OR push_bit 24 (ucast (base_high e))"

definition segment_limit :: "dt_entry \<Rightarrow> u32" where
  "segment_limit e = ucast (limit_low e) OR push_bit 16 (ucast (granularity e) AND 0x0f)"

definition dpl :: "u8 \<Rightarrow> u8" where
  "dpl b = drop_bit 5 b AND 3"

definition present :: "u8 \<Rightarrow> bool" where
  "present b \<longleftrightarrow> bit b 7"

subsection \<open>Bit fields\<close>

lemma field_masks [word_norm]:
  "(0xffff :: u32) = mask 16" "(0x00ff0000 :: u32) = push_bit 16 (mask 8)"
  "(0xff000000 :: u32) = push_bit 24 (mask 8)" "(0x000f0000 :: u32) = push_bit 16 (mask 4)"
  "(0xf0 :: u32) = push_bit 4 (mask 4)" "(0x0f :: u32) = mask 4"
  by (simp_all add: mask_eq_exp_minus_1 push_bit_eq_mult)

lemma base_fields_join:
  "ucast (ucast (base AND 0x0000ffff) :: u16) OR push_bit 16 (ucast (ucast (drop_bit 16 (base AND 0x00ff0000)) :: u8))
     OR push_bit 24 (ucast (ucast (drop_bit 24 (base AND 0xff000000)) :: u8)) = (base :: u32)"
proof (rule bit_word_eqI)
  fix n
  assume "n < LENGTH(32)"
  then consider "n < 16" | "16 \<le> n" "n < 24" | "24 \<le> n" "n < 32" by fastforce
  then show "bit (ucast (ucast (base AND 0x0000ffff) :: u16)
      OR push_bit 16 (ucast (ucast (drop_bit 16 (base AND 0x00ff0000)) :: u8))
      OR push_bit 24 (ucast (ucast (drop_bit 24 (base AND 0xff000000)) :: u8)) :: u32) n = bit base n"
    unfolding word_norm by cases (auto simp: bit_simps)
qed

lemma limit_fields_join:
  "ucast (ucast (a AND 0x0000ffff) :: u16)
     OR push_bit 16 (ucast (ucast ((ucast (g :: u8) AND 0xf0) OR drop_bit 16 (b AND 0x000f0000)) :: u8) AND 0x0f)
   = take_bit 16 a OR push_bit 16 (take_bit 4 (drop_bit 16 b))" for a b :: u32
  unfolding word_norm by (rule bit_word_eqI) (auto simp: bit_simps)

lemma unat_limit_join:
  "unat (take_bit 16 a OR push_bit 16 (take_bit 4 (drop_bit 16 b)) :: u32)
     = unat a mod 2 ^ 16 + 2 ^ 16 * (unat b div 2 ^ 16 mod 2 ^ 4)"
proof -
  let ?x = "take_bit 16 a" and ?y = "push_bit 16 (take_bit 4 (drop_bit 16 b))"
  have "?x OR ?y = ?x + ?y" by (rule disjunctive_add [symmetric]) (auto simp: bit_simps)
  moreover have x: "unat ?x = unat a mod 2 ^ 16" by (subst unsigned_take_bit_eq) (simp add: take_bit_eq_mod)
  moreover have y: "unat ?y = 2 ^ 16 * (unat b div 2 ^ 16 mod 2 ^ 4)"
    by (simp only: unsigned_push_bit_eq unsigned_take_bit_eq unsigned_drop_bit_eq)
      (use unsigned_less [where ?'a = nat and w = b] in \<open>simp add: take_bit_eq_mod push_bit_eq_mult drop_bit_eq_div\<close>)
  moreover have "unat ?x + unat ?y < 2 ^ 32" unfolding x y by simp
  ultimately show ?thesis by (simp add: unat_word_ariths)
qed

lemma write_fields_sel:
  "base_low (write_fields e base a b) = ucast (base AND 0x0000ffff)"
  "base_mid (write_fields e base a b) = ucast (drop_bit 16 (base AND 0x00ff0000))"
  "base_high (write_fields e base a b) = ucast (drop_bit 24 (base AND 0xff000000))"
  "limit_low (write_fields e base a b) = ucast (a AND 0x0000ffff)"
  "granularity (write_fields e base a b) =
     ucast ((ucast (granularity e) AND 0xf0) OR drop_bit 16 (b AND 0x000f0000))"
  "dt_access (write_fields e base a b) = dt_access e"
  by (simp_all add: write_fields_def)

lemma write_fields_decode:
  "segment_base (write_fields e base a b) = base"
  "dt_access (write_fields e base a b) = dt_access e"
  "unat (segment_limit (write_fields e base a b)) =
     unat a mod 2 ^ 16 + 2 ^ 16 * (unat b div 2 ^ 16 mod 2 ^ 4)"
  unfolding segment_base_def segment_limit_def write_fields_sel limit_fields_join
  by (rule base_fields_join refl unat_limit_join)+

lemma set_segment_Some:
  "entry < length dt \<Longrightarrow> set_segment dt entry base pages =
     Some (dt[entry := write_fields (dt ! entry) base (pages - 1) pages])"
  by (simp add: set_segment_def)

lemma split_limit:
  fixes n :: nat
  assumes "n < 2 ^ 20" and "n mod 2 ^ 16 \<noteq> 0"
  shows "(n - 1) mod 2 ^ 16 + 2 ^ 16 * (n div 2 ^ 16 mod 2 ^ 4) = n - 1"
proof -
  obtain m where n: "n = Suc m" using assms(2) by (cases n) auto
  have "n mod 65536 = Suc (m mod 65536)" using assms(2) unfolding n by (simp add: mod_Suc split: if_splits)
  moreover have "n div 65536 mod 16 = n div 65536" using assms(1) by simp
  moreover have "65536 * (n div 65536) + n mod 65536 = n" by simp
  ultimately show ?thesis using n by simp
qed

subsection \<open>Properties\<close>

text \<open>
  \<open>set_segment\<close> makes the descriptor decode to exactly the given base and to the page span of
  the task, and keeps its access byte, whenever the page count is below \<open>2 ^ 20\<close> and not a multiple
  of \<open>2 ^ 16\<close>.
\<close>

lemma set_segment_describes_task:
  assumes "entry < length dt" and "unat pages < 2 ^ 20" and "unat pages mod 2 ^ 16 \<noteq> 0"
  shows "\<exists>e'. set_segment dt entry base pages = Some (dt[entry := e']) \<and> segment_base e' = base
    \<and> unat (segment_limit e') = unat pages - 1 \<and> dt_access e' = dt_access (dt ! entry)"
proof -
  have "pages \<noteq> 0" using assms(3) by auto
  then have "unat (pages - 1) = unat pages - 1" by (rule unat_minus_one)
  then show ?thesis
    using set_segment_Some [OF assms(1)] write_fields_decode split_limit [OF assms(2,3)] by metis
qed

lemma set_segment_describes_task_witness:
  "\<exists>e'. set_segment (load_gdt 0 0) 5 0x400000 0x24 = Some ((load_gdt 0 0)[5 := e'])
     \<and> segment_base e' = 0x400000 \<and> unat (segment_limit e') = 0x23 \<and> dt_access e' = 0b11111010"
  using set_segment_describes_task [of 5 "load_gdt 0 0" "0x24" "0x400000"]
  by (simp add: load_gdt_def gdt_entry_def)

text \<open>
  The high nibble of the limit is taken from the page count instead of the page count minus one:
  for a nonzero multiple of \<open>2 ^ 16\<close> pages the descriptor's limit is \<open>2 ^ 16\<close> pages too large, so
  the user segment reaches \<open>2 ^ 28\<close> bytes past the task's memory.
\<close>

lemma set_segment_limit_overshoots:
  assumes "entry < length dt" and "unat pages < 2 ^ 20" and "unat pages mod 2 ^ 16 = 0" and "pages \<noteq> 0"
  shows "\<exists>e'. set_segment dt entry base pages = Some (dt[entry := e'])
    \<and> unat (segment_limit e') = unat pages - 1 + 2 ^ 16"
proof -
  obtain k where k: "unat pages = 2 ^ 16 * k" using assms(3) by (auto simp: mod_eq_0_iff_dvd)
  then have "0 < k" using assms(4) by (metis gr0I mult_0_right unat_eq_0)
  then have "(2 ^ 16 * k - 1) mod 2 ^ 16 + 2 ^ 16 * (2 ^ 16 * k div 2 ^ 16 mod 2 ^ 4) = 2 ^ 16 * k - 1 + (2 ^ 16 :: nat)"
    using assms(2) k by (cases k) auto
  then show ?thesis
    using set_segment_Some [OF assms(1)] write_fields_decode(3) unat_minus_one [OF assms(4)] k by metis
qed

lemma set_segment_limit_overshoots_witness:
  "\<exists>e'. set_segment (load_gdt 0 0) 5 0 0x10000 = Some ((load_gdt 0 0)[5 := e'])
     \<and> unat (segment_limit e') = 0x1ffff"
  using set_segment_limit_overshoots [of 5 "load_gdt 0 0" "0x10000" 0] by (simp add: load_gdt_def)

text \<open>
  Of the 256 gates \<open>load_idt\<close> leaves, exactly the system call gate can be entered from user mode
  (ring 3), and the kernel's ring 1 can enter besides it only the privilege escalation gate; the
  system call gate runs in the ring 1 kernel code segment.
\<close>

lemma load_idt_gate_privileges:
  "((present (attributes (load_idt th i k s e v)) \<and> dpl (attributes (load_idt th i k s e v)) = 3) \<longleftrightarrow> v = 0x80)
   \<and> ((present (attributes (load_idt th i k s e v)) \<and> 1 \<le> dpl (attributes (load_idt th i k s e v)))
        \<longleftrightarrow> v \<in> {0x80, 0x90})
   \<and> gate_cs (load_idt th i k s e 0x80) = 0x19"
proof -
  have exc: "attributes (iterate n (\<lambda>i t. register_interrupt_handler t i 0x08 (th i) 0x8e) empty_idt w)
      = (if w < n then 0x8e else 0)" for n w
    by (induction n) (auto simp: register_interrupt_handler_def empty_idt_def less_Suc_eq)
  have att: "attributes (load_idt th i k s e w) =
      (if w = 0x90 then 0xae else if w = 0x80 then 0xee
       else if w = 0x21 \<or> w = 0x20 \<or> w < 32 then 0x8e else 0)" for w
    unfolding load_idt_def Let_def by (simp add: register_interrupt_handler_def exc [unfolded register_interrupt_handler_def])
  have "dpl 0xae = 1" "dpl 0xee = 3" "dpl 0x8e = 0" "dpl 0 = 0" "present 0xae" "present 0xee"
    by (simp_all add: dpl_def present_def bit_iff_odd drop_bit_eq_div)
  moreover have "gate_cs (load_idt th i k s e 0x80) = 0x19"
    by (simp add: load_idt_def register_interrupt_handler_def)
  ultimately show ?thesis by (auto simp: att)
qed

end
