(* ===== verification/Tty.thy ===== *)
theory Tty
  imports Kernel_Types
begin

text \<open>
  The virtual terminals, \<open>kernel/src/drivers/tty.c\<close>, with the screen geometry of
  \<open>kernel/include/kernel.h\<close> (\<open>_BIG_FONTS_\<close>: 25 rows of 160 bytes, a character and a palette
  byte per cell).

  Each terminal has its own screen contents \<open>field\<close>; the terminal on display is mirrored in the
  video memory at \<open>0xB8000\<close>.  A write outside the 4000 bytes of \<open>field\<close> is a fault
  (\<open>None\<close>).  The two pointers \<open>esc_value\<close> and \<open>esc_default\<close> of the escape parser always
  select the same parameter, first or second: \<open>esc_second\<close>.  Signed 32-bit arithmetic wraps.

  The keyboard buffers of \<open>tty_t\<close> belong to this record and are used in theory \<open>Keyboard\<close>.
\<close>

abbreviation (input) VD_ROWS :: nat where "VD_ROWS \<equiv> 25"
abbreviation (input) VD_COLS :: nat where "VD_COLS \<equiv> 160"
abbreviation (input) VD_SIZE :: nat where "VD_SIZE \<equiv> 4000"
abbreviation (input) VIDEO_BOTTOM :: nat where "VIDEO_BOTTOM \<equiv> 3999"
abbreviation (input) KRNL_TTY_COUNT :: nat where "KRNL_TTY_COUNT \<equiv> 7"
abbreviation (input) TTY_DEF_CUR_PAL :: u8 where "TTY_DEF_CUR_PAL \<equiv> 0x70"
abbreviation (input) TTY_DEF_TXT_PAL :: u8 where "TTY_DEF_TXT_PAL \<equiv> 0x07"

record tty_t =
  cursor_offset :: nat
  cursor_status :: bool
  cursor_palette :: u8
  text_palette :: u8
  field :: "nat \<Rightarrow> u8"
  kb_l1_buffer :: "u8 list"
  kb_l2_buffer :: "u8 list"
  kb_l1_buffer_index :: nat
  kb_l2_buffer_index :: nat
  escape :: bool
  esc_second :: bool
  esc_value0 :: int
  esc_value1 :: int
  esc_default0 :: bool
  esc_default1 :: bool
  raw :: bool
  noblock :: bool
  noscroll :: bool

record console =
  ttys :: "nat \<Rightarrow> tty_t"
  current_tty :: nat
  video_mem :: "nat \<Rightarrow> u8"

definition tty_upd :: "nat \<Rightarrow> (tty_t \<Rightarrow> tty_t) \<Rightarrow> console \<Rightarrow> console" where
  "tty_upd w f c = c\<lparr>ttys := (ttys c)(w := f (ttys c w))\<rparr>"

subsection \<open>The screen\<close>

text \<open>One byte of the screen: the field and, for the terminal on display, the video memory.\<close>

definition put_cell :: "nat \<Rightarrow> nat \<Rightarrow> u8 \<Rightarrow> console \<Rightarrow> console" where
  "put_cell w off v c =
     (let c' = tty_upd w (\<lambda>t. t\<lparr>field := (field t)(off := v)\<rparr>) c
      in if w = current_tty c then c'\<lparr>video_mem := (video_mem c)(off := v)\<rparr> else c')"

definition wr_cell :: "nat \<Rightarrow> nat \<Rightarrow> u8 \<Rightarrow> console \<Rightarrow> console option" where
  "wr_cell w off v c = (if off < VD_SIZE then Some (put_cell w off v c) else None)"

definition clear_cursor :: "nat \<Rightarrow> console \<Rightarrow> console option" where
  "clear_cursor w c = wr_cell w ((cursor_offset (ttys c w) + 1) mod 2 ^ 32) (text_palette (ttys c w)) c"

definition draw_cursor :: "nat \<Rightarrow> console \<Rightarrow> console option" where
  "draw_cursor w c =
     (if cursor_status (ttys c w)
      then wr_cell w ((cursor_offset (ttys c w) + 1) mod 2 ^ 32) (cursor_palette (ttys c w)) c
      else Some c)"

definition tty_refresh :: "nat \<Rightarrow> console \<Rightarrow> console" where
  "tty_refresh w c =
     (if w = current_tty c
      then c\<lparr>video_mem := (\<lambda>i. if i < VD_SIZE then field (ttys c w) i else video_mem c i)\<rparr>
      else c)"

definition scroll_field :: "u8 \<Rightarrow> (nat \<Rightarrow> u8) \<Rightarrow> nat \<Rightarrow> u8" where
  "scroll_field pal f =
     iterate 80 (\<lambda>k f. f(VIDEO_BOTTOM - 2 * k := pal, VIDEO_BOTTOM - 2 * k - 1 := 0x20))
       (iterate (VIDEO_BOTTOM - VD_COLS + 1) (\<lambda>i f. f(i := f (i + VD_COLS))) f)"

definition scroll :: "nat \<Rightarrow> console \<Rightarrow> console" where
  "scroll w c = tty_refresh w (tty_upd w (\<lambda>t. t\<lparr>field := scroll_field (text_palette t) (field t)\<rparr>) c)"

definition blank_field :: "u8 \<Rightarrow> (nat \<Rightarrow> u8) \<Rightarrow> nat \<Rightarrow> u8" where
  "blank_field pal f = iterate 2000 (\<lambda>k f. f(2 * k := 0x20, 2 * k + 1 := pal)) f"

definition text_clear :: "nat \<Rightarrow> console \<Rightarrow> console option" where
  "text_clear w c = do {
     c \<leftarrow> clear_cursor w c;
     let c = tty_upd w (\<lambda>t. t\<lparr>field := blank_field (text_palette t) (field t), cursor_offset := 0\<rparr>) c;
     c \<leftarrow> draw_cursor w c;
     Some (tty_refresh w c) }"

definition text_clear_no_move :: "nat \<Rightarrow> console \<Rightarrow> console option" where
  "text_clear_no_move w c = do {
     c \<leftarrow> clear_cursor w c;
     let c = tty_upd w (\<lambda>t. t\<lparr>field := blank_field (text_palette t) (field t)\<rparr>) c;
     c \<leftarrow> draw_cursor w c;
     Some (tty_refresh w c) }"

definition text_enable_cursor :: "nat \<Rightarrow> console \<Rightarrow> console option" where
  "text_enable_cursor w c = draw_cursor w (tty_upd w (\<lambda>t. t\<lparr>cursor_status := True\<rparr>) c)"

definition text_disable_cursor :: "nat \<Rightarrow> console \<Rightarrow> console option" where
  "text_disable_cursor w c = clear_cursor w (tty_upd w (\<lambda>t. t\<lparr>cursor_status := False\<rparr>) c)"

definition text_get_cursor_pos_x :: "nat \<Rightarrow> console \<Rightarrow> nat" where
  "text_get_cursor_pos_x w c = cursor_offset (ttys c w) mod VD_COLS div 2"

definition text_get_cursor_pos_y :: "nat \<Rightarrow> console \<Rightarrow> nat" where
  "text_get_cursor_pos_y w c = cursor_offset (ttys c w) div VD_COLS"

definition text_set_cursor_pos :: "nat \<Rightarrow> nat \<Rightarrow> nat \<Rightarrow> console \<Rightarrow> console option" where
  "text_set_cursor_pos x y w c = do {
     c \<leftarrow> clear_cursor w c;
     draw_cursor w (tty_upd w (\<lambda>t. t\<lparr>cursor_offset := (y * VD_COLS + x * 2) mod 2 ^ 32\<rparr>) c) }"

definition text_set_cursor_palette :: "u8 \<Rightarrow> nat \<Rightarrow> console \<Rightarrow> console option" where
  "text_set_cursor_palette p w c = draw_cursor w (tty_upd w (\<lambda>t. t\<lparr>cursor_palette := p\<rparr>) c)"

definition text_set_text_palette :: "u8 \<Rightarrow> nat \<Rightarrow> console \<Rightarrow> console" where
  "text_set_text_palette p w c = tty_upd w (\<lambda>t. t\<lparr>text_palette := p\<rparr>) c"

text \<open>\<open>text_putchar\<close> outside an escape sequence; the default case prints a glyph.\<close>

definition put_glyph :: "u8 \<Rightarrow> nat \<Rightarrow> console \<Rightarrow> console option" where
  "put_glyph ch w c = do {
     c \<leftarrow> clear_cursor w c;
     c \<leftarrow> wr_cell w (cursor_offset (ttys c w)) ch c;
     let c = (if cursor_offset (ttys c w) \<ge> VIDEO_BOTTOM - 1
              then if noscroll (ttys c w) then c
                   else tty_upd w (\<lambda>t. t\<lparr>cursor_offset := VIDEO_BOTTOM - (VD_COLS - 1)\<rparr>) (scroll w c)
              else tty_upd w (\<lambda>t. t\<lparr>cursor_offset := cursor_offset t + 2\<rparr>) c);
     draw_cursor w c }"

definition put_newline :: "nat \<Rightarrow> console \<Rightarrow> console option" where
  "put_newline w c =
     (if text_get_cursor_pos_y w c = VD_ROWS - 1
      then do { c \<leftarrow> clear_cursor w c; text_set_cursor_pos 0 (VD_ROWS - 1) w (scroll w c) }
      else text_set_cursor_pos 0 (text_get_cursor_pos_y w c + 1) w c)"

definition put_backspace :: "nat \<Rightarrow> console \<Rightarrow> console option" where
  "put_backspace w c =
     (if cursor_offset (ttys c w) \<noteq> 0
      then do {
        c \<leftarrow> clear_cursor w c;
        let c = tty_upd w (\<lambda>t. t\<lparr>cursor_offset := (cursor_offset t + (2 ^ 32 - 2)) mod 2 ^ 32\<rparr>) c;
        c \<leftarrow> wr_cell w (cursor_offset (ttys c w)) 0x20 c;
        draw_cursor w c }
      else Some c)"

definition text_putchar_plain :: "u8 \<Rightarrow> nat \<Rightarrow> console \<Rightarrow> console option" where
  "text_putchar_plain ch w c =
     (if ch = 0x00 then Some c
      else if ch = 0x1B then Some (tty_upd w (\<lambda>t. t\<lparr>escape := True\<rparr>) c)
      else if ch = 0x0A then put_newline w c
      else if ch = 0x08 then put_backspace w c
      else put_glyph ch w c)"

subsection \<open>Escape sequences\<close>

definition ansi_colours :: "u8 list" where
  "ansi_colours = [0, 4, 2, 6, 1, 5, 3, 7]"

definition sgr :: "nat \<Rightarrow> console \<Rightarrow> console" where
  "sgr w c =
     (let c = (if esc_value0 (ttys c w) = 0 then text_set_text_palette TTY_DEF_TXT_PAL w c else c);
          v = esc_value0 (ttys c w); pal = text_palette (ttys c w)
      in if 30 \<le> v \<and> v \<le> 37
         then text_set_text_palette ((pal AND 0xf0) + ansi_colours ! nat (v - 30)) w c
         else if 40 \<le> v \<and> v \<le> 47
         then text_set_text_palette ((pal AND 0x0f) + ansi_colours ! nat (v - 40) * 0x10) w c
         else c)"

definition esc_digit :: "int \<Rightarrow> tty_t \<Rightarrow> tty_t" where
  "esc_digit d t =
     (if esc_second t
      then t\<lparr>esc_value1 := s32 (s32 (esc_value1 t * 10) + d), esc_default1 := False\<rparr>
      else t\<lparr>esc_value0 := s32 (s32 (esc_value0 t * 10) + d), esc_default0 := False\<rparr>)"

definition esc_reset :: "tty_t \<Rightarrow> tty_t" where
  "esc_reset t = t\<lparr>esc_second := False, esc_value0 := 0, esc_value1 := 0,
     esc_default0 := True, esc_default1 := True, escape := False\<rparr>"

text \<open>The count of a cursor movement: 1 when no parameter was given.\<close>

definition esc_count :: "tty_t \<Rightarrow> int" where
  "esc_count t = (if esc_default0 t then 1 else esc_value0 t)"

text \<open>
  The cursor movements \<open>A\<close>, \<open>B\<close>, \<open>C\<close>, \<open>D\<close>: the comparisons mix \<open>int\<close> and
  \<open>uint32_t\<close> operands and are therefore unsigned.
\<close>

definition cursor_up :: "nat \<Rightarrow> console \<Rightarrow> console option" where
  "cursor_up w c =
     (let x = text_get_cursor_pos_x w c; y = text_get_cursor_pos_y w c; v = esc_count (ttys c w);
          v = (if u32_of v > y then int y else v)
      in text_set_cursor_pos x (u32_of (int y - v)) w c)"

definition cursor_down :: "nat \<Rightarrow> console \<Rightarrow> console option" where
  "cursor_down w c =
     (let x = text_get_cursor_pos_x w c; y = text_get_cursor_pos_y w c; v = esc_count (ttys c w);
          v = (if u32_of (int y + v) > VD_ROWS - 1 then int (VD_ROWS - 1) - int y else v)
      in text_set_cursor_pos x (u32_of (int y + v)) w c)"

definition cursor_right :: "nat \<Rightarrow> console \<Rightarrow> console option" where
  "cursor_right w c =
     (let x = text_get_cursor_pos_x w c; y = text_get_cursor_pos_y w c; v = esc_count (ttys c w);
          v = (if u32_of (int x + v) > VD_COLS div 2 - 1 then int (VD_COLS div 2 - 1) - int x else v)
      in text_set_cursor_pos (u32_of (int x + v)) y w c)"

definition cursor_left :: "nat \<Rightarrow> console \<Rightarrow> console option" where
  "cursor_left w c =
     (let x = text_get_cursor_pos_x w c; y = text_get_cursor_pos_y w c; v = esc_count (ttys c w);
          v = (if u32_of v > x then int x else v)
      in text_set_cursor_pos (u32_of (int x - v)) y w c)"

text \<open>\<open>H\<close>: the parameters count from 1 and are clamped above, in signed comparisons.\<close>

definition cup_row :: "tty_t \<Rightarrow> int" where
  "cup_row t = (let v = (if esc_default0 t then 0 else s32 (esc_value0 t - 1))
                in if v \<ge> int VD_ROWS then int VD_ROWS - 1 else v)"

definition cup_col :: "tty_t \<Rightarrow> int" where
  "cup_col t = (let v = (if esc_default1 t then 0 else s32 (esc_value1 t - 1))
                in if v \<ge> int (VD_COLS div 2) then int (VD_COLS div 2) - 1 else v)"

definition cursor_position :: "nat \<Rightarrow> console \<Rightarrow> console option" where
  "cursor_position w c =
     text_set_cursor_pos (u32_of (cup_col (ttys c w))) (u32_of (cup_row (ttys c w))) w c"

definition escape_command :: "u8 \<Rightarrow> nat \<Rightarrow> console \<Rightarrow> console option" where
  "escape_command ch w c =
     (if ch = 0x41 then cursor_up w c
      else if ch = 0x42 then cursor_down w c
      else if ch = 0x43 then cursor_right w c
      else if ch = 0x44 then cursor_left w c
      else if ch = 0x48 then cursor_position w c
      else if ch = 0x6d then Some (sgr w c)
      else if ch = 0x4a then (if esc_value0 (ttys c w) = 2 then text_clear_no_move w c else Some c)
      else if ch = 0x72 then Some (tty_upd w (\<lambda>t. t\<lparr>raw := \<not> raw t\<rparr>) c)
      else if ch = 0x62 then Some (tty_upd w (\<lambda>t. t\<lparr>noblock := \<not> noblock t\<rparr>) c)
      else if ch = 0x73 then Some (tty_upd w (\<lambda>t. t\<lparr>noscroll := \<not> noscroll t\<rparr>) c)
      else text_putchar_plain 0x3f w (tty_upd w (\<lambda>t. t\<lparr>escape := False\<rparr>) c))"

definition escape_parse :: "u8 \<Rightarrow> nat \<Rightarrow> console \<Rightarrow> console option" where
  "escape_parse ch w c =
     (if 0x30 \<le> ch \<and> ch \<le> 0x39 then Some (tty_upd w (esc_digit (uint ch - 0x30)) c)
      else if ch = 0x5b then Some c
      else if ch = 0x3b then Some (tty_upd w (\<lambda>t. t\<lparr>esc_second := True\<rparr>) c)
      else map_option (tty_upd w esc_reset) (escape_command ch w c))"

definition text_putchar :: "u8 \<Rightarrow> nat \<Rightarrow> console \<Rightarrow> console option" where
  "text_putchar ch w c =
     (if escape (ttys c w) then escape_parse ch w c else text_putchar_plain ch w c)"

subsection \<open>Initialisation and switching\<close>

definition init_tty_t :: "tty_t \<Rightarrow> tty_t" where
  "init_tty_t t = t\<lparr>cursor_offset := 0, cursor_status := True, cursor_palette := TTY_DEF_CUR_PAL,
     text_palette := TTY_DEF_TXT_PAL, field := (blank_field TTY_DEF_TXT_PAL (field t))(1 := TTY_DEF_CUR_PAL),
     escape := False, esc_second := False, esc_value0 := 0, esc_value1 := 0,
     esc_default0 := True, esc_default1 := True, raw := False, noblock := False, noscroll := False\<rparr>"

definition init_tty :: "console \<Rightarrow> console" where
  "init_tty c = c\<lparr>ttys := (\<lambda>w. if w < KRNL_TTY_COUNT then init_tty_t (ttys c w) else ttys c w)\<rparr>"

text \<open>The zeroed globals of the kernel image, before \<open>init_tty\<close>.\<close>

definition bss_tty :: tty_t where
  "bss_tty = \<lparr>cursor_offset = 0, cursor_status = False, cursor_palette = 0, text_palette = 0,
     field = (\<lambda>_. 0), kb_l1_buffer = replicate 256 0, kb_l2_buffer = replicate 2048 0,
     kb_l1_buffer_index = 0, kb_l2_buffer_index = 0, escape = False, esc_second = False,
     esc_value0 = 0, esc_value1 = 0, esc_default0 = False, esc_default1 = False,
     raw = False, noblock = False, noscroll = False\<rparr>"

definition bss_console :: "(nat \<Rightarrow> u8) \<Rightarrow> console" where
  "bss_console vram = \<lparr>ttys = \<lambda>_. bss_tty, current_tty = 0, video_mem = vram\<rparr>"

definition switch_tty :: "nat \<Rightarrow> console \<Rightarrow> console" where
  "switch_tty w c = tty_refresh w (c\<lparr>current_tty := w\<rparr>)"

text \<open>
  Output of a whole string, as in \<open>klib.c\<close>: \<open>tty_knputs\<close> prints the first \<open>count\<close>
  characters, here the list of them, and \<open>tty_kputs\<close> stops at the terminating null character.
\<close>

fun tty_knputs :: "u8 list \<Rightarrow> nat \<Rightarrow> console \<Rightarrow> console option" where
  "tty_knputs [] w c = Some c"
| "tty_knputs (ch # s) w c = do { c \<leftarrow> text_putchar ch w c; tty_knputs s w c }"

definition knputs :: "u8 list \<Rightarrow> console \<Rightarrow> console option" where
  "knputs s c = tty_knputs s 0 c"

definition tty_kputs :: "u8 list \<Rightarrow> nat \<Rightarrow> console \<Rightarrow> console option" where
  "tty_kputs s w c = tty_knputs (takeWhile (\<lambda>ch. ch \<noteq> 0) s) w c"

definition kputs :: "u8 list \<Rightarrow> console \<Rightarrow> console option" where
  "kputs s c = tty_kputs s 0 c"

text \<open>
  The invariant: every cursor stands on the first byte of a cell of the screen, and the video memory
  shows exactly the terminal on display.
\<close>

definition tty_ok :: "tty_t \<Rightarrow> bool" where
  "tty_ok t \<longleftrightarrow> cursor_offset t < VD_SIZE \<and> even (cursor_offset t)"

definition console_ok :: "console \<Rightarrow> bool" where
  "console_ok c \<longleftrightarrow> current_tty c < KRNL_TTY_COUNT \<and> (\<forall>w<KRNL_TTY_COUNT. tty_ok (ttys c w))
     \<and> (\<forall>i<VD_SIZE. video_mem c i = field (ttys c (current_tty c)) i)"

text \<open>A step on terminal \<open>w\<close> that succeeds, keeps the invariant and leaves the other terminals alone.\<close>

definition step_ok :: "nat \<Rightarrow> console \<Rightarrow> console option \<Rightarrow> bool" where
  "step_ok w c r \<longleftrightarrow> (\<exists>c'. r = Some c' \<and> console_ok c' \<and> current_tty c' = current_tty c
     \<and> (\<forall>v. v \<noteq> w \<longrightarrow> ttys c' v = ttys c v))"

subsection \<open>Building blocks\<close>

lemma tty_upd_simps [simp]:
  "ttys (tty_upd w f c) = (ttys c)(w := f (ttys c w))"
  "current_tty (tty_upd w f c) = current_tty c"
  "video_mem (tty_upd w f c) = video_mem c"
  by (simp_all add: tty_upd_def)

lemma put_cell_simps [simp]:
  "ttys (put_cell w off v c) = (ttys c)(w := (ttys c w)\<lparr>field := (field (ttys c w))(off := v)\<rparr>)"
  "current_tty (put_cell w off v c) = current_tty c"
  "video_mem (put_cell w off v c) = (if w = current_tty c then (video_mem c)(off := v) else video_mem c)"
  by (simp_all add: put_cell_def Let_def)

lemma tty_refresh_simps [simp]:
  "ttys (tty_refresh w c) = ttys c" "current_tty (tty_refresh w c) = current_tty c"
  by (simp_all add: tty_refresh_def)

lemma scroll_simps [simp]:
  "ttys (scroll w c) = (ttys c)(w := (ttys c w)\<lparr>field := scroll_field (text_palette (ttys c w)) (field (ttys c w))\<rparr>)"
  "current_tty (scroll w c) = current_tty c"
  by (simp_all add: scroll_def)

lemma text_set_text_palette_simps [simp]:
  "ttys (text_set_text_palette p w c) = (ttys c)(w := (ttys c w)\<lparr>text_palette := p\<rparr>)"
  "current_tty (text_set_text_palette p w c) = current_tty c"
  "video_mem (text_set_text_palette p w c) = video_mem c"
  by (simp_all add: text_set_text_palette_def)

lemma console_ok_put_cell: "console_ok c \<Longrightarrow> console_ok (put_cell w off v c)"
  by (auto simp: console_ok_def tty_ok_def)

lemma console_ok_tty_upd:
  "console_ok c \<Longrightarrow> field (f (ttys c w)) = field (ttys c w) \<Longrightarrow> tty_ok (f (ttys c w)) \<Longrightarrow> console_ok (tty_upd w f c)"
  by (auto simp: console_ok_def)

lemma console_ok_refresh:
  "current_tty c < KRNL_TTY_COUNT \<Longrightarrow> \<forall>w<KRNL_TTY_COUNT. tty_ok (ttys c w) \<Longrightarrow>
     (w = current_tty c \<or> (\<forall>i<VD_SIZE. video_mem c i = field (ttys c (current_tty c)) i)) \<Longrightarrow>
     console_ok (tty_refresh w c)"
  by (auto simp: console_ok_def tty_refresh_def)

lemma console_ok_scroll: "console_ok c \<Longrightarrow> console_ok (scroll w c)"
  unfolding scroll_def by (rule console_ok_refresh) (auto simp: console_ok_def tty_ok_def)

lemma console_okD: "console_ok c \<Longrightarrow> w < KRNL_TTY_COUNT \<Longrightarrow> tty_ok (ttys c w)"
  by (simp add: console_ok_def)

lemma step_okI: "console_ok c' \<Longrightarrow> current_tty c' = current_tty c \<Longrightarrow> (\<And>v. v \<noteq> w \<Longrightarrow> ttys c' v = ttys c v)
    \<Longrightarrow> step_ok w c (Some c')"
  by (simp add: step_ok_def)

lemma step_ok_bind:
  assumes "step_ok w c r"
    and "\<And>c'. r = Some c' \<Longrightarrow> console_ok c' \<Longrightarrow> step_ok w c' (k c')"
  shows "step_ok w c (r \<bind> k)"
proof -
  from assms(1) obtain c' where c': "r = Some c'" "console_ok c'" "current_tty c' = current_tty c"
    "\<forall>v. v \<noteq> w \<longrightarrow> ttys c' v = ttys c v" by (auto simp: step_ok_def)
  with assms(2) [of c'] show ?thesis by (auto simp: step_ok_def)
qed

lemma step_ok_map:
  assumes "step_ok w c r" and "\<And>t. field (f t) = field t" and "\<And>t. cursor_offset (f t) = cursor_offset t"
    and "w < KRNL_TTY_COUNT"
  shows "step_ok w c (map_option (tty_upd w f) r)"
proof -
  from assms(1) obtain c' where c': "r = Some c'" "console_ok c'" "current_tty c' = current_tty c"
    "\<forall>v. v \<noteq> w \<longrightarrow> ttys c' v = ttys c v" by (auto simp: step_ok_def)
  with assms(2-4) show ?thesis
    by (auto simp: tty_ok_def intro!: step_okI console_ok_tty_upd dest: console_okD)
qed

lemma step_ok_from:
  "step_ok w c r \<Longrightarrow> current_tty c = current_tty d \<Longrightarrow> (\<And>v. v \<noteq> w \<Longrightarrow> ttys c v = ttys d v) \<Longrightarrow> step_ok w d r"
  by (auto simp: step_ok_def)

lemma wr_cell_step: "console_ok c \<Longrightarrow> off < VD_SIZE \<Longrightarrow> step_ok w c (wr_cell w off v c)"
  by (auto simp: wr_cell_def intro!: step_okI console_ok_put_cell)

lemma cursor_byte:
  "tty_ok t \<Longrightarrow> (cursor_offset t + 1) mod 2 ^ 32 = cursor_offset t + 1 \<and> cursor_offset t + 1 < VD_SIZE"
proof -
  assume "tty_ok t"
  then have "cursor_offset t < 4000" "even (cursor_offset t)" by (simp_all add: tty_ok_def)
  then have "cursor_offset t \<noteq> 3999" by auto
  with \<open>cursor_offset t < 4000\<close> show ?thesis by simp
qed

lemma clear_cursor_eq:
  "console_ok c \<Longrightarrow> w < KRNL_TTY_COUNT \<Longrightarrow>
     clear_cursor w c = Some (put_cell w (cursor_offset (ttys c w) + 1) (text_palette (ttys c w)) c)"
  using cursor_byte [OF console_okD, of c w] by (simp add: clear_cursor_def wr_cell_def)

lemma draw_cursor_eq:
  "tty_ok (ttys c w) \<Longrightarrow> draw_cursor w c = Some (if cursor_status (ttys c w)
     then put_cell w (cursor_offset (ttys c w) + 1) (cursor_palette (ttys c w)) c else c)"
  using cursor_byte [of "ttys c w"] by (simp add: draw_cursor_def wr_cell_def)

lemma clear_cursor_step: "console_ok c \<Longrightarrow> w < KRNL_TTY_COUNT \<Longrightarrow> step_ok w c (clear_cursor w c)"
  by (auto simp: clear_cursor_eq intro!: step_okI console_ok_put_cell)

lemma draw_cursor_step: "console_ok c \<Longrightarrow> w < KRNL_TTY_COUNT \<Longrightarrow> step_ok w c (draw_cursor w c)"
  by (auto simp: draw_cursor_eq console_okD intro!: step_okI console_ok_put_cell)

text \<open>Updating a terminal without touching its screen, then drawing the cursor.\<close>

lemma upd_draw_step:
  assumes "console_ok c" and "w < KRNL_TTY_COUNT" and "field (f (ttys c w)) = field (ttys c w)"
    and "tty_ok (f (ttys c w))"
  shows "step_ok w c (draw_cursor w (tty_upd w f c))"
proof -
  have "console_ok (tty_upd w f c)" using assms by (intro console_ok_tty_upd) auto
  then have "step_ok w (tty_upd w f c) (draw_cursor w (tty_upd w f c))" using assms(2) by (rule draw_cursor_step)
  then show ?thesis by (rule step_ok_from) auto
qed

lemma set_cursor_pos_step:
  assumes "console_ok c" and "w < KRNL_TTY_COUNT" and "x < 80" and "y < 25"
  shows "step_ok w c (text_set_cursor_pos x y w c)"
  unfolding text_set_cursor_pos_def
proof (rule step_ok_bind [OF clear_cursor_step [OF assms(1,2)]])
  fix c'
  assume "console_ok c'"
  moreover have "y * 160 + x * 2 < 4000" using assms(3,4) by simp
  ultimately show "step_ok w c'
      (draw_cursor w (tty_upd w (\<lambda>t. t\<lparr>cursor_offset := (y * VD_COLS + x * 2) mod 2 ^ 32\<rparr>) c'))"
    using assms(2) by (intro upd_draw_step) (simp_all add: tty_ok_def)
qed

lemma cursor_pos_bounds:
  assumes "console_ok c" and "w < KRNL_TTY_COUNT"
  shows "text_get_cursor_pos_x w c < 80" and "text_get_cursor_pos_y w c < 25"
  using console_okD [OF assms]
  by (simp_all add: text_get_cursor_pos_x_def text_get_cursor_pos_y_def tty_ok_def less_mult_imp_div_less)

subsection \<open>Printing\<close>

lemma put_glyph_step:
  assumes "console_ok c" and "w < KRNL_TTY_COUNT"
  shows "step_ok w c (put_glyph ch w c)"
  unfolding put_glyph_def
proof (rule step_ok_bind [OF clear_cursor_step [OF assms]])
  fix c1
  assume c1: "console_ok c1"
  have o1: "cursor_offset (ttys c1 w) < 4000" using console_okD [OF c1 assms(2)] by (simp add: tty_ok_def)
  show "step_ok w c1 (wr_cell w (cursor_offset (ttys c1 w)) ch c1 \<bind> (\<lambda>c. let c =
      if VIDEO_BOTTOM - 1 \<le> cursor_offset (ttys c w)
      then if noscroll (ttys c w) then c
           else tty_upd w (\<lambda>t. t\<lparr>cursor_offset := VIDEO_BOTTOM - (VD_COLS - 1)\<rparr>) (scroll w c)
      else tty_upd w (\<lambda>t. t\<lparr>cursor_offset := cursor_offset t + 2\<rparr>) c in draw_cursor w c))"
  proof (rule step_ok_bind [OF wr_cell_step [OF c1 o1]])
    fix c2
    assume c2: "console_ok c2"
    let ?o = "cursor_offset (ttys c2 w)"
    have ok: "?o < 4000" "even ?o" using console_okD [OF c2 assms(2)] by (simp_all add: tty_ok_def)
    consider "3998 \<le> ?o" "noscroll (ttys c2 w)" | "3998 \<le> ?o" "\<not> noscroll (ttys c2 w)" | "?o < 3998" by linarith
    then show "step_ok w c2 (let c =
      if VIDEO_BOTTOM - 1 \<le> cursor_offset (ttys c2 w)
      then if noscroll (ttys c2 w) then c2
           else tty_upd w (\<lambda>t. t\<lparr>cursor_offset := VIDEO_BOTTOM - (VD_COLS - 1)\<rparr>) (scroll w c2)
      else tty_upd w (\<lambda>t. t\<lparr>cursor_offset := cursor_offset t + 2\<rparr>) c2 in draw_cursor w c)"
    proof cases
      case 1
      with c2 assms(2) show ?thesis by (simp add: draw_cursor_step)
    next
      case 2
      have "step_ok w (scroll w c2) (draw_cursor w (tty_upd w (\<lambda>t. t\<lparr>cursor_offset := 3840\<rparr>) (scroll w c2)))"
        using console_ok_scroll [OF c2] assms(2) by (intro upd_draw_step) (simp_all add: tty_ok_def)
      then show ?thesis using 2 by (auto elim: step_ok_from)
    next
      case 3
      with c2 assms(2) ok show ?thesis by (auto intro!: upd_draw_step simp: tty_ok_def)
    qed
  qed
qed

lemma put_newline_step:
  assumes "console_ok c" and "w < KRNL_TTY_COUNT"
  shows "step_ok w c (put_newline w c)"
proof (cases "text_get_cursor_pos_y w c = VD_ROWS - 1")
  case True
  have "step_ok w c' (text_set_cursor_pos 0 (VD_ROWS - 1) w (scroll w c'))" if "console_ok c'" for c'
  proof -
    have "step_ok w (scroll w c') (text_set_cursor_pos 0 (VD_ROWS - 1) w (scroll w c'))"
      using console_ok_scroll [OF that] assms(2) by (intro set_cursor_pos_step) auto
    then show ?thesis by (auto elim: step_ok_from)
  qed
  with True show ?thesis
    by (simp add: put_newline_def) (rule step_ok_bind [OF clear_cursor_step [OF assms]], simp)
next
  case False
  then have "text_get_cursor_pos_y w c + 1 < 25" using cursor_pos_bounds(2) [OF assms] by simp
  with False show ?thesis by (simp add: put_newline_def set_cursor_pos_step [OF assms])
qed

lemma put_backspace_step:
  assumes "console_ok c" and "w < KRNL_TTY_COUNT"
  shows "step_ok w c (put_backspace w c)"
proof (cases "cursor_offset (ttys c w) = 0")
  case True
  with assms show ?thesis by (auto simp: put_backspace_def intro: step_okI)
next
  case False
  let ?bs = "\<lambda>t. t\<lparr>cursor_offset := (cursor_offset t + (2 ^ 32 - 2)) mod 2 ^ 32\<rparr>"
  let ?o = "cursor_offset (ttys c w)"
  obtain k where k: "?o = 2 * Suc k" "k < 1999"
  proof -
    from console_okD [OF assms] obtain j where "?o = 2 * j" "2 * j < 4000" by (auto simp: tty_ok_def)
    with False show thesis by (intro that [of "j - 1"]) auto
  qed
  let ?c1 = "put_cell w (?o + 1) (text_palette (ttys c w)) c"
  have c2: "console_ok (tty_upd w ?bs ?c1)"
    using console_ok_put_cell [OF assms(1)] k by (intro console_ok_tty_upd) (auto simp: tty_ok_def)
  have "step_ok w (tty_upd w ?bs ?c1)
      (wr_cell w (cursor_offset (ttys (tty_upd w ?bs ?c1) w)) 0x20 (tty_upd w ?bs ?c1) \<bind> draw_cursor w)"
    using c2 k by (intro step_ok_bind [OF wr_cell_step] draw_cursor_step [OF _ assms(2)]) auto
  then show ?thesis
    using False clear_cursor_eq [OF assms] by (auto simp: put_backspace_def elim!: step_ok_from)
qed

lemma putchar_plain_step:
  assumes "console_ok c" and "w < KRNL_TTY_COUNT"
  shows "step_ok w c (text_putchar_plain ch w c)"
proof -
  have "step_ok w c (Some (tty_upd w (\<lambda>t. t\<lparr>escape := True\<rparr>) c))"
    using console_okD [OF assms] assms(1) by (intro step_okI console_ok_tty_upd) (auto simp: tty_ok_def)
  moreover have "step_ok w c (Some c)" using assms(1) by (intro step_okI) auto
  ultimately show ?thesis
    using put_newline_step [OF assms] put_backspace_step [OF assms] put_glyph_step [OF assms]
    by (simp add: text_putchar_plain_def)
qed


subsection \<open>Escape sequences keep the invariant\<close>

lemma u32_of_diff: "u32_of v \<le> y \<Longrightarrow> y < 2 ^ 32 \<Longrightarrow> u32_of (int y - v) = y - u32_of v"
proof -
  assume le: "u32_of v \<le> y" and y: "y < 2 ^ 32"
  have v: "int (u32_of v) = v mod 2 ^ 32" by (simp add: u32_of_def)
  have "(int y - v) mod 2 ^ 32 = (int y - v mod 2 ^ 32) mod 2 ^ 32" by (simp only: mod_diff_right_eq)
  also have "\<dots> = int (y - u32_of v) mod 2 ^ 32" using le v by (simp add: of_nat_diff)
  also have "\<dots> = int (y - u32_of v)" using y by simp
  finally show ?thesis by (simp add: u32_of_def)
qed

lemma cursor_moves_step:
  assumes "console_ok c" and "w < KRNL_TTY_COUNT"
  shows "step_ok w c (cursor_up w c)" and "step_ok w c (cursor_down w c)"
    and "step_ok w c (cursor_right w c)" and "step_ok w c (cursor_left w c)"
  using cursor_pos_bounds [OF assms]
  by (auto simp: cursor_up_def cursor_down_def cursor_right_def cursor_left_def Let_def u32_of_diff
        u32_of_id intro!: set_cursor_pos_step assms)

lemma cup_bounds: "cup_row t < 25" "cup_col t < 80"
  by (simp_all add: cup_row_def cup_col_def Let_def)

lemma cursor_position_step:
  assumes "console_ok c" and "w < KRNL_TTY_COUNT" and "0 \<le> cup_row (ttys c w)" and "0 \<le> cup_col (ttys c w)"
  shows "step_ok w c (cursor_position w c)"
  using assms cup_bounds [of "ttys c w"]
  by (auto simp: cursor_position_def u32_of_id nat_less_iff intro!: set_cursor_pos_step)

lemma clear_no_move_step:
  assumes "console_ok c" and "w < KRNL_TTY_COUNT"
  shows "step_ok w c (text_clear_no_move w c)"
  unfolding text_clear_no_move_def
proof (rule step_ok_bind [OF clear_cursor_step [OF assms]])
  fix c1
  assume c1: "console_ok c1"
  let ?c2 = "tty_upd w (\<lambda>t. t\<lparr>field := blank_field (text_palette t) (field t)\<rparr>) c1"
  have "tty_ok (ttys ?c2 w)" using console_okD [OF c1 assms(2)] by (simp add: tty_ok_def)
  then have eq: "draw_cursor w ?c2 = Some (if cursor_status (ttys ?c2 w)
     then put_cell w (cursor_offset (ttys ?c2 w) + 1) (cursor_palette (ttys ?c2 w)) ?c2 else ?c2)"
    by (rule draw_cursor_eq)
  show "step_ok w c1 (let c = ?c2 in draw_cursor w c \<bind> (\<lambda>c. Some (tty_refresh w c)))"
    unfolding Let_def eq using c1
    by (auto intro!: step_okI console_ok_refresh simp: console_ok_def tty_ok_def)
qed

lemma upd_flags_step:
  assumes "console_ok c" and "w < KRNL_TTY_COUNT"
    and "field (f (ttys c w)) = field (ttys c w)" and "cursor_offset (f (ttys c w)) = cursor_offset (ttys c w)"
  shows "step_ok w c (Some (tty_upd w f c))"
  using assms console_okD [OF assms(1,2)] by (auto intro!: step_okI console_ok_tty_upd simp: tty_ok_def)

lemma sgr_step: "console_ok c \<Longrightarrow> w < KRNL_TTY_COUNT \<Longrightarrow> step_ok w c (Some (sgr w c))"
  by (auto simp: sgr_def Let_def intro!: step_okI simp: console_ok_def tty_ok_def)

lemma unknown_escape_step:
  assumes "console_ok c" and "w < KRNL_TTY_COUNT"
  shows "step_ok w c (text_putchar_plain ch w (tty_upd w (\<lambda>t. t\<lparr>escape := False\<rparr>) c))"
proof -
  have "console_ok (tty_upd w (\<lambda>t. t\<lparr>escape := False\<rparr>) c)"
    using console_okD [OF assms] assms by (intro console_ok_tty_upd) (auto simp: tty_ok_def)
  from putchar_plain_step [OF this assms(2)] show ?thesis by (rule step_ok_from) auto
qed

lemma escape_command_step:
  assumes "console_ok c" and "w < KRNL_TTY_COUNT"
    and "ch = 0x48 \<Longrightarrow> 0 \<le> cup_row (ttys c w) \<and> 0 \<le> cup_col (ttys c w)"
  shows "step_ok w c (escape_command ch w c)"
proof -
  have "step_ok w c (Some c)" using assms by (intro step_okI) auto
  then show ?thesis
    using cursor_moves_step [OF assms(1,2)] cursor_position_step [OF assms(1,2)] sgr_step [OF assms(1,2)]
      clear_no_move_step [OF assms(1,2)] unknown_escape_step [OF assms(1,2)] assms(3)
    by (auto simp: escape_command_def intro!: upd_flags_step assms(1,2))
qed

lemma escape_parse_step:
  assumes "console_ok c" and "w < KRNL_TTY_COUNT"
    and "ch = 0x48 \<Longrightarrow> 0 \<le> cup_row (ttys c w) \<and> 0 \<le> cup_col (ttys c w)"
  shows "step_ok w c (escape_parse ch w c)"
proof -
  have "step_ok w c (map_option (tty_upd w esc_reset) (escape_command ch w c))"
    by (rule step_ok_map [OF escape_command_step [OF assms]]) (auto simp: esc_reset_def assms(2))
  moreover have "step_ok w c (Some c)" using assms by (intro step_okI) auto
  ultimately show ?thesis
    by (auto simp: escape_parse_def esc_digit_def intro!: upd_flags_step assms(1,2))
qed

text \<open>The cursor-position command is the only one that can leave the screen.\<close>

definition putchar_safe :: "u8 \<Rightarrow> tty_t \<Rightarrow> bool" where
  "putchar_safe ch t \<longleftrightarrow> (escape t \<and> ch = 0x48 \<longrightarrow> 0 \<le> cup_row t \<and> 0 \<le> cup_col t)"

lemma text_putchar_step:
  assumes "console_ok c" and "w < KRNL_TTY_COUNT" and "putchar_safe ch (ttys c w)"
  shows "step_ok w c (text_putchar ch w c)"
  using escape_parse_step [OF assms(1,2)] putchar_plain_step [OF assms(1,2)] assms(3)
  by (auto simp: text_putchar_def putchar_safe_def)

text \<open>
  C17. Writing a character to a terminal: unless it completes a cursor-position sequence with an
  explicit zero (or overflowed) coordinate, the write stays inside the screen, every cursor remains on
  a cell, the video memory keeps showing the terminal on display, and no other terminal changes.
\<close>

theorem text_putchar_keeps_console:
  assumes "console_ok c" and "w < KRNL_TTY_COUNT" and "putchar_safe ch (ttys c w)"
  shows "\<exists>c'. text_putchar ch w c = Some c' \<and> console_ok c' \<and> current_tty c' = current_tty c
    \<and> (\<forall>v. v \<noteq> w \<longrightarrow> ttys c' v = ttys c v)"
  using text_putchar_step [OF assms] by (simp add: step_ok_def)

lemma console_ok_boot: "console_ok (switch_tty 0 (init_tty (bss_console vram)))"
  by (auto simp: console_ok_def switch_tty_def tty_refresh_def init_tty_def init_tty_t_def tty_ok_def)

theorem text_putchar_keeps_console_witness:
  "console_ok (switch_tty 0 (init_tty (bss_console (\<lambda>_. 0))))
   \<and> (\<exists>c'. text_putchar 0x41 3 (switch_tty 0 (init_tty (bss_console (\<lambda>_. 0)))) = Some c' \<and> console_ok c')"
proof -
  let ?c = "switch_tty 0 (init_tty (bss_console (\<lambda>_. 0)))"
  have ok: "console_ok ?c" by (rule console_ok_boot)
  moreover have "putchar_safe 0x41 (ttys ?c 3)" by (simp add: putchar_safe_def)
  ultimately show ?thesis using text_putchar_keeps_console [of ?c 3 "0x41"] by auto
qed


text \<open>Text without the letter that ends a cursor-position sequence is safe to print in every state.\<close>

lemma tty_knputs_plain:
  "console_ok c \<Longrightarrow> w < KRNL_TTY_COUNT \<Longrightarrow> 0x48 \<notin> set s \<Longrightarrow> step_ok w c (tty_knputs s w c)"
proof (induction s arbitrary: c)
  case (Cons ch s)
  have "step_ok w c (text_putchar ch w c)"
    by (rule text_putchar_step [OF Cons.prems(1,2)]) (use Cons.prems(3) in \<open>auto simp: putchar_safe_def\<close>)
  then obtain c' where c': "text_putchar ch w c = Some c'" "console_ok c'" "current_tty c' = current_tty c" "\<forall>v. v \<noteq> w \<longrightarrow> ttys c' v = ttys c v"
    by (auto simp: step_ok_def)
  with Cons.IH [OF c'(2)] Cons.prems show ?case by (auto simp: step_ok_def)
qed (simp add: step_ok_def)

lemma kputs_plain:
  assumes "console_ok c" and "0x48 \<notin> set s"
  shows "\<exists>c'. kputs s c = Some c' \<and> console_ok c'"
  using tty_knputs_plain [of c 0 "takeWhile (\<lambda>ch. ch \<noteq> 0) s"] assms
  by (auto simp: kputs_def tty_kputs_def step_ok_def dest: set_takeWhileD)


subsection \<open>What is printed\<close>

definition printable :: "u8 \<Rightarrow> bool" where
  "printable ch \<longleftrightarrow> ch \<noteq> 0x00 \<and> ch \<noteq> 0x1B \<and> ch \<noteq> 0x0A \<and> ch \<noteq> 0x08"

text \<open>The terminal after a glyph that is not in the last cell.\<close>

lemma put_glyph_tty:
  assumes "console_ok c" and "w < KRNL_TTY_COUNT" and "cursor_offset (ttys c w) < VIDEO_BOTTOM - 1"
    and "put_glyph ch w c = Some c'"
  shows "cursor_offset (ttys c' w) = cursor_offset (ttys c w) + 2"
    and "text_palette (ttys c' w) = text_palette (ttys c w)" and "escape (ttys c' w) = escape (ttys c w)"
    and "field (ttys c' w) = (let t = ttys c w; o' = cursor_offset t;
      f = (field t)(o' + 1 := text_palette t, o' := ch)
      in if cursor_status t then f(o' + 3 := cursor_palette t) else f)"
proof -
  let ?t = "ttys c w" and ?o = "cursor_offset (ttys c w)"
  have ok: "?o < 3998" "even ?o" using assms(3) console_okD [OF assms(1,2)] by (simp_all add: tty_ok_def)
  let ?c1 = "put_cell w ?o ch (put_cell w (?o + 1) (text_palette ?t) c)"
  let ?c2 = "tty_upd w (\<lambda>t. t\<lparr>cursor_offset := cursor_offset t + 2\<rparr>) ?c1"
  have "tty_ok (ttys ?c2 w)" using ok by (simp add: tty_ok_def)
  note dr = draw_cursor_eq [OF this]
  have "put_glyph ch w c = draw_cursor w ?c2"
    using ok by (simp add: put_glyph_def clear_cursor_eq [OF assms(1,2)] wr_cell_def)
  then have "c' = (if cursor_status ?t then put_cell w (?o + 3) (cursor_palette ?t) ?c2 else ?c2)"
    using assms(4) dr by (simp add: numeral_3_eq_3 split: if_splits)
  then show "cursor_offset (ttys c' w) = cursor_offset (ttys c w) + 2"
    and "text_palette (ttys c' w) = text_palette (ttys c w)" and "escape (ttys c' w) = escape (ttys c w)"
    and "field (ttys c' w) = (let t = ttys c w; o' = cursor_offset t;
      f = (field t)(o' + 1 := text_palette t, o' := ch)
      in if cursor_status t then f(o' + 3 := cursor_palette t) else f)"
    by (simp_all add: Let_def)
qed

lemma text_putchar_printable:
  "\<not> escape (ttys c w) \<Longrightarrow> printable ch \<Longrightarrow> text_putchar ch w c = put_glyph ch w c"
  by (simp add: text_putchar_def text_putchar_plain_def printable_def)

lemma put_glyph_ok: "console_ok c \<Longrightarrow> w < KRNL_TTY_COUNT \<Longrightarrow> \<exists>c'. put_glyph ch w c = Some c' \<and> console_ok c'"
  using put_glyph_step by (fastforce simp: step_ok_def)

lemma tty_knputs_cells:
  assumes "console_ok c" and "w < KRNL_TTY_COUNT" and "\<not> escape (ttys c w)"
    and "\<forall>ch \<in> set s. printable ch" and "cursor_offset (ttys c w) + 2 * length s < VD_SIZE"
  shows "\<exists>c'. tty_knputs s w c = Some c' \<and> console_ok c'
    \<and> cursor_offset (ttys c' w) = cursor_offset (ttys c w) + 2 * length s
    \<and> text_palette (ttys c' w) = text_palette (ttys c w)
    \<and> (\<forall>i<length s. field (ttys c' w) (cursor_offset (ttys c w) + 2 * i) = s ! i
         \<and> field (ttys c' w) (cursor_offset (ttys c w) + 2 * i + 1) = text_palette (ttys c w))
    \<and> (\<forall>j. j < cursor_offset (ttys c w) \<or> cursor_offset (ttys c w) + 2 * length s + 1 < j \<longrightarrow>
         field (ttys c' w) j = field (ttys c w) j)"
  using assms
proof (induction s arbitrary: c)
  case Nil
  then show ?case by simp
next
  case (Cons ch s)
  let ?o = "cursor_offset (ttys c w)"
  from Cons.prems obtain c1 where c1: "put_glyph ch w c = Some c1" "console_ok c1"
    using put_glyph_ok by blast
  have lt: "?o < 3999 - 1" using Cons.prems(5) by simp
  note t1 = put_glyph_tty [OF Cons.prems(1,2) lt c1(1)]
  have t1': "cursor_offset (ttys c1 w) = ?o + 2" "text_palette (ttys c1 w) = text_palette (ttys c w)"
    "\<not> escape (ttys c1 w)" "field (ttys c1 w) ?o = ch" "field (ttys c1 w) (?o + 1) = text_palette (ttys c w)"
    "\<And>j. j < ?o \<or> ?o + 3 < j \<Longrightarrow> field (ttys c1 w) j = field (ttys c w) j"
    using Cons.prems(3) by (auto simp: t1 Let_def)
  have "\<forall>ch \<in> set s. printable ch" "cursor_offset (ttys c1 w) + 2 * length s < VD_SIZE"
    using Cons.prems(4,5) t1' by auto
  from Cons.IH [OF c1(2) Cons.prems(2) t1'(3) this] obtain c' where c': "tty_knputs s w c1 = Some c'"
    "console_ok c'" "cursor_offset (ttys c' w) = ?o + 2 + 2 * length s"
    "text_palette (ttys c' w) = text_palette (ttys c w)"
    and cells': "\<forall>i<length s. field (ttys c' w) (?o + 2 + 2 * i) = s ! i
         \<and> field (ttys c' w) (?o + 2 + 2 * i + 1) = text_palette (ttys c w)"
    and rest': "\<forall>j. j < ?o + 2 \<or> ?o + 2 + 2 * length s + 1 < j \<longrightarrow> field (ttys c' w) j = field (ttys c1 w) j"
    unfolding t1'(1,2) by blast
  note cells = cells' [rule_format] and rest = rest' [rule_format]
  have "tty_knputs (ch # s) w c = Some c'"
    using c1 c' Cons.prems(3,4) by (simp add: text_putchar_printable)
  moreover have "field (ttys c' w) (?o + 2 * i) = (ch # s) ! i
      \<and> field (ttys c' w) (?o + 2 * i + 1) = text_palette (ttys c w)" if "i < length (ch # s)" for i
    using that cells [of "i - 1"] rest [of ?o] rest [of "?o + 1"] t1' by (cases i) auto
  moreover have "field (ttys c' w) j = field (ttys c w) j" if "j < ?o \<or> ?o + 2 * length (ch # s) + 1 < j" for j
    using that rest [of j] t1'(6) [of j] by auto
  ultimately show ?case using c' by simp
qed

text \<open>
  Printing text: a string of ordinary characters that fits before the end of the screen appears
  cell by cell from the cursor on, each in the current text palette; the cursor ends behind it, and
  nothing else on the screen changes except the colour byte under the new cursor.
\<close>

lemma tty_kputs_prints:
  assumes "console_ok c" and "w < KRNL_TTY_COUNT" and "\<not> escape (ttys c w)"
    and "\<forall>ch \<in> set s. printable ch" and "cursor_offset (ttys c w) + 2 * length s < VD_SIZE"
  shows "\<exists>c'. tty_kputs s w c = Some c' \<and> console_ok c'
    \<and> cursor_offset (ttys c' w) = cursor_offset (ttys c w) + 2 * length s
    \<and> (\<forall>i<length s. field (ttys c' w) (cursor_offset (ttys c w) + 2 * i) = s ! i
         \<and> field (ttys c' w) (cursor_offset (ttys c w) + 2 * i + 1) = text_palette (ttys c w))
    \<and> (\<forall>j. j < cursor_offset (ttys c w) \<or> cursor_offset (ttys c w) + 2 * length s + 1 < j \<longrightarrow>
         field (ttys c' w) j = field (ttys c w) j)"
proof -
  have "takeWhile (\<lambda>ch. ch \<noteq> 0) s = s" using assms(4) by (simp add: takeWhile_eq_all_conv printable_def)
  then show ?thesis using tty_knputs_cells [OF assms] unfolding tty_kputs_def by metis
qed

lemma tty_kputs_prints_witness:
  "\<exists>c'. tty_kputs [0x68, 0x69] 0 (switch_tty 0 (init_tty (bss_console (\<lambda>_. 0)))) = Some c'
     \<and> field (ttys c' 0) 0 = 0x68 \<and> field (ttys c' 0) 2 = 0x69 \<and> field (ttys c' 0) 3 = 0x07"
proof -
  let ?c = "switch_tty 0 (init_tty (bss_console (\<lambda>_. 0)))"
  have pre: "\<not> escape (ttys ?c 0)" "cursor_offset (ttys ?c 0) = 0" "text_palette (ttys ?c 0) = 0x07"
    by (simp_all add: switch_tty_def init_tty_def init_tty_t_def)
  have pr: "\<forall>ch \<in> set [0x68, 0x69]. printable ch" by (simp add: printable_def)
  from tty_kputs_prints [OF console_ok_boot _ pre(1) pr] pre
  obtain c' where c': "tty_kputs [0x68, 0x69] 0 ?c = Some c'"
    "\<forall>i<length [0x68::u8, 0x69]. field (ttys c' 0) (0 + 2 * i) = [0x68, 0x69] ! i
       \<and> field (ttys c' 0) (0 + 2 * i + 1) = 0x07"
    by fastforce
  from c'(2) [rule_format, of 0] c'(2) [rule_format, of 1] c'(1) show ?thesis
    by (auto simp: numeral_3_eq_3 numeral_2_eq_2)
qed

subsection \<open>Cursor positioning\<close>

definition is_digit :: "u8 \<Rightarrow> bool" where
  "is_digit ch \<longleftrightarrow> 0x30 \<le> ch \<and> ch \<le> 0x39"

text \<open>The value of a digit string.\<close>

definition digits_value :: "u8 list \<Rightarrow> int" where
  "digits_value ds = foldl (\<lambda>v ch. v * 10 + (uint ch - 0x30)) 0 ds"

lemma digit_uint: "is_digit ch \<Longrightarrow> 0 \<le> uint ch - 0x30 \<and> uint ch - 0x30 \<le> 9"
  by (simp add: is_digit_def word_le_def)

lemma digits_fold_mono:
  "\<forall>ch \<in> set ds. is_digit ch \<Longrightarrow> 0 \<le> a \<Longrightarrow> a \<le> foldl (\<lambda>v ch. v * 10 + (uint ch - 0x30)) a ds"
proof (induction ds arbitrary: a)
  case (Cons ch ds)
  then have "a \<le> a * 10 + (uint ch - 0x30)" using digit_uint [of ch] by simp
  also have "\<dots> \<le> foldl (\<lambda>v ch. v * 10 + (uint ch - 0x30)) (a * 10 + (uint ch - 0x30)) ds"
    using Cons digit_uint [of ch] by (intro Cons.IH) auto
  finally show ?case by simp
qed simp

text \<open>Reading a digit string adds it to the selected parameter.\<close>

lemma tty_knputs_digits:
  assumes "\<forall>ch \<in> set ds. is_digit ch" and "escape (ttys c w)" and "ds \<noteq> []"
    and "a = (if esc_second (ttys c w) then esc_value1 (ttys c w) else esc_value0 (ttys c w))" and "0 \<le> a"
    and "foldl (\<lambda>v ch. v * 10 + (uint ch - 0x30)) a ds < 2 ^ 31"
  shows "tty_knputs (ds @ rest) w c = tty_knputs rest w (tty_upd w (\<lambda>t. if esc_second t
     then t\<lparr>esc_value1 := foldl (\<lambda>v ch. v * 10 + (uint ch - 0x30)) a ds, esc_default1 := False\<rparr>
     else t\<lparr>esc_value0 := foldl (\<lambda>v ch. v * 10 + (uint ch - 0x30)) a ds, esc_default0 := False\<rparr>) c)"
  using assms
proof (induction ds arbitrary: a c)
  case (Cons ch ds)
  let ?d = "uint ch - 0x30" and ?a = "a * 10 + (uint ch - 0x30)"
  have d: "0 \<le> ?d" "?d \<le> 9" "is_digit ch" "\<forall>ch \<in> set ds. is_digit ch" using Cons.prems(1) digit_uint [of ch] by auto
  have "?a \<le> foldl (\<lambda>v ch. v * 10 + (uint ch - 0x30)) ?a ds" using d Cons.prems(5) by (intro digits_fold_mono) auto
  then have small: "?a < 2 ^ 31" using Cons.prems(6) by simp
  have s: "s32 (s32 (a * 10) + ?d) = ?a"
    using small d Cons.prems(5) by (simp add: s32_id)
  let ?c1 = "tty_upd w (esc_digit ?d) c"
  have step: "tty_knputs ((ch # ds) @ rest) w c = tty_knputs (ds @ rest) w ?c1"
    using d(3) Cons.prems(2) by (simp add: text_putchar_def escape_parse_def is_digit_def)
  show ?case
  proof (cases "ds = []")
    case True
    have "?c1 = tty_upd w (\<lambda>t. if esc_second t then t\<lparr>esc_value1 := ?a, esc_default1 := False\<rparr>
        else t\<lparr>esc_value0 := ?a, esc_default0 := False\<rparr>) c"
      using Cons.prems(4) s by (cases "esc_second (ttys c w)") (simp_all add: tty_upd_def esc_digit_def)
    then show ?thesis unfolding step unfolding True foldl_Cons foldl_Nil append_Nil by (rule arg_cong)
  next
    case False
    have "?a = (if esc_second (ttys ?c1 w) then esc_value1 (ttys ?c1 w) else esc_value0 (ttys ?c1 w))"
      using Cons.prems(4) s by (cases "esc_second (ttys c w)") (simp_all add: esc_digit_def)
    moreover have "escape (ttys ?c1 w)" using Cons.prems(2) by (simp add: esc_digit_def)
    ultimately show ?thesis
      unfolding step using Cons.IH [of ?c1 ?a] d False Cons.prems(5,6)
      by (cases "esc_second (ttys c w)") (simp_all add: esc_digit_def tty_upd_def)
  qed
qed simp


text \<open>The escape parser at rest, as between two sequences.\<close>

definition parser_idle :: "tty_t \<Rightarrow> bool" where
  "parser_idle t \<longleftrightarrow> \<not> escape t \<and> \<not> esc_second t \<and> esc_value0 t = 0 \<and> esc_value1 t = 0
     \<and> esc_default0 t \<and> esc_default1 t"

lemma set_cursor_pos_eq:
  assumes "console_ok c" and "w < KRNL_TTY_COUNT" and "x < 80" and "y < 25"
    and "text_set_cursor_pos x y w c = Some c'"
  shows "cursor_offset (ttys c' w) = y * VD_COLS + x * 2"
proof -
  let ?c1 = "put_cell w (cursor_offset (ttys c w) + 1) (text_palette (ttys c w)) c"
  let ?c2 = "tty_upd w (\<lambda>t. t\<lparr>cursor_offset := (y * VD_COLS + x * 2) mod 2 ^ 32\<rparr>) ?c1"
  have "tty_ok (ttys ?c2 w)" using assms(3,4) by (simp add: tty_ok_def)
  from draw_cursor_eq [OF this] assms(5) assms(3,4) show ?thesis
    by (auto simp: text_set_cursor_pos_def clear_cursor_eq [OF assms(1,2)])
qed

lemma cursor_offset_xy:
  "x < 80 \<Longrightarrow> cursor_offset (ttys c w) = y * VD_COLS + x * 2 \<Longrightarrow>
     text_get_cursor_pos_x w c = x \<and> text_get_cursor_pos_y w c = y"
  by (simp add: text_get_cursor_pos_x_def text_get_cursor_pos_y_def)

text \<open>The terminal when the final \<open>H\<close> of the sequence arrives.\<close>

lemma tty_knputs_cup:
  assumes "parser_idle (ttys c w)"
    and "\<forall>ch \<in> set rs. is_digit ch" "rs \<noteq> []" "digits_value rs < 2 ^ 31"
    and "\<forall>ch \<in> set ks. is_digit ch" "ks \<noteq> []" "digits_value ks < 2 ^ 31"
  shows "tty_knputs ([0x1B, 0x5b] @ rs @ [0x3b] @ ks @ [0x48]) w c =
    text_putchar 0x48 w (tty_upd w (\<lambda>t. t\<lparr>escape := True, esc_value0 := digits_value rs,
      esc_default0 := False, esc_second := True, esc_value1 := digits_value ks, esc_default1 := False\<rparr>) c)"
proof -
  let ?c1 = "tty_upd w (\<lambda>t. t\<lparr>escape := True\<rparr>) c"
  let ?c2 = "tty_upd w (\<lambda>t. t\<lparr>escape := True, esc_value0 := digits_value rs, esc_default0 := False\<rparr>) c"
  let ?c3 = "tty_upd w (\<lambda>t. t\<lparr>escape := True, esc_value0 := digits_value rs,
      esc_default0 := False, esc_second := True\<rparr>) c"
  have idle: "\<not> escape (ttys c w)" "\<not> esc_second (ttys c w)" "esc_value0 (ttys c w) = 0" "esc_value1 (ttys c w) = 0"
    using assms(1) by (simp_all add: parser_idle_def)
  have "tty_knputs ([0x1B, 0x5b] @ rs @ [0x3b] @ ks @ [0x48]) w c = tty_knputs (rs @ [0x3b] @ ks @ [0x48]) w ?c1"
    using idle by (simp add: text_putchar_def text_putchar_plain_def escape_parse_def)
  also have "\<dots> = tty_knputs ([0x3b] @ ks @ [0x48]) w ?c2"
    using assms(2-4) idle
    by (subst tty_knputs_digits [where a = 0]) (simp_all add: digits_value_def tty_upd_def)
  also have "\<dots> = tty_knputs (ks @ [0x48]) w ?c3"
    by (simp add: text_putchar_def escape_parse_def tty_upd_def)
  also have "\<dots> = tty_knputs [0x48] w (tty_upd w (\<lambda>t. t\<lparr>escape := True,
      esc_value0 := digits_value rs, esc_default0 := False, esc_second := True, esc_value1 := digits_value ks, esc_default1 := False\<rparr>) c)"
    using assms(5-7) idle
    by (subst tty_knputs_digits [where a = 0]) (simp_all add: digits_value_def tty_upd_def)
  also have "\<dots> = text_putchar 0x48 w (tty_upd w (\<lambda>t. t\<lparr>escape := True,
      esc_value0 := digits_value rs, esc_default0 := False, esc_second := True, esc_value1 := digits_value ks, esc_default1 := False\<rparr>) c)"
    by (simp add: bind_eq_Some_conv split: option.splits bind_splits)
  finally show ?thesis .
qed

text \<open>
  Cursor addressing: the sequence \<open>ESC [ r ; k H\<close> with decimal coordinates from 1 on moves the
  cursor to row \<open>r - 1\<close> and column \<open>k - 1\<close>, clamped to the last row and the last column, and
  returns the parser to rest.
\<close>

lemma cursor_address_sequence:
  assumes "console_ok c" and "w < KRNL_TTY_COUNT" and "parser_idle (ttys c w)"
    and "\<forall>ch \<in> set rs. is_digit ch" "rs \<noteq> []" "1 \<le> digits_value rs" "digits_value rs < 2 ^ 31"
    and "\<forall>ch \<in> set ks. is_digit ch" "ks \<noteq> []" "1 \<le> digits_value ks" "digits_value ks < 2 ^ 31"
  shows "\<exists>c'. tty_knputs ([0x1B, 0x5b] @ rs @ [0x3b] @ ks @ [0x48]) w c = Some c' \<and> console_ok c'
    \<and> parser_idle (ttys c' w)
    \<and> int (text_get_cursor_pos_y w c') = min (digits_value rs) 25 - 1
    \<and> int (text_get_cursor_pos_x w c') = min (digits_value ks) 80 - 1"
proof -
  let ?u = "\<lambda>t. t\<lparr>escape := True, esc_value0 := digits_value rs,
      esc_default0 := False, esc_second := True, esc_value1 := digits_value ks, esc_default1 := False\<rparr>"
  let ?c = "tty_upd w ?u c" and ?y = "nat (min (digits_value rs) 25 - 1)" and ?x = "nat (min (digits_value ks) 80 - 1)"
  have ok: "console_ok ?c"
    using assms(1) console_okD [OF assms(1,2)] by (intro console_ok_tty_upd) (auto simp: tty_ok_def)
  have "cup_row (?u (ttys c w)) = min (digits_value rs) 25 - 1" "cup_col (?u (ttys c w)) = min (digits_value ks) 80 - 1"
    using assms(6,7,10,11) by (simp_all add: cup_row_def cup_col_def s32_id Let_def)
  then have pos: "cursor_position w ?c = text_set_cursor_pos ?x ?y w ?c"
    using assms(6,10) by (simp add: cursor_position_def u32_of_id)
  have xy: "?x < 80" "?y < 25" using assms(6,10) by auto
  from set_cursor_pos_step [OF ok assms(2) xy] obtain c1 where c1: "text_set_cursor_pos ?x ?y w ?c = Some c1"
    "console_ok c1" by (auto simp: step_ok_def)
  note off = set_cursor_pos_eq [OF ok assms(2) xy c1(1)]
  let ?c' = "tty_upd w esc_reset c1"
  have "tty_knputs ([0x1B, 0x5b] @ rs @ [0x3b] @ ks @ [0x48]) w c = Some ?c'"
    unfolding tty_knputs_cup [OF assms(3) assms(4,5,7) assms(8,9,11)]
    by (simp add: text_putchar_def escape_parse_def escape_command_def pos c1(1))
  moreover have "console_ok ?c'" using c1(2) console_okD [OF c1(2) assms(2)]
    by (intro console_ok_tty_upd) (auto simp: esc_reset_def tty_ok_def)
  moreover have "text_get_cursor_pos_x w ?c' = ?x \<and> text_get_cursor_pos_y w ?c' = ?y"
    using off by (intro cursor_offset_xy [OF xy(1)]) (simp add: esc_reset_def)
  moreover have "parser_idle (ttys ?c' w)" by (simp add: parser_idle_def esc_reset_def)
  ultimately show ?thesis using assms(6,10) by (intro exI [of _ ?c']) auto
qed

lemma cursor_address_sequence_witness:
  "\<exists>c'. tty_knputs ([0x1B, 0x5b] @ [0x39, 0x39] @ [0x3b] @ [0x31, 0x30] @ [0x48]) 2
      (switch_tty 0 (init_tty (bss_console (\<lambda>_. 0)))) = Some c'
     \<and> text_get_cursor_pos_y 2 c' = 24 \<and> text_get_cursor_pos_x 2 c' = 9"
proof -
  let ?c = "switch_tty 0 (init_tty (bss_console (\<lambda>_. 0)))"
  have "parser_idle (ttys ?c 2)"
    by (simp add: parser_idle_def switch_tty_def init_tty_def init_tty_t_def)
  with cursor_address_sequence [OF console_ok_boot [of "\<lambda>_. 0"], of 2 "[0x39, 0x39]" "[0x31, 0x30]"]
  obtain c' where "tty_knputs ([0x1B, 0x5b] @ [0x39, 0x39] @ [0x3b] @ [0x31, 0x30] @ [0x48]) 2 ?c = Some c'"
    "int (text_get_cursor_pos_y 2 c') = 24" "int (text_get_cursor_pos_x 2 c') = 9"
    by (auto simp del: append_Cons tty_knputs.simps simp: is_digit_def digits_value_def)
  then show ?thesis by auto
qed

text \<open>
  \<open>ESC [ 0 H\<close>: the row is decremented without a lower bound, so a terminal with a visible
  cursor writes the cursor outside its screen.
\<close>

lemma cursor_address_zero_faults:
  assumes "console_ok c" and "w < KRNL_TTY_COUNT" and "parser_idle (ttys c w)" and "cursor_status (ttys c w)"
  shows "tty_knputs [0x1B, 0x5b, 0x30, 0x48] w c = None"
proof -
  let ?c = "tty_upd w (\<lambda>t. t\<lparr>escape := True, esc_value0 := 0, esc_default0 := False\<rparr>) c"
  have ok: "console_ok ?c"
    using assms(1) console_okD [OF assms(1,2)] by (intro console_ok_tty_upd) (auto simp: tty_ok_def)
  have d: "\<not> escape (ttys c w)" "\<not> esc_second (ttys c w)" "esc_default1 (ttys c w)" "esc_value0 (ttys c w) = 0"
    using assms(3) by (simp_all add: parser_idle_def)
  have "text_set_cursor_pos 0 4294967295 w ?c = None"
    using assms(4) by (simp add: text_set_cursor_pos_def clear_cursor_eq [OF ok assms(2)] draw_cursor_def wr_cell_def)
  then have "cursor_position w ?c = None"
    using d by (simp add: cursor_position_def cup_row_def cup_col_def s32_def u32_of_def)
  then have "text_putchar 0x48 w ?c = None"
    by (simp add: text_putchar_def escape_parse_def escape_command_def)
  moreover have "tty_knputs [0x1B, 0x5b, 0x30, 0x48] w c = tty_knputs [0x48] w ?c"
    using d by (simp add: text_putchar_def text_putchar_plain_def escape_parse_def esc_digit_def s32_def tty_upd_def)
  ultimately show ?thesis by simp
qed

lemma cursor_address_zero_faults_witness:
  "tty_knputs [0x1B, 0x5b, 0x30, 0x48] 0 (switch_tty 0 (init_tty (bss_console (\<lambda>_. 0)))) = None"
  by (rule cursor_address_zero_faults [OF console_ok_boot])
     (simp_all add: parser_idle_def switch_tty_def init_tty_def init_tty_t_def)

end
