(* ===== verification/Keyboard.thy ===== *)
theory Keyboard
  imports Tty
begin

text \<open>
  The keyboard, \<open>kernel/src/drivers/keyboard.c\<close>: translation of scancodes, the line editor of
  each terminal and the queue of finished input from which programs read.

  A terminal collects the line being typed in \<open>kb_l1_buffer\<close> (256 bytes) and moves it to
  \<open>kb_l2_buffer\<close> (2048 bytes) when return is pressed; in raw mode characters go to the second
  buffer at once.  An access outside a table or a buffer is a fault, so the 16-bit indices never
  wrap.  \<open>pending\<close> and \<open>ready\<close> are what the two buffers hold.

  The locale \<open>fifo\<close> is the contract of the queue between the interrupt handler and the reader;
  the second buffer is shown to fulfil it.
\<close>

definition ascii_capslock :: "u8 list" where
  "ascii_capslock = [
     0x00, 0x3f, 0x31, 0x32, 0x33, 0x34, 0x35, 0x36, 0x37, 0x38, 0x39, 0x30, 0x2d, 0x3d, 0x08, 0x09,
     0x51, 0x57, 0x45, 0x52, 0x54, 0x59, 0x55, 0x49, 0x4f, 0x50, 0x5b, 0x5d, 0x0a, 0x00, 0x41, 0x53,
     0x44, 0x46, 0x47, 0x48, 0x4a, 0x4b, 0x4c, 0x3b, 0x27, 0x60, 0x00, 0x5c, 0x5a, 0x58, 0x43, 0x56,
     0x42, 0x4e, 0x4d, 0x2c, 0x2e, 0x2f, 0x00, 0x00, 0x00, 0x20]"

definition ascii_shift :: "u8 list" where
  "ascii_shift = [
     0x00, 0x3f, 0x21, 0x40, 0x23, 0x24, 0x25, 0x5e, 0x26, 0x2a, 0x28, 0x29, 0x5f, 0x2b, 0x08, 0x09,
     0x51, 0x57, 0x45, 0x52, 0x54, 0x59, 0x55, 0x49, 0x4f, 0x50, 0x7b, 0x7d, 0x0a, 0x00, 0x41, 0x53,
     0x44, 0x46, 0x47, 0x48, 0x4a, 0x4b, 0x4c, 0x3a, 0x22, 0x7e, 0x00, 0x7c, 0x5a, 0x58, 0x43, 0x56,
     0x42, 0x4e, 0x4d, 0x3c, 0x3e, 0x3f, 0x00, 0x00, 0x00, 0x20]"

definition ascii_shift_capslock :: "u8 list" where
  "ascii_shift_capslock = [
     0x00, 0x3f, 0x21, 0x40, 0x23, 0x24, 0x25, 0x5e, 0x26, 0x2a, 0x28, 0x29, 0x5f, 0x2b, 0x08, 0x09,
     0x71, 0x77, 0x65, 0x72, 0x74, 0x79, 0x75, 0x69, 0x6f, 0x70, 0x7b, 0x7d, 0x0a, 0x00, 0x61, 0x73,
     0x64, 0x66, 0x67, 0x68, 0x6a, 0x6b, 0x6c, 0x3a, 0x22, 0x7e, 0x00, 0x7c, 0x7a, 0x78, 0x63, 0x76,
     0x62, 0x6e, 0x6d, 0x3c, 0x3e, 0x3f, 0x00, 0x00, 0x00, 0x20]"

definition ascii_nomod :: "u8 list" where
  "ascii_nomod = [
     0x00, 0x3f, 0x31, 0x32, 0x33, 0x34, 0x35, 0x36, 0x37, 0x38, 0x39, 0x30, 0x2d, 0x3d, 0x08, 0x09,
     0x71, 0x77, 0x65, 0x72, 0x74, 0x79, 0x75, 0x69, 0x6f, 0x70, 0x5b, 0x5d, 0x0a, 0x00, 0x61, 0x73,
     0x64, 0x66, 0x67, 0x68, 0x6a, 0x6b, 0x6c, 0x3b, 0x27, 0x60, 0x00, 0x5c, 0x7a, 0x78, 0x63, 0x76,
     0x62, 0x6e, 0x6d, 0x2c, 0x2e, 0x2f, 0x00, 0x00, 0x00, 0x20]"

record keyboard =
  capslock_active :: bool
  shift_active :: bool
  ctrl_active :: bool
  led_status :: u8
  is_eof :: bool
  con :: console

definition keyboard_char :: "bool \<Rightarrow> bool \<Rightarrow> u8 \<Rightarrow> u8 option" where
  "keyboard_char caps shift input_byte =
     arr_get (if \<not> caps \<and> \<not> shift then ascii_nomod
              else if \<not> caps \<and> shift then ascii_shift
              else if caps \<and> shift then ascii_shift_capslock
              else ascii_capslock) (unat input_byte)"

text \<open>The terminal a shifted function key selects.\<close>

definition switch_key :: "u8 \<Rightarrow> nat option" where
  "switch_key input_byte = map_of [(0x58, 0), (0x3b, 1), (0x3c, 2), (0x3d, 3), (0x3e, 4), (0x3f, 5), (0x40, 6)] input_byte"

text \<open>The effects of a key on the two buffers of a terminal.\<close>

definition l2_put :: "u8 \<Rightarrow> tty_t \<Rightarrow> tty_t option" where
  "l2_put ch t = do {
     b \<leftarrow> arr_set (kb_l2_buffer t) (kb_l2_buffer_index t) ch;
     Some (t\<lparr>kb_l2_buffer := b, kb_l2_buffer_index := kb_l2_buffer_index t + 1\<rparr>) }"

definition l1_put :: "u8 \<Rightarrow> tty_t \<Rightarrow> tty_t option" where
  "l1_put ch t = do {
     b \<leftarrow> arr_set (kb_l1_buffer t) (kb_l1_buffer_index t) ch;
     Some (t\<lparr>kb_l1_buffer := b, kb_l1_buffer_index := kb_l1_buffer_index t + 1\<rparr>) }"

definition l1_erase :: "tty_t \<Rightarrow> tty_t option" where
  "l1_erase t = do {
     b \<leftarrow> arr_set (kb_l1_buffer t) (kb_l1_buffer_index t) 0;
     Some (t\<lparr>kb_l1_buffer := b, kb_l1_buffer_index := kb_l1_buffer_index t - 1\<rparr>) }"

definition l1_commit :: "tty_t \<Rightarrow> tty_t option" where
  "l1_commit t = do {
     t \<leftarrow> l1_put 0x0A t;
     b2 \<leftarrow> arr_copy (kb_l2_buffer t) (kb_l2_buffer_index t) (kb_l1_buffer t) (kb_l1_buffer_index t + 1);
     b1 \<leftarrow> arr_set (kb_l1_buffer t) 0 0;
     Some (t\<lparr>kb_l2_buffer := b2, kb_l2_buffer_index := kb_l2_buffer_index t + kb_l1_buffer_index t,
            kb_l1_buffer := b1, kb_l1_buffer_index := 0\<rparr>) }"

definition tty_try :: "nat \<Rightarrow> (tty_t \<Rightarrow> tty_t option) \<Rightarrow> console \<Rightarrow> console option" where
  "tty_try w f c = map_option (\<lambda>t. tty_upd w (\<lambda>_. t) c) (f (ttys c w))"

text \<open>A key of the terminal on display, once the scancode has been translated.\<close>

definition key_typed :: "u8 \<Rightarrow> console \<Rightarrow> console option" where
  "key_typed ch c =
     (let w = current_tty c in
      if raw (ttys c w) then tty_try w (l2_put ch) c
      else if ch = 0x08 then
        if kb_l1_buffer_index (ttys c w) = 0 then Some c
        else do { c \<leftarrow> text_putchar ch w c; tty_try w l1_erase c }
      else if ch = 0x0A then do { c \<leftarrow> text_putchar ch w c; tty_try w l1_commit c }
      else do { c \<leftarrow> text_putchar ch w c; tty_try w (l1_put ch) c })"

definition toggle_capslock :: "keyboard \<Rightarrow> keyboard" where
  "toggle_capslock k =
     k\<lparr>led_status := (if \<not> capslock_active k then led_status k OR 0x04 else led_status k AND 0xFB),
       capslock_active := \<not> capslock_active k\<rparr>"

definition keyboard_handler :: "u8 \<Rightarrow> keyboard \<Rightarrow> keyboard option" where
  "keyboard_handler input_byte k =
     (case (if shift_active k then switch_key input_byte else None) of
        Some w \<Rightarrow> Some (k\<lparr>con := switch_tty w (con k)\<rparr>)
      | None \<Rightarrow>
        if ctrl_active k \<and> input_byte = 0x2e then Some k
        else if input_byte = 0x3A then Some (toggle_capslock k)
        else if input_byte \<in> {0x2A, 0x36, 0xAA, 0xB6} then Some (k\<lparr>shift_active := \<not> shift_active k\<rparr>)
        else if input_byte \<in> {0x1D, 0x9D} then Some (k\<lparr>ctrl_active := \<not> ctrl_active k\<rparr>)
        else if kb_l1_buffer_index (ttys (con k) (current_tty (con k))) < 256 then
          if input_byte < 0x57 then do {
            ch \<leftarrow> keyboard_char (capslock_active k) (shift_active k) input_byte;
            c \<leftarrow> key_typed ch (con k);
            Some (k\<lparr>con := c\<rparr>) }
          else Some k
        else Some k)"

text \<open>Taking the first byte of the second buffer: the remaining 2047 bytes move down one place.\<close>

definition l2_take :: "tty_t \<Rightarrow> u8 \<times> tty_t" where
  "l2_take t =
     (kb_l2_buffer t ! 0,
      t\<lparr>kb_l2_buffer_index := kb_l2_buffer_index t - 1,
        kb_l2_buffer := iterate 2047 (\<lambda>i b. b[i := b ! (i + 1)]) (kb_l2_buffer t)\<rparr>)"

definition keyboard_fetch_char :: "nat \<Rightarrow> keyboard \<Rightarrow> int \<times> keyboard" where
  "keyboard_fetch_char w k =
     (if is_eof k then (-1, k\<lparr>is_eof := False\<rparr>)
      else if kb_l2_buffer_index (ttys (con k) w) \<noteq> 0 then
        let (ch, t) = l2_take (ttys (con k) w)
        in (sint ch, k\<lparr>con := tty_upd w (\<lambda>_. t) (con k), is_eof := (if ch = 0x0A then True else is_eof k)\<rparr>)
      else if noblock (ttys (con k) w) then (0, k)
      else (IO_NOT_READY, k))"

text \<open>
  The terminal device: \<open>tty_io_wrapper\<close> of \<open>kernel/src/drivers/tty/tty.c\<close>.  For any other
  request the function ends without a return value, here a fault.
\<close>

definition tty_io_wrapper :: "nat \<Rightarrow> int \<Rightarrow> u8 \<Rightarrow> keyboard \<Rightarrow> (int \<times> keyboard) option" where
  "tty_io_wrapper w type payload k =
     (if type = DF_WRITE then map_option (\<lambda>c. (0, k\<lparr>con := c\<rparr>)) (text_putchar payload w (con k))
      else if type = DF_READ then Some (keyboard_fetch_char w k)
      else None)"

subsection \<open>The input queue\<close>

locale fifo =
  fixes contents :: "'s \<Rightarrow> 'a list"
    and inv :: "'s \<Rightarrow> bool"
    and push :: "'a \<Rightarrow> 's \<Rightarrow> 's option"
    and pop :: "'s \<Rightarrow> 'a \<times> 's"
  assumes push_contents: "inv s \<Longrightarrow> push x s = Some s' \<Longrightarrow> inv s' \<and> contents s' = contents s @ [x]"
    and pop_contents: "inv s \<Longrightarrow> contents s = x # xs \<Longrightarrow> pop s = (y, s') \<Longrightarrow>
      y = x \<and> inv s' \<and> contents s' = xs"
begin

primrec push_all :: "'a list \<Rightarrow> 's \<Rightarrow> 's option" where
  "push_all [] s = Some s"
| "push_all (x # xs) s = push x s \<bind> push_all xs"

primrec pop_n :: "nat \<Rightarrow> 's \<Rightarrow> 'a list \<times> 's" where
  "pop_n 0 s = ([], s)"
| "pop_n (Suc n) s = (let (x, s1) = pop s; (xs, s2) = pop_n n s1 in (x # xs, s2))"

lemma push_all_contents:
  "inv s \<Longrightarrow> push_all xs s = Some s' \<Longrightarrow> inv s' \<and> contents s' = contents s @ xs"
proof (induction xs arbitrary: s)
  case (Cons x xs)
  then obtain s1 where s1: "push x s = Some s1" "push_all xs s1 = Some s'" by (auto split: bind_splits)
  with push_contents [OF Cons.prems(1) s1(1)] Cons.IH [of s1] show ?case by simp
qed simp

lemma pop_n_contents:
  "inv s \<Longrightarrow> contents s = xs @ ys \<Longrightarrow> pop_n (length xs) s = (zs, s') \<Longrightarrow>
     zs = xs \<and> inv s' \<and> contents s' = ys"
proof (induction xs arbitrary: s zs)
  case (Cons x xs)
  obtain y s1 where y: "pop s = (y, s1)" by (cases "pop s")
  obtain us s2 where u: "pop_n (length xs) s1 = (us, s2)" by (cases "pop_n (length xs) s1")
  from pop_contents [OF Cons.prems(1) _ y, of x "xs @ ys"] Cons.prems(2)
  have "y = x" "inv s1" "contents s1 = xs @ ys" by auto
  moreover have "zs = y # us" "s' = s2" using Cons.prems(3) y u by auto
  ultimately show ?case using Cons.IH [of s1 us] u by auto
qed simp

lemma first_in_first_out:
  "inv s \<Longrightarrow> contents s = [] \<Longrightarrow> push_all xs s = Some s' \<Longrightarrow> pop_n (length xs) s' = (zs, s'') \<Longrightarrow>
     zs = xs \<and> contents s'' = []"
  using push_all_contents [of s xs s'] pop_n_contents [of s' xs "[]" zs s''] by simp

end

text \<open>What the two buffers of a terminal hold, and their invariant.\<close>

definition pending :: "tty_t \<Rightarrow> u8 list" where
  "pending t = take (kb_l1_buffer_index t) (kb_l1_buffer t)"

definition ready :: "tty_t \<Rightarrow> u8 list" where
  "ready t = take (kb_l2_buffer_index t) (kb_l2_buffer t)"

definition kb_ok :: "tty_t \<Rightarrow> bool" where
  "kb_ok t \<longleftrightarrow> length (kb_l1_buffer t) = 256 \<and> length (kb_l2_buffer t) = 2048
     \<and> kb_l1_buffer_index t \<le> 256 \<and> kb_l2_buffer_index t \<le> 2048"

lemma shift_down:
  "n < length b \<Longrightarrow> iterate n (\<lambda>i b. b[i := b ! (i + 1)]) b = take n (tl b) @ drop n b"
proof -
  have "m \<le> n \<Longrightarrow> n < length b \<Longrightarrow> iterate m (\<lambda>i b. b[i := b ! (i + 1)]) b = take m (tl b) @ drop m b" for m
  proof (induction m)
    case (Suc m)
    have l: "length (take m (tl b)) = m" using Suc.prems by simp
    have d: "drop m b = b ! m # drop (Suc m) b" "drop (Suc m) b = b ! Suc m # drop (Suc (Suc m)) b"
      using Suc.prems by (simp_all add: Cons_nth_drop_Suc)
    have "take (Suc m) (tl b) = take m (tl b) @ [b ! Suc m]"
      using Suc.prems by (simp add: take_Suc_conv_app_nth nth_tl)
    moreover have "(take m (tl b) @ drop m b) ! Suc m = b ! Suc m"
      using l Suc.prems by (simp add: nth_append)
    ultimately show ?case using Suc l d by (simp add: list_update_append)
  qed simp
  then show "n < length b \<Longrightarrow> ?thesis" by simp
qed

lemma l2_take_ready:
  assumes "kb_ok t" and "ready t = x # xs" and "l2_take t = (y, t')"
  shows "y = x \<and> kb_ok t' \<and> ready t' = xs"
proof -
  let ?b = "kb_l2_buffer t" and ?n = "kb_l2_buffer_index t"
  have n: "0 < ?n" "?n \<le> 2048" "length ?b = 2048" using assms(1,2) by (cases ?n; auto simp: kb_ok_def ready_def)+
  then obtain z zs where b: "?b = z # zs" "length zs = 2047" by (cases ?b) auto
  have x: "x = z" "xs = take (?n - 1) zs" using assms(2) b n by (auto simp: ready_def take_Cons')
  have sh: "iterate 2047 (\<lambda>i b. b[i := b ! (i + 1)]) ?b = take 2047 zs @ drop 2047 ?b"
    using shift_down [of 2047 ?b] n(3) b by simp
  have t': "y = z" "t' = t\<lparr>kb_l2_buffer_index := ?n - 1, kb_l2_buffer := take 2047 zs @ drop 2047 ?b\<rparr>"
    using assms(3) b sh by (auto simp: l2_take_def)
  have "take (?n - 1) (take 2047 zs @ drop 2047 ?b) = take (?n - 1) zs" using n b by simp
  moreover have "length (take 2047 zs @ drop 2047 ?b) = 2048" using n(3) b by simp
  ultimately show ?thesis using assms(1) t' x n by (auto simp: kb_ok_def ready_def)
qed

lemma l2_put_ready:
  "kb_ok t \<Longrightarrow> l2_put ch t = Some t' \<Longrightarrow> kb_ok t' \<and> ready t' = ready t @ [ch]"
  by (auto simp: l2_put_def kb_ok_def ready_def arr_simps bind_eq_Some_conv take_Suc_conv_app_nth)

interpretation kbq: fifo ready kb_ok l2_put l2_take
  by unfold_locales (blast dest: l2_put_ready l2_take_ready)+


subsection \<open>Line editing\<close>

lemma l1_put_pending:
  "kb_ok t \<Longrightarrow> kb_l1_buffer_index t < 256 \<Longrightarrow>
     \<exists>t'. l1_put ch t = Some t' \<and> kb_ok t' \<and> pending t' = pending t @ [ch] \<and> ready t' = ready t
       \<and> kb_l1_buffer_index t' = kb_l1_buffer_index t + 1 \<and> kb_l2_buffer_index t' = kb_l2_buffer_index t
       \<and> field t' = field t \<and> cursor_offset t' = cursor_offset t"
  by (auto simp: l1_put_def kb_ok_def pending_def ready_def take_Suc_conv_app_nth)

lemma l1_erase_pending:
  "kb_ok t \<Longrightarrow> kb_l1_buffer_index t < 256 \<Longrightarrow>
     \<exists>t'. l1_erase t = Some t' \<and> kb_ok t' \<and> pending t' = butlast (pending t) \<and> ready t' = ready t
       \<and> field t' = field t \<and> cursor_offset t' = cursor_offset t"
  by (auto simp: l1_erase_def kb_ok_def pending_def ready_def butlast_take)

lemma l1_commit_ready:
  assumes "kb_ok t" and "kb_l1_buffer_index t < 255" and "kb_l1_buffer_index t + kb_l2_buffer_index t + 2 \<le> 2048"
  shows "\<exists>t'. l1_commit t = Some t' \<and> kb_ok t' \<and> pending t' = [] \<and> ready t' = ready t @ pending t @ [0x0A]
       \<and> field t' = field t \<and> cursor_offset t' = cursor_offset t"
proof -
  from l1_put_pending [OF assms(1), of "0x0A"] assms(2) obtain t1 where t1: "l1_put 0x0A t = Some t1" "kb_ok t1"
    "pending t1 = pending t @ [0x0A]" "ready t1 = ready t" "kb_l1_buffer_index t1 = kb_l1_buffer_index t + 1"
    "kb_l2_buffer_index t1 = kb_l2_buffer_index t" "field t1 = field t" "cursor_offset t1 = cursor_offset t" by auto
  let ?i = "kb_l1_buffer_index t + 1" and ?j = "kb_l2_buffer_index t"
  let ?b = "take ?j (kb_l2_buffer t1) @ take (?i + 1) (kb_l1_buffer t1) @ drop (?j + (?i + 1)) (kb_l2_buffer t1)"
  have l: "length (kb_l1_buffer t1) = 256" "length (kb_l2_buffer t1) = 2048" using t1(2) by (simp_all add: kb_ok_def)
  have "arr_copy (kb_l2_buffer t1) ?j (kb_l1_buffer t1) (?i + 1) = Some ?b"
    using l assms(2,3) by (simp add: arr_copy_def)
  then have c: "l1_commit t = Some (t1\<lparr>kb_l2_buffer := ?b, kb_l2_buffer_index := ?j + ?i,
      kb_l1_buffer := (kb_l1_buffer t1)[0 := 0], kb_l1_buffer_index := 0\<rparr>)"
    using t1 l by (simp add: l1_commit_def)
  have "take (?j + ?i) ?b = take ?j (kb_l2_buffer t1) @ take ?i (kb_l1_buffer t1)"
    using l assms(2,3) by (simp add: min_def)
  moreover have "length ?b = 2048" using l assms(2,3) by simp
  ultimately show ?thesis
    unfolding c using t1 l assms by (simp add: kb_ok_def pending_def ready_def)
qed

text \<open>Printing outside an escape sequence does not touch the keyboard side of a terminal.\<close>

definition kb_view :: "tty_t \<Rightarrow> u8 list \<times> u8 list \<times> nat \<times> nat \<times> bool" where
  "kb_view t = (kb_l1_buffer t, kb_l2_buffer t, kb_l1_buffer_index t, kb_l2_buffer_index t, raw t)"

lemma wr_cell_view: "wr_cell w off v c = Some c' \<Longrightarrow> kb_view (ttys c' w) = kb_view (ttys c w)"
  by (auto simp: wr_cell_def kb_view_def split: if_splits)

lemma cursor_view:
  "clear_cursor w c = Some c' \<Longrightarrow> kb_view (ttys c' w) = kb_view (ttys c w)"
  "draw_cursor w c = Some c' \<Longrightarrow> kb_view (ttys c' w) = kb_view (ttys c w)"
  by (auto simp: clear_cursor_def draw_cursor_def split: if_splits dest: wr_cell_view)

lemma set_cursor_pos_view:
  "text_set_cursor_pos x y w c = Some c' \<Longrightarrow> kb_view (ttys c' w) = kb_view (ttys c w)"
  unfolding text_set_cursor_pos_def bind_eq_Some_conv
  by (auto dest!: cursor_view simp: kb_view_def)

lemma putchar_view:
  assumes "text_putchar_plain ch w c = Some c'"
  shows "kb_view (ttys c' w) = kb_view (ttys c w)"
proof -
  have g: "kb_view (ttys c' w) = kb_view (ttys c w)" if "put_glyph ch w c = Some c'" for ch
    using that unfolding put_glyph_def bind_eq_Some_conv
    by (auto dest!: cursor_view wr_cell_view simp: kb_view_def Let_def split: if_splits)
  have n: "kb_view (ttys c' w) = kb_view (ttys c w)" if "put_newline w c = Some c'"
    using that unfolding put_newline_def
    by (auto dest!: cursor_view set_cursor_pos_view simp: kb_view_def bind_eq_Some_conv split: if_splits)
  have b: "kb_view (ttys c' w) = kb_view (ttys c w)" if "put_backspace w c = Some c'"
    using that unfolding put_backspace_def
    by (auto dest!: cursor_view wr_cell_view simp: kb_view_def bind_eq_Some_conv Let_def split: if_splits)
  from assms g n b show ?thesis
    unfolding text_putchar_plain_def by (auto simp: kb_view_def split: if_splits)
qed

lemma kb_view_cong:
  "kb_view t' = kb_view t \<Longrightarrow> pending t' = pending t \<and> ready t' = ready t \<and> kb_ok t' = kb_ok t
     \<and> kb_l1_buffer_index t' = kb_l1_buffer_index t \<and> kb_l2_buffer_index t' = kb_l2_buffer_index t"
  by (simp add: kb_view_def pending_def ready_def kb_ok_def)

text \<open>Echo, then an effect on the buffers.\<close>

lemma echo_then:
  assumes "console_ok c" and "w < KRNL_TTY_COUNT" and "\<not> escape (ttys c w)"
    and "\<And>t. kb_view t = kb_view (ttys c w) \<Longrightarrow>
      \<exists>t'. f t = Some t' \<and> P t' \<and> field t' = field t \<and> cursor_offset t' = cursor_offset t"
  shows "\<exists>c'. text_putchar ch w c \<bind> tty_try w f = Some c' \<and> console_ok c' \<and> current_tty c' = current_tty c
    \<and> (\<forall>v. v \<noteq> w \<longrightarrow> ttys c' v = ttys c v) \<and> P (ttys c' w)"
proof -
  have eq: "text_putchar ch w c = text_putchar_plain ch w c" using assms(3) by (simp add: text_putchar_def)
  from putchar_plain_step [OF assms(1,2), of ch] obtain c1 where c1: "text_putchar_plain ch w c = Some c1"
    "console_ok c1" "current_tty c1 = current_tty c" "\<And>v. v \<noteq> w \<Longrightarrow> ttys c1 v = ttys c v"
    by (auto simp: step_ok_def)
  from assms(4) [OF putchar_view [OF c1(1)]] obtain t' where t': "f (ttys c1 w) = Some t'" "P t'"
    "field t' = field (ttys c1 w)" "cursor_offset t' = cursor_offset (ttys c1 w)" by blast
  have "console_ok (tty_upd w (\<lambda>_. t') c1)"
    using c1(2) t' console_okD [OF c1(2) assms(2)] by (intro console_ok_tty_upd) (auto simp: tty_ok_def)
  with t' c1 eq show ?thesis by (auto simp: tty_try_def)
qed

text \<open>An ordinary key: neither a terminal switch, nor control-c, nor a modifier.\<close>

definition plain_key :: "u8 \<Rightarrow> keyboard \<Rightarrow> bool" where
  "plain_key sc k \<longleftrightarrow> (shift_active k \<longrightarrow> switch_key sc = None) \<and> \<not> (ctrl_active k \<and> sc = 0x2e)
     \<and> sc \<noteq> 0x3A \<and> sc \<notin> {0x2A, 0x36, 0xAA, 0xB6} \<and> sc \<notin> {0x1D, 0x9D} \<and> sc < 0x57"

lemma keyboard_handler_plain:
  "plain_key sc k \<Longrightarrow> kb_l1_buffer_index (ttys (con k) (current_tty (con k))) < 256 \<Longrightarrow>
     keyboard_char (capslock_active k) (shift_active k) sc = Some ch \<Longrightarrow>
     keyboard_handler sc k = map_option (\<lambda>c. k\<lparr>con := c\<rparr>) (key_typed ch (con k))"
  by (auto simp: plain_key_def keyboard_handler_def map_conv_bind_option comp_def split: option.splits)

text \<open>What a key does to the line being typed and to the finished input.\<close>

definition line_edit :: "u8 \<Rightarrow> u8 list \<times> u8 list \<Rightarrow> u8 list \<times> u8 list" where
  "line_edit ch = (\<lambda>(pend, rdy).
     if ch = 0x08 then (butlast pend, rdy)
     else if ch = 0x0A then ([], rdy @ pend @ [0x0A])
     else (pend @ [ch], rdy))"

lemma key_typed_line:
  assumes "console_ok c" and "w = current_tty c" and "kb_ok (ttys c w)"
    and "\<not> raw (ttys c w)" and "\<not> escape (ttys c w)"
    and "kb_l1_buffer_index (ttys c w) < 255"
    and "kb_l1_buffer_index (ttys c w) + kb_l2_buffer_index (ttys c w) + 2 \<le> 2048"
  shows "\<exists>c'. key_typed ch c = Some c' \<and> console_ok c' \<and> current_tty c' = current_tty c
    \<and> (\<forall>v. v \<noteq> w \<longrightarrow> ttys c' v = ttys c v) \<and> kb_ok (ttys c' w)
    \<and> (pending (ttys c' w), ready (ttys c' w)) = line_edit ch (pending (ttys c w), ready (ttys c w))"
proof -
  let ?P = "\<lambda>t'. kb_ok t' \<and> (pending t', ready t') = line_edit ch (pending (ttys c w), ready (ttys c w))"
  have w: "w < 7" using assms(1,2) by (simp add: console_ok_def)
  note echo = echo_then [OF assms(1) w assms(5), where P = ?P and ch = ch]
  consider "ch = 0x08" "kb_l1_buffer_index (ttys c w) = 0" | "ch = 0x08" "kb_l1_buffer_index (ttys c w) \<noteq> 0"
    | "ch = 0x0A" | "ch \<noteq> 0x08" "ch \<noteq> 0x0A" by blast
  then show ?thesis
  proof cases
    case 1
    then show ?thesis using assms by (auto simp: key_typed_def line_edit_def pending_def)
  next
    case 2
    have "\<exists>c'. text_putchar ch w c \<bind> tty_try w l1_erase = Some c' \<and> console_ok c' \<and> current_tty c' = current_tty c
      \<and> (\<forall>v. v \<noteq> w \<longrightarrow> ttys c' v = ttys c v) \<and> ?P (ttys c' w)"
    proof (rule echo)
      fix t assume v: "kb_view t = kb_view (ttys c w)"
      then show "\<exists>t'. l1_erase t = Some t' \<and> ?P t' \<and> field t' = field t \<and> cursor_offset t' = cursor_offset t"
        using l1_erase_pending [of t] kb_view_cong [OF v] assms(3,6) 2 by (auto simp: line_edit_def)
    qed
    then show ?thesis using 2 assms(2,4) by (simp add: key_typed_def Let_def)
  next
    case 3
    have "\<exists>c'. text_putchar ch w c \<bind> tty_try w l1_commit = Some c' \<and> console_ok c' \<and> current_tty c' = current_tty c
      \<and> (\<forall>v. v \<noteq> w \<longrightarrow> ttys c' v = ttys c v) \<and> ?P (ttys c' w)"
    proof (rule echo)
      fix t assume v: "kb_view t = kb_view (ttys c w)"
      then show "\<exists>t'. l1_commit t = Some t' \<and> ?P t' \<and> field t' = field t \<and> cursor_offset t' = cursor_offset t"
        using l1_commit_ready [of t] kb_view_cong [OF v] assms(3,6,7) 3 by (auto simp: line_edit_def)
    qed
    then show ?thesis using 3 assms(2,4) by (simp add: key_typed_def Let_def)
  next
    case 4
    have "\<exists>c'. text_putchar ch w c \<bind> tty_try w (l1_put ch) = Some c' \<and> console_ok c' \<and> current_tty c' = current_tty c
      \<and> (\<forall>v. v \<noteq> w \<longrightarrow> ttys c' v = ttys c v) \<and> ?P (ttys c' w)"
    proof (rule echo)
      fix t assume v: "kb_view t = kb_view (ttys c w)"
      then show "\<exists>t'. l1_put ch t = Some t' \<and> ?P t' \<and> field t' = field t \<and> cursor_offset t' = cursor_offset t"
        using l1_put_pending [of t ch] kb_view_cong [OF v] assms(3,6) 4 by (auto simp: line_edit_def)
    qed
    then show ?thesis using 4 assms(2,4) by (simp add: key_typed_def Let_def)
  qed
qed


text \<open>
  C19. Line editing: an ordinary key on the terminal on display, outside raw mode, with fewer than 255
  characters typed and room for the line in the input queue, is echoed and edits the line as the
  abstract line editor does: backspace removes the last character, return appends the line with its
  newline to the finished input, any other key extends the line.  No other terminal changes.
\<close>

theorem keyboard_edits_line:
  assumes "plain_key sc k" and "keyboard_char (capslock_active k) (shift_active k) sc = Some ch"
    and "console_ok (con k)" and "w = current_tty (con k)" and "kb_ok (ttys (con k) w)"
    and "\<not> raw (ttys (con k) w)" and "\<not> escape (ttys (con k) w)"
    and "kb_l1_buffer_index (ttys (con k) w) < 255"
    and "kb_l1_buffer_index (ttys (con k) w) + kb_l2_buffer_index (ttys (con k) w) + 2 \<le> 2048"
  shows "\<exists>k'. keyboard_handler sc k = Some k' \<and> console_ok (con k')
    \<and> (\<forall>v. v \<noteq> w \<longrightarrow> ttys (con k') v = ttys (con k) v) \<and> kb_ok (ttys (con k') w)
    \<and> (pending (ttys (con k') w), ready (ttys (con k') w))
        = line_edit ch (pending (ttys (con k) w), ready (ttys (con k) w))"
proof -
  have "keyboard_handler sc k = map_option (\<lambda>c. k\<lparr>con := c\<rparr>) (key_typed ch (con k))"
    using assms(1,2,4,8) by (intro keyboard_handler_plain) auto
  with key_typed_line [OF assms(3-9), of ch] show ?thesis by auto
qed

text \<open>A keyboard on freshly initialised terminals.\<close>

definition boot_keyboard :: keyboard where
  "boot_keyboard = \<lparr>capslock_active = False, shift_active = False, ctrl_active = False, led_status = 0,
     is_eof = False, con = switch_tty 0 (init_tty (bss_console (\<lambda>_. 0)))\<rparr>"

lemma boot_keyboard_tty:
  "current_tty (con boot_keyboard) = 0" "console_ok (con boot_keyboard)" "kb_ok (ttys (con boot_keyboard) 0)"
  "\<not> raw (ttys (con boot_keyboard) 0)" "\<not> escape (ttys (con boot_keyboard) 0)"
  "kb_l1_buffer_index (ttys (con boot_keyboard) 0) = 0" "kb_l2_buffer_index (ttys (con boot_keyboard) 0) = 0"
  "\<not> capslock_active boot_keyboard" "\<not> shift_active boot_keyboard" "\<not> ctrl_active boot_keyboard" "\<not> is_eof boot_keyboard"
  by (simp_all add: boot_keyboard_def console_ok_boot)
     (simp_all add: switch_tty_def init_tty_def init_tty_t_def bss_console_def bss_tty_def kb_ok_def)

theorem keyboard_edits_line_witness:
  "\<exists>k'. keyboard_handler 0x1e boot_keyboard = Some k' \<and> pending (ttys (con k') 0) = [0x61]"
proof -
  have "plain_key 0x1e boot_keyboard" by (simp add: plain_key_def boot_keyboard_tty)
  moreover have "keyboard_char (capslock_active boot_keyboard) (shift_active boot_keyboard) 0x1e = Some 0x61"
    by (simp add: boot_keyboard_tty keyboard_char_def ascii_nomod_def arr_get_def)
  moreover have "pending (ttys (con boot_keyboard) 0) = []" by (simp add: pending_def boot_keyboard_tty)
  ultimately show ?thesis
    using keyboard_edits_line [of "0x1e" boot_keyboard "0x61" 0] by (auto simp: boot_keyboard_tty line_edit_def)
qed

subsection \<open>Reading\<close>

primrec fetch_n :: "nat \<Rightarrow> nat \<Rightarrow> keyboard \<Rightarrow> int list \<times> keyboard" where
  "fetch_n w 0 k = ([], k)"
| "fetch_n w (Suc n) k = (let (x, k1) = keyboard_fetch_char w k; (xs, k2) = fetch_n w n k1 in (x # xs, k2))"

text \<open>The values a reader sees for the finished input: an end of file follows every newline.\<close>

definition delivered :: "u8 list \<Rightarrow> int list" where
  "delivered xs = concat (map (\<lambda>x. sint x # (if x = 0x0A then [-1] else [])) xs)"

lemma fetch_head:
  assumes "kb_ok (ttys (con k) w)" and "ready (ttys (con k) w) = x # xs" and "\<not> is_eof k"
  shows "\<exists>k'. keyboard_fetch_char w k = (sint x, k') \<and> kb_ok (ttys (con k') w) \<and> ready (ttys (con k') w) = xs
    \<and> is_eof k' = (x = 0x0A)"
proof -
  obtain y t' where t': "l2_take (ttys (con k) w) = (y, t')" by (cases "l2_take (ttys (con k) w)")
  from l2_take_ready [OF assms(1,2) t'] have *: "y = x" "kb_ok t'" "ready t' = xs" by auto
  have "kb_l2_buffer_index (ttys (con k) w) \<noteq> 0" using assms(2) by (cases "kb_l2_buffer_index (ttys (con k) w)") (simp_all add: ready_def)
  then show ?thesis using * t' assms(3) by (simp add: keyboard_fetch_char_def)
qed

text \<open>
  C29. Reading from a terminal: the finished input is delivered first in, first out, an end of file
  (-1) follows every newline, and afterwards the queue is empty.
\<close>

theorem keyboard_input_is_fifo:
  assumes "kb_ok (ttys (con k) w)" and "\<not> is_eof k"
  shows "\<exists>k'. fetch_n w (length (delivered (ready (ttys (con k) w)))) k = (delivered (ready (ttys (con k) w)), k')
    \<and> kb_ok (ttys (con k') w) \<and> ready (ttys (con k') w) = [] \<and> \<not> is_eof k'"
proof -
  have "ready (ttys (con k) w) = xs \<Longrightarrow> ?thesis" for xs
    using assms
  proof (induction xs arbitrary: k)
    case Nil
    then show ?case by (simp add: delivered_def)
  next
    case (Cons x xs)
    from fetch_head [OF Cons.prems(2,1,3)] obtain k1 where k1: "keyboard_fetch_char w k = (sint x, k1)"
      "kb_ok (ttys (con k1) w)" "ready (ttys (con k1) w) = xs" "is_eof k1 = (x = 0x0A)" by auto
    let ?k2 = "k1\<lparr>is_eof := False\<rparr>"
    from Cons.IH [of ?k2] k1 obtain k' where k': "fetch_n w (length (delivered xs)) ?k2 = (delivered xs, k')"
      "kb_ok (ttys (con k') w)" "ready (ttys (con k') w) = []" "\<not> is_eof k'" by auto
    show ?case
    proof (cases "x = 0x0A")
      case True
      then have "keyboard_fetch_char w k1 = (-1, ?k2)" using k1 by (simp add: keyboard_fetch_char_def)
      then show ?thesis using True k1 k' Cons.prems(1) by (simp add: delivered_def)
    next
      case False
      then have "?k2 = k1" using k1 by simp
      then show ?thesis using False k1 k' [unfolded \<open>?k2 = k1\<close>] Cons.prems(1) by (simp add: delivered_def)
    qed
  qed
  then show ?thesis by simp
qed

theorem keyboard_input_is_fifo_witness:
  "\<exists>k'. fetch_n 0 3 (boot_keyboard\<lparr>con := tty_upd 0 (\<lambda>t. t\<lparr>kb_l2_buffer := (kb_l2_buffer t)[0 := 0x61, 1 := 0x0A],
      kb_l2_buffer_index := 2\<rparr>) (con boot_keyboard)\<rparr>) = ([0x61, 0x0A, -1], k')"
proof -
  let ?u = "\<lambda>t. t\<lparr>kb_l2_buffer := (kb_l2_buffer t)[0 := 0x61, 1 := 0x0A], kb_l2_buffer_index := 2\<rparr>"
  let ?k = "boot_keyboard\<lparr>con := tty_upd 0 ?u (con boot_keyboard)\<rparr>"
  have b: "kb_l2_buffer (ttys (con boot_keyboard) 0) = replicate 2048 0"
    by (simp add: boot_keyboard_def switch_tty_def init_tty_def init_tty_t_def bss_console_def bss_tty_def)
  have "2048 = Suc (Suc 2046)" by simp
  then have rep: "replicate 2048 (0::u8) = 0 # 0 # replicate 2046 0" by (metis replicate_Suc)
  have r: "ready (ttys (con ?k) 0) = [0x61, 0x0A]"
    by (simp add: ready_def b rep)
  have ok: "kb_ok (ttys (con ?k) 0)" "\<not> is_eof ?k" using boot_keyboard_tty by (simp_all add: kb_ok_def)
  have "delivered [0x61, 0x0A] = [0x61, 0x0A, -1]" by (simp add: delivered_def)
  then show ?thesis using keyboard_input_is_fifo [OF ok] unfolding r by (auto simp: eval_nat_numeral)
qed

subsection \<open>Where the handler goes wrong\<close>

text \<open>
  The scancode tables end at 0x39 while the handler accepts every scancode below 0x57: each of the
  keys between, 0x3B (F1) to 0x56, reads outside the table when it is pressed without shift.
\<close>

lemma function_keys_read_outside_table:
  assumes "0x3B \<le> sc" and "sc < 0x57" and "\<not> shift_active k"
    and "kb_l1_buffer_index (ttys (con k) (current_tty (con k))) < 256"
  shows "keyboard_handler sc k = None"
proof -
  have n: "58 < unat sc" "unat sc < 87" using assms(1,2) by (simp_all add: word_le_nat_alt word_less_nat_alt)
  then have "sc \<notin> {0x2e, 0x3A, 0x2A, 0x36, 0xAA, 0xB6, 0x1D, 0x9D}" by auto
  moreover have "keyboard_char (capslock_active k) (shift_active k) sc = None"
    using n by (simp add: keyboard_char_def arr_get_def ascii_nomod_def ascii_shift_def ascii_shift_capslock_def ascii_capslock_def)
  ultimately show ?thesis using assms(2-4) by (auto simp: keyboard_handler_def)
qed

lemma function_keys_read_outside_table_witness:
  "keyboard_handler 0x3B boot_keyboard = None"
  by (rule function_keys_read_outside_table) (simp_all add: boot_keyboard_tty)

text \<open>
  A full line is never given up: once 256 characters have been typed, no key, not even backspace
  or return, changes any terminal; the line can neither be edited nor submitted.
\<close>

lemma full_line_blocks_terminal:
  assumes "kb_l1_buffer_index (ttys (con k) (current_tty (con k))) = 256"
  shows "\<exists>k'. keyboard_handler sc k = Some k' \<and> ttys (con k') = ttys (con k)"
  using assms
  by (auto simp: keyboard_handler_def toggle_capslock_def switch_tty_def split: option.splits)

lemma full_line_blocks_terminal_witness:
  "\<exists>k'. keyboard_handler 0x1c (boot_keyboard\<lparr>con := tty_upd 0 (\<lambda>t. t\<lparr>kb_l1_buffer_index := 256\<rparr>) (con boot_keyboard)\<rparr>)
     = Some k' \<and> kb_l1_buffer_index (ttys (con k') 0) = 256"
  using full_line_blocks_terminal
    [of "boot_keyboard\<lparr>con := tty_upd 0 (\<lambda>t. t\<lparr>kb_l1_buffer_index := 256\<rparr>) (con boot_keyboard)\<rparr>" "0x1c"]
  by (auto simp: boot_keyboard_tty)

end
