(* ===== verification/Kprint.thy ===== *)
theory Kprint
  imports Tty
begin

text \<open>
  Number and format output: \<open>kuitoa\<close>, \<open>kxtoa\<close> and their terminal variants of
  \<open>kernel/src/klib.c\<close>, and the log printer of \<open>kernel/src/lib/kprint.c\<close>.

  Strings are character buffers that include their terminating null character; reading past the end of
  such a buffer is a fault, as is an index outside a local buffer or an argument of another type than
  the conversion asks for.  The print buffer of 256 bytes is the list of the bytes written so far
  (\<open>kprint_buf_i\<close> is its length); the null character kept behind them is never read.

  The digit loops count their index down to -1; in the 8-bit index of \<open>klib.c\<close> this is the value
  255, which the increment after the loop takes back to 0.
\<close>

definition clit :: "string \<Rightarrow> u8 list" where
  "clit s = map of_char s @ [0]"

definition hex_to_ascii_tab :: "u8 list" where
  "hex_to_ascii_tab = map of_char ''0123456789abcdef''"

function put_digits :: "(nat \<Rightarrow> u8) \<Rightarrow> nat \<Rightarrow> nat \<Rightarrow> u8 list \<Rightarrow> int \<Rightarrow> (u8 list \<times> int) option" where
  "put_digits dig base x buf i =
     (if x = 0 \<or> base < 2 then Some (buf, i)
      else if 0 \<le> i \<and> i < int (length buf)
      then put_digits dig base (x div base) (buf[nat i := dig (x mod base)]) (i - 1)
      else None)"
  by pat_completeness auto
termination
  by (relation "measure (\<lambda>(_, _, x, _, _). x)") auto

declare put_digits.simps [simp del]

definition dec_digit :: "nat \<Rightarrow> u8" where
  "dec_digit d = of_nat d + 0x30"

definition hex_digit :: "nat \<Rightarrow> u8" where
  "hex_digit d = hex_to_ascii_tab ! d"

text \<open>The string a decimal or hexadecimal printer of \<open>klib.c\<close> hands to \<open>kputs\<close>.\<close>

definition kuitoa_text :: "nat \<Rightarrow> u8 list option" where
  "kuitoa_text x =
     (if x = 0 then Some (clit ''0'')
      else do { (buf, i) \<leftarrow> put_digits dec_digit 10 x (replicate 21 0) 19; Some (drop (nat (i + 1)) buf) })"

definition tty_kuitoa :: "nat \<Rightarrow> nat \<Rightarrow> console \<Rightarrow> console option" where
  "tty_kuitoa x w c = do { s \<leftarrow> kuitoa_text x; tty_kputs s w c }"

definition kuitoa :: "nat \<Rightarrow> console \<Rightarrow> console option" where
  "kuitoa x c = do { s \<leftarrow> kuitoa_text x; kputs s c }"

definition kxtoa_text :: "nat \<Rightarrow> u8 list option" where
  "kxtoa_text x = do { (buf, i) \<leftarrow> put_digits hex_digit 16 x (replicate 17 0) 15; Some (drop (nat (i + 1)) buf) }"

definition tty_kxtoa :: "nat \<Rightarrow> nat \<Rightarrow> console \<Rightarrow> console option" where
  "tty_kxtoa x w c =
     (if x = 0 then tty_kputs (clit ''0x0'') w c
      else do { s \<leftarrow> kxtoa_text x; c \<leftarrow> tty_kputs (clit ''0x'') w c; tty_kputs s w c })"

definition kxtoa :: "nat \<Rightarrow> console \<Rightarrow> console option" where
  "kxtoa x c =
     (if x = 0 then kputs (clit ''0x0'') c
      else do { s \<leftarrow> kxtoa_text x; c \<leftarrow> kputs (clit ''0x'') c; kputs s c })"

subsection \<open>The print buffer\<close>

abbreviation (input) KPRINT_BUF_MAX :: nat where "KPRINT_BUF_MAX \<equiv> 256"

fun kput_s :: "u8 list \<Rightarrow> u8 list \<Rightarrow> u8 list option" where
  "kput_s buf [] = None"
| "kput_s buf (ch # s) =
     (if ch = 0 then Some buf
      else if length buf = KPRINT_BUF_MAX - 1 then Some buf
      else kput_s (buf @ [ch]) s)"

fun knput_s :: "u8 list \<Rightarrow> u8 list \<Rightarrow> nat \<Rightarrow> u8 list option" where
  "knput_s buf s 0 = Some buf"
| "knput_s buf s (Suc n) =
     (if length buf = KPRINT_BUF_MAX - 1 then Some buf
      else case s of [] \<Rightarrow> None | ch # s \<Rightarrow> knput_s (buf @ [ch]) s n)"

definition kputchar :: "u8 list \<Rightarrow> u8 \<Rightarrow> u8 list" where
  "kputchar buf ch = (if length buf < KPRINT_BUF_MAX - 1 then buf @ [ch] else buf)"

text \<open>Signed 64-bit arithmetic: division truncates, and negating the least value wraps.\<close>

definition s64 :: "int \<Rightarrow> int" where
  "s64 i = (i + 2 ^ 63) mod 2 ^ 64 - 2 ^ 63"

definition quot10 :: "int \<Rightarrow> int" where
  "quot10 x = sgn x * (\<bar>x\<bar> div 10)"

definition rem10 :: "int \<Rightarrow> int" where
  "rem10 x = sgn x * (\<bar>x\<bar> mod 10)"

function put_signed :: "int \<Rightarrow> u8 list \<Rightarrow> int \<Rightarrow> (u8 list \<times> int) option" where
  "put_signed x buf i =
     (if x = 0 then Some (buf, i)
      else if 0 \<le> i \<and> i < int (length buf)
      then put_signed (quot10 x) (buf[nat i := word_of_int (rem10 x + 0x30)]) (i - 1)
      else None)"
  by pat_completeness auto
termination
  by (relation "measure (\<lambda>(x, _, _). nat \<bar>x\<bar>)") (auto simp: quot10_def abs_mult sgn_if)

declare put_signed.simps [simp del]

definition kprn_i :: "u8 list \<Rightarrow> int \<Rightarrow> u8 list option" where
  "kprn_i pbuf x =
     (if x = 0 then Some (kputchar pbuf 0x30)
      else do {
        let sign = x < 0;
        let x = (if sign then s64 (- x) else x);
        (buf, i) \<leftarrow> put_signed x (replicate 21 0) 19;
        (buf, i) \<leftarrow> (if sign then if 0 \<le> i then Some (buf[nat i := 0x2d], i) else None else Some (buf, i + 1));
        kput_s pbuf (drop (nat i) buf) })"

definition kprn_ui :: "u8 list \<Rightarrow> nat \<Rightarrow> u8 list option" where
  "kprn_ui pbuf x =
     (if x = 0 then Some (kputchar pbuf 0x30)
      else do {
        (buf, i) \<leftarrow> put_digits dec_digit 10 x (replicate 21 0) 19;
        kput_s pbuf (drop (nat (i + 1)) buf) })"

definition kprn_x :: "u8 list \<Rightarrow> nat \<Rightarrow> int \<Rightarrow> u8 list option" where
  "kprn_x pbuf x pad = do {
     (buf, i) \<leftarrow> (if x \<noteq> 0 then map_option (\<lambda>(buf, i). (buf, i + 1)) (put_digits hex_digit 16 x (clit ''0000000000000000'') 15)
                   else Some (clit ''0000000000000000'', 15));
     pbuf \<leftarrow> kput_s pbuf (clit ''0x'');
     let start = (if pad \<noteq> 0 then 16 - pad else i);
     if 0 \<le> start \<and> start \<le> 16 then kput_s pbuf (drop (nat start) buf) else None }"

definition header_text :: "int \<Rightarrow> u8 list" where
  "header_text type =
     (if type = 0 then [0x1b] @ map of_char ''[36minfo'' @ [0x1b] @ clit ''[37m: ''
      else if type = 1 then [0x1b] @ map of_char ''[33mwarning'' @ [0x1b] @ clit ''[37m: ''
      else if type = 2 then [0x1b] @ map of_char ''[31mERROR'' @ [0x1b] @ clit ''[37m: ''
      else if type = 4 then [0x1b] @ map of_char ''[31mPANIC'' @ [0x1b] @ clit ''[37m: ''
      else [0x1b] @ map of_char ''[36mDEBUG'' @ [0x1b] @ clit ''[37m: '')"

definition print_header :: "u8 list \<Rightarrow> int \<Rightarrow> u8 list option" where
  "print_header buf type = kput_s buf (header_text type)"

text \<open>The variable arguments, by the C type they were passed with; a string may be the null pointer.\<close>

datatype karg = ArgStr "u8 list option" | ArgInt int | ArgI64 int | ArgUint nat | ArgU64 nat | ArgSize nat

fun conversion :: "u8 list \<Rightarrow> u8 \<Rightarrow> int \<Rightarrow> karg list \<Rightarrow> (u8 list \<times> karg list) option" where
  "conversion buf f val args =
     (if f = of_char CHR ''s'' then
        (case args of ArgStr None # args \<Rightarrow> map_option (\<lambda>b. (b, args)) (kput_s buf (clit ''(null)''))
         | ArgStr (Some s) # args \<Rightarrow> map_option (\<lambda>b. (b, args)) (kput_s buf s) | _ \<Rightarrow> None)
      else if f = of_char CHR ''S'' then
        (case args of ArgSize n # ArgStr (Some s) # args \<Rightarrow> map_option (\<lambda>b. (b, args)) (knput_s buf s n) | _ \<Rightarrow> None)
      else if f = of_char CHR ''d'' then
        (case args of ArgInt x # args \<Rightarrow> map_option (\<lambda>b. (b, args)) (kprn_i buf x) | _ \<Rightarrow> None)
      else if f = of_char CHR ''D'' then
        (case args of ArgI64 x # args \<Rightarrow> map_option (\<lambda>b. (b, args)) (kprn_i buf x) | _ \<Rightarrow> None)
      else if f = of_char CHR ''u'' then
        (case args of ArgUint x # args \<Rightarrow> map_option (\<lambda>b. (b, args)) (kprn_ui buf x) | _ \<Rightarrow> None)
      else if f = of_char CHR ''U'' then
        (case args of ArgU64 x # args \<Rightarrow> map_option (\<lambda>b. (b, args)) (kprn_ui buf x) | _ \<Rightarrow> None)
      else if f = of_char CHR ''x'' then
        (case args of ArgUint x # args \<Rightarrow> map_option (\<lambda>b. (b, args)) (kprn_x buf x val) | _ \<Rightarrow> None)
      else if f = of_char CHR ''X'' then
        (case args of ArgU64 x # args \<Rightarrow> map_option (\<lambda>b. (b, args)) (kprn_x buf x val) | _ \<Rightarrow> None)
      else if f = of_char CHR ''c'' then
        (case args of ArgInt x # args \<Rightarrow> Some (kputchar buf (word_of_int x), args) | _ \<Rightarrow> None)
      else Some (kputchar buf (of_char CHR ''?''), args))"

text \<open>The padding number of a conversion.\<close>

fun read_val :: "int \<Rightarrow> u8 list \<Rightarrow> (int \<times> u8 list) option" where
  "read_val val [] = None"
| "read_val val (ch # fmt) =
     (if is_digit ch then read_val (s32 (s32 (val * 10) + (uint ch - 0x30))) fmt else Some (val, ch # fmt))"

lemma read_val_length: "read_val val fmt = Some (v, rest) \<Longrightarrow> length rest \<le> length fmt \<and> rest \<noteq> []"
  by (induction val fmt rule: read_val.induct) (auto split: if_splits)

text \<open>
  The loop of \<open>kvprint\<close>, on the rest of the format.  A conversion character that is itself the
  terminating null character prints a question mark and reading goes on behind it.
\<close>

function kvprint_loop :: "int \<Rightarrow> u8 list \<Rightarrow> u8 list \<Rightarrow> karg list \<Rightarrow> u8 list option" where
  "kvprint_loop type buf fmt args =
     (case fmt of
        [] \<Rightarrow> None
      | ch # fmt \<Rightarrow>
          if ch = 0 then Some (kputchar buf 0x0A)
          else if ch \<noteq> of_char CHR ''%'' then do {
            buf \<leftarrow> (if ch = 0x0A then print_header (kputchar buf ch) type else Some (kputchar buf ch));
            kvprint_loop type buf fmt args }
          else case read_val 0 fmt of
            None \<Rightarrow> None
          | Some (val, rest) \<Rightarrow> do {
              (buf, args) \<leftarrow> conversion buf (hd rest) val args;
              kvprint_loop type buf (tl rest) args })"
  by pat_completeness auto
termination
  by (relation "measure (\<lambda>(_, _, fmt, _). length fmt)") (auto dest: read_val_length split: if_splits)

declare kvprint_loop.simps [simp del] conversion.simps [simp del]

definition kvprint_buf :: "int \<Rightarrow> u8 list \<Rightarrow> karg list \<Rightarrow> u8 list option" where
  "kvprint_buf type fmt args = do { buf \<leftarrow> print_header [] type; kvprint_loop type buf fmt args }"

text \<open>Both flush routines print the buffer on the first terminal.\<close>

definition kprint_buf_flush :: "u8 list \<Rightarrow> console \<Rightarrow> console option" where
  "kprint_buf_flush buf c = tty_knputs buf 0 c"

definition kvprint :: "int \<Rightarrow> u8 list \<Rightarrow> karg list \<Rightarrow> console \<Rightarrow> console option" where
  "kvprint type fmt args c = do { buf \<leftarrow> kvprint_buf type fmt args; kprint_buf_flush buf c }"


subsection \<open>Digits\<close>

fun numeral_digits :: "nat \<Rightarrow> nat \<Rightarrow> nat list" where
  "numeral_digits base x = (if x = 0 \<or> base < 2 then [] else numeral_digits base (x div base) @ [x mod base])"

declare numeral_digits.simps [simp del]

lemma numeral_digits_zero [simp]: "numeral_digits base 0 = []"
  by (simp add: numeral_digits.simps)

lemma numeral_digits_step:
  "2 \<le> base \<Longrightarrow> x \<noteq> 0 \<Longrightarrow> numeral_digits base x = numeral_digits base (x div base) @ [x mod base]"
  by (simp add: numeral_digits.simps)

lemma numeral_digits_length: "2 \<le> base \<Longrightarrow> x < base ^ k \<Longrightarrow> length (numeral_digits base x) \<le> k"
proof (induction k arbitrary: x)
  case (Suc k)
  show ?case
  proof (cases "x = 0")
    case False
    have "x div base < base ^ k" using Suc.prems by (simp add: div_less_iff_less_mult mult.commute)
    then show ?thesis using Suc False by (simp add: numeral_digits_step)
  qed simp
qed simp

lemma numeral_digits_less: "2 \<le> base \<Longrightarrow> d \<in> set (numeral_digits base x) \<Longrightarrow> d < base"
proof (induction base x rule: numeral_digits.induct)
  case (1 base x)
  then show ?case by (cases "x = 0") (auto simp: numeral_digits_step)
qed

lemma numeral_digits_hd: "2 \<le> base \<Longrightarrow> x \<noteq> 0 \<Longrightarrow> numeral_digits base x \<noteq> [] \<and> hd (numeral_digits base x) \<noteq> 0"
proof (induction base x rule: numeral_digits.induct)
  case (1 base x)
  show ?case
  proof (cases "x div base = 0")
    case True
    then have "x mod base = x" using 1 by (simp add: div_eq_0_iff)
    with True 1 show ?thesis by (simp add: numeral_digits_step)
  next
    case False
    then have "numeral_digits base (x div base) \<noteq> [] \<and> hd (numeral_digits base (x div base)) \<noteq> 0" using 1 by simp
    then show ?thesis using 1 by (simp add: numeral_digits_step)
  qed
qed

text \<open>The digit loop writes the numeral in front of index \<open>i\<close>.\<close>

lemma put_digits_eq:
  "2 \<le> base \<Longrightarrow> length (numeral_digits base x) \<le> k \<Longrightarrow> k \<le> length buf \<Longrightarrow>
     put_digits dig base x buf (int k - 1) =
       Some (take (k - length (numeral_digits base x)) buf @ map dig (numeral_digits base x) @ drop k buf,
             int (k - length (numeral_digits base x)) - 1)"
proof (induction dig base x buf "int k - 1" arbitrary: k rule: put_digits.induct)
  case (1 dig base x buf)
  show ?case
  proof (cases "x = 0")
    case True
    then show ?thesis by (simp add: put_digits.simps)
  next
    case False
    let ?ds = "numeral_digits base (x div base)"
    note ds = numeral_digits_step [OF 1(2) False]
    from 1(3) ds obtain j where k: "k = Suc j" by (cases k) auto
    let ?b = "buf[j := dig (x mod base)]"
    have "put_digits dig base (x div base) ?b (int j - 1) =
       Some (take (j - length ?ds) ?b @ map dig ?ds @ drop j ?b, int (j - length ?ds) - 1)"
      using 1(1) [of j] 1(2-4) False ds k by simp
    moreover have "drop j ?b = dig (x mod base) # drop k buf"
      using 1(4) k by (simp add: drop_update_swap Cons_nth_drop_Suc [symmetric] flip: Cons_nth_drop_Suc)
    moreover have "put_digits dig base x buf (int k - 1) = put_digits dig base (x div base) ?b (int j - 1)"
      using False 1(2,4) k by (subst put_digits.simps) simp
    ultimately show ?thesis using ds k by simp
  qed
qed

lemma put_signed_nonneg:
  "0 \<le> x \<Longrightarrow> put_signed x buf i = put_digits dec_digit 10 (nat x) buf i"
proof (induction x buf i rule: put_signed.induct)
  case (1 x buf i)
  show ?case
  proof (cases "x = 0")
    case True
    then show ?thesis by (simp add: put_signed.simps put_digits.simps)
  next
    case False
    have q: "quot10 x = x div 10" "rem10 x = x mod 10" using 1(2) by (simp_all add: quot10_def rem10_def sgn_if)
    have n: "nat (x div 10) = nat x div 10" "nat (x mod 10) = nat x mod 10"
      using 1(2) by (simp_all add: nat_div_distrib nat_mod_distrib)
    have w: "word_of_int (x mod 10 + 0x30) = dec_digit (nat x mod 10)"
      using 1(2) by (simp add: dec_digit_def wi_hom_add [symmetric] n(2) [symmetric])
    have "put_signed (quot10 x) (buf[nat i := word_of_int (rem10 x + 0x30)]) (i - 1)
      = put_digits dec_digit 10 (nat x div 10) (buf[nat i := dec_digit (nat x mod 10)]) (i - 1)"
      if "0 \<le> i \<and> i < int (length buf)"
      using 1(1) [OF False that] 1(2) q n w by (simp add: pos_imp_zdiv_nonneg_iff)
    moreover have "nat x \<noteq> 0" using False 1(2) by simp
    ultimately show ?thesis
      using False by (subst put_signed.simps, subst put_digits.simps) simp
  qed
qed


text \<open>The decimal and the hexadecimal text of a number.\<close>

definition dec_text :: "nat \<Rightarrow> u8 list" where
  "dec_text x = (if x = 0 then [0x30] else map dec_digit (numeral_digits 10 x))"

definition hex_text :: "nat \<Rightarrow> u8 list" where
  "hex_text x = (if x = 0 then [0x30] else map hex_digit (numeral_digits 16 x))"

lemma u64_digits: "x < 2 ^ 64 \<Longrightarrow> length (numeral_digits 10 x) \<le> 20" "x < 2 ^ 64 \<Longrightarrow> length (numeral_digits 16 x) \<le> 16"
  by (rule numeral_digits_length; simp)+

lemma put_decimal:
  assumes "length (numeral_digits 10 x) \<le> 20"
  shows "\<exists>k. k + length (numeral_digits 10 x) = 20 \<and> put_digits dec_digit 10 x (replicate 21 0) 19 =
    Some (replicate k 0 @ map dec_digit (numeral_digits 10 x) @ [0], int k - 1)"
proof -
  let ?k = "20 - length (numeral_digits 10 x)"
  have "replicate (21::nat) (0::u8) = replicate 20 0 @ [0]" by (simp add: replicate_append_same eval_nat_numeral)
  then have "put_digits dec_digit 10 x (replicate 21 0) 19 =
      Some (replicate ?k 0 @ map dec_digit (numeral_digits 10 x) @ [0], int ?k - 1)"
    using put_digits_eq [of 10 x 20 "replicate 21 0" dec_digit] assms by simp
  then show ?thesis using assms by (intro exI [of _ ?k]) simp
qed

lemma kuitoa_text_eq: "x < 2 ^ 64 \<Longrightarrow> kuitoa_text x = Some (dec_text x @ [0])"
  using put_decimal [OF u64_digits(1), of x] by (auto simp: kuitoa_text_def dec_text_def clit_def)

lemma dec_digit_is_digit: "d < 10 \<Longrightarrow> is_digit (dec_digit d) \<and> uint (dec_digit d) - 0x30 = int d"
proof -
  assume d: "d < 10"
  then have "uint (dec_digit d) = int d + 48"
    by (simp add: dec_digit_def uint_word_ariths take_bit_int_def unsigned_of_nat take_bit_nat_def)
  with d show ?thesis by (simp add: is_digit_def word_le_def)
qed

lemma digits_value_snoc: "digits_value (ds @ [d]) = digits_value ds * 10 + (uint d - 0x30)"
  by (simp add: digits_value_def)

lemma digits_value_numeral: "digits_value (map dec_digit (numeral_digits 10 x)) = int x"
proof (induction x rule: less_induct)
  case (less x)
  show ?case
  proof (cases "x = 0")
    case True
    then show ?thesis by (simp add: digits_value_def)
  next
    case False
    then have "int (x div 10) * 10 + int (x mod 10) = int x" by presburger
    then show ?thesis
      using False less [of "x div 10"] dec_digit_is_digit [of "x mod 10"]
      by (simp add: numeral_digits_step digits_value_snoc)
  qed
qed

lemma dec_digit_zero_iff: "d < 10 \<Longrightarrow> dec_digit d = 0x30 \<longleftrightarrow> d = 0"
proof -
  assume "d < 10"
  then have "uint (dec_digit d) - 0x30 = int d" using dec_digit_is_digit by blast
  moreover have "uint (0x30::u8) - 0x30 = 0" by simp
  ultimately show ?thesis by (auto simp: dec_digit_def)
qed

text \<open>
  Decimal output: for every 64-bit number the printed string consists of decimal digits, denotes
  the number, and has no leading zero unless the number is zero.
\<close>

lemma kuitoa_prints_decimal:
  assumes "x < 2 ^ 64"
  shows "\<exists>ds. kuitoa_text x = Some (ds @ [0]) \<and> ds \<noteq> [] \<and> (\<forall>d \<in> set ds. is_digit d)
    \<and> digits_value ds = int x \<and> (hd ds = 0x30 \<longrightarrow> x = 0)"
proof (cases "x = 0")
  case True
  then show ?thesis by (simp add: kuitoa_text_def clit_def is_digit_def digits_value_def)
next
  case False
  let ?n = "numeral_digits 10 x"
  have n: "?n \<noteq> []" "hd ?n \<noteq> 0" "\<forall>d \<in> set ?n. d < 10"
    using False numeral_digits_hd [of 10 x] numeral_digits_less [of 10] by auto
  have "hd (map dec_digit ?n) \<noteq> 0x30" using n dec_digit_zero_iff [of "hd ?n"] by (simp add: hd_map)
  moreover have "kuitoa_text x = Some (map dec_digit ?n @ [0])"
    using False kuitoa_text_eq [OF assms] by (simp add: dec_text_def)
  ultimately show ?thesis
    using n digits_value_numeral [of x] dec_digit_is_digit by (intro exI [of _ "map dec_digit ?n"]) auto
qed

lemma kuitoa_prints_decimal_witness:
  "\<exists>ds. kuitoa_text 4096 = Some (ds @ [0]) \<and> digits_value ds = 4096"
  using kuitoa_prints_decimal [of 4096] by auto

subsection \<open>The log printer is a truncating formatter\<close>

definition cat :: "u8 list \<Rightarrow> u8 list \<Rightarrow> u8 list" where
  "cat buf s = take 255 (buf @ s)"

lemma cat_length [simp]: "length (cat buf s) \<le> 255"
  by (simp add: cat_def)

lemma cat_cat [simp]: "cat (cat buf s) t = cat buf (s @ t)"
  by (cases "length buf \<le> 255"; cases "length buf + length s \<le> 255") (simp_all add: cat_def min_def)

lemma cat_Nil [simp]: "length buf \<le> 255 \<Longrightarrow> cat buf [] = buf"
  by (simp add: cat_def)

lemma kputchar_cat: "length buf \<le> 255 \<Longrightarrow> kputchar buf ch = cat buf [ch]"
  by (auto simp: kputchar_def cat_def)

lemma kput_s_cat:
  "length buf \<le> 255 \<Longrightarrow> 0 \<notin> set s \<Longrightarrow> kput_s buf (s @ 0 # rest) = Some (cat buf s)"
proof (induction s arbitrary: buf)
  case (Cons ch s)
  then show ?case by (auto simp: cat_def take_Cons')
qed simp

lemma knput_s_cat:
  "length buf \<le> 255 \<Longrightarrow> n \<le> length s \<Longrightarrow> knput_s buf s n = Some (cat buf (take n s))"
proof (induction n arbitrary: buf s)
  case (Suc n)
  then obtain ch s' where "s = ch # s'" by (cases s) auto
  with Suc show ?case by (auto simp: cat_def take_Cons' min_def)
qed simp

lemma dec_digit_nonzero: "d < 10 \<Longrightarrow> dec_digit d \<noteq> 0"
  using dec_digit_is_digit [of d] by (auto simp: is_digit_def)

lemma hex_digit_nonzero: "d < 16 \<Longrightarrow> hex_digit d \<noteq> 0"
proof -
  assume "d < 16"
  then have "hex_digit d \<in> set hex_to_ascii_tab" unfolding hex_digit_def by (intro nth_mem) (simp add: hex_to_ascii_tab_def)
  then show ?thesis by (auto simp: hex_to_ascii_tab_def)
qed

lemma text_nonzero: "0 \<notin> set (dec_text x)" "0 \<notin> set (hex_text x)"
proof -
  have "dec_digit d \<noteq> 0" if "d \<in> set (numeral_digits 10 x)" for d
    using numeral_digits_less [OF _ that] by (simp add: dec_digit_nonzero)
  then show "0 \<notin> set (dec_text x)"
    by (cases "x = 0") (auto simp: dec_text_def eq_commute [of 0])
  have "hex_digit d \<noteq> 0" if "d \<in> set (numeral_digits 16 x)" for d
    using numeral_digits_less [OF _ that] by (simp add: hex_digit_nonzero)
  then show "0 \<notin> set (hex_text x)"
    by (cases "x = 0") (auto simp: hex_text_def eq_commute [of 0])
qed

lemma kprn_ui_cat: "length buf \<le> 255 \<Longrightarrow> x < 2 ^ 64 \<Longrightarrow> kprn_ui buf x = Some (cat buf (dec_text x))"
  using put_decimal [OF u64_digits(1), of x] text_nonzero(1) [of x] kput_s_cat [of buf "dec_text x" "[]"]
  by (auto simp: kprn_ui_def dec_text_def kputchar_cat)

definition int_text :: "int \<Rightarrow> u8 list" where
  "int_text x = (if x < 0 then 0x2d # dec_text (nat (- x)) else dec_text (nat x))"

lemma kprn_i_cat:
  assumes "length buf \<le> 255" and "- (2 ^ 63) < x" and "x < 2 ^ 63"
  shows "kprn_i buf x = Some (cat buf (int_text x))"
proof (cases "0 \<le> x")
  case True
  then have "nat x < 2 ^ 64" using assms(3) by simp
  note dl = u64_digits(1) [OF this]
  show ?thesis
    using put_decimal [OF dl] True assms(1) text_nonzero(1) [of "nat x"] kput_s_cat [of buf "dec_text (nat x)" "[]"]
    by (auto simp: kprn_i_def int_text_def dec_text_def put_signed_nonneg kputchar_cat split: if_splits)
next
  case False
  let ?n = "numeral_digits 10 (nat (- x))"
  have "nat (- x) < 10 ^ 19" using assms(2) by simp
  then have dl: "length ?n \<le> 19" by (rule numeral_digits_length [rotated]) simp
  then have "length ?n \<le> 20" by simp
  from put_decimal [OF this] obtain k where k: "k + length ?n = 20" "put_digits dec_digit 10 (nat (- x)) (replicate 21 0) 19 =
      Some (replicate k 0 @ map dec_digit ?n @ [0], int k - 1)" by blast
  with dl obtain j where j: "k = Suc j" by (cases k) auto
  have "s64 (- x) = - x" using assms(2) False by (simp add: s64_def)
  then have "put_signed (s64 (- x)) (replicate 21 0) 19 = Some (replicate (Suc j) 0 @ map dec_digit ?n @ [0], int j)"
    using False k(2) j by (simp add: put_signed_nonneg)
  moreover have "drop j ((replicate (Suc j) 0 @ map dec_digit ?n @ [0])[j := 0x2d]) = int_text x @ [0]"
  proof -
    have "replicate (Suc j) (0::u8) = replicate j 0 @ [0]" by (simp add: replicate_append_same)
    then show ?thesis using False by (simp add: list_update_append int_text_def dec_text_def)
  qed
  moreover have "0 \<notin> set (int_text x)" using text_nonzero(1) by (auto simp: int_text_def)
  ultimately show ?thesis
    using False kput_s_cat [OF assms(1), of "int_text x" "[]"] by (simp add: kprn_i_def)
qed

definition padded_hex :: "nat \<Rightarrow> int \<Rightarrow> u8 list" where
  "padded_hex x pad = map of_char ''0x'' @
     (if pad = 0 then hex_text x
      else drop (nat (16 - pad)) (replicate (16 - length (numeral_digits 16 x)) 0x30 @ map hex_digit (numeral_digits 16 x)))"

lemma kprn_x_cat:
  assumes "length buf \<le> 255" and "x < 2 ^ 64" and "0 \<le> pad" and "pad \<le> 16"
  shows "kprn_x buf x pad = Some (cat buf (padded_hex x pad))"
proof -
  let ?n = "numeral_digits 16 x" and ?k = "16 - length (numeral_digits 16 x)"
  let ?b = "replicate ?k 0x30 @ map hex_digit ?n"
  have lit: "clit ''0000000000000000'' = replicate 16 0x30 @ [0]" by (simp add: clit_def eval_nat_numeral)
  have b: "put_digits hex_digit 16 x (clit ''0000000000000000'') 15 = Some (?b @ [0], int ?k - 1)"
    using put_digits_eq [of 16 x 16 "clit ''0000000000000000''" hex_digit] u64_digits(2) [OF assms(2)] by (simp add: lit)
  have nz: "0 \<notin> set ?b" using numeral_digits_less [of 16 _ x] hex_digit_nonzero by fastforce
  have len: "length ?b = 16" using u64_digits(2) [OF assms(2)] by simp
  have "kput_s buf (clit ''0x'') = Some (cat buf (map of_char ''0x''))"
    using kput_s_cat [OF assms(1), of "map of_char ''0x''" "[]"] by (simp add: clit_def)
  moreover have out: "kput_s (cat buf p) (drop m (?b @ [0])) = Some (cat buf (p @ drop m ?b))" if "m \<le> 16" for p m
  proof -
    have "drop m (?b @ [0]) = drop m ?b @ [0]" using that len by simp
    moreover have "0 \<notin> set (drop m ?b)" using nz by (meson in_set_dropD)
    ultimately show ?thesis using kput_s_cat [of "cat buf p" "drop m ?b" "[]"] by simp
  qed
  moreover have "drop 15 ?b = [0x30]" if "x = 0" using that by (simp add: eval_nat_numeral)
  moreover have "drop ?k ?b = map hex_digit ?n" by simp
  ultimately show ?thesis
    using assms(3,4) b out [of 15 "map of_char ''0x''"] out [of ?k "map of_char ''0x''"] out [of "nat (16 - pad)" "map of_char ''0x''"]
    by (cases "x = 0"; cases "pad = 0") (auto simp: kprn_x_def padded_hex_def hex_text_def lit)
qed


text \<open>
  The text of a conversion, without a length limit, for arguments in the range of their types.
  The least 64-bit integer and paddings beyond 16 digits are excluded.
\<close>

definition conv_text :: "u8 \<Rightarrow> int \<Rightarrow> karg list \<Rightarrow> (u8 list \<times> karg list) option" where
  "conv_text f val args =
     (if f = of_char CHR ''s'' then
        (case args of ArgStr None # args \<Rightarrow> Some (map of_char ''(null)'', args)
         | ArgStr (Some s) # args \<Rightarrow> if 0 \<in> set s then Some (takeWhile (\<lambda>ch. ch \<noteq> 0) s, args) else None
         | _ \<Rightarrow> None)
      else if f = of_char CHR ''S'' then
        (case args of ArgSize n # ArgStr (Some s) # args \<Rightarrow> if n \<le> length s then Some (take n s, args) else None | _ \<Rightarrow> None)
      else if f = of_char CHR ''d'' then
        (case args of ArgInt x # args \<Rightarrow> if - (2 ^ 31) \<le> x \<and> x < 2 ^ 31 then Some (int_text x, args) else None | _ \<Rightarrow> None)
      else if f = of_char CHR ''D'' then
        (case args of ArgI64 x # args \<Rightarrow> if - (2 ^ 63) < x \<and> x < 2 ^ 63 then Some (int_text x, args) else None | _ \<Rightarrow> None)
      else if f = of_char CHR ''u'' then
        (case args of ArgUint x # args \<Rightarrow> if x < 2 ^ 32 then Some (dec_text x, args) else None | _ \<Rightarrow> None)
      else if f = of_char CHR ''U'' then
        (case args of ArgU64 x # args \<Rightarrow> if x < 2 ^ 64 then Some (dec_text x, args) else None | _ \<Rightarrow> None)
      else if f = of_char CHR ''x'' then
        (case args of ArgUint x # args \<Rightarrow> if x < 2 ^ 32 \<and> 0 \<le> val \<and> val \<le> 16 then Some (padded_hex x val, args) else None
         | _ \<Rightarrow> None)
      else if f = of_char CHR ''X'' then
        (case args of ArgU64 x # args \<Rightarrow> if x < 2 ^ 64 \<and> 0 \<le> val \<and> val \<le> 16 then Some (padded_hex x val, args) else None
         | _ \<Rightarrow> None)
      else if f = of_char CHR ''c'' then
        (case args of ArgInt x # args \<Rightarrow> Some ([word_of_int x], args) | _ \<Rightarrow> None)
      else Some ([of_char CHR ''?''], args))"

lemma kput_string:
  "length buf \<le> 255 \<Longrightarrow> 0 \<in> set s \<Longrightarrow> kput_s buf s = Some (cat buf (takeWhile (\<lambda>ch. ch \<noteq> 0) s))"
proof -
  assume buf: "length buf \<le> 255" and "0 \<in> set s"
  then obtain a b where "s = a @ 0 # b" "0 \<notin> set a" by (meson split_list_first)
  moreover from this have "takeWhile (\<lambda>ch. ch \<noteq> 0) s = a" by (auto simp: takeWhile_append)
  ultimately show ?thesis using kput_s_cat [OF buf] by simp
qed

lemma kput_clit: "length buf \<le> 255 \<Longrightarrow> 0 \<notin> set (map of_char s :: u8 list) \<Longrightarrow> kput_s buf (clit s) = Some (cat buf (map of_char s))"
  using kput_s_cat [of buf "map of_char s" "[]"] by (simp add: clit_def)

lemma conversion_text:
  "length buf \<le> 255 \<Longrightarrow> conv_text f val args = Some (s, args') \<Longrightarrow>
     conversion buf f val args = Some (cat buf s, args')"
  unfolding conv_text_def conversion.simps
  by (auto split: if_splits list.splits karg.splits option.splits
       simp: kput_string kput_clit knput_s_cat kprn_i_cat kprn_ui_cat kprn_x_cat kputchar_cat)

function render_loop :: "int \<Rightarrow> u8 list \<Rightarrow> karg list \<Rightarrow> u8 list option" where
  "render_loop type fmt args =
     (case fmt of
        [] \<Rightarrow> None
      | ch # fmt \<Rightarrow>
          if ch = 0 then Some [0x0A]
          else if ch \<noteq> of_char CHR ''%'' then
            map_option ((@) (ch # (if ch = 0x0A then butlast (header_text type) else []))) (render_loop type fmt args)
          else case read_val 0 fmt of
            None \<Rightarrow> None
          | Some (val, rest) \<Rightarrow>
              (case conv_text (hd rest) val args of None \<Rightarrow> None
               | Some (s, args) \<Rightarrow> map_option ((@) s) (render_loop type (tl rest) args)))"
  by pat_completeness auto
termination
  by (relation "measure (\<lambda>(_, fmt, _). length fmt)") (auto dest: read_val_length split: if_splits)

declare render_loop.simps [simp del]

lemma header_cat: "length buf \<le> 255 \<Longrightarrow> print_header buf type = Some (cat buf (butlast (header_text type)))"
proof -
  assume buf: "length buf \<le> 255"
  have "header_text type = butlast (header_text type) @ [0]" "0 \<notin> set (butlast (header_text type))"
    by (simp_all add: header_text_def clit_def)
  with kput_s_cat [OF buf, of "butlast (header_text type)" "[]"] show ?thesis by (simp add: print_header_def)
qed

lemma kvprint_loop_render:
  "length buf \<le> 255 \<Longrightarrow> render_loop type fmt args = Some s \<Longrightarrow> kvprint_loop type buf fmt args = Some (cat buf s)"
proof (induction type fmt args arbitrary: buf s rule: render_loop.induct)
  case (1 type fmt args)
  note prem = 1(4) [unfolded render_loop.simps [of type fmt args]]
  from prem obtain ch fmt' where fmt: "fmt = ch # fmt'" by (cases fmt) auto
  consider "ch = 0" | "ch \<noteq> 0" "ch \<noteq> of_char CHR ''%''" | "ch \<noteq> 0" "ch = of_char CHR ''%''" by blast
  then show ?case
  proof cases
    case 1
    with prem fmt show ?thesis using \<open>length buf \<le> 255\<close> by (simp add: kvprint_loop.simps kputchar_cat)
  next
    case 2
    let ?h = "if ch = 0x0A then butlast (header_text type) else []"
    from prem fmt 2 obtain s' where s': "render_loop type fmt' args = Some s'" "s = ch # ?h @ s'" by auto
    have "kvprint_loop type (cat buf (ch # ?h)) fmt' args = Some (cat (cat buf (ch # ?h)) s')"
      using 1(1) [OF fmt 2] s'(1) by simp
    moreover have "kvprint_loop type buf fmt args = kvprint_loop type (cat buf (ch # ?h)) fmt' args"
      using \<open>length buf \<le> 255\<close> fmt 2 by (subst kvprint_loop.simps) (simp add: kputchar_cat header_cat)
    ultimately show ?thesis using s'(2) by simp
  next
    case 3
    from prem fmt 3 obtain val rest t args' s' where r: "read_val 0 fmt' = Some (val, rest)"
      "conv_text (hd rest) val args = Some (t, args')" "render_loop type (tl rest) args' = Some s'" "s = t @ s'"
      by (auto split: option.splits prod.splits)
    have "kvprint_loop type (cat buf t) (tl rest) args' = Some (cat (cat buf t) s')"
      using 1(2) [OF fmt _ _ r(1) _ r(2)] 3 r(3) by simp
    then show ?thesis
      using fmt 3 r conversion_text [OF \<open>length buf \<le> 255\<close> r(2)] by (subst kvprint_loop.simps) simp
  qed
qed

definition render :: "int \<Rightarrow> u8 list \<Rightarrow> karg list \<Rightarrow> u8 list option" where
  "render type fmt args = map_option ((@) (butlast (header_text type))) (render_loop type fmt args)"

lemma kvprint_buf_render: "render type fmt args = Some s \<Longrightarrow> kvprint_buf type fmt args = Some (take 255 s)"
proof -
  assume "render type fmt args = Some s"
  then obtain s' where s': "render_loop type fmt args = Some s'" "s = butlast (header_text type) @ s'"
    by (auto simp: render_def)
  have "kvprint_loop type (cat [] (butlast (header_text type))) fmt args = Some (cat (cat [] (butlast (header_text type))) s')"
    by (rule kvprint_loop_render [OF _ s'(1)]) simp
  then show ?thesis using s'(2) by (simp add: kvprint_buf_def header_cat) (simp add: cat_def)
qed

text \<open>
  C21. The log printer: whenever the format and its arguments describe a text (header, literal
  characters, a header after every newline, converted arguments, final newline), the print buffer
  holds the first 255 characters of that text, so it never overflows.
\<close>

theorem kvprint_truncates_rendering:
  assumes "render type fmt args = Some s"
  shows "kvprint_buf type fmt args = Some (take 255 s)"
  by (rule kvprint_buf_render [OF assms])

theorem kvprint_truncates_rendering_witness:
  "\<exists>s. kvprint_buf 0 (clit ''%u bytes'') [ArgUint 7] = Some (take 255 s) \<and> render 0 (clit ''%u bytes'') [ArgUint 7] = Some s"
proof -
  have r: "render 0 (clit ''%u bytes'') [ArgUint 7] = Some (butlast (header_text 0) @ map of_char ''7 bytes'' @ [0x0A])"
    by (simp add: render_def render_loop.simps clit_def conv_text_def dec_text_def dec_digit_def is_digit_def
          numeral_digits.simps)
  then show ?thesis using kvprint_truncates_rendering [OF r] by blast
qed

text \<open>
  The least 64-bit integer: its negation wraps, so the sign is followed by the 19 characters below
  \<open>0\<close> that the negative remainders give instead of its digits.
\<close>

lemma kprn_i_least_integer:
  "kprn_i [] (- (2 ^ 63)) = Some (0x2d # map (\<lambda>d. 0x30 - d) [9, 2, 2, 3, 3, 7, 2, 0, 3, 6, 8, 5, 4, 7, 7, 5, 8, 0, 8])"
  by code_simp

end
