(* ===== verification/Devices.thy ===== *)
theory Devices
  imports Kernel_Types
begin

text \<open>
  The device list, \<open>kernel/src/dev.c\<close>, and the stream devices,
  \<open>kernel/src/drivers/streams/streams.c\<close>.

  A device is a named entry with a byte-wise input/output function.  Such a function works on kernel
  state outside this component, the type \<open>'w\<close>; its result is a fault (\<open>None\<close>) or the returned
  \<open>int\<close> with the new state.  Growing the list with \<open>krealloc\<close> is assumed to succeed (the code
  panics otherwise), and a name must fit the 32 bytes of \<open>device_t.name\<close>.
\<close>

type_synonym 'w io_wrapper = "nat \<Rightarrow> u64 \<Rightarrow> int \<Rightarrow> u8 \<Rightarrow> 'w \<Rightarrow> (int \<times> 'w) option"

record 'w device_t =
  dev_name :: string
  gp_value :: nat
  dev_size :: u64
  dev_io :: "'w io_wrapper"

definition kernel_add_device :: "string \<Rightarrow> nat \<Rightarrow> u64 \<Rightarrow> 'w io_wrapper \<Rightarrow> 'w device_t list \<Rightarrow> 'w device_t list option" where
  "kernel_add_device name gp sz io device_list =
     (if length name < 32
      then Some (device_list @ [\<lparr>dev_name = name, gp_value = gp, dev_size = sz, dev_io = io\<rparr>])
      else None)"

subsection \<open>Streams\<close>

text \<open>
  The standard streams go to the path the running task has for them, through the virtual file system:
  \<open>kread\<close> and \<open>kwrite\<close> are its \<open>vfs_kread\<close> and \<open>vfs_kwrite\<close>.
\<close>

definition stdin_io_wrapper ::
  "(string \<Rightarrow> u64 \<Rightarrow> 'w \<Rightarrow> (int \<times> 'w) option) \<Rightarrow> ('w \<Rightarrow> string) \<Rightarrow> 'w io_wrapper" where
  "stdin_io_wrapper kread stdin unused loc type payload w =
     (if type = DF_READ then kread (stdin w) loc w
      else if type = DF_WRITE then Some (0, w) else None)"

definition stdout_io_wrapper ::
  "(string \<Rightarrow> u64 \<Rightarrow> u8 \<Rightarrow> 'w \<Rightarrow> (int \<times> 'w) option) \<Rightarrow> ('w \<Rightarrow> string) \<Rightarrow> 'w io_wrapper" where
  "stdout_io_wrapper kwrite stdout unused loc type payload w =
     (if type = DF_READ then Some (0, w)
      else if type = DF_WRITE then kwrite (stdout w) loc payload w else None)"

text \<open>\<open>stderr_io_wrapper\<close> is \<open>stdout_io_wrapper\<close> on the task's error stream.\<close>

definition stderr_io_wrapper ::
  "(string \<Rightarrow> u64 \<Rightarrow> u8 \<Rightarrow> 'w \<Rightarrow> (int \<times> 'w) option) \<Rightarrow> ('w \<Rightarrow> string) \<Rightarrow> 'w io_wrapper" where
  "stderr_io_wrapper kwrite stderr unused loc type payload w =
     (if type = DF_READ then Some (0, w)
      else if type = DF_WRITE then kwrite (stderr w) loc payload w else None)"

definition null_io_wrapper :: "'w io_wrapper" where
  "null_io_wrapper unused loc type payload w =
     (if type = DF_READ then Some (-1, w) else if type = DF_WRITE then Some (0, w) else None)"

definition zero_io_wrapper :: "'w io_wrapper" where
  "zero_io_wrapper unused loc type payload w =
     (if type = DF_READ then Some (0, w) else if type = DF_WRITE then Some (0, w) else None)"

definition init_streams ::
  "(string \<Rightarrow> u64 \<Rightarrow> 'w \<Rightarrow> (int \<times> 'w) option) \<Rightarrow> (string \<Rightarrow> u64 \<Rightarrow> u8 \<Rightarrow> 'w \<Rightarrow> (int \<times> 'w) option) \<Rightarrow>
   ('w \<Rightarrow> string) \<Rightarrow> ('w \<Rightarrow> string) \<Rightarrow> ('w \<Rightarrow> string) \<Rightarrow> 'w device_t list \<Rightarrow> 'w device_t list option" where
  "init_streams kread kwrite stdin stdout stderr ds = do {
     ds \<leftarrow> kernel_add_device ''stdin'' 0 0 (stdin_io_wrapper kread stdin) ds;
     ds \<leftarrow> kernel_add_device ''stdout'' 0 0 (stdout_io_wrapper kwrite stdout) ds;
     ds \<leftarrow> kernel_add_device ''stderr'' 0 0 (stderr_io_wrapper kwrite stderr) ds;
     ds \<leftarrow> kernel_add_device ''null'' 0 0 null_io_wrapper ds;
     kernel_add_device ''zero'' 0 0 zero_io_wrapper ds }"

subsection \<open>Looking a device up by name\<close>

definition find_device :: "string \<Rightarrow> 'w device_t list \<Rightarrow> nat option" where
  "find_device name ds = first_index (\<lambda>d. dev_name d = name) ds"

lemma find_device_add_other:
  "kernel_add_device name gp sz io ds = Some ds' \<Longrightarrow> find_device n ds = Some i \<Longrightarrow> find_device n ds' = Some i"
  by (auto simp: kernel_add_device_def find_device_def first_index_append split: if_splits)

lemma find_device_add:
  "kernel_add_device name gp sz io ds = Some ds' \<Longrightarrow> find_device name ds = None \<Longrightarrow>
     find_device name ds' = Some (length ds) \<and> dev_io (ds' ! length ds) = io \<and> gp_value (ds' ! length ds) = gp
     \<and> dev_size (ds' ! length ds) = sz"
  by (auto simp: kernel_add_device_def find_device_def first_index_append split: if_splits)

lemma kernel_add_device_nth:
  "kernel_add_device name gp sz io ds = Some ds' \<Longrightarrow> i < length ds \<Longrightarrow> ds' ! i = ds ! i"
  by (auto simp: kernel_add_device_def nth_append split: if_splits)


subsection \<open>The contract of a storage device\<close>

text \<open>
  A device that stores bytes: below \<open>limit\<close>, reading returns the content and changes nothing that
  can be read, writing changes exactly the byte addressed.  \<open>ok\<close> is the invariant of the device
  state under which this holds.
\<close>

locale byte_device =
  fixes io :: "'w io_wrapper" and gp :: nat and ok :: "'w \<Rightarrow> bool"
    and content :: "'w \<Rightarrow> nat \<Rightarrow> u8" and limit :: nat
  assumes read_law: "ok w \<Longrightarrow> unat p < limit \<Longrightarrow>
      \<exists>w'. io gp p DF_READ v w = Some (uint (content w (unat p)), w') \<and> ok w' \<and> (\<forall>q<limit. content w' q = content w q)"
    and write_law: "ok w \<Longrightarrow> unat p < limit \<Longrightarrow>
      \<exists>w'. io gp p DF_WRITE v w = Some (0, w') \<and> ok w' \<and> (\<forall>q<limit. content w' q = (if q = unat p then v else content w q))"

end
