(* ===== verification/Devfs.thy ===== *)
theory Devfs
  imports Devices Handles
begin

text \<open>
  The device file system, \<open>kernel/src/fs/devfs.c\<close>: devices as files of one directory.

  The state holds the device list, the handle table, the two global flags \<open>read_stat\<close> and
  \<open>write_stat\<close> that tell the system call layer to wait, and the state \<open>'w\<close> of the devices.
  File positions are 64-bit words; \<open>i_ptr\<close>, the running position of a transfer, is an \<open>int\<close>
  and therefore their signed 32-bit truncation.  Strings are compared with \<open>kstrcmp\<close>, which
  decides equality (theory \<open>Klib_Strings\<close>).  An index outside a table is a fault.
\<close>

record devfs_handle_t =
  df_free :: bool
  df_path :: string
  df_flags :: u32
  df_mode :: int
  df_ptr :: u64
  df_begin :: u64
  df_end :: u64
  df_isblock :: bool
  df_device :: nat

record 'w devfs =
  device_list :: "'w device_t list"
  devfs_handles :: "devfs_handle_t list"
  read_stat :: bool
  write_stat :: bool
  dev_world :: 'w

definition devfs_create_handle :: "devfs_handle_t list \<Rightarrow> devfs_handle_t \<Rightarrow> nat \<times> devfs_handle_t list" where
  "devfs_create_handle hs h =
     (case first_index df_free hs of
        Some handle_n \<Rightarrow> (handle_n, hs[handle_n := h])
      | None \<Rightarrow> (length hs, hs @ [h]))"

interpretation dfh: handle_table df_free devfs_create_handle
  by unfold_locales (simp_all add: devfs_create_handle_def)

definition skip_slash :: "string \<Rightarrow> string" where
  "skip_slash path = (case path of CHR ''/'' # p \<Rightarrow> p | _ \<Rightarrow> path)"

definition devfs_list :: "nat \<Rightarrow> 'w devfs \<Rightarrow> vfs_metadata_t option" where
  "devfs_list entry s =
     (if entry \<ge> length (device_list s) then None
      else Some \<lparr>filename = dev_name (device_list s ! entry), filetype = DEVICE_TYPE,
             fsize = dev_size (device_list s ! entry)\<rparr>)"

definition devfs_io :: "string \<Rightarrow> u64 \<Rightarrow> int \<Rightarrow> u8 \<Rightarrow> 'w devfs \<Rightarrow> (int \<times> 'w devfs) option" where
  "devfs_io path loc type val s =
     (case find_device (skip_slash path) (device_list s) of
        Some i \<Rightarrow> (let d = device_list s ! i in
          map_option (\<lambda>(r, w). (r, s\<lparr>dev_world := w\<rparr>)) (dev_io d (gp_value d) loc type val (dev_world s)))
      | None \<Rightarrow> Some (-2, s))"

definition devfs_write :: "string \<Rightarrow> u8 \<Rightarrow> u64 \<Rightarrow> 'w devfs \<Rightarrow> (int \<times> 'w devfs) option" where
  "devfs_write path val loc s = devfs_io path loc 1 val s"

definition devfs_read :: "string \<Rightarrow> u64 \<Rightarrow> 'w devfs \<Rightarrow> (int \<times> 'w devfs) option" where
  "devfs_read path loc s = devfs_io path loc 0 0 s"

text \<open>
  The transfer loops: one call of the device per byte, stopped by \<open>FAILURE\<close>, -1 or
  \<open>IO_NOT_READY\<close>.  The result is whether the device was not ready, the number of bytes done (for a
  read, the bytes), the new position and the new device state.
\<close>

fun uwrite_loop :: "'w io_wrapper \<Rightarrow> nat \<Rightarrow> int \<Rightarrow> u8 list \<Rightarrow> nat \<Rightarrow> 'w \<Rightarrow> (bool \<times> nat \<times> int \<times> 'w) option" where
  "uwrite_loop io gp i_ptr [] i w = Some (False, i, i_ptr, w)"
| "uwrite_loop io gp i_ptr (b # bs) i w =
     (case io gp (word_of_int i_ptr) 1 b w of
        None \<Rightarrow> None
      | Some (c, w) \<Rightarrow>
          if c = -2 \<or> c = -1 then Some (False, i, i_ptr, w)
          else if c = IO_NOT_READY then Some (True, i, i_ptr, w)
          else uwrite_loop io gp (s32 (i_ptr + 1)) bs (i + 1) w)"

fun uread_loop :: "'w io_wrapper \<Rightarrow> nat \<Rightarrow> int \<Rightarrow> nat \<Rightarrow> u8 list \<Rightarrow> 'w \<Rightarrow> (bool \<times> u8 list \<times> int \<times> 'w) option" where
  "uread_loop io gp i_ptr 0 bs w = Some (False, bs, i_ptr, w)"
| "uread_loop io gp i_ptr (Suc n) bs w =
     (case io gp (word_of_int i_ptr) 0 0 w of
        None \<Rightarrow> None
      | Some (c, w) \<Rightarrow>
          if c = -2 \<or> c = -1 then Some (False, bs, i_ptr, w)
          else if c = IO_NOT_READY then Some (True, bs, i_ptr, w)
          else uread_loop io gp (s32 (i_ptr + 1)) n (bs @ [word_of_int c]) w)"

text \<open>The device behind a handle and the transfer position, both looked up without any check.\<close>

definition handle_device :: "int \<Rightarrow> 'w devfs \<Rightarrow> (devfs_handle_t \<times> 'w device_t) option" where
  "handle_device handle s =
     (if 0 \<le> handle \<and> nat handle < length (devfs_handles s) then
        let h = devfs_handles s ! nat handle in
        map_option (Pair h) (arr_get (device_list s) (df_device h))
      else None)"

definition devfs_uwrite :: "int \<Rightarrow> u8 list \<Rightarrow> 'w devfs \<Rightarrow> (int \<times> 'w devfs) option" where
  "devfs_uwrite handle bs s =
     (case handle_device handle s of
        None \<Rightarrow> None
      | Some (h, d) \<Rightarrow>
          (case uwrite_loop (dev_io d) (gp_value d) (s32 (uint (df_ptr h))) bs 0 (dev_world s) of
             None \<Rightarrow> None
           | Some (stat, i, i_ptr, w) \<Rightarrow>
               Some (int i, s\<lparr>write_stat := stat, dev_world := w,
                 devfs_handles := (devfs_handles s)[nat handle := h\<lparr>df_ptr := word_of_int i_ptr\<rparr>]\<rparr>)))"

definition devfs_uread :: "int \<Rightarrow> int \<Rightarrow> 'w devfs \<Rightarrow> (int \<times> u8 list \<times> 'w devfs) option" where
  "devfs_uread handle n s =
     (case handle_device handle s of
        None \<Rightarrow> None
      | Some (h, d) \<Rightarrow>
          (case uread_loop (dev_io d) (gp_value d) (s32 (uint (df_ptr h))) (nat n) [] (dev_world s) of
             None \<Rightarrow> None
           | Some (stat, bs, i_ptr, w) \<Rightarrow>
               Some (int (length bs), bs, s\<lparr>read_stat := stat, dev_world := w,
                 devfs_handles := (devfs_handles s)[nat handle := h\<lparr>df_ptr := word_of_int i_ptr\<rparr>]\<rparr>)))"

definition devfs_remove :: int where "devfs_remove = -2"
definition devfs_mkdir :: int where "devfs_mkdir = -2"
definition devfs_create :: int where "devfs_create = -2"
definition devfs_mount :: int where "devfs_mount = 0"

text \<open>\<open>None\<close> is the return value \<open>FAILURE\<close>; the types are those the kernel passes.\<close>

definition devfs_get_metadata :: "string \<Rightarrow> int \<Rightarrow> 'w devfs \<Rightarrow> vfs_metadata_t option" where
  "devfs_get_metadata path type s =
     (if type = DIRECTORY_TYPE then
        if path = ''/'' \<or> path = [] then Some \<lparr>filename = ''/'', filetype = type, fsize = 0\<rparr> else None
      else if type = DEVICE_TYPE then
        map_option (\<lambda>i. let d = device_list s ! i in \<lparr>filename = dev_name d, filetype = DEVICE_TYPE, fsize = dev_size d\<rparr>)
          (find_device (skip_slash path) (device_list s))
      else None)"

definition devfs_open :: "string \<Rightarrow> u32 \<Rightarrow> int \<Rightarrow> 'w devfs \<Rightarrow> (int \<times> 'w devfs) option" where
  "devfs_open path flags mode s =
     (case devfs_get_metadata path DEVICE_TYPE s of
        None \<Rightarrow> Some (-1, s)
      | Some metadata \<Rightarrow>
          if flags AND O_TRUNC \<noteq> 0 then Some (-1, s)
          else if flags AND O_APPEND \<noteq> 0 then Some (-1, s)
          else if flags AND O_CREAT \<noteq> 0 then Some (-1, s)
          else if length path \<ge> 1024 then None
          else
            let device = (case find_device (skip_slash path) (device_list s) of Some i \<Rightarrow> i | None \<Rightarrow> length (device_list s));
                new_handle = \<lparr>df_free = False, df_path = path, df_flags = flags, df_mode = mode, df_ptr = 0,
                  df_begin = 0, df_end = fsize metadata, df_isblock = (fsize metadata = 0), df_device = device\<rparr>;
                (n, hs) = devfs_create_handle (devfs_handles s) new_handle
            in Some (int n, s\<lparr>devfs_handles := hs\<rparr>))"

definition devfs_close :: "int \<Rightarrow> 'w devfs \<Rightarrow> int \<times> 'w devfs" where
  "devfs_close handle s =
     (if handle < 0 then (-1, s)
      else if nat handle \<ge> length (devfs_handles s) then (-1, s)
      else if df_free (devfs_handles s ! nat handle) then (-1, s)
      else (0, s\<lparr>devfs_handles := (devfs_handles s)[nat handle := (devfs_handles s ! nat handle)\<lparr>df_free := True\<rparr>]\<rparr>))"

text \<open>Seeking: the offset is converted to 64 bits, the comparisons are unsigned, the result is truncated to \<open>int\<close>.\<close>

definition seek_target :: "devfs_handle_t \<Rightarrow> int \<Rightarrow> int \<Rightarrow> u64 option" where
  "seek_target h offset type =
     (if type = SEEK_SET then Some (df_begin h + word_of_int offset)
      else if type = SEEK_END then Some (df_end h + word_of_int offset)
      else if type = SEEK_CUR then Some (df_ptr h + word_of_int offset)
      else None)"

definition devfs_seek :: "int \<Rightarrow> int \<Rightarrow> int \<Rightarrow> 'w devfs \<Rightarrow> int \<times> 'w devfs" where
  "devfs_seek handle offset type s =
     (if handle < 0 then (-1, s)
      else if nat handle \<ge> length (devfs_handles s) then (-1, s)
      else let h = devfs_handles s ! nat handle in
        if df_free h then (-1, s)
        else if df_isblock h then (-1, s)
        else case seek_target h offset type of
          None \<Rightarrow> (-1, s)
        | Some p \<Rightarrow>
            if p > df_end h \<or> p < df_begin h then (-1, s)
            else (s32 (uint p), s\<lparr>devfs_handles := (devfs_handles s)[nat handle := h\<lparr>df_ptr := p\<rparr>]\<rparr>))"

definition devfs_fork :: "int \<Rightarrow> 'w devfs \<Rightarrow> (int \<times> 'w devfs) option" where
  "devfs_fork handle s =
     (if 0 \<le> handle \<and> nat handle < length (devfs_handles s) then
        let (n, hs) = devfs_create_handle (devfs_handles s) (devfs_handles s ! nat handle)
        in Some (int n, s\<lparr>devfs_handles := hs\<rparr>)
      else None)"


subsection \<open>Transfers to storage devices\<close>

lemma unat_word_of_int: "0 \<le> i \<Longrightarrow> i < 2 ^ 64 \<Longrightarrow> unat (word_of_int i :: u64) = nat i"
  by (simp add: unat_eq_nat_uint uint_word_of_int)

lemma upt_shift_Cons: "map f [nat i..<nat i + Suc n] = f (nat i) # map f [nat (i + 1)..<nat (i + 1) + n]" if "0 \<le> i"
proof -
  have "nat (i + 1) = Suc (nat i)" using that by simp
  then show ?thesis by (simp add: upt_conv_Cons del: upt_Suc)
qed

context byte_device
begin

lemma uread_loop_contents:
  "ok w \<Longrightarrow> 0 \<le> i_ptr \<Longrightarrow> i_ptr + int n \<le> int limit \<Longrightarrow> i_ptr + int n < 2 ^ 31 \<Longrightarrow>
   \<exists>w'. uread_loop io gp i_ptr n acc w
       = Some (False, acc @ map (content w) [nat i_ptr..<nat i_ptr + n], i_ptr + int n, w')
     \<and> ok w' \<and> (\<forall>q<limit. content w' q = content w q)"
proof (induction n arbitrary: i_ptr acc w)
  case (Suc n)
  have p: "unat (word_of_int i_ptr :: u64) = nat i_ptr" "nat i_ptr < limit"
    using Suc.prems by (auto simp: unat_word_of_int)
  with read_law [OF Suc.prems(1), of "word_of_int i_ptr" 0] obtain w1 where w1:
    "io gp (word_of_int i_ptr) 0 0 w = Some (uint (content w (nat i_ptr)), w1)" "ok w1"
    "\<forall>q<limit. content w1 q = content w q" by auto
  have nonneg: "uint (content w (nat i_ptr)) \<noteq> -2" "uint (content w (nat i_ptr)) \<noteq> -1" "uint (content w (nat i_ptr)) \<noteq> -5"
    by (metis uint_ge_0 neg_numeral_le_zero le_minus_one_simps(3) linorder_not_less neg_less_0_iff_less zero_less_numeral zero_less_one)+
  have s: "s32 (i_ptr + 1) = i_ptr + 1" using Suc.prems by (simp add: s32_id)
  have "i_ptr + 1 + int n \<le> int limit" "i_ptr + 1 + int n < 2 ^ 31" "0 \<le> i_ptr + 1" using Suc.prems by auto
  from Suc.IH [OF w1(2) this(3,1,2), of "acc @ [content w (nat i_ptr)]"] obtain w' where w':
    "uread_loop io gp (i_ptr + 1) n (acc @ [content w (nat i_ptr)]) w1 =
       Some (False, acc @ [content w (nat i_ptr)] @ map (content w1) [nat (i_ptr + 1)..<nat (i_ptr + 1) + n], i_ptr + 1 + int n, w')"
    "ok w'" "\<forall>q<limit. content w' q = content w1 q" by auto
  have "map (content w1) [nat (i_ptr + 1)..<nat (i_ptr + 1) + n] = map (content w) [nat (i_ptr + 1)..<nat (i_ptr + 1) + n]"
    using w1(3) Suc.prems by (intro map_cong) auto
  then have bytes: "content w (nat i_ptr) # map (content w1) [nat (i_ptr + 1)..<nat (i_ptr + 1) + n]
      = map (content w) [nat i_ptr..<nat i_ptr + Suc n]"
    using upt_shift_Cons [OF Suc.prems(2), of "content w" n] by simp
  then show ?case using w1 w' nonneg s Suc.prems by (auto simp del: upt_Suc)
qed simp

lemma uwrite_loop_contents:
  "ok w \<Longrightarrow> 0 \<le> i_ptr \<Longrightarrow> i_ptr + int (length bs) \<le> int limit \<Longrightarrow> i_ptr + int (length bs) < 2 ^ 31 \<Longrightarrow>
   \<exists>w'. uwrite_loop io gp i_ptr bs i w = Some (False, i + length bs, i_ptr + int (length bs), w') \<and> ok w'
     \<and> (\<forall>q<limit. content w' q = (if nat i_ptr \<le> q \<and> q < nat i_ptr + length bs then bs ! (q - nat i_ptr) else content w q))"
proof (induction bs arbitrary: i_ptr i w)
  case (Cons b bs)
  have p: "unat (word_of_int i_ptr :: u64) = nat i_ptr" "nat i_ptr < limit"
    using Cons.prems by (auto simp: unat_word_of_int)
  with write_law [OF Cons.prems(1), of "word_of_int i_ptr" b] obtain w1 where w1:
    "io gp (word_of_int i_ptr) 1 b w = Some (0, w1)" "ok w1"
    "\<forall>q<limit. content w1 q = (if q = nat i_ptr then b else content w q)" by auto
  have s: "s32 (i_ptr + 1) = i_ptr + 1" using Cons.prems by (simp add: s32_id)
  have "0 \<le> i_ptr + 1" "i_ptr + 1 + int (length bs) \<le> int limit" "i_ptr + 1 + int (length bs) < 2 ^ 31" using Cons.prems by auto
  from Cons.IH [OF w1(2) this, of "i + 1"] obtain w' where w':
    "uwrite_loop io gp (i_ptr + 1) bs (i + 1) w1 = Some (False, i + 1 + length bs, i_ptr + 1 + int (length bs), w')" "ok w'"
    "\<forall>q<limit. content w' q = (if nat (i_ptr + 1) \<le> q \<and> q < nat (i_ptr + 1) + length bs
       then bs ! (q - nat (i_ptr + 1)) else content w1 q)" by auto
  have n: "nat (i_ptr + 1) = Suc (nat i_ptr)" using Cons.prems by simp
  have "content w' q = (if nat i_ptr \<le> q \<and> q < nat i_ptr + length (b # bs) then (b # bs) ! (q - nat i_ptr) else content w q)"
    if q: "q < limit" for q
    using w1(3) w'(3) q n by (cases "q = nat i_ptr") (auto simp: nth_Cons')
  then show ?case using w1 w' s by auto
qed auto

end

text \<open>An open handle of a storage device whose position is known.\<close>

definition positioned :: "'w devfs \<Rightarrow> int \<Rightarrow> devfs_handle_t \<Rightarrow> 'w device_t \<Rightarrow> nat \<Rightarrow> bool" where
  "positioned s handle h d pos \<longleftrightarrow> handle_device handle s = Some (h, d) \<and> unat (df_ptr h) = pos"

lemma s32_uint_small: "unat p < 2 ^ 31 \<Longrightarrow> s32 (uint (p :: u64)) = int (unat p)"
proof -
  assume "unat p < 2 ^ 31"
  then have "int (unat p) < int (2 ^ 31)" by (simp only: of_nat_less_iff)
  then show ?thesis unfolding uint_nat by (intro s32_id) (simp_all del: of_nat_unat)
qed

lemma word_of_int_pos: "unat (word_of_int (int a + int b) :: u64) = a + b" if "a + b < 2 ^ 31"
  using that unat_word_of_int [of "int a + int b"] by (simp add: nat_add_distrib)

lemma uread_storage:
  assumes "byte_device (dev_io d) (gp_value d) ok content limit" and "ok (dev_world s)"
    and "positioned s handle h d pos" and "pos + n \<le> limit" and "pos + n < 2 ^ 31"
  shows "\<exists>s' h'. devfs_uread handle (int n) s = Some (int n, map (content (dev_world s)) [pos..<pos + n], s')
    \<and> ok (dev_world s') \<and> (\<forall>q<limit. content (dev_world s') q = content (dev_world s) q)
    \<and> h' = h\<lparr>df_ptr := word_of_int (int pos + int n)\<rparr>
    \<and> device_list s' = device_list s \<and> devfs_handles s' = (devfs_handles s)[nat handle := h']"
proof -
  have hd: "handle_device handle s = Some (h, d)" and pos: "s32 (uint (df_ptr h)) = int pos"
    using assms(3,5) by (auto simp: positioned_def s32_uint_small)
  from byte_device.uread_loop_contents [OF assms(1,2), of "int pos" n "[]"] assms(4,5)
  obtain w' where "uread_loop (dev_io d) (gp_value d) (int pos) n [] (dev_world s) =
      Some (False, map (content (dev_world s)) [pos..<pos + n], int pos + int n, w')"
    "ok w'" "\<forall>q<limit. content w' q = content (dev_world s) q" by auto
  then show ?thesis using hd pos by (simp add: devfs_uread_def)
qed

lemma uwrite_storage:
  assumes "byte_device (dev_io d) (gp_value d) ok content limit" and "ok (dev_world s)"
    and "positioned s handle h d pos" and "pos + length bs \<le> limit" and "pos + length bs < 2 ^ 31"
  shows "\<exists>s' h'. devfs_uwrite handle bs s = Some (int (length bs), s') \<and> ok (dev_world s')
    \<and> (\<forall>q<limit. content (dev_world s') q =
         (if pos \<le> q \<and> q < pos + length bs then bs ! (q - pos) else content (dev_world s) q))
    \<and> h' = h\<lparr>df_ptr := word_of_int (int pos + int (length bs))\<rparr>
    \<and> device_list s' = device_list s \<and> devfs_handles s' = (devfs_handles s)[nat handle := h']"
proof -
  have hd: "handle_device handle s = Some (h, d)" and pos: "s32 (uint (df_ptr h)) = int pos"
    using assms(3,5) by (auto simp: positioned_def s32_uint_small)
  from byte_device.uwrite_loop_contents [OF assms(1,2), of "int pos" bs 0] assms(4,5)
  obtain w' where "uwrite_loop (dev_io d) (gp_value d) (int pos) bs 0 (dev_world s) =
      Some (False, length bs, int pos + int (length bs), w')" "ok w'"
    "\<forall>q<limit. content w' q = (if pos \<le> q \<and> q < pos + length bs then bs ! (q - pos) else content (dev_world s) q)" by auto
  then show ?thesis using hd pos by (simp add: devfs_uwrite_def)
qed


subsection \<open>Seeking\<close>

text \<open>The position an offset is relative to.\<close>

definition seek_base :: "devfs_handle_t \<Rightarrow> int \<Rightarrow> int" where
  "seek_base h type = (if type = SEEK_SET then 0 else if type = SEEK_END then uint (df_end h) else uint (df_ptr h))"

lemma uint_add_offset:
  assumes "0 \<le> b" and "b < 2 ^ 63" and "- (2 ^ 31) \<le> offset" and "offset < 2 ^ 31"
  shows "uint (word_of_int b + word_of_int offset :: u64) = (if 0 \<le> b + offset then b + offset else b + offset + 2 ^ 64)"
proof -
  have "uint (word_of_int b + word_of_int offset :: u64) = (b + offset) mod 2 ^ 64"
    unfolding wi_hom_add uint_word_of_int by simp
  also have "\<dots> = (if 0 \<le> b + offset then b + offset else b + offset + 2 ^ 64)"
  proof (cases "0 \<le> b + offset")
    case True
    then show ?thesis using assms by (simp add: mod_pos_pos_trivial)
  next
    case False
    have "(b + offset) mod 2 ^ 64 = (b + offset + 2 ^ 64) mod 2 ^ 64" by simp
    also have "\<dots> = b + offset + 2 ^ 64" using False assms by (intro mod_pos_pos_trivial) auto
    finally show ?thesis using False by simp
  qed
  finally show ?thesis .
qed

lemma seek_target_uint:
  assumes "df_begin h = 0" and "uint (df_end h) < 2 ^ 63" and "uint (df_ptr h) < 2 ^ 63"
    and "- (2 ^ 31) \<le> offset" and "offset < 2 ^ 31" and "type \<in> {SEEK_SET, SEEK_END, SEEK_CUR}"
  shows "\<exists>p. seek_target h offset type = Some p \<and> uint p = (if 0 \<le> seek_base h type + offset
    then seek_base h type + offset else seek_base h type + offset + 2 ^ 64)"
  using assms uint_add_offset [of 0 offset] uint_add_offset [of "uint (df_end h)" offset]
    uint_add_offset [of "uint (df_ptr h)" offset]
  by (auto simp: seek_target_def seek_base_def)

lemma devfs_seek_eq:
  assumes "0 \<le> handle" and "nat handle < length (devfs_handles s)" and "h = devfs_handles s ! nat handle"
    and "\<not> df_free h" and "\<not> df_isblock h" and "df_begin h = 0"
    and "uint (df_end h) < 2 ^ 63" and "uint (df_ptr h) < 2 ^ 63"
    and "- (2 ^ 31) \<le> offset" and "offset < 2 ^ 31" and "type \<in> {SEEK_SET, SEEK_END, SEEK_CUR}"
  shows "devfs_seek handle offset type s =
    (if 0 \<le> seek_base h type + offset \<and> seek_base h type + offset \<le> uint (df_end h)
     then (s32 (seek_base h type + offset), s\<lparr>devfs_handles := (devfs_handles s)[nat handle :=
             h\<lparr>df_ptr := word_of_int (seek_base h type + offset)\<rparr>]\<rparr>)
     else (-1, s))"
proof -
  let ?t = "seek_base h type + offset"
  from seek_target_uint [OF assms(6-11)] obtain p where p: "seek_target h offset type = Some p"
    "uint p = (if 0 \<le> ?t then ?t else ?t + 2 ^ 64)" by blast
  have base: "0 \<le> seek_base h type" by (simp add: seek_base_def)
  have "p > df_end h \<or> p < df_begin h \<longleftrightarrow> \<not> (0 \<le> ?t \<and> ?t \<le> uint (df_end h))"
    using p(2) assms(6,7,9) base by (auto simp: word_less_def)
  moreover have "p = word_of_int ?t" if "0 \<le> ?t"
    using p(2) that by (metis word_of_int_uint)
  ultimately show ?thesis
    using assms(1-5) p by (auto simp: devfs_seek_def Let_def)
qed

text \<open>
  C27. Seeking on a device of known size: the target is the base plus the offset as mathematical
  integers; if it lies between the beginning and the end of the device the position is set to it,
  otherwise -1 is returned and nothing changes.  Wrap-around of the 64-bit arithmetic never lets a
  target outside the device pass.
\<close>

theorem devfs_seek_stays_inside:
  assumes "0 \<le> handle" and "nat handle < length (devfs_handles s)" and "h = devfs_handles s ! nat handle"
    and "\<not> df_free h" and "\<not> df_isblock h" and "df_begin h = 0"
    and "uint (df_end h) < 2 ^ 63" and "uint (df_ptr h) < 2 ^ 63"
    and "- (2 ^ 31) \<le> offset" and "offset < 2 ^ 31" and "type \<in> {SEEK_SET, SEEK_END, SEEK_CUR}"
  shows "devfs_seek handle offset type s =
    (if 0 \<le> seek_base h type + offset \<and> seek_base h type + offset \<le> uint (df_end h)
     then (s32 (seek_base h type + offset), s\<lparr>devfs_handles := (devfs_handles s)[nat handle :=
             h\<lparr>df_ptr := word_of_int (seek_base h type + offset)\<rparr>]\<rparr>)
     else (-1, s))"
  by (rule devfs_seek_eq [OF assms])

theorem devfs_seek_stays_inside_witness:
  "\<exists>s :: unit devfs. fst (devfs_seek 0 (-1) SEEK_SET s) = -1 \<and> fst (devfs_seek 0 (-12) SEEK_END s) = 500"
proof -
  let ?h = "\<lparr>df_free = False, df_path = ''bd0'', df_flags = 0, df_mode = 0, df_ptr = 0, df_begin = 0,
      df_end = 512, df_isblock = False, df_device = 0\<rparr>"
  let ?s = "\<lparr>device_list = [], devfs_handles = [?h], read_stat = False, write_stat = False, dev_world = ()\<rparr>"
  have "fst (devfs_seek 0 (-1) SEEK_SET ?s) = -1"
    using devfs_seek_stays_inside [of 0 ?s ?h "-1" SEEK_SET] by (simp add: seek_base_def)
  moreover have "fst (devfs_seek 0 (-12) SEEK_END ?s) = 500"
    using devfs_seek_stays_inside [of 0 ?s ?h "-12" SEEK_END] by (simp add: seek_base_def s32_def)
  ultimately show ?thesis by (intro exI [of _ ?s]) simp
qed

subsection \<open>Opening\<close>

lemma devfs_open_spec:
  assumes "find_device (skip_slash path) (device_list s) = Some i" and "length path < 1024"
    and "flags AND O_TRUNC = 0" and "flags AND O_APPEND = 0" and "flags AND O_CREAT = 0"
  shows "\<exists>n s' h. devfs_open path flags mode s = Some (int n, s')
    \<and> handle_device (int n) s' = Some (h, device_list s ! i) \<and> df_ptr h = 0 \<and> df_begin h = 0
    \<and> df_end h = dev_size (device_list s ! i) \<and> \<not> df_free h \<and> df_isblock h = (dev_size (device_list s ! i) = 0) \<and> device_list s' = device_list s \<and> dev_world s' = dev_world s
    \<and> \<not> live df_free (devfs_handles s) n \<and> (\<forall>j<n. live df_free (devfs_handles s) j)
    \<and> (\<forall>j. live df_free (devfs_handles s) j \<longrightarrow> live df_free (devfs_handles s') j
          \<and> devfs_handles s' ! j = devfs_handles s ! j)"
proof -
  let ?d = "device_list s ! i"
  have i: "i < length (device_list s)" using assms(1) by (simp add: find_device_def first_index_less)
  define h where "h = \<lparr>df_free = False, df_path = path, df_flags = flags, df_mode = mode, df_ptr = 0,
      df_begin = 0, df_end = dev_size ?d, df_isblock = (dev_size ?d = 0), df_device = i\<rparr>"
  obtain n hs where c: "devfs_create_handle (devfs_handles s) h = (n, hs)"
    by (cases "devfs_create_handle (devfs_handles s) h")
  have o: "devfs_open path flags mode s = Some (int n, s\<lparr>devfs_handles := hs\<rparr>)"
    using assms c [unfolded h_def] by (simp add: devfs_open_def devfs_get_metadata_def Let_def)
  note spec = dfh.create_spec [OF c]
  then have "handle_device (int n) (s\<lparr>devfs_handles := hs\<rparr>) = Some (h, ?d)"
    using i by (simp add: handle_device_def h_def)
  then show ?thesis using o spec by (intro exI [of _ n] exI [of _ "s\<lparr>devfs_handles := hs\<rparr>"] exI [of _ h]) (auto simp: h_def)
qed

text \<open>
  Opening a device: the name resolves to the first device registered under it (a leading slash is
  ignored); without truncation, append or creation flags the call returns the lowest handle not in
  use, positioned at the start of that device, and every other open handle stays as it was.
\<close>

lemma devfs_open_gives_device:
  assumes "find_device (skip_slash path) (device_list s) = Some i" and "length path < 1024"
    and "flags AND O_TRUNC = 0" and "flags AND O_APPEND = 0" and "flags AND O_CREAT = 0"
  shows "\<exists>n s' h. devfs_open path flags mode s = Some (int n, s')
    \<and> handle_device (int n) s' = Some (h, device_list s ! i) \<and> df_ptr h = 0 \<and> df_begin h = 0
    \<and> df_end h = dev_size (device_list s ! i) \<and> device_list s' = device_list s \<and> dev_world s' = dev_world s
    \<and> \<not> live df_free (devfs_handles s) n \<and> (\<forall>j<n. live df_free (devfs_handles s) j)
    \<and> (\<forall>j. live df_free (devfs_handles s) j \<longrightarrow> live df_free (devfs_handles s') j
          \<and> devfs_handles s' ! j = devfs_handles s ! j)"
  using devfs_open_spec [OF assms, of mode] by blast

lemma devfs_open_gives_device_witness:
  "\<exists>s' h. devfs_open ''/zero'' 3 0 \<lparr>device_list = [\<lparr>dev_name = ''null'', gp_value = 0, dev_size = 0, dev_io = null_io_wrapper\<rparr>,
       \<lparr>dev_name = ''zero'', gp_value = 0, dev_size = 0, dev_io = zero_io_wrapper\<rparr>], devfs_handles = [],
       read_stat = False, write_stat = False, dev_world = ()\<rparr> = Some (0, s')
     \<and> handle_device 0 s' = Some (h, \<lparr>dev_name = ''zero'', gp_value = 0, dev_size = 0, dev_io = zero_io_wrapper\<rparr>)"
proof -
  let ?s = "\<lparr>device_list = [\<lparr>dev_name = ''null'', gp_value = 0, dev_size = 0, dev_io = null_io_wrapper\<rparr>,
       \<lparr>dev_name = ''zero'', gp_value = 0, dev_size = 0, dev_io = zero_io_wrapper\<rparr>], devfs_handles = [],
       read_stat = False, write_stat = False, dev_world = ()\<rparr>"
  have "find_device (skip_slash ''/zero'') (device_list ?s) = Some 1" by (simp add: find_device_def skip_slash_def)
  from devfs_open_gives_device [OF this, of 3 0] obtain n s' h where
    "devfs_open ''/zero'' 3 0 ?s = Some (int n, s')" "handle_device (int n) s' = Some (h, device_list ?s ! 1)"
    "\<forall>j<n. live df_free (devfs_handles ?s) j" by auto
  moreover from this(3) have "n = 0" by (auto simp: live_def)
  ultimately show ?thesis by auto
qed

end
