(* ===== verification/Bios_Disk.thy ===== *)
theory Bios_Disk
  imports Devfs
begin

text \<open>
  The BIOS hard disks, \<open>kernel/src/drivers/bios_harddisks/bd.c\<close>: byte access to whole disks
  through one write-back cache of 64 sectors.

  Reading a sector and writing a sector are the arguments \<open>rd\<close> and \<open>wr\<close>, functions on a hardware
  state \<open>'h\<close>; \<open>None\<close> is the carry flag, on which the kernel panics.  \<open>Bios_Calls\<close> makes them from
  the BIOS calls of the driver.  What the kernel
  relies on is the predicate \<open>bios_laws\<close>: below the sector count of a drive, sectors have 512
  bytes, reading returns the stored sector and changes none, writing replaces exactly one.

  \<open>disk_byte\<close> is the content of a disk as the kernel sees it, cache included.  The cache is
  transparent: reads return it and writes change one byte of it.
\<close>

abbreviation (input) CACHE_SECTS :: nat where "CACHE_SECTS \<equiv> 64"
abbreviation (input) CACHE_SIZE :: nat where "CACHE_SIZE \<equiv> 32768"
abbreviation (input) BYTES_PER_SECT :: nat where "BYTES_PER_SECT \<equiv> 512"

type_synonym 'h sector_read = "u8 \<Rightarrow> nat \<Rightarrow> 'h \<Rightarrow> (u8 list \<times> 'h) option"
type_synonym 'h sector_write = "u8 \<Rightarrow> nat \<Rightarrow> u8 list \<Rightarrow> 'h \<Rightarrow> 'h option"

datatype cache_status = CacheNotReady | CacheReady | CacheDirty

record 'h bios_disks =
  cache_status :: cache_status
  cached_drive :: u8
  cached_block :: nat
  disk_cache :: "u8 list"
  hw :: 'h

text \<open>The loops over the 64 sectors, each transferred through a 512-byte buffer.\<close>

fun read_sectors :: "'h sector_read \<Rightarrow> u8 \<Rightarrow> nat \<Rightarrow> nat \<Rightarrow> 'h \<Rightarrow> (u8 list \<times> 'h) option" where
  "read_sectors rd drive block 0 h = Some ([], h)"
| "read_sectors rd drive block (Suc n) h =
     (case read_sectors rd drive block n h of
        None \<Rightarrow> None
      | Some (buf, h) \<Rightarrow>
          (case rd drive (block + n) h of None \<Rightarrow> None | Some (tmp, h) \<Rightarrow> Some (buf @ take BYTES_PER_SECT tmp, h)))"

fun write_sectors :: "'h sector_write \<Rightarrow> u8 \<Rightarrow> u8 list \<Rightarrow> nat \<Rightarrow> nat \<Rightarrow> 'h \<Rightarrow> 'h option" where
  "write_sectors wr drive buf block 0 h = Some h"
| "write_sectors wr drive buf block (Suc n) h =
     (case write_sectors wr drive buf block n h of
        None \<Rightarrow> None
      | Some h \<Rightarrow> wr drive (block + n) (take BYTES_PER_SECT (drop (BYTES_PER_SECT * n) buf)) h)"

definition disk_read_sector :: "'h sector_read \<Rightarrow> u8 \<Rightarrow> nat \<Rightarrow> 'h \<Rightarrow> (u8 list \<times> 'h) option" where
  "disk_read_sector rd drive block h = read_sectors rd drive block CACHE_SECTS h"

definition disk_write_sector :: "'h sector_write \<Rightarrow> u8 \<Rightarrow> u8 list \<Rightarrow> nat \<Rightarrow> 'h \<Rightarrow> 'h option" where
  "disk_write_sector wr drive buf block h = write_sectors wr drive buf block CACHE_SECTS h"

text \<open>The cache miss of both access functions: write the dirty block back, load the new one.\<close>

definition flush_cache :: "'h sector_write \<Rightarrow> 'h bios_disks \<Rightarrow> 'h option" where
  "flush_cache wr s =
     (if cache_status s = CacheDirty
      then disk_write_sector wr (cached_drive s) (disk_cache s) (cached_block s * CACHE_SECTS) (hw s)
      else Some (hw s))"

definition load_block :: "'h sector_read \<Rightarrow> 'h sector_write \<Rightarrow> u8 \<Rightarrow> nat \<Rightarrow> 'h bios_disks \<Rightarrow> 'h bios_disks option" where
  "load_block rd wr drive block s = do {
     h \<leftarrow> flush_cache wr s;
     (buf, h) \<leftarrow> disk_read_sector rd drive (block * CACHE_SECTS) h;
     Some (s\<lparr>hw := h, disk_cache := buf, cached_drive := drive, cached_block := block\<rparr>) }"

definition cache_hit :: "u8 \<Rightarrow> nat \<Rightarrow> 'h bios_disks \<Rightarrow> bool" where
  "cache_hit drive block s \<longleftrightarrow> block = cached_block s \<and> drive = cached_drive s \<and> cache_status s \<noteq> CacheNotReady"

definition bios_harddisk_read ::
  "'h sector_read \<Rightarrow> 'h sector_write \<Rightarrow> u8 \<Rightarrow> u64 \<Rightarrow> 'h bios_disks \<Rightarrow> (u8 \<times> 'h bios_disks) option" where
  "bios_harddisk_read rd wr drive loc s =
     (let block = unat loc div CACHE_SIZE; offset = unat loc mod CACHE_SIZE in
      if cache_hit drive block s then Some (disk_cache s ! offset, s)
      else do {
        s \<leftarrow> load_block rd wr drive block s;
        let s = s\<lparr>cache_status := CacheReady\<rparr>;
        Some (disk_cache s ! offset, s) })"

definition bios_harddisk_write ::
  "'h sector_read \<Rightarrow> 'h sector_write \<Rightarrow> u8 \<Rightarrow> u64 \<Rightarrow> u8 \<Rightarrow> 'h bios_disks \<Rightarrow> (int \<times> 'h bios_disks) option" where
  "bios_harddisk_write rd wr drive loc payload s =
     (let block = unat loc div CACHE_SIZE; offset = unat loc mod CACHE_SIZE in
      if cache_hit drive block s
      then Some (0, s\<lparr>disk_cache := (disk_cache s)[offset := payload], cache_status := CacheDirty\<rparr>)
      else do {
        s \<leftarrow> load_block rd wr drive block s;
        Some (0, s\<lparr>disk_cache := (disk_cache s)[offset := payload], cache_status := CacheDirty\<rparr>) })"

definition bios_harddisks_io_wrapper :: "'h sector_read \<Rightarrow> 'h sector_write \<Rightarrow> 'h bios_disks io_wrapper" where
  "bios_harddisks_io_wrapper rd wr disk loc type payload s =
     (if type = DF_READ then map_option (\<lambda>(b, s). (uint b, s)) (bios_harddisk_read rd wr (of_nat disk) loc s)
      else if type = DF_WRITE then bios_harddisk_write rd wr (of_nat disk) loc payload s
      else None)"

subsection \<open>What the kernel relies on\<close>

definition bios_laws :: "'h sector_read \<Rightarrow> 'h sector_write \<Rightarrow> ('h \<Rightarrow> u8 \<Rightarrow> nat \<Rightarrow> u8 list) \<Rightarrow> (u8 \<Rightarrow> nat) \<Rightarrow> bool" where
  "bios_laws rd wr sec cnt \<longleftrightarrow>
     (\<forall>h d l. l < cnt d \<longrightarrow> length (sec h d l) = BYTES_PER_SECT)
   \<and> (\<forall>h d l. l < cnt d \<longrightarrow> (\<exists>h'. rd d l h = Some (sec h d l, h') \<and> sec h' = sec h))
   \<and> (\<forall>h d l bs. l < cnt d \<longrightarrow> length bs = BYTES_PER_SECT \<longrightarrow>
        (\<exists>h'. wr d l bs h = Some h' \<and> sec h' = (sec h)(d := (sec h d)(l := bs))))"

text \<open>The byte at an address of a drive on the medium, and as the kernel sees it.\<close>

definition medium_byte :: "('h \<Rightarrow> u8 \<Rightarrow> nat \<Rightarrow> u8 list) \<Rightarrow> 'h \<Rightarrow> u8 \<Rightarrow> nat \<Rightarrow> u8" where
  "medium_byte sec h d p = sec h d (p div BYTES_PER_SECT) ! (p mod BYTES_PER_SECT)"

definition disk_byte :: "('h \<Rightarrow> u8 \<Rightarrow> nat \<Rightarrow> u8 list) \<Rightarrow> 'h bios_disks \<Rightarrow> u8 \<Rightarrow> nat \<Rightarrow> u8" where
  "disk_byte sec s d p =
     (if cache_hit d (p div CACHE_SIZE) s then disk_cache s ! (p mod CACHE_SIZE) else medium_byte sec (hw s) d p)"

definition block_inside :: "(u8 \<Rightarrow> nat) \<Rightarrow> u8 \<Rightarrow> nat \<Rightarrow> bool" where
  "block_inside cnt d block \<longleftrightarrow> (block + 1) * CACHE_SECTS \<le> cnt d"

definition bd_inv :: "('h \<Rightarrow> u8 \<Rightarrow> nat \<Rightarrow> u8 list) \<Rightarrow> (u8 \<Rightarrow> nat) \<Rightarrow> 'h bios_disks \<Rightarrow> bool" where
  "bd_inv sec cnt s \<longleftrightarrow>
     (cache_status s \<noteq> CacheNotReady \<longrightarrow>
        length (disk_cache s) = CACHE_SIZE \<and> block_inside cnt (cached_drive s) (cached_block s))
   \<and> (cache_status s = CacheReady \<longrightarrow>
        (\<forall>i<CACHE_SIZE. disk_cache s ! i = medium_byte sec (hw s) (cached_drive s) (cached_block s * CACHE_SIZE + i)))"

subsection \<open>Whole blocks\<close>

lemma read_sectors_medium:
  assumes "bios_laws rd wr sec cnt" and "block + n \<le> cnt d"
  shows "\<exists>buf h'. read_sectors rd d block n h = Some (buf, h') \<and> sec h' = sec h \<and> length buf = n * BYTES_PER_SECT
    \<and> (\<forall>i < n * BYTES_PER_SECT. buf ! i = medium_byte sec h d (block * BYTES_PER_SECT + i))"
  using assms(2)
proof (induction n)
  case (Suc n)
  then obtain buf h1 where r: "read_sectors rd d block n h = Some (buf, h1)" "sec h1 = sec h"
    "length buf = n * 512" "\<forall>i < n * 512. buf ! i = medium_byte sec h d (block * 512 + i)" by auto
  have l: "block + n < cnt d" using Suc.prems by simp
  with assms(1) obtain h2 where h2: "rd d (block + n) h1 = Some (sec h d (block + n), h2)" "sec h2 = sec h"
    "length (sec h d (block + n)) = 512" using r(2) unfolding bios_laws_def by metis
  let ?b = "buf @ sec h d (block + n)"
  have "?b ! i = medium_byte sec h d (block * 512 + i)" if i: "i < Suc n * 512" for i
  proof (cases "i < n * 512")
    case True
    then show ?thesis using r(3,4) by (simp add: nth_append)
  next
    case False
    then have "i div 512 = n" using i by (intro div_nat_eqI) auto
    then have "(block * 512 + i) div 512 = block + n" "(block * 512 + i) mod 512 = i - n * 512"
      by (auto simp: minus_div_mult_eq_mod [symmetric] mult.commute)
    then show ?thesis using False r(3) by (simp add: nth_append medium_byte_def)
  qed
  then show ?case using r h2 by auto
qed simp

lemma write_sectors_medium:
  assumes "bios_laws rd wr sec cnt" and "block + n \<le> cnt d" and "n * BYTES_PER_SECT \<le> length buf"
  shows "\<exists>h'. write_sectors wr d buf block n h = Some h' \<and> (\<forall>e l. sec h' e l =
    (if e = d \<and> block \<le> l \<and> l < block + n then take BYTES_PER_SECT (drop (BYTES_PER_SECT * (l - block)) buf) else sec h e l))"
  using assms(2,3)
proof (induction n)
  case (Suc n)
  then obtain h1 where h1: "write_sectors wr d buf block n h = Some h1" "\<forall>e l. sec h1 e l =
    (if e = d \<and> block \<le> l \<and> l < block + n then take 512 (drop (512 * (l - block)) buf) else sec h e l)" by auto
  have l: "block + n < cnt d" "length (take 512 (drop (512 * n) buf)) = 512" using Suc.prems by auto
  with assms(1) obtain h2 where h2: "wr d (block + n) (take 512 (drop (512 * n) buf)) h1 = Some h2"
    "sec h2 = (sec h1)(d := (sec h1 d)(block + n := take 512 (drop (512 * n) buf)))" unfolding bios_laws_def by metis
  then show ?case using h1 by (auto simp: less_Suc_eq)
qed auto

lemma block_address:
  assumes "p div CACHE_SIZE = b"
  shows "p = b * CACHE_SIZE + p mod CACHE_SIZE" and "b * CACHE_SECTS \<le> p div BYTES_PER_SECT"
    and "p div BYTES_PER_SECT < b * CACHE_SECTS + CACHE_SECTS"
    and "BYTES_PER_SECT * (p div BYTES_PER_SECT - b * CACHE_SECTS) + p mod BYTES_PER_SECT = p mod CACHE_SIZE"
proof -
  have "p div 32768 = p div 512 div 64" by (simp add: div_mult2_eq [symmetric])
  then have b: "b = p div 512 div 64" using assms by simp
  show "p = b * CACHE_SIZE + p mod CACHE_SIZE" using assms by (metis div_mult_mod_eq)
  show le: "b * CACHE_SECTS \<le> p div BYTES_PER_SECT" unfolding b by simp
  show "p div BYTES_PER_SECT < b * CACHE_SECTS + CACHE_SECTS"
    unfolding b using div_mult_mod_eq [of "p div 512" 64] mod_less_divisor [of 64 "p div 512"] by linarith
  have "p = 512 * (p div 512) + p mod 512" by simp
  then show "BYTES_PER_SECT * (p div BYTES_PER_SECT - b * CACHE_SECTS) + p mod BYTES_PER_SECT = p mod CACHE_SIZE"
    using le assms minus_div_mult_eq_mod [of p 32768] by (simp add: diff_mult_distrib2)
qed

text \<open>After the write-back, the medium holds what the kernel sees.\<close>

lemma flush_cache_medium:
  assumes "bios_laws rd wr sec cnt" and "bd_inv sec cnt s"
  shows "\<exists>h. flush_cache wr s = Some h \<and> (\<forall>e p. medium_byte sec h e p = disk_byte sec s e p)"
proof (cases "cache_status s = CacheDirty")
  case True
  let ?b = "cached_block s" and ?d = "cached_drive s"
  have inv: "length (disk_cache s) = 32768" "?b * 64 + 64 \<le> cnt ?d"
    using assms(2) True by (simp_all add: bd_inv_def block_inside_def)
  from write_sectors_medium [OF assms(1), of "?b * 64" 64 ?d "disk_cache s" "hw s"] inv
  obtain h where h: "write_sectors wr ?d (disk_cache s) (?b * 64) 64 (hw s) = Some h" "\<forall>e l. sec h e l =
    (if e = ?d \<and> ?b * 64 \<le> l \<and> l < ?b * 64 + 64 then take 512 (drop (512 * (l - ?b * 64)) (disk_cache s)) else sec (hw s) e l)"
    by auto
  have "medium_byte sec h e p = disk_byte sec s e p" for e p
  proof (cases "e = ?d \<and> p div 32768 = ?b")
    case hit: True
    note a = block_address [of p ?b]
    from hit have "sec h e (p div 512) = take 512 (drop (512 * (p div 512 - ?b * 64)) (disk_cache s))"
      using h(2) a by simp
    moreover have "take 512 (drop k c) ! (p mod 512) = c ! (k + p mod 512)"
      if "k + p mod 512 < length c" for k and c :: "u8 list"
      using that by (simp add: nth_drop)
    moreover have "512 * (p div 512 - ?b * 64) + p mod 512 < length (disk_cache s)" using a(4) hit inv by simp
    ultimately have "medium_byte sec h e p = disk_cache s ! (p mod 32768)"
      unfolding medium_byte_def using a(4) hit by simp
    then show ?thesis using hit True by (simp add: disk_byte_def cache_hit_def)
  next
    case False
    then have "\<not> (e = ?d \<and> ?b * 64 \<le> p div 512 \<and> p div 512 < ?b * 64 + 64)"
    proof -
      have "p div 32768 = p div 512 div 64" by (simp add: div_mult2_eq [symmetric])
      moreover have "p div 512 div 64 = ?b" if "?b * 64 \<le> p div 512" "p div 512 < ?b * 64 + 64"
        using that by (intro div_nat_eqI) auto
      ultimately show ?thesis using False by auto
    qed
    then show ?thesis using False h(2) by (auto simp: medium_byte_def disk_byte_def cache_hit_def)
  qed
  then show ?thesis using True h(1) by (simp add: flush_cache_def disk_write_sector_def)
next
  case False
  have "medium_byte sec (hw s) e p = disk_byte sec s e p" for e p
  proof (cases "cache_hit e (p div 32768) s")
    case True
    then have "cache_status s = CacheReady" using False by (cases "cache_status s") (auto simp: cache_hit_def)
    then have "disk_cache s ! (p mod 32768) = medium_byte sec (hw s) e (p div 32768 * 32768 + p mod 32768)"
      using assms(2) True by (simp add: bd_inv_def cache_hit_def)
    then show ?thesis using True by (simp add: disk_byte_def)
  qed (simp add: disk_byte_def)
  then show ?thesis using False by (simp add: flush_cache_def)
qed

text \<open>After a miss the cache holds the new block and the visible content is unchanged.\<close>

lemma load_block_spec:
  assumes "bios_laws rd wr sec cnt" and "bd_inv sec cnt s" and "block_inside cnt d block"
  shows "\<exists>s'. load_block rd wr d block s = Some s' \<and> cached_drive s' = d \<and> cached_block s' = block
    \<and> cache_status s' = cache_status s \<and> length (disk_cache s') = CACHE_SIZE
    \<and> (\<forall>e p. medium_byte sec (hw s') e p = disk_byte sec s e p)
    \<and> (\<forall>i<CACHE_SIZE. disk_cache s' ! i = medium_byte sec (hw s') d (block * CACHE_SIZE + i))"
proof -
  from flush_cache_medium [OF assms(1,2)] obtain h where h: "flush_cache wr s = Some h"
    "\<And>e p. medium_byte sec h e p = disk_byte sec s e p" by auto
  from read_sectors_medium [OF assms(1), of "block * 64" 64 d h] assms(3)
  obtain buf h' where r: "read_sectors rd d (block * 64) 64 h = Some (buf, h')" "sec h' = sec h" "length buf = 32768"
    "\<forall>i<32768. buf ! i = medium_byte sec h d (block * 64 * 512 + i)" by (auto simp: block_inside_def)
  have m: "medium_byte sec h' = medium_byte sec h" using r(2) by (simp add: medium_byte_def fun_eq_iff)
  show ?thesis
    using h r m by (simp add: load_block_def disk_read_sector_def mult.assoc)
qed

lemma loaded_view:
  assumes "\<And>e p. medium_byte sec h e p = v e p"
    and "\<And>i. i < CACHE_SIZE \<Longrightarrow> c ! i = medium_byte sec h d (block * CACHE_SIZE + i)"
  shows "(if e = d \<and> p div CACHE_SIZE = block then c ! (p mod CACHE_SIZE) else medium_byte sec h e p) = v e p"
proof (cases "e = d \<and> p div 32768 = block")
  case True
  then have "block * 32768 + p mod 32768 = p" by (metis div_mult_mod_eq)
  then show ?thesis using True assms(1) [of d p] assms(2) [of "p mod 32768"] by simp
next
  case False
  then show ?thesis using assms(1) by auto
qed

subsection \<open>The cache is transparent\<close>

lemma bios_read_spec:
  assumes "bios_laws rd wr sec cnt" and "bd_inv sec cnt s" and "block_inside cnt d (unat loc div CACHE_SIZE)"
  shows "\<exists>s'. bios_harddisk_read rd wr d loc s = Some (disk_byte sec s d (unat loc), s') \<and> bd_inv sec cnt s'
    \<and> (\<forall>e p. disk_byte sec s' e p = disk_byte sec s e p)"
proof (cases "cache_hit d (unat loc div 32768) s")
  case True
  then show ?thesis using assms(2) by (simp add: bios_harddisk_read_def disk_byte_def)
next
  case False
  let ?b = "unat loc div 32768"
  from load_block_spec [OF assms] obtain s1 where s1: "load_block rd wr d ?b s = Some s1" "cached_drive s1 = d"
    "cached_block s1 = ?b" "length (disk_cache s1) = 32768" "\<And>e p. medium_byte sec (hw s1) e p = disk_byte sec s e p"
    "\<And>i. i < 32768 \<Longrightarrow> disk_cache s1 ! i = medium_byte sec (hw s1) d (?b * 32768 + i)" by auto
  let ?s = "s1\<lparr>cache_status := CacheReady\<rparr>"
  have "bd_inv sec cnt ?s" using s1 assms(3) by (simp add: bd_inv_def)
  moreover have "disk_byte sec ?s e p = disk_byte sec s e p" for e p
    using loaded_view [of sec "hw s1" "disk_byte sec s" "disk_cache s1" d ?b e p, OF s1(5,6)] s1(2,3)
    by (auto simp: disk_byte_def [of sec ?s] cache_hit_def split: if_splits)
  moreover have "bios_harddisk_read rd wr d loc s = Some (disk_byte sec s d (unat loc), ?s)"
    using False s1(1) s1(5) [of d "unat loc"] s1(6) [of "unat loc mod 32768"] by (simp add: bios_harddisk_read_def)
  ultimately show ?thesis by blast
qed

lemma cache_write_view:
  assumes "cached_drive s = d" and "cached_block s = unat loc div CACHE_SIZE" and "length (disk_cache s) = CACHE_SIZE"
    and "\<And>e p. (if e = d \<and> p div CACHE_SIZE = unat loc div CACHE_SIZE then disk_cache s ! (p mod CACHE_SIZE)
           else medium_byte sec (hw s) e p) = v e p"
  shows "disk_byte sec (s\<lparr>disk_cache := (disk_cache s)[unat loc mod CACHE_SIZE := b], cache_status := CacheDirty\<rparr>) e p
    = (if e = d \<and> p = unat loc then b else v e p)"
proof -
  have "p = unat loc" if "p div 32768 = unat loc div 32768" "p mod 32768 = unat loc mod 32768"
    using that by (metis div_mult_mod_eq)
  then show ?thesis
    using assms(1-3) assms(4) [of e p] by (auto simp: disk_byte_def cache_hit_def nth_list_update split: if_splits)
qed

lemma bios_write_spec:
  assumes "bios_laws rd wr sec cnt" and "bd_inv sec cnt s" and "block_inside cnt d (unat loc div CACHE_SIZE)"
  shows "\<exists>s'. bios_harddisk_write rd wr d loc b s = Some (0, s') \<and> bd_inv sec cnt s'
    \<and> (\<forall>e p. disk_byte sec s' e p = (if e = d \<and> p = unat loc then b else disk_byte sec s e p))"
proof -
  let ?b = "unat loc div 32768"
  obtain s1 where s1: "bios_harddisk_write rd wr d loc b s =
      Some (0, s1\<lparr>disk_cache := (disk_cache s1)[unat loc mod CACHE_SIZE := b], cache_status := CacheDirty\<rparr>)"
    "cached_drive s1 = d" "cached_block s1 = ?b" "length (disk_cache s1) = 32768"
    "\<And>e p. (if e = d \<and> p div 32768 = ?b then disk_cache s1 ! (p mod 32768) else medium_byte sec (hw s1) e p) = disk_byte sec s e p"
  proof (cases "cache_hit d ?b s")
    case True
    show thesis
    proof (rule that [of s])
      show "bios_harddisk_write rd wr d loc b s =
          Some (0, s\<lparr>disk_cache := (disk_cache s)[unat loc mod CACHE_SIZE := b], cache_status := CacheDirty\<rparr>)"
        using True by (simp add: bios_harddisk_write_def)
    qed (use True assms(2) in \<open>auto simp: cache_hit_def bd_inv_def disk_byte_def\<close>)
  next
    case False
    from load_block_spec [OF assms] obtain s1 where s1: "load_block rd wr d ?b s = Some s1" "cached_drive s1 = d"
      "cached_block s1 = ?b" "length (disk_cache s1) = 32768" "\<And>e p. medium_byte sec (hw s1) e p = disk_byte sec s e p"
      "\<And>i. i < 32768 \<Longrightarrow> disk_cache s1 ! i = medium_byte sec (hw s1) d (?b * 32768 + i)" by auto
    show thesis
    proof (rule that [of s1])
      show "bios_harddisk_write rd wr d loc b s =
          Some (0, s1\<lparr>disk_cache := (disk_cache s1)[unat loc mod CACHE_SIZE := b], cache_status := CacheDirty\<rparr>)"
        using False s1(1) by (simp add: bios_harddisk_write_def)
      fix e p
      show "(if e = d \<and> p div 32768 = ?b then disk_cache s1 ! (p mod 32768) else medium_byte sec (hw s1) e p) = disk_byte sec s e p"
        by (rule loaded_view [of sec "hw s1" "disk_byte sec s", OF s1(5,6)])
    qed (use s1 in auto)
  qed
  let ?s = "s1\<lparr>disk_cache := (disk_cache s1)[unat loc mod CACHE_SIZE := b], cache_status := CacheDirty\<rparr>"
  have "bd_inv sec cnt ?s" using s1(2-4) assms(3) by (simp add: bd_inv_def)
  moreover note cache_write_view [OF s1(2-5)]
  ultimately show ?thesis using s1(1) by blast
qed


text \<open>
  The disk cache is transparent to readers: for an address whose 32 KiB block lies on the disk,
  reading returns the byte last written there (or stored on the medium), keeps the cache invariant, and
  changes no byte of any disk as the kernel sees it.
\<close>

lemma bios_read_transparent:
  assumes "bios_laws rd wr sec cnt" and "bd_inv sec cnt s" and "block_inside cnt d (unat loc div CACHE_SIZE)"
  shows "\<exists>s'. bios_harddisk_read rd wr d loc s = Some (disk_byte sec s d (unat loc), s') \<and> bd_inv sec cnt s'
    \<and> (\<forall>e p. disk_byte sec s' e p = disk_byte sec s e p)"
  by (rule bios_read_spec [OF assms])

text \<open>A disk in memory: the hardware of the witnesses, one drive of 128 sectors.\<close>

type_synonym ram = "u8 \<Rightarrow> nat \<Rightarrow> u8 list"

definition ram_sectors :: "ram \<Rightarrow> u8 \<Rightarrow> nat \<Rightarrow> u8 list" where
  "ram_sectors h d l = (if length (h d l) = 512 then h d l else replicate 512 0)"

definition ram_count :: "u8 \<Rightarrow> nat" where
  "ram_count d = (if d = 0x80 then 128 else 0)"

definition ram_read :: "ram sector_read" where
  "ram_read d l h = (if l < ram_count d then Some (ram_sectors h d l, h) else None)"

definition ram_write :: "ram sector_write" where
  "ram_write d l bs h = (if l < ram_count d then Some (h(d := (h d)(l := bs))) else None)"

definition ram_disks :: "ram bios_disks" where
  "ram_disks = \<lparr>cache_status = CacheNotReady, cached_drive = 0, cached_block = 0, disk_cache = replicate 32768 0,
     hw = (\<lambda>_ _. [])\<rparr>"

lemma ram_laws: "bios_laws ram_read ram_write ram_sectors ram_count"
proof -
  have "ram_sectors (h(d := (h d)(l := bs))) = (ram_sectors h)(d := (ram_sectors h d)(l := bs))"
    if "length bs = 512" for h d l bs
    using that by (simp add: ram_sectors_def fun_eq_iff)
  then show ?thesis by (auto simp: bios_laws_def ram_read_def ram_write_def) (simp_all add: ram_sectors_def)
qed

lemma ram_inv: "bd_inv ram_sectors ram_count ram_disks"
  by (simp add: bd_inv_def ram_disks_def)

lemma bios_read_transparent_witness:
  "\<exists>s'. bios_harddisk_read ram_read ram_write 0x80 40000 ram_disks = Some (0, s') \<and> bd_inv ram_sectors ram_count s'"
proof -
  have "block_inside ram_count 0x80 (unat (40000 :: u64) div CACHE_SIZE)" by (simp add: block_inside_def ram_count_def)
  from bios_read_transparent [OF ram_laws ram_inv this] show ?thesis
    by (auto simp: disk_byte_def cache_hit_def medium_byte_def ram_disks_def ram_sectors_def)
qed

text \<open>
  C9. The disk cache is transparent to writers: writing changes exactly the byte addressed, on the
  drive addressed, as the kernel sees the disks from then on, whether or not the block was cached and
  whatever block, dirty or not, had to leave the cache for it.
\<close>

theorem bios_write_transparent:
  assumes "bios_laws rd wr sec cnt" and "bd_inv sec cnt s" and "block_inside cnt d (unat loc div CACHE_SIZE)"
  shows "\<exists>s'. bios_harddisk_write rd wr d loc b s = Some (0, s') \<and> bd_inv sec cnt s'
    \<and> (\<forall>e p. disk_byte sec s' e p = (if e = d \<and> p = unat loc then b else disk_byte sec s e p))"
  by (rule bios_write_spec [OF assms])

theorem bios_write_transparent_witness:
  "\<exists>s'. bios_harddisk_write ram_read ram_write 0x80 40000 7 ram_disks = Some (0, s') \<and> disk_byte ram_sectors s' 0x80 40000 = 7"
proof -
  have "block_inside ram_count 0x80 (unat (40000 :: u64) div CACHE_SIZE)" by (simp add: block_inside_def ram_count_def)
  from bios_write_transparent [OF ram_laws ram_inv this, of 7] show ?thesis by auto
qed

text \<open>A whole disk, up to the last complete block, is a storage device.\<close>

lemma block_inside_limit: "p < cnt d div CACHE_SECTS * CACHE_SIZE \<Longrightarrow> block_inside cnt d (p div CACHE_SIZE)"
proof -
  assume "p < cnt d div 64 * 32768"
  then have "p div 32768 < cnt d div 64" by (simp add: div_less_iff_less_mult)
  then have "(p div 32768 + 1) * 64 \<le> cnt d div 64 * 64" by (intro mult_right_mono) auto
  also have "\<dots> \<le> cnt d" by simp
  finally show ?thesis by (simp add: block_inside_def)
qed

interpretation bd: byte_device "bios_harddisks_io_wrapper rd wr" disk
  "\<lambda>s. bios_laws rd wr sec cnt \<and> bd_inv sec cnt s" "\<lambda>s. disk_byte sec s (of_nat disk)"
  "cnt (of_nat disk) div CACHE_SECTS * CACHE_SIZE" for rd wr disk sec cnt
proof
  fix w :: "'a bios_disks" and p :: u64 and v :: u8
  assume ok: "bios_laws rd wr sec cnt \<and> bd_inv sec cnt w" and p: "unat p < cnt (of_nat disk) div CACHE_SECTS * CACHE_SIZE"
  note inside = block_inside_limit [of "unat p" cnt "of_nat disk", OF p]
  from bios_read_spec [OF _ _ inside] ok show "\<exists>w'. bios_harddisks_io_wrapper rd wr disk p DF_READ v w =
      Some (uint (disk_byte sec w (of_nat disk) (unat p)), w') \<and> (bios_laws rd wr sec cnt \<and> bd_inv sec cnt w') \<and>
      (\<forall>q < cnt (of_nat disk) div CACHE_SECTS * CACHE_SIZE. disk_byte sec w' (of_nat disk) q = disk_byte sec w (of_nat disk) q)"
    by (fastforce simp: bios_harddisks_io_wrapper_def)
  from bios_write_spec [OF _ _ inside] ok show "\<exists>w'. bios_harddisks_io_wrapper rd wr disk p DF_WRITE v w =
      Some (0, w') \<and> (bios_laws rd wr sec cnt \<and> bd_inv sec cnt w') \<and>
      (\<forall>q < cnt (of_nat disk) div CACHE_SECTS * CACHE_SIZE. disk_byte sec w' (of_nat disk) q =
         (if q = unat p then v else disk_byte sec w (of_nat disk) q))"
    by (fastforce simp: bios_harddisks_io_wrapper_def)
qed

subsection \<open>The end of the disk\<close>

lemma read_sectors_beyond:
  assumes "\<And>h l. cnt d \<le> l \<Longrightarrow> rd d l h = None" and "cnt d < block + n" and "0 < n"
  shows "read_sectors rd d block n h = None"
proof (cases n)
  case (Suc m)
  with assms show ?thesis by (auto split: option.splits)
qed (use assms in simp)

text \<open>
  The last sectors of a disk cannot be reached: when the BIOS rejects sectors beyond the end, an
  address on the disk whose 64-sector block is not completely on the disk makes the kernel panic
  instead of reading it, unless that block is already cached.
\<close>

lemma bios_read_tail_panics:
  assumes "\<And>h l. cnt d \<le> l \<Longrightarrow> rd d l h = None"
    and "\<not> block_inside cnt d (unat loc div CACHE_SIZE)" and "\<not> cache_hit d (unat loc div CACHE_SIZE) s"
  shows "bios_harddisk_read rd wr d loc s = None"
proof -
  have "read_sectors rd d (unat loc div 32768 * 64) 64 h = None" for h
    using assms(1,2) by (intro read_sectors_beyond [where cnt = cnt]) (auto simp: block_inside_def)
  then show ?thesis
    using assms(3) by (cases "flush_cache wr s") (auto simp: bios_harddisk_read_def load_block_def disk_read_sector_def)
qed

lemma bios_read_tail_panics_witness:
  "bios_harddisk_read (\<lambda>d l h. if l < 100 then Some (replicate 512 0, h) else None) (\<lambda>d l bs h. Some h) 0x80 (99 * 512)
     \<lparr>cache_status = CacheNotReady, cached_drive = 0, cached_block = 0, disk_cache = [], hw = ()\<rparr> = None"
  by (rule bios_read_tail_panics [where cnt = "\<lambda>_. 100"]) (simp_all add: block_inside_def cache_hit_def)

end
