(* ===== verification/Partition.thy ===== *)
theory Partition
  imports Bios_Disk Memory
begin

text \<open>
  Disk partitions, \<open>kernel/src/part.c\<close>: the GPT and MBR tables, and the partition device with its
  one-sector write-back cache on top of an open handle of the disk device.

  The code works on the device file system; here a partition's wrapper takes the state of the device
  file system underneath and returns it updated.  Return values of \<open>devfs_seek\<close>, \<open>devfs_uread\<close> and
  \<open>devfs_uwrite\<close> are ignored, as in the code; 64-bit offsets are truncated to the \<open>int\<close>
  parameter of \<open>devfs_seek\<close>.  \<open>struct part\<close> starts out uninitialised: its first contents are an
  argument (\<open>junk\<close>).
\<close>

record guid =
  guid_a :: nat
  guid_b :: nat
  guid_rest :: "u8 list"

record part =
  fd :: int
  first_sect :: u64
  sect_count :: u64
  in_cache :: u64
  part_cache :: "u8 list"
  cache_state :: int
  part_guid :: guid

datatype part_result = Found part | NoPartition | InvalidTable | EndOfTable

text \<open>A field of a packed structure read from disk, little endian.\<close>

definition le_field :: "u8 list \<Rightarrow> nat \<Rightarrow> nat \<Rightarrow> nat" where
  "le_field bs off n = rd_le n (\<lambda>i. if i < length bs then bs ! i else 0) off"

text \<open>Reading a structure of \<open>n\<close> bytes at a position, into a buffer with the given contents.\<close>

definition read_at :: "int \<Rightarrow> int \<Rightarrow> u8 list \<Rightarrow> 'w devfs \<Rightarrow> (u8 list \<times> 'w devfs) option" where
  "read_at drive offset buf s = do {
     let (_, s) = devfs_seek drive offset SEEK_SET s;
     (_, bs, s) \<leftarrow> devfs_uread drive (int (length buf)) s;
     Some (bs @ drop (length bs) buf, s) }"

definition gpt_get_part :: "part \<Rightarrow> int \<Rightarrow> nat \<Rightarrow> 'w devfs \<Rightarrow> (part_result \<times> 'w devfs) option" where
  "gpt_get_part ret drive partn s = do {
     (header, s) \<leftarrow> read_at drive 512 (replicate 92 0) s;
     if take 8 header \<noteq> map of_char ''EFI PART'' then Some (InvalidTable, s)
     else if le_field header 8 4 \<noteq> 0x00010000 then Some (EndOfTable, s)
     else if partn \<ge> le_field header 80 4 then Some (EndOfTable, s)
     else do {
       (entry, s) \<leftarrow> read_at drive
          (s32 (uint (of_nat (le_field header 72 8) * 512 + of_nat (partn * 128) :: u64))) (replicate 128 0) s;
       if take 16 (drop 16 entry) = replicate 16 0 then Some (NoPartition, s)
       else Some (Found (ret\<lparr>first_sect := of_nat (le_field entry 32 8),
              sect_count := of_nat (le_field entry 40 8) - of_nat (le_field entry 32 8) + 1,
              part_guid := \<lparr>guid_a = le_field entry 16 4, guid_b = le_field entry 20 2,
                            guid_rest = take 10 (drop 22 entry)\<rparr>\<rparr>), s) } }"

definition mbr_get_part :: "part \<Rightarrow> u8 list \<Rightarrow> int \<Rightarrow> nat \<Rightarrow> 'w devfs \<Rightarrow> (part_result \<times> 'w devfs) option" where
  "mbr_get_part ret stack drive partn s = do {
     (hint, s) \<leftarrow> read_at drive 444 (take 2 stack) s;
     if le_field hint 0 2 \<noteq> 0 \<and> le_field hint 0 2 \<noteq> 0x5a5a then Some (InvalidTable, s)
     else if partn > 3 then Some (EndOfTable, s)
     else do {
       (disk_signature, s) \<leftarrow> read_at drive 440 (take 4 stack) s;
       (entry, s) \<leftarrow> read_at drive (int (0x1be + 16 * partn)) (take 16 stack) s;
       if le_field entry 4 1 = 0 then Some (NoPartition, s)
       else Some (Found (ret\<lparr>first_sect := of_nat (le_field entry 8 4), sect_count := of_nat (le_field entry 12 4),
              part_guid := \<lparr>guid_a = le_field disk_signature 0 4, guid_b = (partn + 1) * 256 mod 2 ^ 16,
                            guid_rest = replicate 10 0\<rparr>\<rparr>), s) } }"

text \<open>When neither table is valid the result is -1, the same value as \<open>NO_PARTITION\<close>.\<close>

definition get_part :: "part \<Rightarrow> u8 list \<Rightarrow> int \<Rightarrow> nat \<Rightarrow> 'w devfs \<Rightarrow> (part_result \<times> 'w devfs) option" where
  "get_part part stack drive partn s = do {
     (ret, s) \<leftarrow> gpt_get_part part drive partn s;
     if ret \<noteq> InvalidTable then Some (ret, s)
     else do {
       (ret, s) \<leftarrow> mbr_get_part part stack drive partn s;
       if ret \<noteq> InvalidTable then Some (ret, s) else Some (NoPartition, s) } }"

text \<open>The partition device.\<close>

definition part_flush :: "part \<Rightarrow> 'w devfs \<Rightarrow> 'w devfs option" where
  "part_flush p s =
     (if cache_state p = 2
      then map_option snd (devfs_uwrite (fd p) (part_cache p)
             (snd (devfs_seek (fd p) (s32 (uint ((first_sect p + in_cache p) * 512))) SEEK_SET s)))
      else Some s)"

definition part_load :: "u64 \<Rightarrow> part \<Rightarrow> 'w devfs \<Rightarrow> (part \<times> 'w devfs) option" where
  "part_load sect p s = do {
     s \<leftarrow> part_flush p s;
     (buf, s) \<leftarrow> read_at (fd p) (s32 (uint ((first_sect p + sect) * 512))) (part_cache p) s;
     Some (p\<lparr>part_cache := buf, in_cache := sect, cache_state := 1\<rparr>, s) }"

definition partitioned_medium_io_wrapper :: "nat \<Rightarrow> u64 \<Rightarrow> int \<Rightarrow> u8 \<Rightarrow> part \<times> 'w devfs \<Rightarrow> (int \<times> part \<times> 'w devfs) option" where
  "partitioned_medium_io_wrapper unused loc type payload = (\<lambda>(p, s).
     let sect = loc div 512; off = unat (loc mod 512) in do {
     (p, s) \<leftarrow> (if cache_state p = 0 \<or> sect \<noteq> in_cache p then part_load sect p s else Some (p, s));
     if type = DF_READ then Some (uint (part_cache p ! off), p, s)
     else if type = DF_WRITE then Some (0, p\<lparr>part_cache := (part_cache p)[off := payload], cache_state := 2\<rparr>, s)
     else None })"

subsection \<open>Registering the partitions of a disk\<close>

text \<open>
  One round of the endless loop of \<open>add_partitioned_medium\<close>: it goes on, returns, or registers a
  partition and goes on.  \<open>parts\<close> is the list of allocated partition structures, whose index stands
  for the pointer the device gets as its value; \<open>part_io\<close> is the device function registered.
\<close>

datatype 's round = Again 's | Return int 's

definition add_part_round ::
  "part \<Rightarrow> u8 list \<Rightarrow> 'w io_wrapper \<Rightarrow> string \<Rightarrow> nat \<Rightarrow> part list \<times> 'w devfs \<Rightarrow> (part list \<times> 'w devfs) round option" where
  "add_part_round junk stack part_io medium i = (\<lambda>(parts, s). do {
     (handle, s) \<leftarrow> devfs_open medium O_RDONLY 0 s;
     if handle = -1 then Some (Return (-1) (parts, s))
     else do {
       (ret, s) \<leftarrow> get_part junk stack handle i s;
       (case ret of
          NoPartition \<Rightarrow> Some (Again (parts, snd (devfs_close handle s)))
        | EndOfTable \<Rightarrow> Some (Return 0 (parts, snd (devfs_close handle s)))
        | InvalidTable \<Rightarrow> None
        | Found part \<Rightarrow> do {
            let p = part\<lparr>fd := handle, in_cache := -1\<rparr>;
            ds \<leftarrow> kernel_add_device (medium @ [CHR ''p'', char_of (i + 48)]) (length parts) (sect_count p * 512) part_io
                    (device_list s);
            Some (Again (parts @ [p], s\<lparr>device_list := ds\<rparr>)) }) } })"

fun add_partitioned_medium ::
  "nat \<Rightarrow> part \<Rightarrow> u8 list \<Rightarrow> 'w io_wrapper \<Rightarrow> string \<Rightarrow> nat \<Rightarrow> part list \<times> 'w devfs \<Rightarrow> (int \<times> part list \<times> 'w devfs) option option" where
  "add_partitioned_medium 0 junk stack part_io medium i s = None"
| "add_partitioned_medium (Suc fuel) junk stack part_io medium i s =
     (case add_part_round junk stack part_io medium i s of
        None \<Rightarrow> Some None
      | Some (Return r s) \<Rightarrow> Some (Some (r, s))
      | Some (Again s) \<Rightarrow> add_partitioned_medium fuel junk stack part_io medium (i + 1) s)"


subsection \<open>Positioned access to a storage device\<close>

definition open_on :: "'w device_t \<Rightarrow> u64 \<Rightarrow> int \<Rightarrow> 'w devfs \<Rightarrow> bool" where
  "open_on d E n s \<longleftrightarrow> (\<exists>h. handle_device n s = Some (h, d) \<and> \<not> df_free h \<and> \<not> df_isblock h
     \<and> df_begin h = 0 \<and> df_end h = E \<and> uint (df_ptr h) < 2 ^ 63) \<and> uint E < 2 ^ 63"

lemma handle_device_update:
  assumes "handle_device n s = Some (h, d)" and "df_device h' = df_device h" and "device_list s' = device_list s"
    and "devfs_handles s' = (devfs_handles s)[nat n := h']"
  shows "handle_device n s' = Some (h', d)"
  using assms by (auto simp: handle_device_def Let_def split: if_splits)

lemma handle_deviceD:
  "handle_device n s = Some (h, d) \<Longrightarrow> 0 \<le> n \<and> nat n < length (devfs_handles s) \<and> h = devfs_handles s ! nat n"
  by (auto simp: handle_device_def Let_def split: if_splits)

lemma uint_small: "0 \<le> i \<Longrightarrow> i < 2 ^ 63 \<Longrightarrow> uint (word_of_int i :: u64) < 2 ^ 63"
  by (simp only: uint_word_of_int) simp

lemma le_unatI: "v \<le> unat (E :: u64) \<Longrightarrow> int v \<le> uint E"
  by (simp add: uint_nat del: of_nat_unat)

lemma seek_open_on:
  assumes "open_on d E n s" and "int v \<le> uint E" and "v < 2 ^ 31"
  shows "\<exists>h s'. snd (devfs_seek n (int v) SEEK_SET s) = s' \<and> positioned s' n h d v \<and> open_on d E n s'
    \<and> dev_world s' = dev_world s"
proof -
  from assms(1) obtain h where h: "handle_device n s = Some (h, d)" "\<not> df_free h" "\<not> df_isblock h"
    "df_begin h = 0" "df_end h = E" "uint (df_ptr h) < 2 ^ 63" "uint E < 2 ^ 63" by (auto simp: open_on_def)
  note hD = handle_deviceD [OF h(1)]
  let ?h = "h\<lparr>df_ptr := word_of_int (int v)\<rparr>"
  let ?s = "s\<lparr>devfs_handles := (devfs_handles s)[nat n := ?h]\<rparr>"
  have "devfs_seek n (int v) SEEK_SET s = (s32 (int v), ?s)"
    using devfs_seek_eq [of n s h "int v" SEEK_SET] h hD assms(2,3) by (simp add: seek_base_def)
  moreover have hd: "handle_device n ?s = Some (?h, d)" by (rule handle_device_update [OF h(1)]) auto
  moreover have "unat (word_of_int (int v) :: u64) = v" using assms(3) unat_word_of_int [of "int v"] by simp
  moreover have "uint (word_of_int (int v) :: u64) < 2 ^ 63" using assms(3) by (intro uint_small) auto
  ultimately show ?thesis using h by (auto simp: open_on_def positioned_def)
qed

lemma read_at_storage:
  assumes "byte_device (dev_io d) (gp_value d) ok content limit" and "ok (dev_world s)" and "open_on d E n s"
    and "int v \<le> uint E" and "v + length buf \<le> limit" and "v + length buf < 2 ^ 31"
  shows "\<exists>s'. read_at n (int v) buf s = Some (map (content (dev_world s)) [v..<v + length buf], s') \<and> ok (dev_world s')
    \<and> open_on d E n s' \<and> (\<forall>q<limit. content (dev_world s') q = content (dev_world s) q)"
proof -
  from seek_open_on [OF assms(3,4)] assms(6) obtain h s1 where s1: "snd (devfs_seek n (int v) SEEK_SET s) = s1"
    "positioned s1 n h d v" "open_on d E n s1" "dev_world s1 = dev_world s" by auto
  let ?n = "length buf"
  from uread_storage [OF assms(1) _ s1(2) assms(5,6)] assms(2) s1(4) obtain s2 h2 where s2:
    "devfs_uread n (int ?n) s1 = Some (int ?n, map (content (dev_world s)) [v..<v + ?n], s2)" "ok (dev_world s2)"
    "\<forall>q<limit. content (dev_world s2) q = content (dev_world s) q"
    "h2 = h\<lparr>df_ptr := word_of_int (int v + int ?n)\<rparr>"
    "device_list s2 = device_list s1" "devfs_handles s2 = (devfs_handles s1)[nat n := h2]" by metis
  have hd: "handle_device n s1 = Some (h, d)" using s1(2) by (simp add: positioned_def)
  have "handle_device n s2 = Some (h2, d)"
    by (rule handle_device_update [OF hd]) (use s2(4-6) in auto)
  moreover have "uint (word_of_int (int v + int ?n) :: u64) < 2 ^ 63" using assms(6) by (intro uint_small) auto
  ultimately have "open_on d E n s2" using s1(3) hd s2(4) by (auto simp: open_on_def)
  moreover have "read_at n (int v) buf s = Some (map (content (dev_world s)) [v..<v + ?n], s2)"
    using s1(1) s2(1) by (cases "devfs_seek n (int v) SEEK_SET s") (simp add: read_at_def)
  ultimately show ?thesis using s2(2,3) by blast
qed

lemma write_at_storage:
  assumes "byte_device (dev_io d) (gp_value d) ok content limit" and "ok (dev_world s)" and "open_on d E n s"
    and "int v \<le> uint E" and "v + length bs \<le> limit" and "v + length bs < 2 ^ 31"
  shows "\<exists>s'. map_option snd (devfs_uwrite n bs (snd (devfs_seek n (int v) SEEK_SET s))) = Some s' \<and> ok (dev_world s')
    \<and> open_on d E n s' \<and> (\<forall>q<limit. content (dev_world s') q =
         (if v \<le> q \<and> q < v + length bs then bs ! (q - v) else content (dev_world s) q))"
proof -
  from seek_open_on [OF assms(3,4)] assms(6) obtain h s1 where s1: "snd (devfs_seek n (int v) SEEK_SET s) = s1"
    "positioned s1 n h d v" "open_on d E n s1" "dev_world s1 = dev_world s" by auto
  let ?n = "length bs"
  from uwrite_storage [OF assms(1) _ s1(2) assms(5,6)] assms(2) s1(4) obtain s2 h2 where s2:
    "devfs_uwrite n bs s1 = Some (int ?n, s2)" "ok (dev_world s2)"
    "\<forall>q<limit. content (dev_world s2) q = (if v \<le> q \<and> q < v + ?n then bs ! (q - v) else content (dev_world s) q)"
    "h2 = h\<lparr>df_ptr := word_of_int (int v + int ?n)\<rparr>"
    "device_list s2 = device_list s1" "devfs_handles s2 = (devfs_handles s1)[nat n := h2]" by metis
  have hd: "handle_device n s1 = Some (h, d)" using s1(2) by (simp add: positioned_def)
  have "handle_device n s2 = Some (h2, d)"
    by (rule handle_device_update [OF hd]) (use s2(4-6) in auto)
  moreover have "uint (word_of_int (int v + int ?n) :: u64) < 2 ^ 63" using assms(6) by (intro uint_small) auto
  ultimately have "open_on d E n s2" using s1(3) hd s2(4) by (auto simp: open_on_def)
  then show ?thesis using s1(1) s2(1-3) by auto
qed


subsection \<open>The partition device is a storage device\<close>

text \<open>
  The partition's bytes as its user sees them, and the invariant: the handle is open on a storage
  device, the partition's \<open>N\<close> sectors lie on it below 2 GiB, and a clean cached sector equals the
  medium.
\<close>

definition part_byte :: "('w \<Rightarrow> nat \<Rightarrow> u8) \<Rightarrow> part \<times> 'w devfs \<Rightarrow> nat \<Rightarrow> u8" where
  "part_byte content = (\<lambda>(p, s) q.
     if cache_state p \<noteq> 0 \<and> q div 512 = unat (in_cache p) then part_cache p ! (q mod 512)
     else content (dev_world s) (unat (first_sect p) * 512 + q))"

definition part_ok ::
  "('w \<Rightarrow> bool) \<Rightarrow> ('w \<Rightarrow> nat \<Rightarrow> u8) \<Rightarrow> nat \<Rightarrow> 'w device_t \<Rightarrow> u64 \<Rightarrow> nat \<Rightarrow> part \<times> 'w devfs \<Rightarrow> bool" where
  "part_ok ok content limit d E N = (\<lambda>(p, s).
     byte_device (dev_io d) (gp_value d) ok content limit \<and> ok (dev_world s) \<and> open_on d E (fd p) s
     \<and> (unat (first_sect p) + N) * 512 \<le> limit \<and> (unat (first_sect p) + N) * 512 \<le> unat E
     \<and> (unat (first_sect p) + N) * 512 < 2 ^ 31
     \<and> length (part_cache p) = 512
     \<and> (cache_state p = 2 \<longrightarrow> unat (in_cache p) < N)
     \<and> (cache_state p \<noteq> 0 \<and> cache_state p \<noteq> 2 \<and> unat (in_cache p) < N \<longrightarrow>
          (\<forall>i<512. part_cache p ! i = content (dev_world s) ((unat (first_sect p) + unat (in_cache p)) * 512 + i))))"

lemma sector_offset:
  assumes "unat sect < N" and "(unat F + N) * 512 < 2 ^ 31"
  shows "s32 (uint ((F + sect) * 512 :: u64)) = int ((unat F + unat sect) * 512)"
proof -
  let ?v = "(unat F + unat sect) * 512"
  have lt: "?v < 2 ^ 31" using assms by simp
  then have "unat ((F + sect) * 512) = ?v"
    using assms by (simp add: unat_word_ariths unat_mult_lem [THEN iffD1] unat_add_lem [THEN iffD1])
  then show ?thesis using s32_uint_small [of "(F + sect) * 512"] lt by simp
qed

text \<open>Addresses of the disk outside the partition.\<close>

definition outside :: "part \<Rightarrow> nat \<Rightarrow> nat \<Rightarrow> bool" where
  "outside p N q \<longleftrightarrow> q < unat (first_sect p) * 512 \<or> (unat (first_sect p) + N) * 512 \<le> q"

lemma part_flush_spec:
  assumes "part_ok ok content limit d E N (p, s)"
  shows "\<exists>s'. part_flush p s = Some s' \<and> ok (dev_world s') \<and> open_on d E (fd p) s'
    \<and> (\<forall>q < N * 512. content (dev_world s') (unat (first_sect p) * 512 + q) = part_byte content (p, s) q)
    \<and> (\<forall>q<limit. outside p N q \<longrightarrow> content (dev_world s') q = content (dev_world s) q)"
proof -
  let ?F = "unat (first_sect p)"
  have A: "byte_device (dev_io d) (gp_value d) ok content limit" "ok (dev_world s)" "open_on d E (fd p) s"
    "(?F + N) * 512 \<le> limit" "(?F + N) * 512 \<le> unat E" "(?F + N) * 512 < 2 ^ 31" "length (part_cache p) = 512"
    using assms by (auto simp: part_ok_def)
  show ?thesis
  proof (cases "cache_state p = 2")
    case True
    let ?v = "(?F + unat (in_cache p)) * 512"
    have c: "unat (in_cache p) < N" using assms True by (simp add: part_ok_def)
    have "?v \<le> unat E" using A(5) c by simp
    then have v: "int ?v \<le> uint E" "?v + length (part_cache p) \<le> limit" "?v + length (part_cache p) < 2 ^ 31"
      using A(4-7) c by (simp_all only: le_unatI) auto
    from write_at_storage [OF A(1-3) v] obtain s' where s':
      "map_option snd (devfs_uwrite (fd p) (part_cache p) (snd (devfs_seek (fd p) (int ?v) SEEK_SET s))) = Some s'"
      "ok (dev_world s')" "open_on d E (fd p) s'" "\<forall>q<limit. content (dev_world s') q =
         (if ?v \<le> q \<and> q < ?v + length (part_cache p) then part_cache p ! (q - ?v) else content (dev_world s) q)" by blast
    have "content (dev_world s') (?F * 512 + q) = part_byte content (p, s) q" if "q < N * 512" for q
    proof -
      have lim: "?F * 512 + q < limit" using that A(4) by (simp add: algebra_simps)
      have "?v \<le> ?F * 512 + q \<and> ?F * 512 + q < ?v + 512 \<longleftrightarrow> q div 512 = unat (in_cache p)"
        by (auto simp: algebra_simps div_nat_eqI)
      moreover have "?F * 512 + q - ?v = q mod 512" if "q div 512 = unat (in_cache p)"
        using that [symmetric] by (simp add: algebra_simps minus_mult_div_eq_mod)
      ultimately show ?thesis using s'(4) lim A(7) True by (auto simp: part_byte_def)
    qed
    moreover have "part_flush p s = Some s'"
      using True s'(1) sector_offset [OF c A(6)] by (simp add: part_flush_def)
    moreover have "content (dev_world s') q = content (dev_world s) q" if "q < limit" "outside p N q" for q
      using s'(4) that c A(7) by (auto simp: outside_def)
    ultimately show ?thesis using s'(2,3) by blast
  next
    case False
    have "content (dev_world s) (?F * 512 + q) = part_byte content (p, s) q" if q: "q < N * 512" for q
    proof (cases "cache_state p \<noteq> 0 \<and> q div 512 = unat (in_cache p)")
      case True
      have "unat (in_cache p) < N" using q True by (metis div_less_iff_less_mult zero_less_numeral)
      then have "part_cache p ! (q mod 512) = content (dev_world s) ((?F + unat (in_cache p)) * 512 + q mod 512)"
        using assms False True by (auto simp: part_ok_def)
      moreover have "(?F + unat (in_cache p)) * 512 + q mod 512 = ?F * 512 + q"
        using True div_mult_mod_eq [of q 512] by (simp add: algebra_simps)
      ultimately have "part_cache p ! (q mod 512) = content (dev_world s) (?F * 512 + q)" by (simp only:)
      then show ?thesis using True by (simp add: part_byte_def)
    qed (auto simp: part_byte_def)
    then show ?thesis using False A(2,3) by (simp add: part_flush_def)
  qed
qed

lemma part_load_spec:
  assumes "part_ok ok content limit d E N (p, s)" and "unat sect < N"
  shows "\<exists>p' s'. part_load sect p s = Some (p', s') \<and> part_ok ok content limit d E N (p', s') \<and> in_cache p' = sect
    \<and> cache_state p' = 1 \<and> (\<forall>q < N * 512. part_byte content (p', s') q = part_byte content (p, s) q)
    \<and> first_sect p' = first_sect p \<and> (\<forall>q<limit. outside p N q \<longrightarrow> content (dev_world s') q = content (dev_world s) q)"
proof -
  let ?F = "unat (first_sect p)" and ?v = "(unat (first_sect p) + unat sect) * 512"
  have A: "byte_device (dev_io d) (gp_value d) ok content limit" "(?F + N) * 512 \<le> limit"
    "(?F + N) * 512 \<le> unat E" "(?F + N) * 512 < 2 ^ 31" "length (part_cache p) = 512"
    using assms(1) by (auto simp: part_ok_def)
  from part_flush_spec [OF assms(1)] obtain s1 where s1: "part_flush p s = Some s1" "ok (dev_world s1)"
    "open_on d E (fd p) s1" "\<And>q. q < N * 512 \<Longrightarrow> content (dev_world s1) (?F * 512 + q) = part_byte content (p, s) q"
    "\<And>q. q < limit \<Longrightarrow> outside p N q \<Longrightarrow> content (dev_world s1) q = content (dev_world s) q" by auto
  have "?v \<le> unat E" using A(3) assms(2) by simp
  then have v: "int ?v \<le> uint E" "?v + length (part_cache p) \<le> limit" "?v + length (part_cache p) < 2 ^ 31"
    using A(2-5) assms(2) by (simp_all only: le_unatI) auto
  from read_at_storage [OF A(1) s1(2,3) v] A(5) obtain s2 where s2:
    "read_at (fd p) (int ?v) (part_cache p) s1 = Some (map (content (dev_world s1)) [?v..<?v + 512], s2)"
    "ok (dev_world s2)" "open_on d E (fd p) s2" "\<And>q. q < limit \<Longrightarrow> content (dev_world s2) q = content (dev_world s1) q" by auto
  let ?p = "p\<lparr>part_cache := map (content (dev_world s1)) [?v..<?v + 512], in_cache := sect, cache_state := 1\<rparr>"
  have cache: "part_cache ?p ! i = content (dev_world s2) (?v + i)" if "i < 512" for i
    using that s2(4) [of "?v + i"] v(2) A(5) by simp
  have "part_ok ok content limit d E N (?p, s2)"
    using A s2(2,3) cache by (simp add: part_ok_def)
  moreover have "part_byte content (?p, s2) q = part_byte content (p, s) q" if "q < N * 512" for q
  proof -
    have "?F * 512 + q < limit" using that A(2) by (simp add: algebra_simps)
    then have eq: "content (dev_world s2) (?F * 512 + q) = part_byte content (p, s) q" using s1(4) [OF that] s2(4) by simp
    show ?thesis
    proof (cases "q div 512 = unat sect")
      case True
      then have "?v + q mod 512 = ?F * 512 + q" using div_mult_mod_eq [of q 512] by (simp add: algebra_simps)
      then have "part_cache ?p ! (q mod 512) = part_byte content (p, s) q" using cache [of "q mod 512"] eq by (simp only: mod_less_divisor zero_less_numeral)
      then show ?thesis using True by (simp add: part_byte_def [of content] split: prod.splits)
    next
      case False
      then have "part_byte content (?p, s2) q = content (dev_world s2) (?F * 512 + q)" by (simp add: part_byte_def)
      with eq show ?thesis by simp
    qed
  qed
  moreover have "part_load sect p s = Some (?p, s2)"
    using s1(1) s2(1) sector_offset [OF assms(2) A(4)] by (simp add: part_load_def)
  ultimately show ?thesis using s1(5) s2(4) by (intro exI [of _ ?p] exI [of _ s2]) simp
qed


lemma part_cached:
  assumes "part_ok ok content limit d E N (p, s)" and "unat loc < N * 512"
  shows "\<exists>p' s'. (if cache_state p = 0 \<or> loc div 512 \<noteq> in_cache p then part_load (loc div 512) p s else Some (p, s)) = Some (p', s')
    \<and> part_ok ok content limit d E N (p', s') \<and> in_cache p' = loc div 512 \<and> cache_state p' \<noteq> 0
    \<and> (\<forall>q < N * 512. part_byte content (p', s') q = part_byte content (p, s) q)
    \<and> first_sect p' = first_sect p \<and> (\<forall>q<limit. outside p N q \<longrightarrow> content (dev_world s') q = content (dev_world s) q)"
proof -
  have "unat (loc div 512) < N" using assms(2) by (simp add: unat_div div_less_iff_less_mult)
  from part_load_spec [OF assms(1) this] assms(1) show ?thesis by (cases "cache_state p = 0 \<or> loc div 512 \<noteq> in_cache p") auto
qed

lemma part_write_view:
  assumes "in_cache p = loc div 512" and "cache_state p \<noteq> 0" and "length (part_cache p) = 512"
  shows "part_byte content (p\<lparr>part_cache := (part_cache p)[unat (loc mod 512) := b], cache_state := 2\<rparr>, s) q
    = (if q = unat loc then b else part_byte content (p, s) q)"
proof -
  have u: "unat (loc div 512) = unat loc div 512" "unat (loc mod 512) = unat loc mod 512"
    by (simp_all add: unat_div unat_mod)
  have "q = unat loc" if "q div 512 = unat loc div 512" "q mod 512 = unat loc mod 512"
    using that by (metis div_mult_mod_eq)
  then show ?thesis using assms u by (auto simp: part_byte_def nth_list_update)
qed

text \<open>
  One access of the partition device: the value, the invariant, the visible bytes, and the disk outside
  the partition.
\<close>

lemma part_read_spec:
  assumes "part_ok ok content limit d E N (p, s)" and "unat loc < N * 512"
  shows "\<exists>p' s'. partitioned_medium_io_wrapper gp loc DF_READ v (p, s) = Some (uint (part_byte content (p, s) (unat loc)), p', s')
    \<and> part_ok ok content limit d E N (p', s') \<and> (\<forall>q < N * 512. part_byte content (p', s') q = part_byte content (p, s) q)
    \<and> (\<forall>q<limit. outside p N q \<longrightarrow> content (dev_world s') q = content (dev_world s) q)"
proof -
  from part_cached [OF assms] obtain p1 s1 where p1:
    "(if cache_state p = 0 \<or> loc div 512 \<noteq> in_cache p then part_load (loc div 512) p s else Some (p, s)) = Some (p1, s1)"
    "part_ok ok content limit d E N (p1, s1)" "in_cache p1 = loc div 512" "cache_state p1 \<noteq> 0"
    "\<And>q. q < N * 512 \<Longrightarrow> part_byte content (p1, s1) q = part_byte content (p, s) q"
    "\<forall>q<limit. outside p N q \<longrightarrow> content (dev_world s1) q = content (dev_world s) q" by blast
  have u: "unat (loc div 512) = unat loc div 512" "unat (loc mod 512) = unat loc mod 512" by (simp_all add: unat_div unat_mod)
  have "part_cache p1 ! unat (loc mod 512) = part_byte content (p1, s1) (unat loc)"
    using p1(3,4) u by (simp add: part_byte_def)
  then have "partitioned_medium_io_wrapper gp loc DF_READ v (p, s) = Some (uint (part_byte content (p, s) (unat loc)), (p1, s1))"
    using p1(1) p1(5) [OF assms(2)] by (simp add: partitioned_medium_io_wrapper_def)
  then show ?thesis using p1(2,5,6) by blast
qed

lemma part_write_spec:
  assumes "part_ok ok content limit d E N (p, s)" and "unat loc < N * 512"
  shows "\<exists>p' s'. partitioned_medium_io_wrapper gp loc DF_WRITE v (p, s) = Some (0, p', s')
    \<and> part_ok ok content limit d E N (p', s')
    \<and> (\<forall>q < N * 512. part_byte content (p', s') q = (if q = unat loc then v else part_byte content (p, s) q))
    \<and> (\<forall>q<limit. outside p N q \<longrightarrow> content (dev_world s') q = content (dev_world s) q)"
proof -
  from part_cached [OF assms] obtain p1 s1 where p1:
    "(if cache_state p = 0 \<or> loc div 512 \<noteq> in_cache p then part_load (loc div 512) p s else Some (p, s)) = Some (p1, s1)"
    "part_ok ok content limit d E N (p1, s1)" "in_cache p1 = loc div 512" "cache_state p1 \<noteq> 0"
    "\<And>q. q < N * 512 \<Longrightarrow> part_byte content (p1, s1) q = part_byte content (p, s) q"
    "\<forall>q<limit. outside p N q \<longrightarrow> content (dev_world s1) q = content (dev_world s) q" by blast
  have len: "length (part_cache p1) = 512" using p1(2) by (simp add: part_ok_def)
  let ?p = "p1\<lparr>part_cache := (part_cache p1)[unat (loc mod 512) := v], cache_state := 2\<rparr>"
  have "unat (loc div 512) < N" using assms(2) by (simp add: unat_div div_less_iff_less_mult)
  then have "part_ok ok content limit d E N (?p, s1)" using p1(2,3) by (simp add: part_ok_def)
  moreover have "partitioned_medium_io_wrapper gp loc DF_WRITE v (p, s) = Some (0, (?p, s1))"
    using p1(1) by (simp add: partitioned_medium_io_wrapper_def)
  moreover have "part_byte content (?p, s1) q = (if q = unat loc then v else part_byte content (p, s) q)" if "q < N * 512" for q
    using part_write_view [OF p1(3,4) len, of content v s1 q] p1(5) [OF that] by simp
  ultimately show ?thesis using p1(6) by blast
qed

interpretation pt: byte_device partitioned_medium_io_wrapper gp "part_ok ok content limit d E N" "part_byte content" "N * 512"
  for gp ok content limit d E N
proof
  fix w :: "part \<times> 'a devfs" and loc :: u64 and v :: u8
  assume ok: "part_ok ok content limit d E N w" and loc: "unat loc < N * 512"
  obtain p s where w: "w = (p, s)" by (cases w)
  from part_read_spec [OF ok [unfolded w] loc] show "\<exists>w'. partitioned_medium_io_wrapper gp loc DF_READ v w =
      Some (uint (part_byte content w (unat loc)), w') \<and> part_ok ok content limit d E N w'
      \<and> (\<forall>q < N * 512. part_byte content w' q = part_byte content w q)"
    unfolding w by blast
  from part_write_spec [OF ok [unfolded w] loc] show "\<exists>w'. partitioned_medium_io_wrapper gp loc DF_WRITE v w = Some (0, w')
      \<and> part_ok ok content limit d E N w' \<and> (\<forall>q < N * 512. part_byte content w' q = (if q = unat loc then v else part_byte content w q))"
    unfolding w by blast
qed


text \<open>
  C8. A partition behaves as a storage device of its own size on the window of the disk it covers:
  reading returns, and writing changes, exactly the byte addressed, through the sector cache and
  whatever sector had to leave it; and no access ever changes the disk outside the partition.
\<close>

theorem partition_is_isolated_storage:
  assumes "part_ok ok content limit d E N (p, s)" and "unat loc < N * 512"
  shows "(\<exists>p' s'. partitioned_medium_io_wrapper gp loc DF_READ v (p, s) = Some (uint (part_byte content (p, s) (unat loc)), p', s')
        \<and> part_ok ok content limit d E N (p', s') \<and> (\<forall>q < N * 512. part_byte content (p', s') q = part_byte content (p, s) q)
        \<and> (\<forall>q<limit. outside p N q \<longrightarrow> content (dev_world s') q = content (dev_world s) q))
    \<and> (\<exists>p' s'. partitioned_medium_io_wrapper gp loc DF_WRITE v (p, s) = Some (0, p', s')
        \<and> part_ok ok content limit d E N (p', s')
        \<and> (\<forall>q < N * 512. part_byte content (p', s') q = (if q = unat loc then v else part_byte content (p, s) q))
        \<and> (\<forall>q<limit. outside p N q \<longrightarrow> content (dev_world s') q = content (dev_world s) q))"
  using part_read_spec [OF assms] part_write_spec [OF assms] by blast

text \<open>A partition of four sectors on the disk in memory.\<close>

definition ram_dev :: "ram bios_disks device_t" where
  "ram_dev = \<lparr>dev_name = ''bd0'', gp_value = 0x80, dev_size = 65536, dev_io = bios_harddisks_io_wrapper ram_read ram_write\<rparr>"

definition ram_devfs :: "ram bios_disks devfs" where
  "ram_devfs = \<lparr>device_list = [ram_dev], devfs_handles = [\<lparr>df_free = False, df_path = ''bd0'', df_flags = 2, df_mode = 0,
     df_ptr = 0, df_begin = 0, df_end = 65536, df_isblock = False, df_device = 0\<rparr>],
     read_stat = False, write_stat = False, dev_world = ram_disks\<rparr>"

definition ram_part :: part where
  "ram_part = \<lparr>fd = 0, first_sect = 2, sect_count = 4, in_cache = -1, part_cache = replicate 512 0, cache_state = 0,
     part_guid = \<lparr>guid_a = 0, guid_b = 0, guid_rest = []\<rparr>\<rparr>"

abbreviation (input) "ram_ok \<equiv> \<lambda>s. bios_laws ram_read ram_write ram_sectors ram_count \<and> bd_inv ram_sectors ram_count s"
abbreviation (input) "ram_content \<equiv> \<lambda>s. disk_byte ram_sectors s (0x80 :: u8)"

lemma ram_storage: "byte_device (dev_io ram_dev) (gp_value ram_dev) ram_ok ram_content 65536"
  using bd.byte_device_axioms [of ram_read ram_write "0x80" ram_sectors ram_count]
  by (simp add: ram_dev_def ram_count_def)

lemma ram_part_ok: "part_ok ram_ok ram_content 65536 ram_dev 65536 4 (ram_part, ram_devfs)"
proof -
  have "open_on ram_dev 65536 0 ram_devfs"
    by (simp add: open_on_def handle_device_def ram_devfs_def Let_def)
  then show ?thesis
    using ram_storage ram_laws ram_inv by (simp add: part_ok_def ram_part_def) (simp add: ram_devfs_def)
qed

theorem partition_is_isolated_storage_witness:
  "\<exists>p' s'. partitioned_medium_io_wrapper 0 700 DF_WRITE 9 (ram_part, ram_devfs) = Some (0, p', s')
     \<and> part_byte ram_content (p', s') 700 = 9"
proof -
  have "unat (700 :: u64) < 4 * 512" by simp
  from partition_is_isolated_storage [OF ram_part_ok this, of 0 9] show ?thesis by force
qed

subsection \<open>Disks without a partition table\<close>

text \<open>
  A medium that is registered, at least 1024 bytes large, and carries neither the GPT signature nor a
  plausible MBR mark.
\<close>

definition unpartitioned ::
  "('w \<Rightarrow> bool) \<Rightarrow> ('w \<Rightarrow> nat \<Rightarrow> u8) \<Rightarrow> nat \<Rightarrow> 'w device_t \<Rightarrow> string \<Rightarrow> 'w devfs \<Rightarrow> bool" where
  "unpartitioned ok content limit d medium s \<longleftrightarrow>
     byte_device (dev_io d) (gp_value d) ok content limit \<and> ok (dev_world s)
     \<and> (\<exists>i. find_device (skip_slash medium) (device_list s) = Some i \<and> device_list s ! i = d)
     \<and> 1024 \<le> limit \<and> 1024 \<le> uint (dev_size d) \<and> uint (dev_size d) < 2 ^ 63 \<and> length medium < 1024
     \<and> map (content (dev_world s)) [512..<520] \<noteq> map of_char ''EFI PART''
     \<and> (let hint = le_field (map (content (dev_world s)) [444..<446]) 0 2 in hint \<noteq> 0 \<and> hint \<noteq> 0x5a5a)"

lemma content_range_cong:
  "\<forall>q<limit. f q = g q \<Longrightarrow> b \<le> limit \<Longrightarrow> map f [a..<b] = map g [a..<b]" for f g :: "nat \<Rightarrow> u8"
  by (rule map_cong) auto

lemma unpartitioned_get_part:
  assumes "byte_device (dev_io d) (gp_value d) ok content limit" and "ok (dev_world s)" and "open_on d E n s"
    and "1024 \<le> limit" and "1024 \<le> uint E"
    and "map (content (dev_world s)) [512..<520] \<noteq> map of_char ''EFI PART''"
    and "le_field (map (content (dev_world s)) [444..<446]) 0 2 \<notin> {0, 0x5a5a}" and "2 \<le> length stack"
  shows "\<exists>s'. get_part junk stack n i s = Some (NoPartition, s') \<and> ok (dev_world s') \<and> open_on d E n s'
    \<and> (\<forall>q<limit. content (dev_world s') q = content (dev_world s) q)"
proof -
  from read_at_storage [OF assms(1-3), of 512 "replicate 92 0"] assms(4,5) obtain s1 where s1:
    "read_at n 512 (replicate 92 0) s = Some (map (content (dev_world s)) [512..<604], s1)" "ok (dev_world s1)"
    "open_on d E n s1" "\<forall>q<limit. content (dev_world s1) q = content (dev_world s) q" by auto
  have "take 8 (map (content (dev_world s)) [512..<604]) = map (content (dev_world s)) [512..<520]"
    by (simp add: take_map del: upt_Suc)
  then have g: "gpt_get_part junk n i s = Some (InvalidTable, s1)"
    using s1(1) assms(6) by (simp add: gpt_get_part_def del: upt_Suc)
  from read_at_storage [OF assms(1) s1(2,3), of 444 "take 2 stack"] assms(4,5,8) obtain s2 where s2:
    "read_at n 444 (take 2 stack) s1 = Some (map (content (dev_world s1)) [444..<446], s2)" "ok (dev_world s2)"
    "open_on d E n s2" "\<forall>q<limit. content (dev_world s2) q = content (dev_world s1) q" by auto
  have "map (content (dev_world s1)) [444..<446] = map (content (dev_world s)) [444..<446]"
    using content_range_cong [OF s1(4), of 446 444] assms(4) by simp
  then have "mbr_get_part junk stack n i s1 = Some (InvalidTable, s2)"
    using s2(1) assms(7) by (simp add: mbr_get_part_def del: upt_Suc)
  then show ?thesis using g s1(4) s2 by (simp add: get_part_def)
qed


lemma devfs_devices:
  "device_list (snd (devfs_seek n offset type s)) = device_list s"
  "devfs_uread n m s = Some (r, bs, s') \<Longrightarrow> device_list s' = device_list s"
  by (auto simp: devfs_seek_def devfs_uread_def Let_def split: option.splits prod.splits)

lemma read_at_devices: "read_at n offset buf s = Some (bs, s') \<Longrightarrow> device_list s' = device_list s"
  using devfs_devices(1) [of n offset SEEK_SET s]
  by (cases "devfs_seek n offset SEEK_SET s") (auto simp: read_at_def bind_eq_Some_conv dest: devfs_devices(2))

lemma gpt_get_part_devices:
  assumes "gpt_get_part junk n i s = Some (r, s')"
  shows "device_list s' = device_list s"
proof -
  from assms obtain header s1 where h: "read_at n 512 (replicate 92 0) s = Some (header, s1)"
    by (auto simp: gpt_get_part_def bind_eq_Some_conv)
  have "s' = s1 \<or> (\<exists>off entry. read_at n off (replicate 128 0) s1 = Some (entry, s'))"
    using assms unfolding gpt_get_part_def h by (auto simp: bind_eq_Some_conv split: if_splits)
  then show ?thesis using read_at_devices [OF h] read_at_devices by metis
qed

lemma mbr_get_part_devices:
  assumes "mbr_get_part junk stack n i s = Some (r, s')"
  shows "device_list s' = device_list s"
proof -
  from assms obtain hint s1 where h: "read_at n 444 (take 2 stack) s = Some (hint, s1)"
    by (auto simp: mbr_get_part_def bind_eq_Some_conv)
  have "s' = s1 \<or> (\<exists>b s2 off entry. read_at n 440 (take 4 stack) s1 = Some (b, s2) \<and> read_at n off (take 16 stack) s2 = Some (entry, s'))"
    using assms unfolding mbr_get_part_def h by (auto simp: bind_eq_Some_conv split: if_splits)
  then show ?thesis using read_at_devices [OF h] read_at_devices by metis
qed

lemma get_part_devices:
  assumes "get_part junk stack n i s = Some (r, s')"
  shows "device_list s' = device_list s"
proof -
  from assms obtain r1 s1 where g: "gpt_get_part junk n i s = Some (r1, s1)" by (auto simp: get_part_def bind_eq_Some_conv)
  have "s' = s1 \<or> (\<exists>r2. mbr_get_part junk stack n i s1 = Some (r2, s'))"
    using assms unfolding get_part_def g by (auto simp: bind_eq_Some_conv split: if_splits)
  then show ?thesis using gpt_get_part_devices [OF g] mbr_get_part_devices by metis
qed

lemma unpartitioned_round:
  assumes "unpartitioned ok content limit d medium s" and "2 \<le> length stack"
  shows "\<exists>s'. add_part_round junk stack part_io medium i (parts, s) = Some (Again (parts, s'))
    \<and> unpartitioned ok content limit d medium s'"
proof -
  from assms(1) obtain k where k: "find_device (skip_slash medium) (device_list s) = Some k" "device_list s ! k = d"
    and D: "byte_device (dev_io d) (gp_value d) ok content limit" "ok (dev_world s)" "1024 \<le> limit"
    "1024 \<le> uint (dev_size d)" "uint (dev_size d) < 2 ^ 63" "length medium < 1024"
    "map (content (dev_world s)) [512..<520] \<noteq> map of_char ''EFI PART''"
    "le_field (map (content (dev_world s)) [444..<446]) 0 2 \<notin> {0, 0x5a5a}"
    by (auto simp: unpartitioned_def Let_def)
  have flags: "(2 :: u32) AND 0x200 = 0" "(2 :: u32) AND 8 = 0" "(2 :: u32) AND 0x10 = 0" by simp_all
  from devfs_open_spec [OF k(1) D(6) flags, of 0] obtain n s1 h where o: "devfs_open medium 2 0 s = Some (int n, s1)"
    "handle_device (int n) s1 = Some (h, d)" "df_ptr h = 0" "df_begin h = 0" "df_end h = dev_size d" "\<not> df_free h"
    "df_isblock h = (dev_size d = 0)" "device_list s1 = device_list s" "dev_world s1 = dev_world s" using k(2) by blast
  have "dev_size d \<noteq> 0" using D(4) by auto
  then have on: "open_on d (dev_size d) (int n) s1" using o(2-7) D(5) by (auto simp: open_on_def)
  from unpartitioned_get_part [OF D(1) _ on D(3,4) _ _ assms(2), of junk i] D(2,7,8) o(9) obtain s2 where s2:
    "get_part junk stack (int n) i s1 = Some (NoPartition, s2)" "ok (dev_world s2)" "open_on d (dev_size d) (int n) s2"
    "\<forall>q<limit. content (dev_world s2) q = content (dev_world s) q" by auto
  let ?s = "snd (devfs_close (int n) s2)"
  have w: "dev_world ?s = dev_world s2" by (simp add: devfs_close_def)
  have dl: "device_list ?s = device_list s2" by (simp add: devfs_close_def)
  have "device_list s2 = device_list s" using get_part_devices [OF s2(1)] o(8) by simp
  then have "unpartitioned ok content limit d medium ?s"
    using k D s2(2) w dl content_range_cong [OF s2(4), of 520 512] content_range_cong [OF s2(4), of 446 444]
    by (simp add: unpartitioned_def Let_def del: upt_Suc)
  moreover have "add_part_round junk stack part_io medium i (parts, s) = Some (Again (parts, ?s))"
    using o(1) s2(1) by (simp add: add_part_round_def)
  ultimately show ?thesis by blast
qed

text \<open>
  C35. A medium without a partition table is never left: the code for "no valid table" is the code for
  "no such partition", so the search goes on with the next partition number, and
  \<open>add_partitioned_medium\<close> does not return after any number of rounds.
\<close>

theorem unpartitioned_medium_never_returns:
  assumes "unpartitioned ok content limit d medium s" and "2 \<le> length stack"
  shows "add_partitioned_medium fuel junk stack part_io medium i (parts, s) = None"
  using assms(1)
proof (induction fuel arbitrary: i s)
  case (Suc fuel)
  from unpartitioned_round [OF Suc.prems assms(2), of junk part_io i parts] Suc.IH show ?case by auto
qed simp


definition ones_devfs :: "ram bios_disks devfs" where
  "ones_devfs = ram_devfs\<lparr>devfs_handles := [], dev_world := ram_disks\<lparr>hw := \<lambda>_ _. replicate 512 1\<rparr>\<rparr>"

theorem unpartitioned_medium_never_returns_witness:
  "add_partitioned_medium 1000 ram_part [0, 0] null_io_wrapper ''bd0'' 0 ([], ones_devfs) = None"
proof (rule unpartitioned_medium_never_returns)
  have byte: "ram_content (dev_world ones_devfs) q = 1" for q
    by (simp add: ones_devfs_def ram_devfs_def disk_byte_def cache_hit_def ram_disks_def medium_byte_def ram_sectors_def)
  then have "map (ram_content (dev_world ones_devfs)) [444..<446] = [1, 1]"
    "map (ram_content (dev_world ones_devfs)) [512..<520] = [1, 1, 1, 1, 1, 1, 1, 1]"
    by (simp_all add: map_replicate_const upt_rec)
  moreover have "[1, 1, 1, 1, 1, 1, 1, 1] \<noteq> (map of_char ''EFI PART'' :: u8 list)" by simp
  moreover have "le_field [1, 1] 0 2 = 257" by (simp add: le_field_def eval_nat_numeral)
  moreover have "ram_ok (dev_world ones_devfs)"
    using ram_laws ram_inv by (simp add: ones_devfs_def ram_devfs_def bd_inv_def ram_disks_def)
  moreover have "find_device (skip_slash ''bd0'') (device_list ones_devfs) = Some 0 \<and> device_list ones_devfs ! 0 = ram_dev"
    by (simp add: ones_devfs_def ram_devfs_def find_device_def skip_slash_def ram_dev_def)
  ultimately show "unpartitioned ram_ok ram_content 65536 ram_dev ''bd0'' ones_devfs"
    using ram_storage by (simp add: unpartitioned_def Let_def del: upt_Suc) (simp add: ram_dev_def)
qed simp

end
