(* ===== verification/Paths.thy ===== *)
theory Paths
  imports Kernel_Types Klib_Strings
begin

text \<open>
  Path names of the virtual file system, \<open>vfs_get_absolute_path\<close> and \<open>vfs_translate_mnt\<close> of
  \<open>kernel/src/vfs.c\<close>.

  A path argument is the string before its terminating null character.  The result of
  \<open>vfs_get_absolute_path\<close> is built in a buffer of the caller whose first contents are arbitrary;
  \<open>path_ptr\<close> is an index into it, and an index outside it is a fault.  The two modes of the loop are
  its entry at the label \<open>first_run\<close> (\<open>True\<close>) and at the \<open>switch\<close> (\<open>False\<close>).

  The reference is the usual reading of a path: split it at the slashes, skip empty components and
  single dots, let a double dot drop the last component.
\<close>

subsection \<open>Absolute paths\<close>

text \<open>\<open>while (*path_ptr != '/') path_ptr--;\<close> and the adjustment at the root.\<close>

fun back_to_slash :: "string \<Rightarrow> nat \<Rightarrow> nat option" where
  "back_to_slash buf i =
     (if length buf \<le> i then None
      else if buf ! i = CHR ''/'' then Some i
      else case i of 0 \<Rightarrow> None | Suc j \<Rightarrow> back_to_slash buf j)"

declare back_to_slash.simps [simp del]

definition parent :: "string \<Rightarrow> nat \<Rightarrow> nat option" where
  "parent buf i = map_option (\<lambda>j. if j = 0 then 1 else j) (back_to_slash buf i)"

definition path_term :: "string \<Rightarrow> nat \<Rightarrow> string option" where
  "path_term buf i =
     (if i = 0 \<or> length buf < i then None
      else arr_set buf (if buf ! (i - 1) = CHR ''/'' \<and> i - 1 \<noteq> 0 then i - 1 else i) NUL)"

function abs_run :: "bool \<Rightarrow> string \<Rightarrow> string \<Rightarrow> nat \<Rightarrow> string option" where
  "abs_run True path buf i =
     (if take 1 path = ''/'' then abs_run False path buf i
      else if path = ''.'' \<or> path = ''./'' then path_term buf i
      else if path = ''..'' \<or> path = ''../'' then do { i \<leftarrow> parent buf i; path_term buf i }
      else if take 3 path = ''../'' then do {
        i \<leftarrow> parent buf i;
        buf \<leftarrow> arr_set buf i NUL;
        abs_run False (drop 2 path) buf i }
      else if take 2 path = ''./'' then abs_run False (drop 1 path) buf i
      else if i = 0 \<or> length buf < i then None
      else if i - 1 \<noteq> 0 \<and> buf ! (i - 1) \<noteq> CHR ''/'' then do {
        buf \<leftarrow> arr_set buf i (CHR ''/'');
        abs_run False path buf (i + 1) }
      else abs_run False path buf i)"
| "abs_run False path buf i =
     (case path of
        [] \<Rightarrow> path_term buf i
      | c # p \<Rightarrow>
          if c = CHR ''/'' then abs_run True p buf i
          else do { buf \<leftarrow> arr_set buf i c; abs_run False p buf (i + 1) })"
  by pat_completeness auto
termination
  by (relation "measure (\<lambda>(first, path, _, _). 2 * length path + (if first then 1 else 0))") auto

declare abs_run.simps [simp del]

text \<open>\<open>kstrcpy\<close> of a string to the start of the buffer.\<close>

definition put_string :: "string \<Rightarrow> string \<Rightarrow> string option" where
  "put_string buf s = (if length s < length buf then Some (s @ NUL # drop (length s + 1) buf) else None)"

definition vfs_get_absolute_path :: "string \<Rightarrow> string \<Rightarrow> string \<Rightarrow> string option" where
  "vfs_get_absolute_path pwd path buf =
     (case path of
        [] \<Rightarrow> put_string buf pwd
      | c # p \<Rightarrow>
          if c \<noteq> CHR ''/'' then do { buf \<leftarrow> put_string buf pwd; abs_run True path buf (length pwd) }
          else do { buf \<leftarrow> arr_set buf 0 (CHR ''/''); abs_run True p buf 1 })"

subsection \<open>Mount points\<close>

text \<open>
  The test of one mount point and the search for the longest one.  The statement \<open>*local_path++\<close>
  moves the pointer variable and not the pointer it points to, so the local path keeps its leading
  slash.
\<close>

definition mount_matches :: "string \<Rightarrow> string \<Rightarrow> bool" where
  "mount_matches path mnt \<longleftrightarrow> take (length mnt) path = mnt
     \<and> (path = mnt \<or> take 1 (drop (length mnt) path) = ''/'' \<or> mnt = ''/'')"

fun translate_loop :: "string \<Rightarrow> string list \<Rightarrow> nat \<Rightarrow> int \<Rightarrow> nat \<Rightarrow> int \<times> nat" where
  "translate_loop path [] i guess guess_size = (guess, guess_size)"
| "translate_loop path (m # ms) i guess guess_size =
     (if mount_matches path m \<and> length m > guess_size
      then translate_loop path ms (i + 1) (int i) (length m)
      else translate_loop path ms (i + 1) guess guess_size)"

definition vfs_translate_mnt :: "string \<Rightarrow> string list \<Rightarrow> int \<times> string" where
  "vfs_translate_mnt path mnts =
     (let (guess, guess_size) = translate_loop path mnts 0 (-2) 0 in (guess, drop guess_size path))"

subsection \<open>The reference reading of a path\<close>

function components :: "string \<Rightarrow> string list" where
  "components path = takeWhile (\<lambda>c. c \<noteq> CHR ''/'') path #
     (case dropWhile (\<lambda>c. c \<noteq> CHR ''/'') path of [] \<Rightarrow> [] | _ # p \<Rightarrow> components p)"
  by pat_completeness auto
termination
proof (relation "measure length")
  fix path p :: string and c
  assume "dropWhile (\<lambda>c. c \<noteq> CHR ''/'') path = c # p"
  then have "length (c # p) \<le> length path" by (metis length_dropWhile_le)
  then show "(p, path) \<in> measure length" by simp
qed simp

declare components.simps [simp del]

definition walk :: "string list \<Rightarrow> string \<Rightarrow> string list" where
  "walk cs c = (if c = [] \<or> c = ''.'' then cs else if c = ''..'' then butlast cs else cs @ [c])"

definition normalise :: "string list \<Rightarrow> string \<Rightarrow> string list" where
  "normalise cs path = foldl walk cs (components path)"

definition render_path :: "string list \<Rightarrow> string" where
  "render_path cs = (if cs = [] then ''/'' else concat (map (\<lambda>c. CHR ''/'' # c) cs))"

definition good_components :: "string list \<Rightarrow> bool" where
  "good_components cs \<longleftrightarrow> (\<forall>c \<in> set cs. c \<noteq> [] \<and> CHR ''/'' \<notin> set c \<and> NUL \<notin> set c)"

subsection \<open>The buffer during the walk\<close>

lemma back_to_slash_eq:
  "i < length buf \<Longrightarrow> p \<le> i \<Longrightarrow> buf ! p = CHR ''/'' \<Longrightarrow> (\<And>j. p < j \<Longrightarrow> j \<le> i \<Longrightarrow> buf ! j \<noteq> CHR ''/'') \<Longrightarrow>
     back_to_slash buf i = Some p"
proof (induction i)
  case 0
  then show ?case by (simp add: back_to_slash.simps)
next
  case (Suc i)
  show ?case
  proof (cases "p = Suc i")
    case True
    then show ?thesis using Suc.prems by (simp add: back_to_slash.simps)
  next
    case False
    then have "buf ! Suc i \<noteq> CHR ''/''" "back_to_slash buf i = Some p" using Suc by auto
    then show ?thesis using Suc.prems(1) by (subst back_to_slash.simps) simp
  qed
qed

lemma back_to_slash_split:
  assumes "CHR ''/'' \<notin> set mid" and "x \<noteq> CHR ''/''"
  shows "back_to_slash (pre @ CHR ''/'' # mid @ x # rest) (length pre + length mid + 1) = Some (length pre)"
proof (rule back_to_slash_eq)
  fix j
  assume j: "length pre < j" "j \<le> length pre + length mid + 1"
  let ?t = "mid @ x # rest"
  have "(pre @ CHR ''/'' # ?t) ! j = ?t ! (j - length pre - 1)" using j by (simp add: nth_append nth_Cons')
  moreover have "?t ! (j - length pre - 1) \<in> set mid \<union> {x}" using j by (auto simp: nth_append nth_Cons')
  ultimately show "(pre @ CHR ''/'' # mid @ x # rest) ! j \<noteq> CHR ''/''" using assms by auto
qed auto

definition slashed :: "string list \<Rightarrow> string" where
  "slashed cs = (if cs = [] then ''/'' else render_path cs @ ''/'')"

lemma render_snoc: "render_path (cs @ [c]) = slashed cs @ c"
  by (cases "cs = []") (simp_all add: render_path_def slashed_def)

lemma render_split: "render_path cs = CHR ''/'' # tl (render_path cs)"
  by (cases cs) (simp_all add: render_path_def)

lemma render_nonempty [simp]: "render_path cs \<noteq> []" "0 < length (render_path cs)"
  by (metis list.distinct(1) render_split, metis length_greater_0_conv list.distinct(1) render_split)

lemma good_snoc: "good_components (cs @ [c]) \<longleftrightarrow> good_components cs \<and> c \<noteq> [] \<and> CHR ''/'' \<notin> set c \<and> NUL \<notin> set c"
  by (auto simp: good_components_def)

lemma good_butlast: "good_components cs \<Longrightarrow> good_components (butlast cs)"
  by (auto simp: good_components_def dest: in_set_butlastD)

lemma render_last:
  "good_components cs \<Longrightarrow> cs \<noteq> [] \<Longrightarrow> last (render_path cs) \<noteq> CHR ''/''"
  by (cases cs rule: rev_cases) (auto simp: render_snoc good_snoc, metis last_in_set)

text \<open>The buffer holds the rendering of the components walked, and no slash behind it.\<close>

lemma parent_render:
  assumes "good_components cs" and "CHR ''/'' \<notin> set tail" and "tail \<noteq> []"
  shows "parent (render_path cs @ tail) (length (render_path cs)) = Some (length (render_path (butlast cs)))"
proof -
  obtain x tl where t: "tail = x # tl" "x \<noteq> CHR ''/''" using assms(2,3) by (cases tail) auto
  show ?thesis
  proof (cases cs rule: rev_cases)
    case Nil
    have "back_to_slash (CHR ''/'' # x # tl) 1 = Some 0" using back_to_slash_split [of "[]" x "[]" tl] t by simp
    then show ?thesis using Nil t by (simp add: parent_def render_path_def)
  next
    case (snoc ds c)
    have c: "CHR ''/'' \<notin> set c" using assms(1) snoc by (simp add: good_snoc)
    show ?thesis
    proof (cases "ds = []")
      case True
      have "back_to_slash (CHR ''/'' # c @ x # tl) (length c + 1) = Some 0"
        using back_to_slash_split [of c x "[]" tl] t c by simp
      then show ?thesis using snoc True t by (simp add: parent_def render_path_def)
    next
      case False
      have "back_to_slash (render_path ds @ CHR ''/'' # c @ x # tl) (length (render_path ds) + length c + 1)
          = Some (length (render_path ds))"
        using back_to_slash_split [of c x "render_path ds" tl] t c by simp
      then show ?thesis using snoc False t by (simp add: parent_def render_snoc slashed_def)
    qed
  qed
qed

lemma arr_set_append: "arr_set (pre @ x # rest) (length pre) v = Some (pre @ v # rest)"
  by (simp add: arr_set_def)

text \<open>After dropping a component the buffer can be cut at the new end.\<close>

lemma parent_buffer:
  assumes "good_components cs" and "CHR ''/'' \<notin> set tail" and "tail \<noteq> []"
  shows "\<exists>x rest. render_path cs @ tail = render_path (butlast cs) @ x # rest
    \<and> CHR ''/'' \<notin> set rest \<and> length tail \<le> length rest + 1"
proof (cases cs rule: rev_cases)
  case Nil
  then show ?thesis using assms(2,3) by (cases tail) (auto simp: render_path_def)
next
  case (snoc ds c)
  have c: "CHR ''/'' \<notin> set c" "c \<noteq> []" using assms(1) snoc by (simp_all add: good_snoc)
  show ?thesis
  proof (cases "ds = []")
    case True
    obtain y ys where "c = y # ys" using c(2) by (cases c) auto
    then show ?thesis using snoc True assms(2) c by (auto simp: render_path_def)
  next
    case False
    then show ?thesis using snoc assms(2) c by (auto simp: render_snoc slashed_def)
  qed
qed

lemma path_term_render:
  assumes "good_components cs"
  shows "path_term (render_path cs @ x # rest) (length (render_path cs)) = Some (render_path cs @ NUL # rest)"
proof (cases "cs = []")
  case True
  then show ?thesis by (simp add: path_term_def render_path_def arr_set_def)
next
  case False
  have "(render_path cs @ x # rest) ! (length (render_path cs) - 1) = last (render_path cs)"
    by (simp add: nth_append last_conv_nth)
  then show ?thesis
    using render_last [OF assms False] arr_set_append by (simp add: path_term_def)
qed

lemma path_term_slashed:
  assumes "good_components cs"
  shows "path_term (slashed cs @ x # rest) (length (slashed cs))
    = Some (render_path cs @ NUL # (if cs = [] then rest else x # rest))"
proof (cases "cs = []")
  case True
  then show ?thesis by (simp add: slashed_def path_term_def render_path_def arr_set_def)
next
  case False
  then show ?thesis
    using arr_set_append [of "render_path cs" "CHR ''/''" "x # rest" NUL]
    by (simp add: slashed_def path_term_def nth_append)
qed

lemma copy_component:
  "CHR ''/'' \<notin> set c \<Longrightarrow> length c \<le> length t \<Longrightarrow>
     abs_run False (c @ rest) (pre @ t) (length pre) = abs_run False rest (pre @ c @ drop (length c) t) (length pre + length c)"
proof (induction c arbitrary: pre t)
  case (Cons x c)
  then obtain y t' where t: "t = y # t'" by (cases t) auto
  have "abs_run False ((x # c) @ rest) (pre @ t) (length pre) = abs_run False (c @ rest) ((pre @ [x]) @ t') (length (pre @ [x]))"
    using Cons.prems(1) t arr_set_append [of pre y t' x] by (subst abs_run.simps) auto
  then show ?case using Cons.IH [of t' "pre @ [x]"] Cons.prems t by simp
qed simp

subsection \<open>The walk computes the normal form\<close>

lemma components_slash: "components (CHR ''/'' # p) = [] # components p"
  by (simp add: components.simps [of "CHR ''/'' # p"])

lemma while_no_slash:
  assumes "CHR ''/'' \<notin> set c"
  shows "takeWhile (\<lambda>c. c \<noteq> CHR ''/'') (c @ CHR ''/'' # p) = c" "dropWhile (\<lambda>c. c \<noteq> CHR ''/'') (c @ CHR ''/'' # p) = CHR ''/'' # p"
    "takeWhile (\<lambda>c. c \<noteq> CHR ''/'') c = c" "dropWhile (\<lambda>c. c \<noteq> CHR ''/'') c = []"
  using assms by (induction c) auto

lemma components_split:
  "CHR ''/'' \<notin> set c \<Longrightarrow> components (c @ CHR ''/'' # p) = c # components p"
  "CHR ''/'' \<notin> set c \<Longrightarrow> components c = [c]"
  by (simp_all add: components.simps [of "c @ CHR ''/'' # p"] components.simps [of c] while_no_slash)

lemma normalise_slash [simp]: "normalise cs (CHR ''/'' # p) = normalise cs p"
  by (simp add: normalise_def components_slash walk_def)

lemma normalise_split:
  "CHR ''/'' \<notin> set c \<Longrightarrow> normalise cs (c @ CHR ''/'' # p) = normalise (walk cs c) p"
  "CHR ''/'' \<notin> set c \<Longrightarrow> normalise cs c = walk cs c"
  by (simp_all add: normalise_def components_split)

lemma abs_run_slash: "abs_run False (CHR ''/'' # p) buf i = abs_run True p buf i"
  by (simp add: abs_run.simps)


text \<open>A path that reaches the last case of the loop starts with an ordinary component, or is empty.\<close>

lemma ordinary_path:
  assumes "take 1 path \<noteq> ''/''" and "path \<noteq> ''.''" and "path \<noteq> ''./''" and "path \<noteq> ''..''" and "path \<noteq> ''../''"
    and "take 3 path \<noteq> ''../''" and "take 2 path \<noteq> ''./''" and "path \<noteq> []"
  obtains c where "CHR ''/'' \<notin> set c" "c \<noteq> []" "\<And>cs. walk cs c = cs @ [c]" "path = c"
  | c q where "CHR ''/'' \<notin> set c" "c \<noteq> []" "\<And>cs. walk cs c = cs @ [c]" "path = c @ CHR ''/'' # q"
proof -
  let ?c = "takeWhile (\<lambda>c. c \<noteq> CHR ''/'') path" and ?r = "dropWhile (\<lambda>c. c \<noteq> CHR ''/'') path"
  have path: "path = ?c @ ?r" by simp
  have noslash: "CHR ''/'' \<notin> set ?c" by (auto dest: set_takeWhileD)
  have c: "?c \<noteq> []" using assms(1,8) by (cases path) auto
  have r: "?r = [] \<or> (\<exists>q. ?r = CHR ''/'' # q)" using hd_dropWhile [of "\<lambda>c. c \<noteq> CHR ''/''" path] by (cases ?r) auto
  have "?c \<noteq> ''.''"
  proof
    assume c: "?c = ''.''"
    from r show False
    proof
      assume "?r = []"
      then have "path = ''.''" using path c by (metis append.right_neutral)
      then show False using assms(2) by simp
    next
      assume "\<exists>q. ?r = CHR ''/'' # q"
      then obtain q where "path = ''.'' @ CHR ''/'' # q" using path c by (metis append.assoc)
      then show False using assms(7) by simp
    qed
  qed
  moreover have "?c \<noteq> ''..''"
  proof
    assume c: "?c = ''..''"
    from r show False
    proof
      assume "?r = []"
      then have "path = ''..''" using path c by (metis append.right_neutral)
      then show False using assms(4) by simp
    next
      assume "\<exists>q. ?r = CHR ''/'' # q"
      then obtain q where "path = ''..'' @ CHR ''/'' # q" using path c by (metis append.assoc)
      then show False using assms(6) by simp
    qed
  qed
  ultimately have w: "\<And>cs. walk cs ?c = cs @ [?c]" using c by (simp add: walk_def)
  from r show thesis
  proof
    assume "?r = []"
    then have "path = ?c" using path by (metis append.right_neutral)
    then show thesis by (rule that(1) [OF noslash c w])
  next
    assume "\<exists>q. ?r = CHR ''/'' # q"
    then obtain q where q: "?r = CHR ''/'' # q" by blast
    have "path = ?c @ CHR ''/'' # q" using path unfolding q .
    then show thesis by (rule that(2) [OF noslash c w])
  qed
qed

definition walked :: "string list \<Rightarrow> string \<Rightarrow> string option \<Rightarrow> bool" where
  "walked cs path r \<longleftrightarrow> (\<exists>junk. r = Some (render_path (normalise cs path) @ NUL # junk))"

lemma walked_term:
  assumes "good_components cs" and "normalise cs path = cs" and "tail \<noteq> []"
  shows "walked cs path (path_term (render_path cs @ tail) (length (render_path cs)))"
  using path_term_render [OF assms(1)] assms(2,3) by (cases tail) (auto simp: walked_def)

lemma walked_parent_term:
  assumes "good_components cs" and "normalise cs path = butlast cs" and "CHR ''/'' \<notin> set tail" and "tail \<noteq> []"
  shows "walked cs path (parent (render_path cs @ tail) (length (render_path cs)) \<bind> path_term (render_path cs @ tail))"
proof -
  from parent_buffer [OF assms(1,3,4)] obtain x rest where b: "render_path cs @ tail = render_path (butlast cs) @ x # rest" by blast
  have "parent (render_path cs @ tail) (length (render_path cs)) \<bind> path_term (render_path cs @ tail)
      = path_term (render_path (butlast cs) @ x # rest) (length (render_path (butlast cs)))"
    unfolding parent_render [OF assms(1,3,4)] by (simp add: b)
  then show ?thesis
    using path_term_render [OF good_butlast [OF assms(1)], of x rest] assms(2) by (simp add: walked_def)
qed

text \<open>The ordinary component: its slash, its characters, and what follows.\<close>

lemma abs_run_ordinary:
  assumes "take 1 path \<noteq> ''/''" and "path \<noteq> ''.''" and "path \<noteq> ''./''" and "path \<noteq> ''..''" and "path \<noteq> ''../''"
    and "take 3 path \<noteq> ''../''" and "take 2 path \<noteq> ''./''" and "good_components cs" and "tail = y # t"
  shows "abs_run True path (render_path cs @ tail) (length (render_path cs)) =
    abs_run False path (slashed cs @ (if cs = [] then tail else t)) (length (slashed cs))"
proof (cases "cs = []")
  case True
  then show ?thesis using assms(1-7) by (simp add: abs_run.simps(1) render_path_def slashed_def)
next
  case False
  have "(render_path cs @ tail) ! (length (render_path cs) - 1) = last (render_path cs)" by (simp add: nth_append last_conv_nth)
  moreover have "1 < length (render_path cs)"
  proof -
    obtain ds c where "cs = ds @ [c]" using False by (cases cs rule: rev_cases) auto
    then show ?thesis using assms(8) by (auto simp: render_snoc good_snoc slashed_def)
  qed
  ultimately show ?thesis
    using False assms render_last [OF assms(8) False] arr_set_append [of "render_path cs" y t "CHR ''/''"]
    by (simp add: abs_run.simps(1) slashed_def)
qed

lemma abs_run_normalises:
  assumes "good_components cs" and "CHR ''/'' \<notin> set tail" and "NUL \<notin> set path" and "length path + 2 \<le> length tail"
  shows "walked cs path (abs_run True path (render_path cs @ tail) (length (render_path cs)))"
  using assms
proof (induction "length path" arbitrary: path cs tail rule: less_induct)
  case less
  have ne: "tail \<noteq> []" using less.prems(4) by auto
  have step: "walked cs path (abs_run True q (render_path ds @ u) (length (render_path ds)))"
    if "good_components ds" "CHR ''/'' \<notin> set u" "NUL \<notin> set q" "length q < length path" "length q + 2 \<le> length u"
      "normalise cs path = normalise ds q" for q ds u
    using less.hyps [OF that(4,1,2,3,5)] that(6) by (simp add: walked_def)
  consider (slash) p where "path = CHR ''/'' # p" | (dot) "path = ''.'' \<or> path = ''./''" | (dots) "path = ''..'' \<or> path = ''../''"
    | (up) q where "path = ''..'' @ CHR ''/'' # q" "path \<noteq> ''../''" | (here) q where "path = ''.'' @ CHR ''/'' # q" "path \<noteq> ''./''"
    | (other) "take 1 path \<noteq> ''/''" "path \<noteq> ''.''" "path \<noteq> ''./''" "path \<noteq> ''..''" "path \<noteq> ''../''" "take 3 path \<noteq> ''../''" "take 2 path \<noteq> ''./''"
  proof -
    have "\<exists>p. path = CHR ''/'' # p" if "take 1 path = ''/''" using that by (cases path) auto
    moreover have "\<exists>q. path = ''..'' @ CHR ''/'' # q" if "take 3 path = ''../''"
      using that append_take_drop_id [of 3 path] by (intro exI [of _ "drop 3 path"]) simp
    moreover have "\<exists>q. path = ''.'' @ CHR ''/'' # q" if "take 2 path = ''./''"
      using that append_take_drop_id [of 2 path] by (intro exI [of _ "drop 2 path"]) simp
    ultimately show thesis using that by blast
  qed
  then show ?case
  proof cases
    case slash
    then have "walked cs path (abs_run True p (render_path cs @ tail) (length (render_path cs)))"
      using less.prems by (intro step) auto
    then show ?thesis using slash by (simp add: abs_run.simps(1) abs_run_slash)
  next
    case dot
    have "normalise cs ''.'' = cs" "normalise cs ''./'' = cs"
      using normalise_split(2) [of "''.''" cs] normalise_split(1) [of "''.''" cs "[]"] normalise_split(2) [of "[]" cs]
      by (simp_all add: walk_def)
    with dot show ?thesis using walked_term [OF less.prems(1) _ ne, of path] by (auto simp: abs_run.simps(1))
  next
    case dots
    have "normalise cs ''..'' = butlast cs" "normalise cs ''../'' = butlast cs"
      using normalise_split(2) [of "''..''" cs] normalise_split(1) [of "''..''" cs "[]"] normalise_split(2) [of "[]" "butlast cs"]
      by (simp_all add: walk_def)
    with dots show ?thesis
      using walked_parent_term [OF less.prems(1) _ less.prems(2) ne, of path] by (auto simp: abs_run.simps(1))
  next
    case up
    from parent_buffer [OF less.prems(1,2) ne] obtain x rest where b: "render_path cs @ tail = render_path (butlast cs) @ x # rest"
      "CHR ''/'' \<notin> set rest" "length tail \<le> length rest + 1" by blast
    have "walked cs path (abs_run True q (render_path (butlast cs) @ NUL # rest) (length (render_path (butlast cs))))"
    proof (rule step)
      show "normalise cs path = normalise (butlast cs) q" using up(1) normalise_split(1) [of "''..''" cs q] by (simp add: walk_def)
    qed (use up less.prems b good_butlast in \<open>auto simp: NUL_def\<close>)
    moreover have "abs_run True path (render_path cs @ tail) (length (render_path cs)) =
        abs_run True q (render_path (butlast cs) @ NUL # rest) (length (render_path (butlast cs)))"
      using up parent_render [OF less.prems(1,2) ne] arr_set_append [of "render_path (butlast cs)" x rest NUL] b(1)
      by (simp add: abs_run.simps(1) abs_run_slash)
    ultimately show ?thesis by simp
  next
    case here
    have "walked cs path (abs_run True q (render_path cs @ tail) (length (render_path cs)))"
    proof (rule step)
      show "normalise cs path = normalise cs q" using here(1) normalise_split(1) [of "''.''" cs q] by (simp add: walk_def)
    qed (use here less.prems in auto)
    then show ?thesis using here by (simp add: abs_run.simps(1) abs_run_slash)
  next
    case other
    obtain y t where t: "tail = y # t" using ne by (cases tail) auto
    note ord = abs_run_ordinary [OF other less.prems(1) t]
    let ?u = "if cs = [] then tail else t"
    have u: "CHR ''/'' \<notin> set ?u" "length path + 1 \<le> length ?u" using less.prems(2,4) t by auto
    show ?thesis
    proof (cases "path = []")
      case True
      obtain z zs where "?u = z # zs" using u(2) by (cases ?u) auto
      moreover have "normalise cs [] = cs" using normalise_split(2) [of "[]" cs] by (simp add: walk_def)
      ultimately show ?thesis
        unfolding ord using True path_term_slashed [OF less.prems(1), of z zs] by (auto simp: abs_run.simps(2) walked_def)
    next
      case False
      from other False show ?thesis
      proof (cases rule: ordinary_path)
        case (1 c)
        have lc: "length c \<le> length ?u" using u(2) 1 by simp
        then obtain z zs where z: "drop (length c) ?u = z # zs" using u(2) 1 by (cases "drop (length c) ?u") auto
        have g: "good_components (cs @ [c])" using less.prems(1,3) 1 by (simp add: good_snoc)
        have "abs_run False path (slashed cs @ ?u) (length (slashed cs)) =
            path_term (render_path (cs @ [c]) @ z # zs) (length (render_path (cs @ [c])))"
          using copy_component [OF 1(1) lc, of "[]" "slashed cs"] z 1(4) by (simp add: render_snoc abs_run.simps(2))
        then show ?thesis
          unfolding ord using path_term_render [OF g, of z zs] 1 normalise_split(2) [OF 1(1), of cs] by (simp add: walked_def)
      next
        case (2 c q)
        have lc: "length c \<le> length ?u" using u(2) 2 by simp
        have g: "good_components (cs @ [c])" using less.prems(1,3) 2 by (simp add: good_snoc)
        have "abs_run False path (slashed cs @ ?u) (length (slashed cs)) =
            abs_run True q (render_path (cs @ [c]) @ drop (length c) ?u) (length (render_path (cs @ [c])))"
          using copy_component [OF 2(1) lc, of "CHR ''/'' # q" "slashed cs"] 2(4) by (simp add: render_snoc abs_run_slash)
        moreover have "walked cs path (abs_run True q (render_path (cs @ [c]) @ drop (length c) ?u) (length (render_path (cs @ [c]))))"
        proof (rule step [OF g])
          show "CHR ''/'' \<notin> set (drop (length c) ?u)" using u(1) by (meson in_set_dropD)
          show "normalise cs path = normalise (cs @ [c]) q" using 2 normalise_split(1) [OF 2(1), of cs q] by simp
        qed (use 2 less.prems(3) u(2) in auto)
        ultimately show ?thesis unfolding ord by simp
      qed
    qed
  qed
qed


lemma components_sub: "c \<in> set (components path) \<Longrightarrow> CHR ''/'' \<notin> set c \<and> set c \<subseteq> set path"
proof (induction path rule: components.induct)
  case (1 path)
  let ?d = "dropWhile (\<lambda>c. c \<noteq> CHR ''/'') path"
  consider "c = takeWhile (\<lambda>c. c \<noteq> CHR ''/'') path" | x p where "?d = x # p" "c \<in> set (components p)"
    using 1(2) unfolding components.simps [of path] by (cases ?d) auto
  then show ?case
  proof cases
    case 1
    then show ?thesis by (auto dest: set_takeWhileD)
  next
    case 2
    have "set p \<subseteq> set path" using 2(1) set_dropWhileD [of _ "\<lambda>c. c \<noteq> CHR ''/''" path] by fastforce
    then show ?thesis using 1(1) [OF 2] by blast
  qed
qed

lemma good_walk_all:
  "good_components cs \<Longrightarrow> (\<And>c. c \<in> set xs \<Longrightarrow> CHR ''/'' \<notin> set c \<and> NUL \<notin> set c) \<Longrightarrow> good_components (foldl walk cs xs)"
proof (induction xs arbitrary: cs)
  case (Cons x xs)
  then have "good_components (walk cs x)" by (auto simp: walk_def good_snoc good_butlast)
  then show ?case using Cons by simp
qed simp

lemma good_normalise: "good_components cs \<Longrightarrow> NUL \<notin> set path \<Longrightarrow> good_components (normalise cs path)"
  unfolding normalise_def using components_sub [of _ path] by (intro good_walk_all) blast+

lemma good_render: "good_components cs \<Longrightarrow> NUL \<notin> set (render_path cs)"
  by (auto simp: good_components_def render_path_def NUL_def)

lemma walked_holds:
  assumes "walked cs path r" and "good_components cs" and "NUL \<notin> set path"
  shows "\<exists>buf'. r = Some buf' \<and> holds_string buf' (render_path (normalise cs path))"
  using assms(1) good_render [OF good_normalise [OF assms(2,3)]] by (auto simp: walked_def holds_string_def)

lemma absolute_path_normal:
  assumes "good_components cs" and "pwd = render_path cs" and "NUL \<notin> set path" and "CHR ''/'' \<notin> set buf"
    and "length pwd + length path + 2 \<le> length buf"
  shows "\<exists>buf'. vfs_get_absolute_path pwd path buf = Some buf'
    \<and> holds_string buf' (render_path (normalise (if take 1 path = ''/'' then [] else cs) path))"
proof (cases path)
  case Nil
  have "normalise cs [] = cs" using normalise_split(2) [of "[]" cs] by (simp add: walk_def)
  moreover have "put_string buf pwd = Some (pwd @ NUL # drop (length pwd + 1) buf)" using assms(5) by (simp add: put_string_def)
  ultimately show ?thesis
    using Nil assms(2) good_render [OF assms(1)] by (simp add: vfs_get_absolute_path_def holds_string_def)
next
  case (Cons c p)
  show ?thesis
  proof (cases "c = CHR ''/''")
    case True
    obtain b bs where buf: "buf = b # bs" using assms(5) by (cases buf) auto
    have "1 \<le> length pwd" using assms(2) by (simp add: Suc_le_eq)
    then have "walked [] p (abs_run True p (render_path [] @ bs) (length (render_path [])))"
      using assms(3-5) Cons buf by (intro abs_run_normalises) (auto simp: good_components_def)
    moreover have "vfs_get_absolute_path pwd path buf = abs_run True p (render_path [] @ bs) (length (render_path []))"
      using Cons True buf by (simp add: vfs_get_absolute_path_def arr_set_def render_path_def)
    ultimately show ?thesis
      using walked_holds [of "[]" p] assms(3) Cons True by (simp add: good_components_def)
  next
    case False
    let ?t = "NUL # drop (length pwd + 1) buf"
    have "CHR ''/'' \<notin> set (drop (length pwd + 1) buf)" using assms(4) by (meson in_set_dropD)
    then have "walked cs path (abs_run True path (render_path cs @ ?t) (length (render_path cs)))"
      using assms by (intro abs_run_normalises) (auto simp: NUL_def)
    moreover have "vfs_get_absolute_path pwd path buf = abs_run True path (render_path cs @ ?t) (length (render_path cs))"
      using Cons False assms(2,5) by (simp add: vfs_get_absolute_path_def put_string_def)
    ultimately show ?thesis using walked_holds [OF _ assms(1,3)] Cons False by simp
  qed
qed

text \<open>
  C7. Absolute paths: for a working directory in normal form and a buffer whose previous contents hold
  no slash and which is long enough, \<open>vfs_get_absolute_path\<close> leaves in the buffer the normal form of
  the path: relative paths start at the working directory, empty components and single dots are
  skipped, a double dot drops the last component and stays at the root.
\<close>

theorem absolute_path_is_normal_form:
  assumes "good_components cs" and "pwd = render_path cs" and "NUL \<notin> set path" and "CHR ''/'' \<notin> set buf"
    and "length pwd + length path + 2 \<le> length buf"
  shows "\<exists>buf'. vfs_get_absolute_path pwd path buf = Some buf'
    \<and> holds_string buf' (render_path (normalise (if take 1 path = ''/'' then [] else cs) path))"
  by (rule absolute_path_normal [OF assms])

theorem absolute_path_is_normal_form_witness:
  "\<exists>buf'. vfs_get_absolute_path ''/home/me'' ''../you/./docs//'' (replicate 2048 NUL) = Some buf'
     \<and> holds_string buf' ''/home/you/docs''"
proof -
  have "render_path [''home'', ''me''] = ''/home/me''" by (simp add: render_path_def)
  moreover have "good_components [''home'', ''me'']" by (simp add: good_components_def NUL_def)
  moreover have "normalise [''home'', ''me''] ''../you/./docs//'' = [''home'', ''you'', ''docs'']"
    by (simp add: normalise_def components.simps walk_def)
  moreover have "render_path [''home'', ''you'', ''docs''] = ''/home/you/docs''" by (simp add: render_path_def)
  ultimately show ?thesis
    using absolute_path_is_normal_form [of "[''home'', ''me'']" "''/home/me''" "''../you/./docs//''" "replicate 2048 NUL"]
    by (simp add: NUL_def)
qed

text \<open>
  Uninitialised memory decides the result: the search for the parent starts at the byte behind the
  path built so far, which has not been written yet; if it happens to be a slash, the double dot is
  ignored.
\<close>

lemma absolute_path_reads_uninitialised:
  "\<exists>junk buf'. vfs_get_absolute_path ''/'' ''a/..'' junk = Some buf' \<and> length junk = 2048 \<and> holds_string buf' ''/a''
     \<and> render_path (normalise [] ''a/..'') = ''/''"
proof (intro exI conjI)
  let ?junk = "NUL # NUL # CHR ''/'' # replicate 2045 NUL"
  show "vfs_get_absolute_path ''/'' ''a/..'' ?junk = Some (''/a'' @ NUL # replicate 2045 NUL)"
    by (simp add: vfs_get_absolute_path_def put_string_def abs_run.simps parent_def back_to_slash.simps path_term_def arr_set_def)
  show "length ?junk = 2048" by simp
  show "holds_string (''/a'' @ NUL # replicate 2045 NUL) ''/a''" by (simp add: holds_string_def NUL_def)
  show "render_path (normalise [] ''a/..'') = ''/''" by (simp add: normalise_def components.simps walk_def render_path_def)
qed

subsection \<open>The longest mount point\<close>

lemma translate_loop_spec:
  assumes "translate_loop path ms i g n = (g', n')"
  shows "(g' = g \<and> n' = n \<and> (\<forall>m \<in> set ms. mount_matches path m \<longrightarrow> length m \<le> n))
    \<or> (\<exists>k<length ms. g' = int (i + k) \<and> n' = length (ms ! k) \<and> n < n' \<and> mount_matches path (ms ! k)
        \<and> (\<forall>m \<in> set ms. mount_matches path m \<longrightarrow> length m \<le> n')
        \<and> (\<forall>j<k. mount_matches path (ms ! j) \<longrightarrow> length (ms ! j) < n'))"
  using assms
proof (induction ms arbitrary: i g n)
  case (Cons m ms)
  show ?case
  proof (cases "mount_matches path m \<and> n < length m")
    case True
    from Cons.IH [of "i + 1" "int i" "length m"] Cons.prems True
    consider "g' = int i" "n' = length m" "\<forall>x \<in> set ms. mount_matches path x \<longrightarrow> length x \<le> length m"
      | k where "k < length ms" "g' = int (i + 1 + k)" "n' = length (ms ! k)" "length m < n'" "mount_matches path (ms ! k)"
        "\<forall>x \<in> set ms. mount_matches path x \<longrightarrow> length x \<le> n'" "\<forall>j<k. mount_matches path (ms ! j) \<longrightarrow> length (ms ! j) < n'"
      by auto
    then show ?thesis
    proof cases
      case 1
      then show ?thesis using True by (intro disjI2 exI [of _ 0]) auto
    next
      case 2
      then show ?thesis using True by (intro disjI2 exI [of _ "Suc k"]) (auto simp: less_Suc_eq_0_disj)
    qed
  next
    case False
    from Cons.IH [of "i + 1" g n] Cons.prems False
    consider "g' = g" "n' = n" "\<forall>x \<in> set ms. mount_matches path x \<longrightarrow> length x \<le> n"
      | k where "k < length ms" "g' = int (i + 1 + k)" "n' = length (ms ! k)" "n < n'" "mount_matches path (ms ! k)"
        "\<forall>x \<in> set ms. mount_matches path x \<longrightarrow> length x \<le> n'" "\<forall>j<k. mount_matches path (ms ! j) \<longrightarrow> length (ms ! j) < n'"
      by (auto split: if_splits)
    then show ?thesis
    proof cases
      case 1
      then show ?thesis using False by auto
    next
      case 2
      then show ?thesis using False by (intro disjI2 exI [of _ "Suc k"]) (auto simp: less_Suc_eq_0_disj)
    qed
  qed
qed simp

lemma translate_mnt_spec:
  "(case vfs_translate_mnt path mnts of (g, local) \<Rightarrow>
      if \<exists>m \<in> set mnts. m \<noteq> [] \<and> mount_matches path m
      then \<exists>k<length mnts. g = int k \<and> mount_matches path (mnts ! k) \<and> path = mnts ! k @ local
         \<and> (\<forall>m \<in> set mnts. mount_matches path m \<longrightarrow> length m \<le> length (mnts ! k))
         \<and> (\<forall>j<k. mount_matches path (mnts ! j) \<longrightarrow> length (mnts ! j) < length (mnts ! k))
      else g = -2 \<and> local = path)"
proof -
  obtain g n where t: "translate_loop path mnts 0 (-2) 0 = (g, n)" by (cases "translate_loop path mnts 0 (-2) 0")
  have split: "path = m @ drop (length m) path" if "mount_matches path m" for m
    using that append_take_drop_id [of "length m" path] by (simp add: mount_matches_def)
  from translate_loop_spec [OF t] show ?thesis
  proof
    assume a: "g = -2 \<and> n = 0 \<and> (\<forall>m \<in> set mnts. mount_matches path m \<longrightarrow> length m \<le> 0)"
    then have "\<not> (\<exists>m \<in> set mnts. m \<noteq> [] \<and> mount_matches path m)" by auto
    then show ?thesis using a t by (simp add: vfs_translate_mnt_def)
  next
    assume "\<exists>k<length mnts. g = int (0 + k) \<and> n = length (mnts ! k) \<and> 0 < n \<and> mount_matches path (mnts ! k)
        \<and> (\<forall>m \<in> set mnts. mount_matches path m \<longrightarrow> length m \<le> n)
        \<and> (\<forall>j<k. mount_matches path (mnts ! j) \<longrightarrow> length (mnts ! j) < n)"
    then obtain k where k: "k < length mnts" "g = int k" "n = length (mnts ! k)" "0 < n" "mount_matches path (mnts ! k)"
      "\<forall>m \<in> set mnts. mount_matches path m \<longrightarrow> length m \<le> n" "\<forall>j<k. mount_matches path (mnts ! j) \<longrightarrow> length (mnts ! j) < n" by auto
    then have "\<exists>m \<in> set mnts. m \<noteq> [] \<and> mount_matches path m" by (intro bexI [of _ "mnts ! k"]) auto
    then show ?thesis using k t split [OF k(5)] by (auto simp: vfs_translate_mnt_def)
  qed
qed

lemma translate_mnt_found:
  assumes "vfs_translate_mnt p ms = (g, local)" and "g \<noteq> -2"
  shows "\<exists>k<length ms. g = int k \<and> p = ms ! k @ local"
proof (cases "\<exists>m \<in> set ms. m \<noteq> [] \<and> mount_matches p m")
  case True
  then show ?thesis using translate_mnt_spec [where path = p and mnts = ms] assms(1) by auto
next
  case False
  then show ?thesis using translate_mnt_spec [where path = p and mnts = ms] assms by auto
qed



end
