(* ===== verification/Vfs.thy ===== *)
theory Vfs
  imports Paths Handles Devices
begin

text \<open>
  The virtual file system switch, \<open>kernel/src/vfs.c\<close>: file systems, mount points, the dispatch of
  path operations to the file system of the longest mount point, and the per-task handle tables.

  A file system is a record of operations on a state \<open>'w\<close> that all file systems and devices share;
  each can fault (\<open>None\<close>).  The operations named \<open>k...\<close> take kernel pointers; the system call
  entries without the \<open>k\<close> only add the base address of the calling task to their pointers before
  doing the same, so both are modelled by one operation on the string, buffer or task meant.  The local
  buffer \<open>absolute_path\<close> of the operations has the arbitrary contents \<open>stack\<close>.

  \<open>uread\<close> returns, besides its result, the bytes it stored and the value it leaves in the global
  flag \<open>read_stat\<close>; likewise \<open>uwrite\<close> and \<open>write_stat\<close>.
\<close>

record 'w filesystem_t =
  fs_name :: string
  fs_read :: "string \<Rightarrow> u64 \<Rightarrow> string \<Rightarrow> 'w \<Rightarrow> (int \<times> 'w) option"
  fs_write :: "string \<Rightarrow> u8 \<Rightarrow> u64 \<Rightarrow> string \<Rightarrow> 'w \<Rightarrow> (int \<times> 'w) option"
  fs_remove :: "string \<Rightarrow> string \<Rightarrow> 'w \<Rightarrow> (int \<times> 'w) option"
  fs_mkdir :: "string \<Rightarrow> u16 \<Rightarrow> string \<Rightarrow> 'w \<Rightarrow> (int \<times> 'w) option"
  fs_create :: "string \<Rightarrow> u16 \<Rightarrow> string \<Rightarrow> 'w \<Rightarrow> (int \<times> 'w) option"
  fs_get_metadata :: "string \<Rightarrow> vfs_metadata_t \<Rightarrow> int \<Rightarrow> string \<Rightarrow> 'w \<Rightarrow> ((int \<times> vfs_metadata_t) \<times> 'w) option"
  fs_list :: "string \<Rightarrow> vfs_metadata_t \<Rightarrow> nat \<Rightarrow> string \<Rightarrow> 'w \<Rightarrow> ((int \<times> vfs_metadata_t) \<times> 'w) option"
  fs_mount :: "string \<Rightarrow> 'w \<Rightarrow> (int \<times> 'w) option"
  fs_open :: "string \<Rightarrow> u32 \<Rightarrow> int \<Rightarrow> string \<Rightarrow> 'w \<Rightarrow> (int \<times> 'w) option"
  fs_close :: "int \<Rightarrow> 'w \<Rightarrow> (int \<times> 'w) option"
  fs_fork :: "int \<Rightarrow> 'w \<Rightarrow> (int \<times> 'w) option"
  fs_uread :: "int \<Rightarrow> int \<Rightarrow> 'w \<Rightarrow> ((int \<times> u8 list \<times> bool) \<times> 'w) option"
  fs_uwrite :: "int \<Rightarrow> u8 list \<Rightarrow> 'w \<Rightarrow> ((int \<times> bool) \<times> 'w) option"
  fs_seek :: "int \<Rightarrow> int \<Rightarrow> int \<Rightarrow> 'w \<Rightarrow> (int \<times> 'w) option"

record mountpoint_t =
  mp_mountpoint :: string
  mp_device :: string
  mp_filesystem :: string

record 'w vfs =
  filesystems :: "'w filesystem_t list"
  mountpoints :: "mountpoint_t list"
  vfs_devices :: "'w device_t list"
  current_pid :: nat
  pwd_of :: "nat \<Rightarrow> string"
  handles_of :: "nat \<Rightarrow> file_handle_v2_t list"
  vfs_read_stat :: bool
  vfs_write_stat :: bool
  stack :: string
  world :: 'w

abbreviation (input) FAILURE :: int where "FAILURE \<equiv> -2"
abbreviation (input) SUCCESS :: int where "SUCCESS \<equiv> 0"

subsection \<open>Resolving a path\<close>

definition vfs_translate_fs :: "nat \<Rightarrow> 'w vfs \<Rightarrow> nat option" where
  "vfs_translate_fs m s = first_index (\<lambda>f. fs_name f = mp_filesystem (mountpoints s ! m)) (filesystems s)"

text \<open>\<open>None\<close>: the mount point or its file system is missing, \<open>FAILURE\<close> in the code.\<close>

definition resolve_absolute :: "string \<Rightarrow> 'w vfs \<Rightarrow> (nat \<times> 'w filesystem_t \<times> string \<times> string) option" where
  "resolve_absolute path s =
     (case vfs_translate_mnt path (map mp_mountpoint (mountpoints s)) of
        (g, local) \<Rightarrow>
          if g = FAILURE then None
          else case vfs_translate_fs (nat g) s of
            None \<Rightarrow> None
          | Some i \<Rightarrow> Some (nat g, filesystems s ! i, local, mp_device (mountpoints s ! nat g)))"

definition absolute_path :: "string \<Rightarrow> 'w vfs \<Rightarrow> string option" where
  "absolute_path path s =
     map_option (takeWhile (\<lambda>c. c \<noteq> NUL)) (vfs_get_absolute_path (pwd_of s (current_pid s)) path (stack s))"

text \<open>The common body of the path operations: \<open>fail\<close> is what a missing file system returns.\<close>

definition with_fs ::
  "'r \<Rightarrow> string \<Rightarrow> ('w filesystem_t \<Rightarrow> string \<Rightarrow> string \<Rightarrow> 'w \<Rightarrow> ('r \<times> 'w) option) \<Rightarrow> 'w vfs \<Rightarrow> ('r \<times> 'w vfs) option" where
  "with_fs fail path f s = do {
     p \<leftarrow> absolute_path path s;
     (case resolve_absolute p s of
        None \<Rightarrow> Some (fail, s)
      | Some (m, fs, local, dev) \<Rightarrow> map_option (\<lambda>(r, w). (r, s\<lparr>world := w\<rparr>)) (f fs local dev (world s))) }"

definition direct_device :: "string \<Rightarrow> bool" where
  "direct_device path \<longleftrightarrow> take 4 path = '':://''"

definition device_io :: "string \<Rightarrow> u64 \<Rightarrow> int \<Rightarrow> u8 \<Rightarrow> 'w vfs \<Rightarrow> (int \<times> 'w vfs) option" where
  "device_io name loc type val s =
     (case find_device name (vfs_devices s) of
        None \<Rightarrow> Some (FAILURE, s)
      | Some i \<Rightarrow> (let d = vfs_devices s ! i in
          map_option (\<lambda>(r, w). (r, s\<lparr>world := w\<rparr>)) (dev_io d (gp_value d) loc type val (world s))))"

subsection \<open>Path operations\<close>

definition vfs_kread :: "string \<Rightarrow> u64 \<Rightarrow> 'w vfs \<Rightarrow> (int \<times> 'w vfs) option" where
  "vfs_kread path loc s =
     (if direct_device path then device_io (drop 4 path) loc 0 0 s
      else with_fs FAILURE path (\<lambda>fs local dev. fs_read fs local loc dev) s)"

definition vfs_kwrite :: "string \<Rightarrow> u64 \<Rightarrow> u8 \<Rightarrow> 'w vfs \<Rightarrow> (int \<times> 'w vfs) option" where
  "vfs_kwrite path loc val s =
     (if direct_device path then device_io (drop 4 path) loc 1 val s
      else with_fs FAILURE path (\<lambda>fs local dev. fs_write fs local val loc dev) s)"

definition vfs_kremove :: "string \<Rightarrow> 'w vfs \<Rightarrow> (int \<times> 'w vfs) option" where
  "vfs_kremove path s = with_fs FAILURE path (\<lambda>fs local dev. fs_remove fs local dev) s"

definition vfs_kget_metadata :: "string \<Rightarrow> vfs_metadata_t \<Rightarrow> int \<Rightarrow> 'w vfs \<Rightarrow> ((int \<times> vfs_metadata_t) \<times> 'w vfs) option" where
  "vfs_kget_metadata path metadata type s =
     with_fs (FAILURE, metadata) path (\<lambda>fs local dev. fs_get_metadata fs local metadata type dev) s"

definition vfs_list :: "string \<Rightarrow> vfs_metadata_t \<Rightarrow> nat \<Rightarrow> 'w vfs \<Rightarrow> ((int \<times> vfs_metadata_t) \<times> 'w vfs) option" where
  "vfs_list path metadata entry s =
     with_fs (FAILURE, metadata) path (\<lambda>fs local dev. fs_list fs local metadata entry dev) s"

text \<open>Directories and files are created only when the name is not in use.  The metadata of the test is dropped.\<close>

definition no_metadata :: vfs_metadata_t where
  "no_metadata = \<lparr>filename = [], filetype = 0, fsize = 0\<rparr>"

definition vfs_kmkdir :: "string \<Rightarrow> u16 \<Rightarrow> 'w vfs \<Rightarrow> (int \<times> 'w vfs) option" where
  "vfs_kmkdir path perms s = do {
     ((r, _), s) \<leftarrow> vfs_kget_metadata path no_metadata DIRECTORY_TYPE s;
     if r = SUCCESS then Some (FAILURE, s)
     else with_fs FAILURE path (\<lambda>fs local dev. fs_mkdir fs local perms dev) s }"

definition vfs_kcreate :: "string \<Rightarrow> u16 \<Rightarrow> 'w vfs \<Rightarrow> (int \<times> 'w vfs) option" where
  "vfs_kcreate path perms s = do {
     ((r, _), s) \<leftarrow> vfs_kget_metadata path no_metadata FILE_TYPE s;
     if r = SUCCESS then Some (FAILURE, s)
     else with_fs FAILURE path (\<lambda>fs local dev. fs_create fs local perms dev) s }"

definition vfs_cd :: "string \<Rightarrow> 'w vfs \<Rightarrow> (int \<times> 'w vfs) option" where
  "vfs_cd path s = do {
     p \<leftarrow> absolute_path path s;
     ((r, _), s) \<leftarrow> vfs_kget_metadata p no_metadata DIRECTORY_TYPE s;
     if r = FAILURE then Some (FAILURE, s)
     else Some (SUCCESS, s\<lparr>pwd_of := (pwd_of s)(current_pid s := p)\<rparr>) }"

subsection \<open>Handles\<close>

text \<open>\<open>vfs_open\<close> stores the handle in the table of the running task, \<open>vfs_kopen\<close> in that of the kernel.\<close>

definition open_for :: "nat \<Rightarrow> string \<Rightarrow> u32 \<Rightarrow> int \<Rightarrow> 'w vfs \<Rightarrow> (int \<times> 'w vfs) option" where
  "open_for pid path flags mode s = do {
     p \<leftarrow> (if direct_device path
           then if length path + 1 < length (stack s) then Some (''/dev/'' @ drop 4 path) else None
           else absolute_path path s);
     (case resolve_absolute p s of
        None \<Rightarrow> Some (-1, s)
      | Some (m, fs, local, dev) \<Rightarrow> do {
          (internal, w) \<leftarrow> fs_open fs local flags mode dev (world s);
          let s = s\<lparr>world := w\<rparr>;
          if internal = -1 then Some (-1, s)
          else
            let (n, hs) = create_file_handle_v2 (handles_of s pid)
                  \<lparr>f2_free = False, f2_mountpoint = int m, f2_internal_handle = internal\<rparr>
            in Some (int n, s\<lparr>handles_of := (handles_of s)(pid := hs)\<rparr>) }) }"

definition vfs_open :: "string \<Rightarrow> u32 \<Rightarrow> int \<Rightarrow> 'w vfs \<Rightarrow> (int \<times> 'w vfs) option" where
  "vfs_open path flags mode s = open_for (current_pid s) path flags mode s"

definition vfs_kopen :: "string \<Rightarrow> u32 \<Rightarrow> int \<Rightarrow> 'w vfs \<Rightarrow> (int \<times> 'w vfs) option" where
  "vfs_kopen path flags mode s = open_for 0 path flags mode s"

text \<open>
  The handle and its file system, looked up without any check: a handle outside the table, a bad mount
  point or a missing file system is an access outside an array.
\<close>

definition handle_fs :: "nat \<Rightarrow> int \<Rightarrow> 'w vfs \<Rightarrow> (file_handle_v2_t \<times> 'w filesystem_t) option" where
  "handle_fs pid handle s =
     (if 0 \<le> handle \<and> nat handle < length (handles_of s pid) then
        let h = handles_of s pid ! nat handle in
        if 0 \<le> f2_mountpoint h \<and> nat (f2_mountpoint h) < length (mountpoints s) then
          map_option (\<lambda>i. (h, filesystems s ! i)) (vfs_translate_fs (nat (f2_mountpoint h)) s)
        else None
      else None)"

definition uread_for :: "nat \<Rightarrow> int \<Rightarrow> int \<Rightarrow> 'w vfs \<Rightarrow> ((int \<times> u8 list) \<times> 'w vfs) option" where
  "uread_for pid handle n s = do {
     (h, fs) \<leftarrow> handle_fs pid handle s;
     ((r, bs, stat), w) \<leftarrow> fs_uread fs (f2_internal_handle h) n (world s);
     Some ((r, bs), s\<lparr>world := w, vfs_read_stat := stat\<rparr>) }"

definition vfs_kuread :: "int \<Rightarrow> int \<Rightarrow> 'w vfs \<Rightarrow> ((int \<times> u8 list) \<times> 'w vfs) option" where
  "vfs_kuread handle n s = uread_for 0 handle n s"

definition vfs_uread :: "int \<Rightarrow> int \<Rightarrow> 'w vfs \<Rightarrow> ((int \<times> u8 list) \<times> 'w vfs) option" where
  "vfs_uread handle n s =
     (if n \<le> MAX_SIMULTANOUS_VFS_ACCESS then uread_for (current_pid s) handle n s
      else do {
        (r, s) \<leftarrow> uread_for (current_pid s) handle MAX_SIMULTANOUS_VFS_ACCESS s;
        Some (r, s\<lparr>vfs_read_stat := True\<rparr>) })"

definition uwrite_for :: "nat \<Rightarrow> int \<Rightarrow> u8 list \<Rightarrow> 'w vfs \<Rightarrow> (int \<times> 'w vfs) option" where
  "uwrite_for pid handle bs s = do {
     (h, fs) \<leftarrow> handle_fs pid handle s;
     ((r, stat), w) \<leftarrow> fs_uwrite fs (f2_internal_handle h) bs (world s);
     Some (r, s\<lparr>world := w, vfs_write_stat := stat\<rparr>) }"

definition vfs_kuwrite :: "int \<Rightarrow> u8 list \<Rightarrow> 'w vfs \<Rightarrow> (int \<times> 'w vfs) option" where
  "vfs_kuwrite handle bs s = uwrite_for 0 handle bs s"

definition vfs_uwrite :: "int \<Rightarrow> u8 list \<Rightarrow> 'w vfs \<Rightarrow> (int \<times> 'w vfs) option" where
  "vfs_uwrite handle bs s =
     (if int (length bs) \<le> MAX_SIMULTANOUS_VFS_ACCESS then uwrite_for (current_pid s) handle bs s
      else do {
        (r, s) \<leftarrow> uwrite_for (current_pid s) handle (take (nat MAX_SIMULTANOUS_VFS_ACCESS) bs) s;
        Some (r, s\<lparr>vfs_write_stat := True\<rparr>) })"

definition seek_for :: "nat \<Rightarrow> int \<Rightarrow> int \<Rightarrow> int \<Rightarrow> 'w vfs \<Rightarrow> (int \<times> 'w vfs) option" where
  "seek_for pid handle offset type s = do {
     (h, fs) \<leftarrow> handle_fs pid handle s;
     (r, w) \<leftarrow> fs_seek fs (f2_internal_handle h) offset type (world s);
     Some (r, s\<lparr>world := w\<rparr>) }"

definition vfs_seek :: "int \<Rightarrow> int \<Rightarrow> int \<Rightarrow> 'w vfs \<Rightarrow> (int \<times> 'w vfs) option" where
  "vfs_seek handle offset type s = seek_for (current_pid s) handle offset type s"

definition vfs_kseek :: "int \<Rightarrow> int \<Rightarrow> int \<Rightarrow> 'w vfs \<Rightarrow> (int \<times> 'w vfs) option" where
  "vfs_kseek handle offset type s = seek_for 0 handle offset type s"

text \<open>\<open>vfs_kfork\<close> checks the file system it found, unlike the operations above.\<close>

definition vfs_kfork :: "int \<Rightarrow> 'w vfs \<Rightarrow> (int \<times> 'w vfs) option" where
  "vfs_kfork handle s =
     (if 0 \<le> handle \<and> nat handle < length (handles_of s 0) then
        let h = handles_of s 0 ! nat handle in
        if 0 \<le> f2_mountpoint h \<and> nat (f2_mountpoint h) < length (mountpoints s) then
          (case vfs_translate_fs (nat (f2_mountpoint h)) s of
             None \<Rightarrow> Some (FAILURE, s)
           | Some i \<Rightarrow> do {
               (internal, w) \<leftarrow> fs_fork (filesystems s ! i) (f2_internal_handle h) (world s);
               let s = s\<lparr>world := w\<rparr>;
               if internal = FAILURE then Some (FAILURE, s)
               else
                 let (n, hs) = create_file_handle_v2 (handles_of s 0)
                       \<lparr>f2_free = False, f2_mountpoint = f2_mountpoint h, f2_internal_handle = internal\<rparr>
                 in Some (int n, s\<lparr>handles_of := (handles_of s)(0 := hs)\<rparr>) })
        else None
      else None)"

text \<open>Closing calls the file system first and looks at the handle afterwards.\<close>

definition close_for :: "nat \<Rightarrow> int \<Rightarrow> 'w vfs \<Rightarrow> (int \<times> 'w vfs) option" where
  "close_for pid handle s = do {
     (h, fs) \<leftarrow> handle_fs pid handle s;
     (r, w) \<leftarrow> fs_close fs (f2_internal_handle h) (world s);
     let s = s\<lparr>world := w\<rparr>;
     if r = -1 then Some (-1, s)
     else if handle < 0 then Some (-1, s)
     else if nat handle \<ge> length (handles_of s pid) then Some (-1, s)
     else if f2_free (handles_of s pid ! nat handle) then Some (-1, s)
     else Some (0, s\<lparr>handles_of := (handles_of s)(pid := (handles_of s pid)[nat handle := h\<lparr>f2_free := True\<rparr>])\<rparr>) }"

definition vfs_close :: "int \<Rightarrow> 'w vfs \<Rightarrow> (int \<times> 'w vfs) option" where
  "vfs_close handle s = close_for (current_pid s) handle s"

definition vfs_kclose :: "int \<Rightarrow> 'w vfs \<Rightarrow> (int \<times> 'w vfs) option" where
  "vfs_kclose handle s = close_for 0 handle s"

subsection \<open>File systems and mounting\<close>

definition vfs_install_fs :: "'w filesystem_t \<Rightarrow> 'w vfs \<Rightarrow> 'w vfs option" where
  "vfs_install_fs fs s =
     (if length (fs_name fs) < 128 then Some (s\<lparr>filesystems := filesystems s @ [fs]\<rparr>) else None)"

text \<open>
  \<open>str\<close> gives the string at an address.  The file system is looked up and the device mounted with
  the pointers as passed, while the copies kept are read at the caller's base; a name that is not
  installed makes the code call through the entry behind the table.
\<close>

definition vfs_mount :: "(nat \<Rightarrow> string) \<Rightarrow> nat \<Rightarrow> nat \<Rightarrow> nat \<Rightarrow> nat \<Rightarrow> 'w vfs \<Rightarrow> (int \<times> 'w vfs) option" where
  "vfs_mount str base mountpoint device filesystem s =
     (case first_index (\<lambda>f. fs_name f = str filesystem) (filesystems s) of
        None \<Rightarrow> None
      | Some i \<Rightarrow> do {
          (r, w) \<leftarrow> fs_mount (filesystems s ! i) (str device) (world s);
          let s = s\<lparr>world := w\<rparr>;
          if r = FAILURE then Some (FAILURE, s)
          else if length (str (mountpoint + base)) < 2048 \<and> length (str (device + base)) < 2048
                  \<and> length (str (filesystem + base)) < 128
          then Some (SUCCESS, s\<lparr>mountpoints := mountpoints s @ [\<lparr>mp_mountpoint = str (mountpoint + base),
                 mp_device = str (device + base), mp_filesystem = str (filesystem + base)\<rparr>]\<rparr>)
          else None })"


subsection \<open>Opening a file\<close>

lemma holds_string_takeWhile: "holds_string buf s \<Longrightarrow> takeWhile (\<lambda>c. c \<noteq> NUL) buf = s"
  by (auto simp: holds_string_split takeWhile_append)


lemma resolve_absoluteD:
  assumes "resolve_absolute p s = Some (m, fs, local, dev)"
  shows "m < length (mountpoints s)" and "\<exists>i. vfs_translate_fs m s = Some i \<and> fs = filesystems s ! i"
    and "p = mp_mountpoint (mountpoints s ! m) @ local" and "dev = mp_device (mountpoints s ! m)"
proof -
  let ?ms = "map mp_mountpoint (mountpoints s)"
  obtain g l where g: "vfs_translate_mnt p ?ms = (g, l)" by (cases "vfs_translate_mnt p ?ms")
  have r: "resolve_absolute p s = (if g = FAILURE then None else case vfs_translate_fs (nat g) s of None \<Rightarrow> None
      | Some i \<Rightarrow> Some (nat g, filesystems s ! i, l, mp_device (mountpoints s ! nat g)))"
    by (simp add: resolve_absolute_def g)
  have ne: "g \<noteq> -2" using assms r by auto
  obtain i where i: "vfs_translate_fs (nat g) s = Some i" using assms r ne by (cases "vfs_translate_fs (nat g) s") auto
  have eq: "m = nat g" "fs = filesystems s ! i" "local = l" "dev = mp_device (mountpoints s ! nat g)"
    using assms r ne i by auto
  from translate_mnt_found [OF g ne] obtain k where k: "k < length ?ms" "g = int k" "p = ?ms ! k @ l" by blast
  from k i eq show "m < length (mountpoints s)" "\<exists>i. vfs_translate_fs m s = Some i \<and> fs = filesystems s ! i"
    "p = mp_mountpoint (mountpoints s ! m) @ local" "dev = mp_device (mountpoints s ! m)" by simp_all
qed

lemma open_binds_handle:
  assumes "\<not> direct_device path" and "absolute_path path s = Some p"
    and "resolve_absolute p s = Some (m, fs, local, dev)"
    and "fs_open fs local flags mode dev (world s) = Some (k, w)" and "k \<noteq> -1"
  shows "\<exists>n s'. vfs_open path flags mode s = Some (int n, s') \<and> world s' = w \<and> current_pid s' = current_pid s
    \<and> handle_fs (current_pid s) (int n) s' = Some (\<lparr>f2_free = False, f2_mountpoint = int m, f2_internal_handle = k\<rparr>, fs)
    \<and> \<not> live f2_free (handles_of s (current_pid s)) n \<and> (\<forall>j<n. live f2_free (handles_of s (current_pid s)) j)
    \<and> (\<forall>j. live f2_free (handles_of s (current_pid s)) j \<longrightarrow> handles_of s' (current_pid s) ! j = handles_of s (current_pid s) ! j)
    \<and> (\<forall>q. q \<noteq> current_pid s \<longrightarrow> handles_of s' q = handles_of s q)"
proof -
  let ?h = "\<lparr>f2_free = False, f2_mountpoint = int m, f2_internal_handle = k\<rparr>" and ?pid = "current_pid s"
  obtain n hs where c: "create_file_handle_v2 (handles_of s ?pid) ?h = (n, hs)"
    by (cases "create_file_handle_v2 (handles_of s ?pid) ?h")
  let ?s = "s\<lparr>world := w, handles_of := (handles_of s)(?pid := hs)\<rparr>"
  note spec = fh2.create_spec [OF c]
  note r = resolve_absoluteD [OF assms(3)]
  have "vfs_open path flags mode s = Some (int n, ?s)"
    using assms c by (simp add: vfs_open_def open_for_def)
  moreover have "handle_fs ?pid (int n) ?s = Some (?h, fs)"
    using spec r(1,2) by (auto simp: handle_fs_def vfs_translate_fs_def Let_def)
  ultimately show ?thesis using spec by (intro exI [of _ n] exI [of _ ?s]) auto
qed

text \<open>
  C22. Opening a file: when the path leads to a file system and that file system opens its local part,
  the caller gets the lowest handle it does not use; the handle refers to exactly that file system and
  internal handle, so every later operation on it is dispatched there; no other open handle, and no
  handle of another task, changes.
\<close>

theorem vfs_open_binds_handle:
  assumes "\<not> direct_device path" and "absolute_path path s = Some p"
    and "resolve_absolute p s = Some (m, fs, local, dev)"
    and "fs_open fs local flags mode dev (world s) = Some (k, w)" and "k \<noteq> -1"
  shows "\<exists>n s'. vfs_open path flags mode s = Some (int n, s') \<and> world s' = w
    \<and> handle_fs (current_pid s) (int n) s' = Some (\<lparr>f2_free = False, f2_mountpoint = int m, f2_internal_handle = k\<rparr>, fs)
    \<and> \<not> live f2_free (handles_of s (current_pid s)) n \<and> (\<forall>j<n. live f2_free (handles_of s (current_pid s)) j)
    \<and> (\<forall>j. live f2_free (handles_of s (current_pid s)) j \<longrightarrow> handles_of s' (current_pid s) ! j = handles_of s (current_pid s) ! j)
    \<and> (\<forall>q. q \<noteq> current_pid s \<longrightarrow> handles_of s' q = handles_of s q)"
  using open_binds_handle [OF assms] by blast

text \<open>A file system that opens every path as internal handle 5, for the witness.\<close>

definition demo_fs :: "unit filesystem_t" where
  "demo_fs = \<lparr>fs_name = ''demo'', fs_read = \<lambda>_ _ _ w. Some (0, w), fs_write = \<lambda>_ _ _ _ w. Some (0, w),
     fs_remove = \<lambda>_ _ w. Some (0, w), fs_mkdir = \<lambda>_ _ _ w. Some (0, w), fs_create = \<lambda>_ _ _ w. Some (0, w),
     fs_get_metadata = \<lambda>_ m _ _ w. Some ((-2, m), w), fs_list = \<lambda>_ m _ _ w. Some ((-2, m), w),
     fs_mount = \<lambda>_ w. Some (0, w), fs_open = \<lambda>_ _ _ _ w. Some (5, w), fs_close = \<lambda>_ w. Some (0, w),
     fs_fork = \<lambda>_ w. Some (0, w), fs_uread = \<lambda>_ _ w. Some ((0, [], False), w),
     fs_uwrite = \<lambda>_ _ w. Some ((0, False), w), fs_seek = \<lambda>_ _ _ w. Some (0, w)\<rparr>"

definition demo_vfs :: "unit vfs" where
  "demo_vfs = \<lparr>filesystems = [demo_fs], mountpoints = [\<lparr>mp_mountpoint = ''/'', mp_device = ''x'', mp_filesystem = ''demo''\<rparr>],
     vfs_devices = [], current_pid = 1, pwd_of = \<lambda>_. ''/'', handles_of = \<lambda>_. [], vfs_read_stat = False,
     vfs_write_stat = False, stack = replicate 2048 NUL, world = ()\<rparr>"

theorem vfs_open_binds_handle_witness:
  "\<exists>s'. vfs_open ''/a'' 2 0 demo_vfs = Some (0, s')
     \<and> handle_fs 1 0 s' = Some (\<lparr>f2_free = False, f2_mountpoint = 0, f2_internal_handle = 5\<rparr>, demo_fs)"
proof -
  have "normalise [] ''/a'' = [''a'']" by (simp add: normalise_def components.simps walk_def)
  then obtain buf where "vfs_get_absolute_path ''/'' ''/a'' (replicate 2048 NUL) = Some buf" "holds_string buf ''/a''"
    using absolute_path_normal [of "[]" "''/''" "''/a''" "replicate 2048 NUL"]
    by (auto simp: good_components_def render_path_def NUL_def)
  then have "absolute_path ''/a'' demo_vfs = Some ''/a''"
    by (simp add: absolute_path_def demo_vfs_def holds_string_takeWhile)
  moreover have "resolve_absolute ''/a'' demo_vfs = Some (0, demo_fs, ''a'', ''x'')"
    by (simp add: resolve_absolute_def vfs_translate_mnt_def mount_matches_def demo_vfs_def vfs_translate_fs_def demo_fs_def)
  ultimately obtain n s' where o: "vfs_open ''/a'' 2 0 demo_vfs = Some (int n, s')"
    "handle_fs (current_pid demo_vfs) (int n) s' = Some (\<lparr>f2_free = False, f2_mountpoint = 0, f2_internal_handle = 5\<rparr>, demo_fs)"
    "\<forall>j<n. live f2_free (handles_of demo_vfs (current_pid demo_vfs)) j"
    using vfs_open_binds_handle [of "''/a''" demo_vfs "''/a''" 0 demo_fs "''a''" "''x''" 2 0 5 "()"]
    by (fastforce simp: direct_device_def demo_fs_def)
  from o(3) have "n = 0" by (auto simp: live_def demo_vfs_def)
  with o show ?thesis by (auto simp: demo_vfs_def)
qed

end
