(* ===== verification/Echfs_Disk.thy ===== *)
theory Echfs_Disk
  imports Vfs Memory
begin

text \<open>
  The on-disk structures of the echidna file system, \<open>kernel/src/fs/echfs.c\<close>: numbers and strings
  on the device, directory entries, the search of the directory table and the resolution of paths.

  The code keeps the device and its geometry in global variables that every operation sets first; here
  they are arguments, the path \<open>dev\<close> of the device and the mount record \<open>m\<close>.  The device is
  reached through \<open>vfs_kread\<close> and \<open>vfs_kwrite\<close> of the virtual file system \<open>v\<close>.

  \<open>None\<close> is a fault or a loop that never ends; loops without a bound in the code are
  \<open>partial_function\<close>s.
\<close>

abbreviation (input) SEARCH_FAILURE :: u64 where "SEARCH_FAILURE \<equiv> 0xffffffffffffffff"
abbreviation (input) ROOT_ID :: u64 where "ROOT_ID \<equiv> 0xffffffffffffffff"
abbreviation (input) ENTRIES_PER_BLOCK :: u64 where "ENTRIES_PER_BLOCK \<equiv> 2"
abbreviation (input) FILENAME_LEN :: nat where "FILENAME_LEN \<equiv> 218"
abbreviation (input) RESERVED_BLOCKS :: u64 where "RESERVED_BLOCKS \<equiv> 16"
abbreviation (input) BYTES_PER_BLOCK :: nat where "BYTES_PER_BLOCK \<equiv> 32768"
abbreviation (input) DELETED_ENTRY :: u64 where "DELETED_ENTRY \<equiv> 0xfffffffffffffffe"
abbreviation (input) END_OF_CHAIN :: u64 where "END_OF_CHAIN \<equiv> 0xffffffffffffffff"

record mount_t =
  mnt_name :: string
  blocks :: u64
  fatsize :: u64
  fatstart :: u64
  dirsize :: u64
  dirstart :: u64
  datastart :: u64

record entry_t =
  parent_id :: u64
  etype :: u8
  ename :: string
  perms :: u8
  owner :: u16
  egroup :: u16
  hundreths :: u8
  seconds :: u8
  minutes :: u8
  hours :: u8
  day :: u8
  month :: u8
  year :: u16
  payload :: u64
  esize :: u64

record path_result_t =
  target_entry :: u64
  target :: entry_t
  pr_parent :: entry_t
  pr_name :: string
  failure :: bool
  not_found :: bool

definition empty_entry :: entry_t where
  "empty_entry = \<lparr>parent_id = 0, etype = 0, ename = [], perms = 0, owner = 0, egroup = 0, hundreths = 0,
     seconds = 0, minutes = 0, hours = 0, day = 0, month = 0, year = 0, payload = 0, esize = 0\<rparr>"

subsection \<open>Numbers and strings\<close>

definition rd_byte :: "string \<Rightarrow> u64 \<Rightarrow> 'w vfs \<Rightarrow> (u8 \<times> 'w vfs) option" where
  "rd_byte dev loc v = map_option (\<lambda>(r, v). (word_of_int r, v)) (vfs_kread dev loc v)"

definition wr_byte :: "string \<Rightarrow> u64 \<Rightarrow> u8 \<Rightarrow> 'w vfs \<Rightarrow> 'w vfs option" where
  "wr_byte dev loc x v = map_option snd (vfs_kwrite dev loc x v)"

text \<open>The loops of \<open>rd_word\<close>, \<open>rd_dword\<close>, \<open>rd_qword\<close>, in the width of the result, and of their writers.\<close>

fun rd_num :: "nat \<Rightarrow> nat \<Rightarrow> string \<Rightarrow> u64 \<Rightarrow> 'a::len word \<Rightarrow> 'w vfs \<Rightarrow> ('a word \<times> 'w vfs) option" where
  "rd_num 0 i dev loc x v = Some (x, v)"
| "rd_num (Suc n) i dev loc x v = do {
     (r, v) \<leftarrow> vfs_kread dev loc v;
     rd_num n (Suc i) dev (loc + 1) (x + word_of_int r * ucast (power_u64 0x100 (of_nat i))) v }"

fun wr_num :: "nat \<Rightarrow> nat \<Rightarrow> string \<Rightarrow> u64 \<Rightarrow> u64 \<Rightarrow> 'w vfs \<Rightarrow> 'w vfs option" where
  "wr_num 0 i dev loc x v = Some v"
| "wr_num (Suc n) i dev loc x v = do {
     (_, v) \<leftarrow> vfs_kwrite dev loc (ucast ((x div power_u64 0x100 (of_nat i)) AND 0xff)) v;
     wr_num n (Suc i) dev (loc + 1) x v }"

definition rd_word :: "string \<Rightarrow> u64 \<Rightarrow> 'w vfs \<Rightarrow> (u16 \<times> 'w vfs) option" where
  "rd_word dev loc v = rd_num 2 0 dev loc 0 v"

definition rd_dword :: "string \<Rightarrow> u64 \<Rightarrow> 'w vfs \<Rightarrow> (u32 \<times> 'w vfs) option" where
  "rd_dword dev loc v = rd_num 4 0 dev loc 0 v"

definition rd_qword :: "string \<Rightarrow> u64 \<Rightarrow> 'w vfs \<Rightarrow> (u64 \<times> 'w vfs) option" where
  "rd_qword dev loc v = rd_num 8 0 dev loc 0 v"

definition wr_word :: "string \<Rightarrow> u64 \<Rightarrow> u16 \<Rightarrow> 'w vfs \<Rightarrow> 'w vfs option" where
  "wr_word dev loc x v = wr_num 2 0 dev loc (ucast x) v"

definition wr_dword :: "string \<Rightarrow> u64 \<Rightarrow> u32 \<Rightarrow> 'w vfs \<Rightarrow> 'w vfs option" where
  "wr_dword dev loc x v = wr_num 4 0 dev loc (ucast x) v"

definition wr_qword :: "string \<Rightarrow> u64 \<Rightarrow> u64 \<Rightarrow> 'w vfs \<Rightarrow> 'w vfs option" where
  "wr_qword dev loc x v = wr_num 8 0 dev loc x v"

text \<open>\<open>space\<close> is what is left of the buffer the string is read into.\<close>

fun fstrcpy_in :: "nat \<Rightarrow> string \<Rightarrow> u64 \<Rightarrow> 'w vfs \<Rightarrow> (string \<times> 'w vfs) option" where
  "fstrcpy_in 0 dev loc v = None"
| "fstrcpy_in (Suc space) dev loc v = do {
     (c, v) \<leftarrow> rd_byte dev loc v;
     if c = 0 then Some ([], v)
     else do {
       (c, v) \<leftarrow> rd_byte dev loc v;
       (s, v) \<leftarrow> fstrcpy_in space dev (loc + 1) v;
       Some (char_of (unat c) # s, v) } }"

fun fstrcpy_out :: "string \<Rightarrow> u64 \<Rightarrow> string \<Rightarrow> 'w vfs \<Rightarrow> 'w vfs option" where
  "fstrcpy_out dev loc [] v = wr_byte dev loc 0 v"
| "fstrcpy_out dev loc (c # s) v = do { v \<leftarrow> wr_byte dev loc (of_char c) v; fstrcpy_out dev (loc + 1) s v }"

fun fstrncmp :: "string \<Rightarrow> u64 \<Rightarrow> string \<Rightarrow> 'w vfs \<Rightarrow> (bool \<times> 'w vfs) option" where
  "fstrncmp dev loc [] v = Some (True, v)"
| "fstrncmp dev loc (c # s) v = do {
     (x, v) \<leftarrow> rd_byte dev loc v;
     if x \<noteq> of_char c then Some (False, v) else fstrncmp dev (loc + 1) s v }"

subsection \<open>Directory entries\<close>

definition entry_loc :: "mount_t \<Rightarrow> u64 \<Rightarrow> u64" where
  "entry_loc m entry = dirstart m * 32768 + entry * 256"

definition rd_entry :: "string \<Rightarrow> mount_t \<Rightarrow> u64 \<Rightarrow> 'w vfs \<Rightarrow> (entry_t \<times> 'w vfs) option" where
  "rd_entry dev m entry v = (let loc = entry_loc m entry in do {
     (e_parent, v) \<leftarrow> rd_qword dev loc v;
     (e_type, v) \<leftarrow> rd_byte dev (loc + 8) v;
     (e_name, v) \<leftarrow> fstrcpy_in FILENAME_LEN dev (loc + 9) v;
     (e_perms, v) \<leftarrow> rd_byte dev (loc + 227) v;
     (e_owner, v) \<leftarrow> rd_word dev (loc + 228) v;
     (e_group, v) \<leftarrow> rd_word dev (loc + 230) v;
     (e_hun, v) \<leftarrow> rd_byte dev (loc + 232) v;
     (e_sec, v) \<leftarrow> rd_byte dev (loc + 233) v;
     (e_min, v) \<leftarrow> rd_byte dev (loc + 234) v;
     (e_hou, v) \<leftarrow> rd_byte dev (loc + 235) v;
     (e_day, v) \<leftarrow> rd_byte dev (loc + 236) v;
     (e_mon, v) \<leftarrow> rd_byte dev (loc + 237) v;
     (e_year, v) \<leftarrow> rd_word dev (loc + 238) v;
     (e_payload, v) \<leftarrow> rd_qword dev (loc + 240) v;
     (e_size, v) \<leftarrow> rd_qword dev (loc + 248) v;
     Some (\<lparr>parent_id = e_parent, etype = e_type, ename = e_name, perms = e_perms, owner = e_owner,
       egroup = e_group, hundreths = e_hun, seconds = e_sec, minutes = e_min, hours = e_hou, day = e_day,
       month = e_mon, year = e_year, payload = e_payload, esize = e_size\<rparr>, v) })"

definition wr_entry :: "string \<Rightarrow> mount_t \<Rightarrow> u64 \<Rightarrow> entry_t \<Rightarrow> 'w vfs \<Rightarrow> 'w vfs option" where
  "wr_entry dev m entry e v = (let loc = entry_loc m entry in do {
     v \<leftarrow> wr_qword dev loc (parent_id e) v;
     v \<leftarrow> wr_byte dev (loc + 8) (etype e) v;
     v \<leftarrow> fstrcpy_out dev (loc + 9) (ename e) v;
     v \<leftarrow> wr_byte dev (loc + 227) (perms e) v;
     v \<leftarrow> wr_word dev (loc + 228) (owner e) v;
     v \<leftarrow> wr_word dev (loc + 230) (egroup e) v;
     v \<leftarrow> wr_byte dev (loc + 232) (hundreths e) v;
     v \<leftarrow> wr_byte dev (loc + 233) (seconds e) v;
     v \<leftarrow> wr_byte dev (loc + 234) (minutes e) v;
     v \<leftarrow> wr_byte dev (loc + 235) (hours e) v;
     v \<leftarrow> wr_byte dev (loc + 236) (day e) v;
     v \<leftarrow> wr_byte dev (loc + 237) (month e) v;
     v \<leftarrow> wr_word dev (loc + 238) (year e) v;
     v \<leftarrow> wr_qword dev (loc + 240) (payload e) v;
     wr_qword dev (loc + 248) (esize e) v })"

subsection \<open>The directory table\<close>

text \<open>The search stops at a free entry, or past the table as its size is reckoned.\<close>

function search_from :: "nat \<Rightarrow> string \<Rightarrow> mount_t \<Rightarrow> string \<Rightarrow> u64 \<Rightarrow> u8 \<Rightarrow> 'w vfs \<Rightarrow> (u64 \<times> 'w vfs) option" where
  "search_from i dev m name par type v =
     (case rd_entry dev m (of_nat i) v of
        None \<Rightarrow> None
      | Some (entry, v) \<Rightarrow>
          if parent_id entry = 0 then Some (SEARCH_FAILURE, v)
          else if unat (dirsize m * ENTRIES_PER_BLOCK) \<le> i then Some (SEARCH_FAILURE, v)
          else if parent_id entry = par \<and> etype entry = type \<and> ename entry = name then Some (of_nat i, v)
          else search_from (Suc i) dev m name par type v)"
  by pat_completeness auto
termination
  by (relation "measure (\<lambda>(i, _, m, _). unat (dirsize m * 2) - i)") (simp, simp only: measure_def inv_image_def, simp)

declare search_from.simps [simp del]

definition search :: "string \<Rightarrow> mount_t \<Rightarrow> string \<Rightarrow> u64 \<Rightarrow> u8 \<Rightarrow> 'w vfs \<Rightarrow> (u64 \<times> 'w vfs) option" where
  "search dev m name par type v = search_from 0 dev m name par type v"

text \<open>The type of a directory is compared with \<open>DF_WRITE\<close>, which has the same value.\<close>

partial_function (option) free_id_from :: "u64 \<Rightarrow> u64 \<Rightarrow> string \<Rightarrow> mount_t \<Rightarrow> 'w vfs \<Rightarrow> (u64 \<times> 'w vfs) option" where
  "free_id_from i fid dev m v =
     (case rd_entry dev m i v of
        None \<Rightarrow> None
      | Some (entry, v) \<Rightarrow>
          if parent_id entry = 0 then Some (fid, v)
          else free_id_from (i + 1) (if etype entry = 1 \<and> payload entry = fid then payload entry + 1 else fid) dev m v)"

definition get_free_id :: "string \<Rightarrow> mount_t \<Rightarrow> 'w vfs \<Rightarrow> (u64 \<times> 'w vfs) option" where
  "get_free_id dev m v = free_id_from 0 1 dev m v"

text \<open>The loop \<open>find empty entry\<close> of \<open>echfs_mkdir\<close> and \<open>echfs_create\<close>.\<close>

partial_function (option) find_empty :: "u64 \<Rightarrow> string \<Rightarrow> mount_t \<Rightarrow> 'w vfs \<Rightarrow> (u64 \<times> 'w vfs) option" where
  "find_empty i dev m v =
     (case rd_entry dev m i v of
        None \<Rightarrow> None
      | Some (entry, v) \<Rightarrow>
          if parent_id entry = 0 \<or> parent_id entry = DELETED_ENTRY then Some (i, v)
          else find_empty (i + 1) dev m v)"

subsection \<open>Paths\<close>

lemma tl_dropWhile_less: "dropWhile P xs \<noteq> [] \<Longrightarrow> length (tl (dropWhile P xs)) < length xs"
  using length_dropWhile_le [of P xs] by (cases "dropWhile P xs") auto

text \<open>
  One component is copied to the array \<open>name\<close>; the search is repeated for each use of its result.
\<close>

function resolve_from :: "string \<Rightarrow> mount_t \<Rightarrow> u8 \<Rightarrow> string \<Rightarrow> entry_t \<Rightarrow> path_result_t \<Rightarrow> 'w vfs \<Rightarrow> (path_result_t \<times> 'w vfs) option" where
  "resolve_from dev m type path par result v =
     (let name = takeWhile (\<lambda>c. c \<noteq> CHR ''/'') path; rest = dropWhile (\<lambda>c. c \<noteq> CHR ''/'') path in
      if FILENAME_LEN \<le> length name then None
      else if rest \<noteq> [] then
        (case search dev m name (payload par) 1 v of
           None \<Rightarrow> None
         | Some (i, v) \<Rightarrow>
             if i = SEARCH_FAILURE then Some (result\<lparr>failure := True\<rparr>, v)
             else
               (case search dev m name (payload par) 1 v of
                  None \<Rightarrow> None
                | Some (i, v) \<Rightarrow>
                    (case rd_entry dev m i v of
                       None \<Rightarrow> None
                     | Some (par, v) \<Rightarrow> resolve_from dev m type (tl rest) par result v)))
      else do {
        (i, v) \<leftarrow> search dev m name (payload par) type v;
        (result, v) \<leftarrow>
          (if i = SEARCH_FAILURE then Some (result\<lparr>not_found := True\<rparr>, v)
           else do {
             (i, v) \<leftarrow> search dev m name (payload par) type v;
             (e, v) \<leftarrow> rd_entry dev m i v;
             (i, v) \<leftarrow> search dev m name (payload par) type v;
             Some (result\<lparr>target := e, target_entry := i\<rparr>, v) });
        Some (result\<lparr>pr_parent := par, pr_name := name\<rparr>, v) })"
  by pat_completeness auto
termination
  by (relation "measure (\<lambda>(_, _, _, path, _). length path)") (simp, simp only: in_measure split_conv, rule tl_dropWhile_less, assumption)

declare resolve_from.simps [simp del]

definition empty_result :: path_result_t where
  "empty_result = \<lparr>target_entry = 0, target = empty_entry, pr_parent = empty_entry, pr_name = [],
     failure = False, not_found = False\<rparr>"

definition path_resolver :: "string \<Rightarrow> mount_t \<Rightarrow> string \<Rightarrow> u8 \<Rightarrow> 'w vfs \<Rightarrow> (path_result_t \<times> 'w vfs) option" where
  "path_resolver dev m path type v =
     (if type = 1 \<and> path = ''/'' then Some (empty_result\<lparr>target := empty_entry\<lparr>payload := ROOT_ID\<rparr>\<rparr>, v)
      else if type = 0 \<and> path = ''/'' then Some (empty_result\<lparr>failure := True\<rparr>, v)
      else resolve_from dev m type (case path of c # p \<Rightarrow> if c = CHR ''/'' then p else path | [] \<Rightarrow> [])
             (empty_entry\<lparr>payload := ROOT_ID\<rparr>) empty_result v)"


subsection \<open>A device file as a disk\<close>

text \<open>The access to a file through the path operations of the virtual file system, as a device function.\<close>

definition path_io :: "string \<Rightarrow> 'w vfs io_wrapper" where
  "path_io dev unused loc type val v =
     (if type = DF_READ then vfs_kread dev loc v else if type = DF_WRITE then vfs_kwrite dev loc val v else None)"

text \<open>
  \<open>has v C\<close>: the disk is accessible and holds the bytes \<open>C\<close>.  \<open>yields r x C\<close>: an operation
  returned \<open>x\<close> and left the bytes \<open>C\<close> on the disk.
\<close>

lemma ucast_power: "i < 8 \<Longrightarrow> ucast (power_u64 0x100 (of_nat i)) = (of_nat (256 ^ i) :: 'a::len word)"
proof -
  assume i: "i < 8"
  have "(256 :: nat) ^ i \<le> 256 ^ 7" using i by (intro power_increasing) auto
  then have "take_bit 64 (256 ^ i :: nat) = 256 ^ i" by (simp add: take_bit_nat_eq_self)
  moreover have "power_u64 0x100 (of_nat i) = of_nat (256 ^ i)" using i by (simp add: power_u64_eq unat_of_nat)
  ultimately show ?thesis by (simp only: unsigned_of_nat) simp
qed

lemma unat_ucast16: "unat (ucast (x :: u16) :: u64) = unat x"
  using unsigned_less [of x, where 'a = nat] by (simp add: unsigned_ucast_eq take_bit_nat_eq_self)

lemma num_byte: "i < 8 \<Longrightarrow> ucast ((x div power_u64 0x100 (of_nat i)) AND 0xff) = (of_nat (unat x div 256 ^ i) :: u8)"
proof -
  assume i: "i < 8"
  have "(256 :: nat) ^ i \<le> 256 ^ 7" using i by (intro power_increasing) auto
  moreover have "power_u64 0x100 (of_nat i) = of_nat (256 ^ i)" using i by (simp add: power_u64_eq unat_of_nat)
  ultimately have "unat (power_u64 0x100 (of_nat i)) = 256 ^ i" by (simp only: unat_of_nat) simp
  then have u: "unat (x div power_u64 0x100 (of_nat i)) = unat x div 256 ^ i" by (simp add: unat_div)
  have "ucast (w AND mask 8) = (ucast w :: u8)" for w :: u64
    by (intro bit_word_eqI) (auto simp add: bit_and_iff bit_unsigned_iff bit_mask_iff)
  then have "ucast (w AND 0xff) = (ucast w :: u8)" for w :: u64 by (simp add: mask_eq_exp_minus_1)
  then show ?thesis by (simp flip: u)
qed

text \<open>The directory entry that the bytes of a disk describe, and that it is one.\<close>

definition name_len :: "(nat \<Rightarrow> u8) \<Rightarrow> nat \<Rightarrow> nat" where
  "name_len C a = length (takeWhile (\<lambda>i. C (a + 9 + i) \<noteq> 0) [0..<218])"

definition entry_fits :: "(nat \<Rightarrow> u8) \<Rightarrow> nat \<Rightarrow> nat \<Rightarrow> bool" where
  "entry_fits C limit a \<longleftrightarrow> a + 256 \<le> limit \<and> name_len C a < 218"

definition entry_at :: "(nat \<Rightarrow> u8) \<Rightarrow> nat \<Rightarrow> entry_t" where
  "entry_at C a = \<lparr>parent_id = of_nat (rd_le 8 C a), etype = C (a + 8),
     ename = map (\<lambda>i. char_of (unat (C (a + 9 + i)))) [0..<name_len C a], perms = C (a + 227),
     owner = of_nat (rd_le 2 C (a + 228)), egroup = of_nat (rd_le 2 C (a + 230)), hundreths = C (a + 232),
     seconds = C (a + 233), minutes = C (a + 234), hours = C (a + 235), day = C (a + 236), month = C (a + 237),
     year = of_nat (rd_le 2 C (a + 238)), payload = of_nat (rd_le 8 C (a + 240)), esize = of_nat (rd_le 8 C (a + 248))\<rparr>"

lemma name_len_nonzero: "j < name_len C a \<Longrightarrow> C (a + 9 + j) \<noteq> 0"
proof -
  assume j: "j < name_len C a"
  let ?P = "\<lambda>i. C (a + 9 + i) \<noteq> 0"
  have "name_len C a \<le> 218" using length_takeWhile_le [of ?P "[0..<218]"] by (simp add: name_len_def)
  then have "takeWhile ?P [0..<218] ! j = j" using j takeWhile_nth [of j ?P "[0..<218]"] by (simp add: name_len_def)
  then show ?thesis using nth_mem [of j "takeWhile ?P [0..<218]"] j set_takeWhileD [of j ?P "[0..<218]"]
    by (auto simp: name_len_def)
qed

lemma name_len_zero: "name_len C a < 218 \<Longrightarrow> C (a + 9 + name_len C a) = 0"
proof -
  assume l: "name_len C a < 218"
  let ?P = "\<lambda>i. C (a + 9 + i) \<noteq> 0"
  show ?thesis using nth_length_takeWhile [of ?P "[0..<218]"] l by (simp add: name_len_def)
qed

definition put_entry :: "entry_t \<Rightarrow> nat \<Rightarrow> (nat \<Rightarrow> u8) \<Rightarrow> nat \<Rightarrow> u8" where
  "put_entry e a C = (
     let C = wr_le 8 C a (unat (parent_id e)); C = C(a + 8 := etype e); C = put_bytes (map of_char (ename e) @ [0]) (a + 9) C;
         C = C(a + 227 := perms e); C = wr_le 2 C (a + 228) (unat (owner e)); C = wr_le 2 C (a + 230) (unat (egroup e));
         C = C(a + 232 := hundreths e); C = C(a + 233 := seconds e); C = C(a + 234 := minutes e); C = C(a + 235 := hours e);
         C = C(a + 236 := day e); C = C(a + 237 := month e); C = wr_le 2 C (a + 238) (unat (year e));
         C = wr_le 8 C (a + 240) (unat (payload e))
     in wr_le 8 C (a + 248) (unat (esize e)))"

lemma rd_le_upd: "b < a \<or> a + n \<le> b \<Longrightarrow> rd_le n (C(b := x)) a = rd_le n C a"
  by (rule rd_le_cong) auto

lemma put_entry_frame: "length (ename e) < 218 \<Longrightarrow> q < a \<or> a + 256 \<le> q \<Longrightarrow> put_entry e a C q = C q"
  by (auto simp: put_entry_def Let_def put_bytes_apply)

lemma put_entry_name:
  assumes "length (ename e) < 218" and "i < 218"
  shows "put_entry e a C (a + 9 + i) =
    (if i < length (ename e) then of_char (ename e ! i) else if i = length (ename e) then 0 else C (a + 9 + i))"
proof -
  have "put_entry e a C (a + 9 + i) = put_bytes (map of_char (ename e) @ [0]) (a + 9) C (a + 9 + i)"
    using assms by (simp add: put_entry_def Let_def put_bytes_apply)
  then show ?thesis using assms by (auto simp: put_bytes_apply nth_append)
qed

lemma name_lenI:
  assumes "n < 218" and "C (a + 9 + n) = 0" and "\<forall>i<n. C (a + 9 + i) \<noteq> 0"
  shows "name_len C a = n"
proof -
  have "[0..<218] = [0..<n] @ n # [Suc n..<218]"
    using assms(1) by (metis less_imp_le_nat upt_add_eq_append upt_conv_Cons zero_le add_0 le_add_diff_inverse)
  moreover have "takeWhile (\<lambda>i. C (a + 9 + i) \<noteq> 0) ([0..<n] @ n # [Suc n..<218]) = [0..<n]"
    using assms(2,3) by (subst takeWhile_append2) auto
  ultimately show ?thesis by (simp add: name_len_def)
qed

lemma put_entry_name_len:
  assumes "length (ename e) < 218" and "NUL \<notin> set (ename e)"
  shows "name_len (put_entry e a C) a = length (ename e)"
proof (rule name_lenI)
  show "\<forall>i<length (ename e). put_entry e a C (a + 9 + i) \<noteq> 0"
    using assms by (auto simp: put_entry_name dest!: nth_mem intro: of_char_nonzero) (metis of_char_nonzero)
qed (use assms in \<open>auto simp: put_entry_name\<close>)

lemma entry_at_put_entry:
  assumes "length (ename e) < 218" and "NUL \<notin> set (ename e)"
  shows "entry_at (put_entry e a C) a = e"
proof -
  let ?C = "put_entry e a C"
  have name: "map (\<lambda>i. char_of (unat (?C (a + 9 + i)))) [0..<name_len ?C a] = ename e"
    unfolding put_entry_name_len [OF assms]
    by (rule nth_equalityI) (use assms in \<open>auto simp: put_entry_name char_of_unat_of_char\<close>)
  note simps = put_entry_def Let_def rd_wr_le rd_wr_le_disjoint rd_le_upd rd_le_put_bytes put_bytes_apply
  have "rd_le 8 ?C a = unat (parent_id e) mod 256 ^ 8" "rd_le 2 ?C (a + 228) = unat (owner e) mod 256 ^ 2"
    "rd_le 2 ?C (a + 230) = unat (egroup e) mod 256 ^ 2" "rd_le 2 ?C (a + 238) = unat (year e) mod 256 ^ 2"
    "rd_le 8 ?C (a + 240) = unat (payload e) mod 256 ^ 8" "rd_le 8 ?C (a + 248) = unat (esize e) mod 256 ^ 8"
    using assms(1) by (simp_all add: simps)
  moreover have "?C (a + 8) = etype e" "?C (a + 227) = perms e" "?C (a + 232) = hundreths e" "?C (a + 233) = seconds e"
    "?C (a + 234) = minutes e" "?C (a + 235) = hours e" "?C (a + 236) = day e" "?C (a + 237) = month e"
    using assms(1) by (simp_all add: simps)
  ultimately show ?thesis unfolding entry_at_def name by (simp add: unat_mod_width)
qed

lemma entry_fits_put_entry:
  "length (ename e) < 218 \<Longrightarrow> NUL \<notin> set (ename e) \<Longrightarrow> a + 256 \<le> limit \<Longrightarrow> entry_fits (put_entry e a C) limit a"
  by (simp add: entry_fits_def put_entry_name_len)

lemma entry_at_cong:
  assumes "\<And>k. k < 256 \<Longrightarrow> C (a + k) = D (a + k)"
  shows "entry_at C a = entry_at D a" and "name_len C a = name_len D a"
proof -
  show n: "name_len C a = name_len D a"
    unfolding name_len_def by (intro arg_cong [where f = length] takeWhile_cong) (use assms [of "9 + _"] in \<open>auto simp: add.assoc\<close>)
  have "name_len D a \<le> 218" using length_takeWhile_le [of _ "[0..<218]"] by (simp add: name_len_def)
  then have "map (\<lambda>i. char_of (unat (C (a + 9 + i)))) [0..<name_len D a] = (map (\<lambda>i. char_of (unat (D (a + 9 + i)))) [0..<name_len D a] :: string)"
    using assms [of "9 + _"] by (auto simp: add.assoc)
  moreover have "k + n \<le> 256 \<Longrightarrow> rd_le n C (a + k) = rd_le n D (a + k)" for n k
    by (rule rd_le_cong) (use assms [of "k + _"] in \<open>auto simp: add.assoc\<close>)
  from this [of 0 8] this [of 228 2] this [of 230 2] this [of 238 2] this [of 240 8] this [of 248 8]
  have "rd_le 8 C a = rd_le 8 D a" "rd_le 2 C (a + 228) = rd_le 2 D (a + 228)" "rd_le 2 C (a + 230) = rd_le 2 D (a + 230)"
    "rd_le 2 C (a + 238) = rd_le 2 D (a + 238)" "rd_le 8 C (a + 240) = rd_le 8 D (a + 240)" "rd_le 8 C (a + 248) = rd_le 8 D (a + 248)"
    by simp_all
  ultimately show "entry_at C a = entry_at D a" unfolding entry_at_def n using assms by simp
qed

locale disk = byte_device "path_io dev" 0 ok content limit
  for dev :: string and ok :: "'w vfs \<Rightarrow> bool" and content :: "'w vfs \<Rightarrow> nat \<Rightarrow> u8" and limit :: nat +
  assumes limit_small: "ok v \<Longrightarrow> limit < 2 ^ 63"
begin

definition has :: "'w vfs \<Rightarrow> (nat \<Rightarrow> u8) \<Rightarrow> bool" where
  "has v C \<longleftrightarrow> ok v \<and> (\<forall>q<limit. content v q = C q)"

definition yields :: "('b \<times> 'w vfs) option \<Rightarrow> 'b \<Rightarrow> (nat \<Rightarrow> u8) \<Rightarrow> bool" where
  "yields r x C \<longleftrightarrow> (\<exists>v. r = Some (x, v) \<and> has v C)"

definition stores :: "'w vfs option \<Rightarrow> (nat \<Rightarrow> u8) \<Rightarrow> bool" where
  "stores r C \<longleftrightarrow> (\<exists>v. r = Some v \<and> has v C)"

lemma yields_bind:
  assumes "yields r x C" and "\<And>v. has v C \<Longrightarrow> yields (f x v) y C'"
  shows "yields (do { (x, v) \<leftarrow> r; f x v }) y C'"
  using assms by (auto simp: yields_def)

lemma stores_bind:
  assumes "stores r C" and "\<And>v. has v C \<Longrightarrow> stores (f v) C'"
  shows "stores (do { v \<leftarrow> r; f v }) C'"
  using assms by (auto simp: stores_def)

lemma yields_return: "has v C \<Longrightarrow> yields (Some (x, v)) x C"
  by (simp add: yields_def)

lemma yields_kread: "has v C \<Longrightarrow> unat loc < limit \<Longrightarrow> yields (vfs_kread dev loc v) (uint (C (unat loc))) C"
  using read_law [of v loc] by (fastforce simp: has_def yields_def path_io_def)

lemma yields_kwrite: "has v C \<Longrightarrow> unat loc < limit \<Longrightarrow> yields (vfs_kwrite dev loc x v) 0 (C(unat loc := x))"
  using write_law [of v loc x] by (fastforce simp: has_def yields_def path_io_def)

lemma yields_rd_byte: "has v C \<Longrightarrow> unat loc < limit \<Longrightarrow> yields (rd_byte dev loc v) (C (unat loc)) C"
  using yields_kread [of v C loc] by (auto simp: yields_def rd_byte_def)

lemma stores_wr_byte: "has v C \<Longrightarrow> unat loc < limit \<Longrightarrow> stores (wr_byte dev loc x v) (C(unat loc := x))"
  using yields_kwrite [of v C loc x] by (auto simp: yields_def stores_def wr_byte_def)

lemma unat_next:
  assumes "has v C" and "unat (loc :: u64) < limit"
  shows "unat (loc + 1) = Suc (unat loc)"
  using assms limit_small [of v] by (auto simp: has_def unat_word_ariths)

lemma yields_rd_num:
  "has v C \<Longrightarrow> unat loc + n \<le> limit \<Longrightarrow> i + n \<le> 8 \<Longrightarrow>
   yields (rd_num n i dev loc (x :: 'a::len word) v) (x + of_nat (256 ^ i * rd_le n C (unat loc))) C"
proof (induction n arbitrary: v loc i x)
  case 0
  then show ?case by (simp add: yields_return)
next
  case (Suc n)
  let ?x = "x + word_of_int (uint (C (unat loc))) * ucast (power_u64 0x100 (of_nat i))"
  have "yields (rd_num n (Suc i) dev (loc + 1) ?x v') (x + of_nat (256 ^ i * rd_le (Suc n) C (unat loc))) C" if "has v' C" for v'
  proof -
    have nx: "unat (loc + 1) = Suc (unat loc)" using unat_next [OF that] Suc.prems(2) by simp
    have "word_of_int (uint (C (unat loc))) = (of_nat (unat (C (unat loc))) :: 'a word)" by simp
    moreover have "ucast (power_u64 0x100 (of_nat i)) = (of_nat (256 ^ i) :: 'a word)"
      by (rule ucast_power) (use Suc.prems(3) in simp)
    ultimately have "?x + of_nat (256 ^ Suc i * rd_le n C (Suc (unat loc))) = x + of_nat (256 ^ i * rd_le (Suc n) C (unat loc))"
      by (simp add: algebra_simps)
    moreover have "yields (rd_num n (Suc i) dev (loc + 1) ?x v') (?x + of_nat (256 ^ Suc i * rd_le n C (unat (loc + 1)))) C"
      by (rule Suc.IH) (use that Suc.prems nx in auto)
    ultimately show ?thesis by (simp only: nx)
  qed
  moreover have "unat loc < limit" using Suc.prems(2) by simp
  ultimately show ?case
    unfolding rd_num.simps by (intro yields_bind [OF yields_kread [OF Suc.prems(1)]])
qed

lemma stores_wr_num:
  "has v C \<Longrightarrow> unat loc + n \<le> limit \<Longrightarrow> i + n \<le> 8 \<Longrightarrow>
   stores (wr_num n i dev loc x v) (wr_le n C (unat loc) (unat x div 256 ^ i))"
proof (induction n arbitrary: v C loc i)
  case 0
  then show ?case by (simp add: stores_def)
next
  case (Suc n)
  let ?b = "ucast ((x div power_u64 0x100 (of_nat i)) AND 0xff) :: u8"
  have b: "?b = of_nat (unat x div 256 ^ i)" using num_byte [of i x] Suc.prems(3) by simp
  have "stores (wr_num n (Suc i) dev (loc + 1) x v') (wr_le n (C(unat loc := ?b)) (Suc (unat loc)) (unat x div 256 ^ i div 256))"
    if "has v' (C(unat loc := ?b))" for v'
  proof -
    have nx: "unat (loc + 1) = Suc (unat loc)" using unat_next [OF that] Suc.prems(2) by simp
    have d: "unat x div 256 ^ i div 256 = unat x div 256 ^ Suc i" by (simp only: power_Suc2 div_mult2_eq)
    show ?thesis unfolding d nx [symmetric] by (rule Suc.IH [OF that]) (use nx Suc.prems in simp_all)
  qed
  with yields_kwrite [OF Suc.prems(1), of loc ?b] Suc.prems(2) b show ?case
    by (auto simp: yields_def stores_def)
qed


lemma yields_rd_qword: "has v C \<Longrightarrow> unat loc + 8 \<le> limit \<Longrightarrow> yields (rd_qword dev loc v) (of_nat (rd_le 8 C (unat loc))) C"
  using yields_rd_num [of v C loc 8 0 0] by (simp add: rd_qword_def del: rd_le.simps)

lemma yields_rd_word: "has v C \<Longrightarrow> unat loc + 2 \<le> limit \<Longrightarrow> yields (rd_word dev loc v) (of_nat (rd_le 2 C (unat loc))) C"
  using yields_rd_num [of v C loc 2 0 0] by (simp add: rd_word_def del: rd_le.simps)

lemma stores_wr_qword: "has v C \<Longrightarrow> unat loc + 8 \<le> limit \<Longrightarrow> stores (wr_qword dev loc x v) (wr_le 8 C (unat loc) (unat x))"
  using stores_wr_num [of v C loc 8 0 x] by (simp add: wr_qword_def del: wr_le.simps)

lemma stores_wr_word: "has v C \<Longrightarrow> unat loc + 2 \<le> limit \<Longrightarrow> stores (wr_word dev loc x v) (wr_le 2 C (unat loc) (unat x))"
  using stores_wr_num [of v C loc 2 0 "ucast x"] by (simp add: wr_word_def unat_ucast16 del: wr_le.simps)

lemma yields_fstrcpy_in:
  "has v C \<Longrightarrow> unat loc + n < limit \<Longrightarrow> n < space \<Longrightarrow> \<forall>i<n. C (unat loc + i) \<noteq> 0 \<Longrightarrow> C (unat loc + n) = 0 \<Longrightarrow>
   yields (fstrcpy_in space dev loc v) (map (\<lambda>i. char_of (unat (C (unat loc + i)))) [0..<n]) C"
proof (induction n arbitrary: v loc space)
  case 0
  then obtain sp where "space = Suc sp" by (cases space) auto
  with yields_rd_byte [OF 0(1), of loc] 0 show ?case by (auto simp: yields_def)
next
  case (Suc n)
  then obtain sp where sp: "space = Suc sp" by (cases space) auto
  have nz: "C (unat loc) \<noteq> 0" using Suc.prems(4) by (metis add_0_right zero_less_Suc)
  have lt: "unat loc < limit" using Suc.prems(2) by linarith
  let ?s = "map (\<lambda>i. char_of (unat (C (unat loc + i)))) [0..<Suc n] :: string"
  let ?t = "map (\<lambda>i. char_of (unat (C (Suc (unat loc) + i)))) [0..<n] :: string"
  have st: "?s = char_of (unat (C (unat loc))) # ?t"
    by (simp only: upt_conv_Cons [OF zero_less_Suc] list.map map_Suc_upt [symmetric] map_map o_def) simp
  have "yields (fstrcpy_in sp dev (loc + 1) v') ?t C" if "has v' C" for v'
  proof -
    have nx: "unat (loc + 1) = Suc (unat loc)" by (rule unat_next [OF that lt])
    show ?thesis unfolding nx [symmetric]
      by (rule Suc.IH [OF that]) (use nx sp Suc.prems in \<open>auto simp: add_Suc_right [symmetric] simp del: add_Suc_right\<close>)
  qed
  note tail = this
  from yields_rd_byte [OF Suc.prems(1) lt] obtain v1 where v1: "rd_byte dev loc v = Some (C (unat loc), v1)" "has v1 C" by (auto simp: yields_def)
  from yields_rd_byte [OF v1(2) lt] obtain v2 where v2: "rd_byte dev loc v1 = Some (C (unat loc), v2)" "has v2 C" by (auto simp: yields_def)
  from tail [OF v2(2)] obtain v3 where "fstrcpy_in sp dev (loc + 1) v2 = Some (?t, v3)" "has v3 C" by (auto simp: yields_def)
  then show ?case using v1 v2 nz sp st by (simp add: yields_def)
qed

text \<open>The bytes of a string with its terminator, stored at an address.\<close>

lemma stores_fstrcpy_out:
  "has v C \<Longrightarrow> unat loc + length s < limit \<Longrightarrow>
   stores (fstrcpy_out dev loc s v) (put_bytes (map of_char s @ [0]) (unat loc) C)"
proof (induction s arbitrary: v loc C)
  case Nil
  then show ?case using stores_wr_byte [of v C loc 0] by (simp add: fun_upd_def)
next
  case (Cons c s)
  have lt: "unat loc < limit" using Cons.prems(2) by simp
  have "stores (fstrcpy_out dev (loc + 1) s v') (put_bytes (map of_char (c # s) @ [0]) (unat loc) C)"
    if "has v' (C(unat loc := of_char c))" for v'
  proof -
    have nx: "unat (loc + 1) = Suc (unat loc)" by (rule unat_next [OF that lt])
    have "stores (fstrcpy_out dev (loc + 1) s v') (put_bytes (map of_char s @ [0]) (unat (loc + 1)) (C(unat loc := of_char c)))"
      by (rule Cons.IH [OF that]) (use nx Cons.prems in simp)
    then show ?thesis by (simp add: nx fun_upd_def)
  qed
  then show ?case unfolding fstrcpy_out.simps by (rule stores_bind [OF stores_wr_byte [OF Cons.prems(1) lt]])
qed


lemma entry_offset:
  assumes "has v C" and "unat (a :: u64) + 256 \<le> limit" and "k < 256"
  shows "unat (a + of_nat k) = unat a + k"
  using assms limit_small [of v] by (auto simp: has_def unat_word_ariths unat_of_nat)

lemma yields_rd_entry:
  assumes "has v C" and "entry_fits C limit (unat (entry_loc m i))"
  shows "yields (rd_entry dev m i v) (entry_at C (unat (entry_loc m i))) C"
proof -
  let ?a = "unat (entry_loc m i)"
  have lim: "?a + 256 \<le> limit" and len: "name_len C ?a < 218" "C (?a + 9 + name_len C ?a) = 0" "\<forall>j<name_len C ?a. C (?a + 9 + j) \<noteq> 0"
    using assms(2) name_len_zero name_len_nonzero by (auto simp: entry_fits_def)
  note off = entry_offset [OF assms(1) lim]
  have B: "has v' C \<Longrightarrow> k < 256 \<Longrightarrow> yields (rd_byte dev (entry_loc m i + of_nat k) v') (C (?a + k)) C" for v' k
    using yields_rd_byte [of v' C "entry_loc m i + of_nat k"] off [of k] lim by simp
  have W: "has v' C \<Longrightarrow> k < 254 \<Longrightarrow> yields (rd_word dev (entry_loc m i + of_nat k) v') (of_nat (rd_le 2 C (?a + k))) C" for v' k
    using yields_rd_word [of v' C "entry_loc m i + of_nat k"] off [of k] lim by (simp del: rd_le.simps)
  have Q: "has v' C \<Longrightarrow> k \<le> 248 \<Longrightarrow> yields (rd_qword dev (entry_loc m i + of_nat k) v') (of_nat (rd_le 8 C (?a + k))) C" for v' k
    using yields_rd_qword [of v' C "entry_loc m i + of_nat k"] off [of k] lim by (simp del: rd_le.simps)
  have N: "has v' C \<Longrightarrow> yields (fstrcpy_in FILENAME_LEN dev (entry_loc m i + 9) v')
      (map (\<lambda>j. char_of (unat (C (?a + 9 + j)))) [0..<name_len C ?a]) C" for v'
    using yields_fstrcpy_in [of v' C "entry_loc m i + 9" "name_len C ?a" 218] off [of 9] lim len by simp
  show ?thesis
    unfolding rd_entry_def Let_def entry_at_def
    by (rule yields_bind [OF Q [of _ 0, simplified, OF assms(1)]],
        rule yields_bind [OF B [of _ 8, simplified]], assumption, rule yields_bind [OF N], assumption,
        rule yields_bind [OF B [of _ 227, simplified]], assumption, rule yields_bind [OF W [of _ 228, simplified]], assumption,
        rule yields_bind [OF W [of _ 230, simplified]], assumption, rule yields_bind [OF B [of _ 232, simplified]], assumption,
        rule yields_bind [OF B [of _ 233, simplified]], assumption, rule yields_bind [OF B [of _ 234, simplified]], assumption,
        rule yields_bind [OF B [of _ 235, simplified]], assumption, rule yields_bind [OF B [of _ 236, simplified]], assumption,
        rule yields_bind [OF B [of _ 237, simplified]], assumption, rule yields_bind [OF W [of _ 238, simplified]], assumption,
        rule yields_bind [OF Q [of _ 240, simplified]], assumption, rule yields_bind [OF Q [of _ 248, simplified]], assumption,
        rule yields_return)
qed

lemma stores_wr_entry:
  assumes "has v C" and "unat (entry_loc m i) + 256 \<le> limit" and "length (ename e) < 218"
  shows "stores (wr_entry dev m i e v) (put_entry e (unat (entry_loc m i)) C)"
proof -
  let ?a = "unat (entry_loc m i)"
  note off = entry_offset [OF assms(1,2)] and lim = assms(2)
  have B: "has v' D \<Longrightarrow> k < 256 \<Longrightarrow> stores (wr_byte dev (entry_loc m i + of_nat k) x v') (D(?a + k := x))" for v' D k x
    using stores_wr_byte [of v' D "entry_loc m i + of_nat k"] off [of k] lim by simp
  have W: "has v' D \<Longrightarrow> k < 254 \<Longrightarrow> stores (wr_word dev (entry_loc m i + of_nat k) x v') (wr_le 2 D (?a + k) (unat x))" for v' D k x
    using stores_wr_word [of v' D "entry_loc m i + of_nat k"] off [of k] lim by (simp del: wr_le.simps)
  have Q: "has v' D \<Longrightarrow> k \<le> 248 \<Longrightarrow> stores (wr_qword dev (entry_loc m i + of_nat k) x v') (wr_le 8 D (?a + k) (unat x))" for v' D k x
    using stores_wr_qword [of v' D "entry_loc m i + of_nat k"] off [of k] lim by (simp del: wr_le.simps)
  have N: "has v' D \<Longrightarrow> stores (fstrcpy_out dev (entry_loc m i + 9) (ename e) v') (put_bytes (map of_char (ename e) @ [0]) (?a + 9) D)" for v' D
    using stores_fstrcpy_out [of v' D "entry_loc m i + 9" "ename e"] off [of 9] lim assms(3) by simp
  show ?thesis
    unfolding wr_entry_def Let_def put_entry_def
    by (rule stores_bind [OF Q [of _ _ 0, simplified, OF assms(1)]],
        rule stores_bind [OF B [of _ _ 8, simplified]], assumption, rule stores_bind [OF N], assumption,
        rule stores_bind [OF B [of _ _ 227, simplified]], assumption, rule stores_bind [OF W [of _ _ 228, simplified]], assumption,
        rule stores_bind [OF W [of _ _ 230, simplified]], assumption, rule stores_bind [OF B [of _ _ 232, simplified]], assumption,
        rule stores_bind [OF B [of _ _ 233, simplified]], assumption, rule stores_bind [OF B [of _ _ 234, simplified]], assumption,
        rule stores_bind [OF B [of _ _ 235, simplified]], assumption, rule stores_bind [OF B [of _ _ 236, simplified]], assumption,
        rule stores_bind [OF B [of _ _ 237, simplified]], assumption, rule stores_bind [OF W [of _ _ 238, simplified]], assumption,
        rule stores_bind [OF Q [of _ _ 240, simplified]], assumption, rule Q [of _ _ 248, simplified], assumption)
qed

end

subsection \<open>A device of the device list as a disk\<close>

definition on_disk :: "string \<Rightarrow> 'w device_t \<Rightarrow> ('w \<Rightarrow> bool) \<Rightarrow> ('w \<Rightarrow> nat \<Rightarrow> u8) \<Rightarrow> nat \<Rightarrow> 'w vfs \<Rightarrow> bool" where
  "on_disk name d okw cw limit v \<longleftrightarrow> byte_device (dev_io d) (gp_value d) okw cw limit \<and> limit < 2 ^ 63 \<and> okw (world v)
     \<and> (\<exists>i. find_device name (vfs_devices v) = Some i \<and> vfs_devices v ! i = d)"

lemma vfs_kread_device:
  "find_device name (vfs_devices v) = Some i \<Longrightarrow> vfs_devices v ! i = d \<Longrightarrow>
   vfs_kread ('':://'' @ name) loc v = map_option (\<lambda>(r, w). (r, v\<lparr>world := w\<rparr>)) (dev_io d (gp_value d) loc 0 0 (world v))"
  by (simp add: vfs_kread_def direct_device_def device_io_def)

lemma vfs_kwrite_device:
  "find_device name (vfs_devices v) = Some i \<Longrightarrow> vfs_devices v ! i = d \<Longrightarrow>
   vfs_kwrite ('':://'' @ name) loc x v = map_option (\<lambda>(r, w). (r, v\<lparr>world := w\<rparr>)) (dev_io d (gp_value d) loc 1 x (world v))"
  by (simp add: vfs_kwrite_def direct_device_def device_io_def)

interpretation ed: disk "'':://'' @ name" "on_disk name d okw cw limit" "\<lambda>v. cw (world v)" limit
  for name d okw cw limit
proof
  fix v :: "'a vfs" and p :: u64 and x :: u8
  assume ok: "on_disk name d okw cw limit v"
  then show "limit < 2 ^ 63" by (simp add: on_disk_def)
  from ok obtain i where i: "find_device name (vfs_devices v) = Some i" "vfs_devices v ! i = d" by (auto simp: on_disk_def)
  have dev: "byte_device (dev_io d) (gp_value d) okw cw limit" "okw (world v)" using ok by (auto simp: on_disk_def)
  have keep: "on_disk name d okw cw limit (v\<lparr>world := w\<rparr>)" if "okw w" for w using ok that by (auto simp: on_disk_def)
  assume p: "unat p < limit"
  show "\<exists>v'. path_io ('':://'' @ name) 0 p DF_READ x v = Some (uint (cw (world v) (unat p)), v') \<and> on_disk name d okw cw limit v'
      \<and> (\<forall>q<limit. cw (world v') q = cw (world v) q)"
    using byte_device.read_law [OF dev p, of 0] keep by (auto simp: path_io_def vfs_kread_device [OF i] simp del: append_Cons append_Nil)
  show "\<exists>v'. path_io ('':://'' @ name) 0 p DF_WRITE x v = Some (0, v') \<and> on_disk name d okw cw limit v'
      \<and> (\<forall>q<limit. cw (world v') q = (if q = unat p then x else cw (world v) q))"
    using byte_device.write_law [OF dev p, of x] keep by (auto simp: path_io_def vfs_kwrite_device [OF i] simp del: append_Cons append_Nil)
qed

end
