(* ===== verification/Echfs_Dir.thy ===== *)
theory Echfs_Dir
  imports Echfs_Disk
begin

text \<open>
  The directory operations of \<open>kernel/src/fs/echfs.c\<close>: mounting, listing, creating files and
  directories, metadata.  They see the disk only through \<open>rd_entry\<close>, \<open>wr_entry\<close> and the search of
  the directory table.

  The proofs view the disk as the list \<open>entries C m n\<close> of its first \<open>n\<close> directory entries; a
  reference search (\<open>lookup\<close>) and a reference walk (\<open>descend\<close>) on that list are what the code's
  searches compute.
\<close>

subsection \<open>Operations\<close>

text \<open>The loop of \<open>find_device\<close> has no bound: an unknown device runs off the table.\<close>

definition find_mount :: "string \<Rightarrow> mount_t list \<Rightarrow> (nat \<times> mount_t) option" where
  "find_mount dev ms = map_option (\<lambda>i. (i, ms ! i)) (first_index (\<lambda>m. mnt_name m = dev) ms)"

partial_function (option) list_from ::
  "u32 \<Rightarrow> u32 \<Rightarrow> u32 \<Rightarrow> u64 \<Rightarrow> string \<Rightarrow> mount_t \<Rightarrow> 'w vfs \<Rightarrow> (entry_t option \<times> 'w vfs) option" where
  "list_from i ii n pid dev m v =
     (case rd_entry dev m (ucast ii) v of
        None \<Rightarrow> None
      | Some (e, v) \<Rightarrow>
          if ename e = ''.'' \<or> ename e = ''..'' then list_from i (ii + 1) n pid dev m v
          else if parent_id e = pid \<and> i = n then Some (Some e, v)
          else if parent_id e = pid then list_from (i + 1) (ii + 1) n pid dev m v
          else if parent_id e = 0 then Some (None, v)
          else list_from i (ii + 1) n pid dev m v)"

definition echfs_list ::
  "mount_t list \<Rightarrow> string \<Rightarrow> vfs_metadata_t \<Rightarrow> nat \<Rightarrow> string \<Rightarrow> 'w vfs \<Rightarrow> ((int \<times> vfs_metadata_t) \<times> 'w vfs) option" where
  "echfs_list ms path metadata entry dev v = do {
     (_, m) \<leftarrow> find_mount dev ms;
     (pid, v) \<leftarrow> (if path = [] then Some (Some ROOT_ID, v)
       else do {
         (r, v) \<leftarrow> path_resolver dev m path 1 v;
         Some (if not_found r then None else Some (payload (target r)), v) });
     (case pid of
        None \<Rightarrow> Some ((-2, metadata), v)
      | Some pid \<Rightarrow> do {
          (e, v) \<leftarrow> list_from 0 0 (of_nat entry) pid dev m v;
          (case e of
             None \<Rightarrow> Some ((-2, metadata), v)
           | Some e \<Rightarrow> Some ((0, metadata\<lparr>filename := ename e, filetype := uint (etype e)\<rparr>), v)) }) }"

definition echfs_mkdir :: "mount_t list \<Rightarrow> string \<Rightarrow> u16 \<Rightarrow> string \<Rightarrow> 'w vfs \<Rightarrow> (int \<times> 'w vfs) option" where
  "echfs_mkdir ms path prm dev v = do {
     (_, m) \<leftarrow> find_mount dev ms;
     (r, v) \<leftarrow> path_resolver dev m path 1 v;
     (i, v) \<leftarrow> find_empty 0 dev m v;
     (fid, v) \<leftarrow> get_free_id dev m v;
     v \<leftarrow> wr_entry dev m i (empty_entry\<lparr>parent_id := payload (pr_parent r), etype := 1, ename := pr_name r, payload := fid\<rparr>) v;
     Some (0, v) }"

definition echfs_create :: "mount_t list \<Rightarrow> string \<Rightarrow> u16 \<Rightarrow> string \<Rightarrow> 'w vfs \<Rightarrow> (int \<times> 'w vfs) option" where
  "echfs_create ms path prm dev v = do {
     (_, m) \<leftarrow> find_mount dev ms;
     (r, v) \<leftarrow> path_resolver dev m path 0 v;
     if failure r then Some (-2, v)
     else do {
       (i, v) \<leftarrow> find_empty 0 dev m v;
       v \<leftarrow> wr_entry dev m i (empty_entry\<lparr>parent_id := payload (pr_parent r), etype := 0, ename := pr_name r,
              esize := 0, payload := END_OF_CHAIN\<rparr>) v;
       Some (0, v) } }"

definition echfs_get_metadata ::
  "mount_t list \<Rightarrow> string \<Rightarrow> vfs_metadata_t \<Rightarrow> int \<Rightarrow> string \<Rightarrow> 'w vfs \<Rightarrow> ((int \<times> vfs_metadata_t) \<times> 'w vfs) option" where
  "echfs_get_metadata ms path metadata type dev v = do {
     (_, m) \<leftarrow> find_mount dev ms;
     if (path = ''/'' \<or> path = []) \<and> type = DIRECTORY_TYPE
     then Some ((0, metadata\<lparr>filetype := type, fsize := 0, filename := ''/''\<rparr>), v)
     else do {
       (r, v) \<leftarrow> path_resolver dev m path (word_of_int type) v;
       if failure r then Some ((-2, metadata), v)
       else if not_found r then Some ((-2, metadata), v)
       else Some ((0, metadata\<lparr>filetype := type, fsize := esize (target r), filename := ename (target r)\<rparr>), v) } }"

definition echfs_mount :: "string \<Rightarrow> mount_t list \<Rightarrow> 'w vfs \<Rightarrow> (int \<times> mount_t list \<times> 'w vfs) option" where
  "echfs_mount dev ms v = do {
     (sig, v) \<leftarrow> fstrncmp dev 4 ''_ECH_FS_'' v;
     if \<not> sig then Some (-2, ms, v)
     else if 128 \<le> length dev then None
     else do {
       (b, v) \<leftarrow> rd_qword dev 12 v;
       (ds, v) \<leftarrow> rd_qword dev 20 v;
       let fs = b * 8 div 32768 + (if b * 8 mod 32768 \<noteq> 0 then 1 else 0);
       Some (0, ms @ [\<lparr>mnt_name = dev, blocks = b, fatsize = fs, fatstart = RESERVED_BLOCKS, dirsize = ds,
              dirstart = RESERVED_BLOCKS + fs, datastart = RESERVED_BLOCKS + fs + ds\<rparr>], v) } }"

subsection \<open>The directory as a list\<close>

definition slot :: "mount_t \<Rightarrow> nat \<Rightarrow> nat" where
  "slot m i = unat (dirstart m) * 32768 + i * 256"

definition dir :: "(nat \<Rightarrow> u8) \<Rightarrow> mount_t \<Rightarrow> nat \<Rightarrow> entry_t" where
  "dir C m i = entry_at C (slot m i)"

definition entries :: "(nat \<Rightarrow> u8) \<Rightarrow> mount_t \<Rightarrow> nat \<Rightarrow> entry_t list" where
  "entries C m n = map (dir C m) [0..<n]"

text \<open>A directory table of \<open>n\<close> entries, closed by a free entry.\<close>

definition dir_ok :: "(nat \<Rightarrow> u8) \<Rightarrow> nat \<Rightarrow> mount_t \<Rightarrow> nat \<Rightarrow> bool" where
  "dir_ok C limit m n \<longleftrightarrow> slot m n + 256 \<le> limit \<and> (\<forall>i\<le>n. name_len C (slot m i) < 218)
     \<and> (\<forall>i<n. parent_id (dir C m i) \<noteq> 0) \<and> parent_id (dir C m n) = 0"

definition lookup :: "string \<Rightarrow> u64 \<Rightarrow> u8 \<Rightarrow> entry_t list \<Rightarrow> nat option" where
  "lookup name par type es = first_index (\<lambda>e. parent_id e = par \<and> etype e = type \<and> ename e = name) es"

definition searched :: "(nat \<Rightarrow> u8) \<Rightarrow> mount_t \<Rightarrow> nat \<Rightarrow> entry_t list" where
  "searched C m n = entries C m (min n (unat (dirsize m * ENTRIES_PER_BLOCK)))"

fun descend :: "entry_t list \<Rightarrow> entry_t \<Rightarrow> string list \<Rightarrow> entry_t option" where
  "descend es p [] = Some p"
| "descend es p (c # cs) = (case lookup c (payload p) 1 es of None \<Rightarrow> None | Some i \<Rightarrow> descend es (es ! i) cs)"

definition root_entry :: entry_t where
  "root_entry = empty_entry\<lparr>payload := ROOT_ID\<rparr>"

definition resolved :: "entry_t list \<Rightarrow> u8 \<Rightarrow> string list \<Rightarrow> string \<Rightarrow> path_result_t" where
  "resolved es type dirs name =
     (case descend es root_entry dirs of
        None \<Rightarrow> empty_result\<lparr>failure := True\<rparr>
      | Some p \<Rightarrow>
          (case lookup name (payload p) type es of
             None \<Rightarrow> empty_result\<lparr>not_found := True\<rparr>
           | Some i \<Rightarrow> empty_result\<lparr>target := es ! i, target_entry := of_nat i\<rparr>)\<lparr>pr_parent := p, pr_name := name\<rparr>)"

definition good_name :: "string \<Rightarrow> bool" where
  "good_name c \<longleftrightarrow> c \<noteq> [] \<and> CHR ''/'' \<notin> set c \<and> NUL \<notin> set c \<and> length c < 218"

definition path_text :: "string list \<Rightarrow> string \<Rightarrow> string" where
  "path_text dirs name = concat (map (\<lambda>d. d @ ''/'') dirs) @ name"

text \<open>The entry \<open>echfs_create\<close> writes for a file in the directory \<open>p\<close>.\<close>

definition new_file :: "entry_t \<Rightarrow> string \<Rightarrow> entry_t" where
  "new_file p name = empty_entry\<lparr>parent_id := payload p, ename := name, payload := END_OF_CHAIN\<rparr>"

text \<open>The entry \<open>echfs_mkdir\<close> writes, whether or not its path could be resolved.\<close>

definition new_dir :: "path_result_t \<Rightarrow> u64 \<Rightarrow> entry_t" where
  "new_dir r fid = empty_entry\<lparr>parent_id := payload (pr_parent r), etype := 1, ename := pr_name r, payload := fid\<rparr>"

definition free_entry :: "entry_t \<Rightarrow> bool" where
  "free_entry e \<longleftrightarrow> parent_id e = 0 \<or> parent_id e = DELETED_ENTRY"

definition next_id :: "u64 \<Rightarrow> entry_t \<Rightarrow> u64" where
  "next_id fid e = (if etype e = 1 \<and> payload e = fid then payload e + 1 else fid)"

lemma new_file_eq:
  "empty_entry\<lparr>parent_id := payload p, etype := 0, ename := name, esize := 0, payload := END_OF_CHAIN\<rparr> = new_file p name"
  by (simp add: new_file_def empty_entry_def)

lemma good_name_hd: "good_name c \<Longrightarrow> c \<noteq> [] \<and> hd (c @ s) \<noteq> CHR ''/''"
  by (auto simp: good_name_def hd_append) (metis hd_in_set)

lemma slot_mono: "i \<le> j \<Longrightarrow> slot m i \<le> slot m j"
  by (simp add: slot_def)

lemma slot_less: "i < j \<Longrightarrow> slot m i + 256 \<le> slot m j"
  by (simp add: slot_def)

lemma entries_nth: "i < n \<Longrightarrow> entries C m n ! i = dir C m i"
  by (simp add: entries_def)

lemma length_entries [simp]: "length (entries C m n) = n"
  by (simp add: entries_def)

lemma searched_nth: "i < length (searched C m n) \<Longrightarrow> searched C m n ! i = dir C m i"
  by (simp add: searched_def entries_nth)

lemma length_searched: "length (searched C m n) = min n (unat (dirsize m * 2))"
  by (simp add: searched_def)

lemma lookup_less: "lookup name par type es = Some i \<Longrightarrow> i < length es"
  by (simp add: lookup_def first_index_less)

context disk
begin

lemma unat_entry_loc:
  assumes "has v C" and "slot m i + 256 \<le> limit"
  shows "unat (entry_loc m (of_nat i)) = slot m i"
proof -
  have lim: "unat (dirstart m) * 32768 + i * 256 < 2 ^ 63" using assms limit_small [of v] by (auto simp: has_def slot_def)
  then have i: "unat (of_nat i :: u64) = i" by (simp add: unat_of_nat)
  have a: "unat (dirstart m * 32768) = unat (dirstart m) * 32768" and b: "unat ((of_nat i :: u64) * 256) = i * 256"
    using lim i by (simp_all add: unat_word_ariths)
  show ?thesis using lim a b by (simp add: entry_loc_def slot_def unat_word_ariths)
qed

lemma of_nat_index:
  assumes "has v C" and "slot m i \<le> limit"
  shows "unat (of_nat i :: u64) = i" and "(of_nat i :: u64) \<noteq> SEARCH_FAILURE"
proof -
  have "i < 2 ^ 63" using assms limit_small [of v] by (auto simp: has_def slot_def)
  then show u: "unat (of_nat i :: u64) = i" by (simp add: unat_of_nat)
  then show "(of_nat i :: u64) \<noteq> SEARCH_FAILURE" using \<open>i < 2 ^ 63\<close> by auto
qed

lemma yields_rd_dir:
  assumes "has v C" and "dir_ok C limit m n" and "i \<le> n"
  shows "yields (rd_entry dev m (of_nat i) v) (dir C m i) C"
proof -
  have fit: "slot m i + 256 \<le> limit" using assms(2) slot_mono [OF assms(3), of m] by (auto simp: dir_ok_def)
  show ?thesis using yields_rd_entry [OF assms(1), of m "of_nat i"] unat_entry_loc [OF assms(1) fit] fit assms(2,3)
    by (simp add: entry_fits_def dir_ok_def dir_def)
qed

lemma yields_case:
  assumes "yields r x C" and "\<And>v. has v C \<Longrightarrow> yields (f x v) y D"
  shows "yields (case r of None \<Rightarrow> None | Some (x, v) \<Rightarrow> f x v) y D"
  using assms by (auto simp: yields_def)

lemma yields_search_from:
  assumes "has v C" and "dir_ok C limit m n" and "i \<le> n"
  shows "yields (search_from i dev m name par type v)
    (case first_index (\<lambda>e. parent_id e = par \<and> etype e = type \<and> ename e = name) (map (dir C m) [i..<min n (unat (dirsize m * 2))]) of
       None \<Rightarrow> SEARCH_FAILURE | Some j \<Rightarrow> of_nat (i + j)) C"
  using assms(1,3)
proof (induction "n - i" arbitrary: i v)
  case 0
  then have "i = n" by simp
  moreover have "parent_id (dir C m n) = 0" using assms(2) by (simp add: dir_ok_def)
  ultimately show ?case
    unfolding search_from.simps [of i] by (intro yields_case [OF yields_rd_dir [OF 0(2) assms(2) 0(3)]]) (simp add: yields_return)
next
  case (Suc k)
  then have i: "i < n" by simp
  let ?D = "unat (dirsize m * 2)" and ?P = "\<lambda>e. parent_id e = par \<and> etype e = type \<and> ename e = name"
  have nz: "parent_id (dir C m i) \<noteq> 0" using assms(2) i by (simp add: dir_ok_def)
  have IH: "has v C \<Longrightarrow> yields (search_from (Suc i) dev m name par type v)
      (case first_index ?P (map (dir C m) [Suc i..<min n ?D]) of None \<Rightarrow> SEARCH_FAILURE | Some j \<Rightarrow> of_nat (Suc i + j)) C" for v
    using Suc.hyps(1) [of "Suc i" v] Suc.hyps(2) i by simp
  have list: "[i..<min n ?D] = (if ?D \<le> i then [] else i # [Suc i..<min n ?D])" using i by (simp add: upt_conv_Cons)
  show ?case
    unfolding search_from.simps [of i] list
    by (rule yields_case [OF yields_rd_dir [OF Suc.prems(1) assms(2) Suc.prems(2)]])
      (use nz IH in \<open>auto simp: yields_return add.left_commute split: option.splits\<close>)
qed

lemma yields_search:
  assumes "has v C" and "dir_ok C limit m n"
  shows "yields (search dev m name par type v)
    (case lookup name par type (searched C m n) of None \<Rightarrow> SEARCH_FAILURE | Some i \<Rightarrow> of_nat i) C"
  using yields_search_from [OF assms, of 0 name par type] by (simp add: search_def lookup_def searched_def entries_def cong: option.case_cong)

lemma yields_find_empty:
  assumes "has v C" and "dir_ok C limit m n" and "i \<le> n" and "\<forall>k. i \<le> k \<and> k < j \<longrightarrow> \<not> free_entry (dir C m k)"
    and "i \<le> j" and "j \<le> n" and "free_entry (dir C m j)"
  shows "yields (find_empty (of_nat i) dev m v) (of_nat j) C"
  using assms(1,3-5)
proof (induction "j - i" arbitrary: i v)
  case 0
  then have "i = j" by simp
  then show ?case
    unfolding find_empty.simps [of "of_nat i"]
    by (intro yields_case [OF yields_rd_dir [OF 0(2) assms(2) 0(3)]])
      (use assms(7) in \<open>auto simp: free_entry_def yields_return\<close>)
next
  case (Suc k)
  then have nf: "\<not> free_entry (dir C m i)" and lt: "i < j" by simp_all
  have "yields (find_empty (of_nat (Suc i)) dev m v) (of_nat j) C" if "has v C" for v
    using Suc.hyps(1) [of "Suc i" v] Suc.hyps(2) that lt Suc.prems assms(6) by simp
  then show ?case
    unfolding find_empty.simps [of "of_nat i"]
    by (intro yields_case [OF yields_rd_dir [OF Suc.prems(1) assms(2) Suc.prems(2)]])
      (use nf in \<open>auto simp: free_entry_def yields_return add.commute\<close>)
qed

lemma yields_free_id_from:
  assumes "has v C" and "dir_ok C limit m n" and "i \<le> n"
  shows "yields (free_id_from (of_nat i) fid dev m v) (foldl next_id fid (map (dir C m) [i..<n])) C"
  using assms(1,3)
proof (induction "n - i" arbitrary: i fid v)
  case 0
  then show ?case
    unfolding free_id_from.simps [of "of_nat i"]
    by (intro yields_case [OF yields_rd_dir [OF 0(2) assms(2) 0(3)]])
      (use assms(2) in \<open>auto simp: dir_ok_def yields_return\<close>)
next
  case (Suc k)
  then have lt: "i < n" by simp
  have "yields (free_id_from (of_nat (Suc i)) f dev m v) (foldl next_id f (map (dir C m) [Suc i..<n])) C" if "has v C" for f v
    using Suc.hyps(1) [of "Suc i" v f] Suc.hyps(2) that lt by simp
  moreover have "map (dir C m) [i..<n] = dir C m i # map (dir C m) [Suc i..<n]" using lt by (simp add: upt_conv_Cons)
  ultimately show ?case
    unfolding free_id_from.simps [of "of_nat i"]
    by (intro yields_case [OF yields_rd_dir [OF Suc.prems(1) assms(2) Suc.prems(2)]])
      (use assms(2) lt in \<open>auto simp: dir_ok_def yields_return add.commute next_id_def\<close>)
qed

lemma yields_get_free_id:
  assumes "has v C" and "dir_ok C limit m n"
  shows "yields (get_free_id dev m v) (foldl next_id 1 (entries C m n)) C"
  using yields_free_id_from [OF assms, of 0 1] by (simp add: get_free_id_def entries_def)

text \<open>A found entry is an entry of the table, and its number is not the failure value.\<close>

lemma found_entry:
  assumes "has v C" and "dir_ok C limit m n" and "lookup name par type (searched C m n) = Some i"
  shows "i \<le> n" and "(of_nat i :: u64) \<noteq> SEARCH_FAILURE" and "searched C m n ! i = dir C m i"
proof -
  have i: "i < min n (unat (dirsize m * 2))" using lookup_less [OF assms(3)] by (simp add: length_searched)
  then show le: "i \<le> n" by simp
  have "slot m i \<le> limit" using assms(2) slot_mono [OF le, of m] by (simp add: dir_ok_def)
  from of_nat_index [OF assms(1) this] show "(of_nat i :: u64) \<noteq> SEARCH_FAILURE" by simp
  show "searched C m n ! i = dir C m i" using lookup_less [OF assms(3)] by (rule searched_nth)
qed

lemma yields_resolve_from:
  assumes "has v C" and "dir_ok C limit m n"
    and "\<forall>c \<in> set (dirs @ [name]). CHR ''/'' \<notin> set c \<and> length c < 218"
  shows "yields (resolve_from dev m type (concat (map (\<lambda>d. d @ ''/'') dirs) @ name) p empty_result v)
    (case descend (searched C m n) p dirs of
       None \<Rightarrow> empty_result\<lparr>failure := True\<rparr>
     | Some p \<Rightarrow>
         (case lookup name (payload p) type (searched C m n) of
            None \<Rightarrow> empty_result\<lparr>not_found := True\<rparr>
          | Some i \<Rightarrow> empty_result\<lparr>target := searched C m n ! i, target_entry := of_nat i\<rparr>)\<lparr>pr_parent := p, pr_name := name\<rparr>) C"
  using assms(1,3)
proof (induction dirs arbitrary: p v)
  case Nil
  have split: "takeWhile (\<lambda>c. c \<noteq> CHR ''/'') name = name" "dropWhile (\<lambda>c. c \<noteq> CHR ''/'') name = []"
    using Nil.prems(2) by (auto intro!: takeWhile_eq_all_conv [THEN iffD2])
  have len: "\<not> 218 \<le> length name" using Nil.prems(2) by simp
  let ?l = "lookup name (payload p) type (searched C m n)"
  have S: "has v C \<Longrightarrow> yields (search dev m name (payload p) type v) (case ?l of None \<Rightarrow> SEARCH_FAILURE | Some i \<Rightarrow> of_nat i) C" for v
    by (rule yields_search [OF _ assms(2)])
  show ?case
  proof (cases ?l)
    case None
    then show ?thesis
      using S [OF Nil.prems(1)] len by (auto simp: resolve_from.simps [of _ _ _ name] split Let_def yields_def)
  next
    case (Some i)
    note f = found_entry [OF Nil.prems(1) assms(2) Some]
    have S': "has v C \<Longrightarrow> yields (search dev m name (payload p) type v) (of_nat i) C" for v using S [of v] Some by simp
    have R: "has v C \<Longrightarrow> yields (rd_entry dev m (of_nat i) v) (searched C m n ! i) C" for v
      using yields_rd_dir [OF _ assms(2) f(1)] f(3) by simp
    from S' [OF Nil.prems(1)] obtain v1 where v1: "search dev m name (payload p) type v = Some (of_nat i, v1)" "has v1 C" by (auto simp: yields_def)
    from S' [OF v1(2)] obtain v2 where v2: "search dev m name (payload p) type v1 = Some (of_nat i, v2)" "has v2 C" by (auto simp: yields_def)
    from R [OF v2(2)] obtain v3 where v3: "rd_entry dev m (of_nat i) v2 = Some (searched C m n ! i, v3)" "has v3 C" by (auto simp: yields_def)
    from S' [OF v3(2)] obtain v4 where v4: "search dev m name (payload p) type v3 = Some (of_nat i, v4)" "has v4 C" by (auto simp: yields_def)
    show ?thesis
      using v1(1) v2(1) v3(1) v4 f(2) Some len by (simp add: resolve_from.simps [of _ _ _ name] split Let_def yields_def)
  qed
next
  case (Cons d dirs)
  let ?path = "concat (map (\<lambda>d. d @ ''/'') (d # dirs)) @ name" and ?rest = "concat (map (\<lambda>d. d @ ''/'') dirs) @ name"
  have split: "takeWhile (\<lambda>c. c \<noteq> CHR ''/'') ?path = d" "dropWhile (\<lambda>c. c \<noteq> CHR ''/'') ?path = CHR ''/'' # ?rest"
    using Cons.prems(2) by (auto simp: takeWhile_append takeWhile_eq_all_conv dropWhile_append)
  have len: "\<not> 218 \<le> length d" using Cons.prems(2) by simp
  let ?l = "lookup d (payload p) 1 (searched C m n)"
  have S: "has v C \<Longrightarrow> yields (search dev m d (payload p) 1 v) (case ?l of None \<Rightarrow> SEARCH_FAILURE | Some i \<Rightarrow> of_nat i) C" for v
    by (rule yields_search [OF _ assms(2)])
  show ?case
  proof (cases ?l)
    case None
    then show ?thesis
      using S [OF Cons.prems(1)] len by (auto simp: resolve_from.simps [of _ _ _ ?path] split Let_def yields_def simp del: concat.simps list.map append_assoc)
  next
    case (Some i)
    note f = found_entry [OF Cons.prems(1) assms(2) Some]
    have S': "has v C \<Longrightarrow> yields (search dev m d (payload p) 1 v) (of_nat i) C" for v using S [of v] Some by simp
    from S' [OF Cons.prems(1)] obtain v1 where v1: "search dev m d (payload p) 1 v = Some (of_nat i, v1)" "has v1 C" by (auto simp: yields_def)
    from S' [OF v1(2)] obtain v2 where v2: "search dev m d (payload p) 1 v1 = Some (of_nat i, v2)" "has v2 C" by (auto simp: yields_def)
    from yields_rd_dir [OF v2(2) assms(2) f(1)] f(3) obtain v3
      where v3: "rd_entry dev m (of_nat i) v2 = Some (searched C m n ! i, v3)" "has v3 C" by (auto simp: yields_def)
    have "resolve_from dev m type ?path p empty_result v = resolve_from dev m type ?rest (searched C m n ! i) empty_result v3"
      using v1(1) v2(1) v3(1) f(2) len
      by (simp add: resolve_from.simps [of _ _ _ ?path] split Let_def del: concat.simps list.map append_assoc)
    then show ?thesis using Cons.IH [OF v3(2), of "searched C m n ! i"] Cons.prems(2) Some by simp
  qed
qed

lemma yields_path_resolver:
  assumes "has v C" and "dir_ok C limit m n" and "\<forall>c \<in> set (dirs @ [name]). good_name c"
    and "path = path_text dirs name \<or> path = CHR ''/'' # path_text dirs name"
  shows "yields (path_resolver dev m path type v) (resolved (searched C m n) type dirs name) C"
proof -
  let ?t = "path_text dirs name"
  have t: "?t \<noteq> []" "hd ?t \<noteq> CHR ''/''"
    using assms(3) good_name_hd by (cases dirs; simp add: path_text_def)+
  then obtain c t' where ct: "?t = c # t'" "c \<noteq> CHR ''/''" by (cases ?t) auto
  have "path_resolver dev m path type v = resolve_from dev m type ?t root_entry empty_result v"
    using assms(4) ct by (auto simp: path_resolver_def root_entry_def)
  moreover have "\<forall>c \<in> set (dirs @ [name]). CHR ''/'' \<notin> set c \<and> length c < 218" using assms(3) by (auto simp: good_name_def)
  ultimately show ?thesis
    using yields_resolve_from [OF assms(1,2), of dirs name type root_entry] by (simp add: resolved_def path_text_def)
qed

lemma create_spec:
  assumes "has v C" and "dir_ok C limit m n" and "\<forall>c \<in> set (dirs @ [name]). good_name c"
    and "path = path_text dirs name \<or> path = CHR ''/'' # path_text dirs name"
    and "find_mount dev ms = Some (k, m)" and "descend (searched C m n) root_entry dirs = Some p"
    and "j \<le> n" and "free_entry (dir C m j)" and "\<forall>i<j. \<not> free_entry (dir C m i)"
  shows "\<exists>v'. echfs_create ms path prm dev v = Some (0, v') \<and> has v' (put_entry (new_file p name) (slot m j) C)"
proof -
  let ?r = "resolved (searched C m n) 0 dirs name"
  have r: "\<not> failure ?r" "pr_parent ?r = p" "pr_name ?r = name"
    using assms(6) by (simp_all add: resolved_def empty_result_def split: option.splits)
  from yields_path_resolver [OF assms(1-4), of 0] obtain v1 where v1: "path_resolver dev m path 0 v = Some (?r, v1)" "has v1 C"
    by (auto simp: yields_def)
  from yields_find_empty [OF v1(2) assms(2), of 0 j] assms(7-9) obtain v2 where v2: "find_empty 0 dev m v1 = Some (of_nat j, v2)" "has v2 C"
    by (auto simp: yields_def)
  have fit: "slot m j + 256 \<le> limit" using assms(2) slot_mono [OF assms(7), of m] by (auto simp: dir_ok_def)
  have "length (ename (new_file p name)) < 218" using assms(3) by (simp add: new_file_def good_name_def)
  with stores_wr_entry [OF v2(2), of m "of_nat j" "new_file p name"] unat_entry_loc [OF v2(2) fit] fit
  obtain v3 where "wr_entry dev m (of_nat j) (new_file p name) v2 = Some v3" "has v3 (put_entry (new_file p name) (slot m j) C)"
    by (auto simp: stores_def)
  then show ?thesis using v1(1) v2(1) r assms(5) by (simp add: echfs_create_def new_file_eq)
qed

lemma mkdir_spec:
  assumes "has v C" and "dir_ok C limit m n" and "\<forall>c \<in> set (dirs @ [name]). good_name c"
    and "path = path_text dirs name \<or> path = CHR ''/'' # path_text dirs name"
    and "find_mount dev ms = Some (k, m)"
    and "j \<le> n" and "free_entry (dir C m j)" and "\<forall>i<j. \<not> free_entry (dir C m i)"
  shows "\<exists>v'. echfs_mkdir ms path prm dev v = Some (0, v')
    \<and> has v' (put_entry (new_dir (resolved (searched C m n) 1 dirs name) (foldl next_id 1 (entries C m n))) (slot m j) C)"
proof -
  let ?r = "resolved (searched C m n) 1 dirs name"
  let ?e = "new_dir ?r (foldl next_id 1 (entries C m n))"
  from yields_path_resolver [OF assms(1-4), of 1] obtain v1 where v1: "path_resolver dev m path 1 v = Some (?r, v1)" "has v1 C"
    by (auto simp: yields_def)
  from yields_find_empty [OF v1(2) assms(2), of 0 j] assms(6-8) obtain v2 where v2: "find_empty 0 dev m v1 = Some (of_nat j, v2)" "has v2 C"
    by (auto simp: yields_def)
  from yields_get_free_id [OF v2(2) assms(2)] obtain v3 where v3: "get_free_id dev m v2 = Some (foldl next_id 1 (entries C m n), v3)" "has v3 C"
    by (auto simp: yields_def)
  have fit: "slot m j + 256 \<le> limit" using assms(2) slot_mono [OF assms(6), of m] by (auto simp: dir_ok_def)
  have "pr_name ?r = name \<or> pr_name ?r = []" by (simp add: resolved_def empty_result_def split: option.splits)
  then have "length (ename ?e) < 218" using assms(3) by (auto simp: new_dir_def good_name_def)
  with stores_wr_entry [OF v3(2), of m "of_nat j" ?e] unat_entry_loc [OF v3(2) fit] fit
  obtain v4 where "wr_entry dev m (of_nat j) ?e v3 = Some v4" "has v4 (put_entry ?e (slot m j) C)"
    by (auto simp: stores_def)
  then show ?thesis using v1(1) v2(1) v3(1) assms(5) by (simp add: echfs_mkdir_def new_dir_def)
qed

end

subsection \<open>Storing an entry\<close>

lemma dir_put_entry:
  assumes "length (ename e) < 218" and "NUL \<notin> set (ename e)"
  shows "dir (put_entry e (slot m j) C) m i = (if i = j then e else dir C m i)"
    and "name_len (put_entry e (slot m j) C) (slot m i) = (if i = j then length (ename e) else name_len C (slot m i))"
proof -
  have other: "put_entry e (slot m j) C (slot m i + k) = C (slot m i + k)" if "i \<noteq> j" "k < 256" for k
  proof (rule put_entry_frame [OF assms(1)])
    show "slot m i + k < slot m j \<or> slot m j + 256 \<le> slot m i + k"
      using slot_less [of i j m] slot_less [of j i m] that by (cases "i < j") auto
  qed
  show "dir (put_entry e (slot m j) C) m i = (if i = j then e else dir C m i)"
    using entry_at_put_entry [OF assms] entry_at_cong(1) [where C = "put_entry e (slot m j) C" and D = C and a = "slot m i"] other by (simp add: dir_def)
  show "name_len (put_entry e (slot m j) C) (slot m i) = (if i = j then length (ename e) else name_len C (slot m i))"
    using put_entry_name_len [OF assms] entry_at_cong(2) [where C = "put_entry e (slot m j) C" and D = C and a = "slot m i"] other by simp
qed

text \<open>The table after an entry has been stored in the first free slot, the end of the table included.\<close>

lemma dir_ok_put_entry:
  assumes "dir_ok C limit m n" and "j \<le> n" and "length (ename e) < 218" and "NUL \<notin> set (ename e)" and "parent_id e \<noteq> 0"
    and "j = n \<Longrightarrow> dir_ok C limit m (Suc n) \<or> slot m (Suc n) + 256 \<le> limit \<and> name_len C (slot m (Suc n)) < 218 \<and> parent_id (dir C m (Suc n)) = 0"
  shows "dir_ok (put_entry e (slot m j) C) limit m (if j = n then Suc n else n)"
  using assms by (auto simp: dir_ok_def dir_put_entry less_Suc_eq le_Suc_eq)

lemma entries_put_entry:
  assumes "j \<le> n" and "length (ename e) < 218" and "NUL \<notin> set (ename e)"
  shows "entries (put_entry e (slot m j) C) m (if j = n then Suc n else n) =
    (if j = n then entries C m n @ [e] else (entries C m n)[j := e])"
  using assms by (auto intro!: nth_equalityI simp: entries_nth dir_put_entry nth_append nth_list_update less_Suc_eq)

lemma first_index_other:
  "\<not> P e \<Longrightarrow> \<not> P (xs ! j) \<Longrightarrow> first_index P (xs[j := e]) = first_index P xs"
  by (induction xs arbitrary: j) (auto split: nat.splits)

subsection \<open>Looking up what is stored\<close>

text \<open>Deleted entries have no name, so no search finds them.\<close>

definition clean_dir :: "entry_t list \<Rightarrow> bool" where
  "clean_dir es \<longleftrightarrow> (\<forall>e \<in> set es. free_entry e \<longrightarrow> ename e = [])"

text \<open>The searched part of the table after an entry was stored in its first free slot.\<close>

lemma searched_put_entry:
  assumes "j \<le> n" and "length (ename e) < 218" and "NUL \<notin> set (ename e)"
  shows "searched (put_entry e (slot m j) C) m (if j = n then Suc n else n) =
    (if unat (dirsize m * 2) \<le> j then searched C m n
     else if j = n then searched C m n @ [e] else (searched C m n)[j := e])"
  using assms by (auto intro!: nth_equalityI simp: searched_def entries_nth dir_put_entry nth_append nth_list_update min_def less_Suc_eq)

lemma lookup_put_other:
  assumes "j \<le> n" and "free_entry (dir C m j)" and "clean_dir (entries C m n)"
    and "length (ename e) < 218" and "NUL \<notin> set (ename e)"
    and "nm \<noteq> []" and "(nm, par, type) \<noteq> (ename e, parent_id e, etype e)"
  shows "lookup nm par type (searched (put_entry e (slot m j) C) m (if j = n then Suc n else n)) = lookup nm par type (searched C m n)"
proof -
  let ?P = "\<lambda>e. parent_id e = par \<and> etype e = type \<and> ename e = nm"
  have "ename (dir C m j) = []" if "j < n"
    using assms(2,3) that by (auto simp: clean_dir_def entries_def)
  then have "\<not> ?P (searched C m n ! j)" if "j < n" "j < unat (dirsize m * 2)"
    using that assms(6) by (simp add: searched_nth length_searched)
  moreover have "\<not> ?P e" using assms(7) by auto
  ultimately show ?thesis
    unfolding searched_put_entry [OF assms(1,4,5)] lookup_def
    using assms(1) by (auto simp: first_index_other first_index_append split: option.splits)
qed

lemma descend_cong:
  assumes "\<And>nm par. nm \<in> set cs \<Longrightarrow> lookup nm par 1 es' = lookup nm par 1 es"
    and "\<And>i nm par. nm \<in> set cs \<Longrightarrow> lookup nm par 1 es = Some i \<Longrightarrow> es' ! i = es ! i"
  shows "descend es' p cs = descend es p cs"
  using assms
proof (induction cs arbitrary: p)
  case (Cons c cs)
  have IH: "descend es' q cs = descend es q cs" for q
  proof (rule Cons.IH)
    show "lookup nm par 1 es' = lookup nm par 1 es" if "nm \<in> set cs" for nm par using Cons.prems(1) that by simp
    show "es' ! i = es ! i" if "nm \<in> set cs" "lookup nm par 1 es = Some i" for i nm par
      by (rule Cons.prems(2) [of nm par]) (use that in simp_all)
  qed
  show ?case using Cons.prems(1) [of c "payload p"] Cons.prems(2) [of c "payload p"] IH by (auto split: option.splits)
qed simp

lemma searched_put_nth:
  assumes "j \<le> n" and "length (ename e) < 218" and "NUL \<notin> set (ename e)" and "i \<noteq> j" and "i < length (searched C m n)"
  shows "searched (put_entry e (slot m j) C) m (if j = n then Suc n else n) ! i = searched C m n ! i"
  unfolding searched_put_entry [OF assms(1-3)] using assms(4,5) by (auto simp: nth_append)



lemma dir_agree:
  assumes "\<forall>q<limit. C q = D q" and "slot m i + 256 \<le> limit"
  shows "dir C m i = dir D m i" and "name_len C (slot m i) = name_len D (slot m i)"
  using entry_at_cong [where C = C and D = D and a = "slot m i"] assms by (auto simp: dir_def)

lemma searched_agree:
  assumes "\<forall>q<limit. C q = D q" and "slot m n + 256 \<le> limit"
  shows "searched C m n = searched D m n"
  unfolding searched_def entries_def
proof (rule map_cong [OF refl])
  fix i assume "i \<in> set [0..<min n (unat (dirsize m * 2))]"
  then have "slot m i + 256 \<le> limit" using slot_mono [of i n m] assms(2) by simp
  then show "dir C m i = dir D m i" by (rule dir_agree(1) [OF assms(1)])
qed

lemma dir_ok_agree:
  assumes "\<forall>q<limit. C q = D q" and "dir_ok C limit m n"
  shows "dir_ok D limit m n"
proof -
  have "slot m i + 256 \<le> limit" if "i \<le> n" for i using slot_mono [OF that, of m] assms(2) by (auto simp: dir_ok_def)
  with dir_agree [OF assms(1), of m] assms(2) show ?thesis by (auto simp: dir_ok_def)
qed

text \<open>The slot a new entry goes to; behind the table there must be another free entry to close it.\<close>

definition first_free :: "(nat \<Rightarrow> u8) \<Rightarrow> nat \<Rightarrow> mount_t \<Rightarrow> nat \<Rightarrow> nat \<Rightarrow> bool" where
  "first_free C limit m n j \<longleftrightarrow> j \<le> n \<and> free_entry (dir C m j) \<and> (\<forall>i<j. \<not> free_entry (dir C m i))
     \<and> (j = n \<longrightarrow> slot m (Suc n) + 256 \<le> limit \<and> name_len C (slot m (Suc n)) < 218 \<and> parent_id (dir C m (Suc n)) = 0)"

text \<open>Creating a file, as seen by later searches.\<close>

lemma created_file:
  assumes "on_disk name d okw cw limit v" and "C = cw (world v)" and "dir_ok C limit m n" and "clean_dir (entries C m n)"
    and "\<forall>c \<in> set (dirs @ [fname]). good_name c"
    and "path = path_text dirs fname \<or> path = CHR ''/'' # path_text dirs fname"
    and "find_mount ('':://'' @ name) ms = Some (k, m)"
    and "descend (searched C m n) root_entry dirs = Some p" and "payload p \<noteq> 0" and "first_free C limit m n j"
    and "n' = (if j = n then Suc n else n)"
  shows "\<exists>v'. echfs_create ms path prm ('':://'' @ name) v = Some (0, v') \<and> on_disk name d okw cw limit v'
    \<and> dir_ok (cw (world v')) limit m n'
    \<and> searched (cw (world v')) m n' = searched (put_entry (new_file p fname) (slot m j) C) m n'
    \<and> (\<forall>nm par type. nm \<noteq> [] \<and> (nm, par, type) \<noteq> (fname, payload p, 0) \<longrightarrow>
         lookup nm par type (searched (cw (world v')) m n') = lookup nm par type (searched C m n))
    \<and> descend (searched (cw (world v')) m n') root_entry dirs = Some p"
proof -
  let ?e = "new_file p fname" and ?C = "put_entry (new_file p fname) (slot m j) C"
  have e: "length (ename ?e) < 218" "NUL \<notin> set (ename ?e)" "parent_id ?e = payload p" "etype ?e = 0" "ename ?e = fname"
    using assms(5) by (simp_all add: new_file_def good_name_def empty_entry_def)
  have j: "j \<le> n" "free_entry (dir C m j)" "\<forall>i<j. \<not> free_entry (dir C m i)" using assms(10) by (auto simp: first_free_def)
  have ok: "dir_ok ?C limit m n'"
    unfolding assms(11) by (rule dir_ok_put_entry) (use assms(3,9,10) e j in \<open>auto simp: first_free_def\<close>)
  have "ed.has name d okw cw limit v C" using assms(1,2) by (simp add: ed.has_def)
  from ed.create_spec [OF this assms(3,5-8) j] obtain v' where v': "echfs_create ms path prm ('':://'' @ name) v = Some (0, v')"
    "on_disk name d okw cw limit v'" "\<forall>q<limit. cw (world v') q = ?C q" by (auto simp: ed.has_def)
  have s: "searched (cw (world v')) m n' = searched ?C m n'"
    by (rule searched_agree [OF v'(3)]) (use ok in \<open>simp add: dir_ok_def\<close>)
  have other: "lookup nm par type (searched ?C m n') = lookup nm par type (searched C m n)"
    if "nm \<noteq> []" "(nm, par, type) \<noteq> (fname, payload p, 0)" for nm par type
    unfolding assms(11) by (rule lookup_put_other [OF j(1,2) assms(4) e(1,2)]) (use that e in auto)
  have dok: "dir_ok (cw (world v')) limit m n'" by (rule dir_ok_agree [OF _ ok]) (use v'(3) in simp)
  have "descend (searched ?C m n') root_entry dirs = descend (searched C m n) root_entry dirs"
  proof (rule descend_cong)
    fix nm par assume "nm \<in> set dirs"
    then have "nm \<noteq> []" using assms(5) by (auto simp: good_name_def)
    then show "lookup nm par 1 (searched ?C m n') = lookup nm par 1 (searched C m n)" by (rule other) simp
  next
    fix i nm par assume nm: "nm \<in> set dirs" and l: "lookup nm par 1 (searched C m n) = Some i"
    from nm have ne: "nm \<noteq> []" using assms(5) by (auto simp: good_name_def)
    have i: "i < length (searched C m n)" by (rule lookup_less [OF l])
    have "ename (dir C m i) = nm" using l searched_nth [OF i] by (simp add: lookup_def first_index_Some_iff)
    then have "\<not> free_entry (dir C m i)" using assms(4) i ne by (auto simp: clean_dir_def entries_def length_searched)
    then have "i \<noteq> j" using j(2) by auto
    then show "searched ?C m n' ! i = searched C m n ! i" unfolding assms(11) by (rule searched_put_nth [OF j(1) e(1,2) _ i])
  qed
  then show ?thesis using v' s other dok assms(8) by simp
qed

subsection \<open>Theorems on a device\<close>

text \<open>A disk in memory, on which the theorems are tried.\<close>

definition mem_io :: "(nat \<Rightarrow> u8) io_wrapper" where
  "mem_io gp loc type x w = (if type = DF_READ then Some (uint (w (unat loc)), w) else if type = DF_WRITE then Some (0, w(unat loc := x)) else None)"

definition mem_disk :: "(nat \<Rightarrow> u8) device_t" where
  "mem_disk = \<lparr>dev_name = ''ram'', gp_value = 0, dev_size = 1048576, dev_io = mem_io\<rparr>"

definition mem_vfs :: "(nat \<Rightarrow> u8) \<Rightarrow> (nat \<Rightarrow> u8) vfs" where
  "mem_vfs C = \<lparr>filesystems = [], mountpoints = [], vfs_devices = [mem_disk], current_pid = 0, pwd_of = (\<lambda>_. ''/''),
     handles_of = (\<lambda>_. []), vfs_read_stat = False, vfs_write_stat = False, stack = replicate 2048 NUL, world = C\<rparr>"

definition mem_mount :: mount_t where
  "mem_mount = \<lparr>mnt_name = '':://ram'', blocks = 32, fatsize = 1, fatstart = 16, dirsize = 4, dirstart = 17, datastart = 21\<rparr>"

lemma on_mem_disk: "on_disk ''ram'' mem_disk (\<lambda>_. True) (\<lambda>w. w) 1048576 (mem_vfs C)"
  by (auto simp: on_disk_def mem_vfs_def mem_disk_def find_device_def mem_io_def byte_device_def)

lemma mem_dir_ok: "dir_ok (\<lambda>_. 0) 1048576 mem_mount 0"
proof -
  have "rd_le k (\<lambda>_. 0) a = 0" for k a by (induction k arbitrary: a) auto
  moreover have "name_len (\<lambda>_. 0) a = 0" for a by (rule name_lenI) auto
  ultimately show ?thesis by (simp add: dir_ok_def slot_def mem_mount_def dir_def entry_at_def)
qed

text \<open>
  C24. Directory entries survive the disk: an entry whose name is a proper string, written with
  \<open>wr_entry\<close> and read back with \<open>rd_entry\<close>, is the same entry, and writing it changes no byte
  outside its 256.
\<close>

theorem directory_entry_roundtrip:
  assumes "on_disk name d okw cw limit v" and "unat (entry_loc m i) + 256 \<le> limit"
    and "length (ename e) < FILENAME_LEN" and "NUL \<notin> set (ename e)"
  shows "\<exists>v' v''. wr_entry ('':://'' @ name) m i e v = Some v' \<and> rd_entry ('':://'' @ name) m i v' = Some (e, v'')
    \<and> (\<forall>q<limit. q < unat (entry_loc m i) \<or> unat (entry_loc m i) + 256 \<le> q \<longrightarrow> cw (world v') q = cw (world v) q)"
proof -
  let ?a = "unat (entry_loc m i)"
  have "ed.has name d okw cw limit v (cw (world v))" using assms(1) by (simp add: ed.has_def)
  from ed.stores_wr_entry [OF this assms(2,3)] obtain v' where v': "wr_entry ('':://'' @ name) m i e v = Some v'"
    "ed.has name d okw cw limit v' (put_entry e ?a (cw (world v)))" by (auto simp: ed.stores_def)
  from ed.yields_rd_entry [OF v'(2) entry_fits_put_entry [OF assms(3,4,2)]] obtain v'' where
    "rd_entry ('':://'' @ name) m i v' = Some (e, v'')" by (auto simp: ed.yields_def entry_at_put_entry [OF assms(3,4)])
  moreover have "cw (world v') q = cw (world v) q" if "q < limit" "q < ?a \<or> ?a + 256 \<le> q" for q
    using v'(2) put_entry_frame [OF assms(3) that(2)] that(1) by (simp add: ed.has_def)
  ultimately show ?thesis using v'(1) by blast
qed

theorem directory_entry_roundtrip_witness:
  "\<exists>v' v''. wr_entry '':://ram'' mem_mount 3 (new_file root_entry ''motd'') (mem_vfs (\<lambda>_. 0)) = Some v'
     \<and> rd_entry '':://ram'' mem_mount 3 v' = Some (new_file root_entry ''motd'', v'')"
  using directory_entry_roundtrip [OF on_mem_disk, of mem_mount 3 "new_file root_entry ''motd''" "\<lambda>_. 0"]
  by (auto simp: entry_loc_def mem_mount_def new_file_def NUL_def)

text \<open>
  C16. Path resolution in echfs: for a path of proper components, with or without leading slash, the
  resolver returns what a walk through the directory tree gives: failure when a directory on the way is
  missing, otherwise the parent, the last name and the entry found under it or that there is none.  The
  disk is not changed.
\<close>

theorem path_resolver_walks_tree:
  assumes "on_disk name d okw cw limit v" and "dir_ok (cw (world v)) limit m n"
    and "\<forall>c \<in> set (dirs @ [fname]). good_name c"
    and "path = path_text dirs fname \<or> path = CHR ''/'' # path_text dirs fname"
  shows "\<exists>v'. path_resolver ('':://'' @ name) m path type v = Some (resolved (searched (cw (world v)) m n) type dirs fname, v')
    \<and> on_disk name d okw cw limit v' \<and> (\<forall>q<limit. cw (world v') q = cw (world v) q)"
proof -
  have "ed.has name d okw cw limit v (cw (world v))" using assms(1) by (simp add: ed.has_def)
  from ed.yields_path_resolver [OF this assms(2-4), of type] show ?thesis by (auto simp: ed.yields_def ed.has_def)
qed

theorem path_resolver_walks_tree_witness:
  "\<exists>v'. path_resolver '':://ram'' mem_mount ''/etc/motd'' 0 (mem_vfs (\<lambda>_. 0)) = Some (empty_result\<lparr>failure := True\<rparr>, v')"
proof -
  have "resolved (searched (\<lambda>_. 0) mem_mount 0) 0 [''etc''] ''motd'' = empty_result\<lparr>failure := True\<rparr>"
    by (simp add: resolved_def searched_def entries_def lookup_def)
  moreover have "\<forall>c \<in> set ([''etc''] @ [''motd'']). good_name c" by (auto simp: good_name_def NUL_def)
  moreover have "''/etc/motd'' = CHR ''/'' # path_text [''etc''] ''motd''" by (simp add: path_text_def)
  moreover have "world (mem_vfs C) = C" for C by (simp add: mem_vfs_def)
  ultimately show ?thesis
    using path_resolver_walks_tree [OF on_mem_disk, of "\<lambda>_. 0" mem_mount 0 "[''etc'']" "''motd''" "''/etc/motd''" 0] mem_dir_ok by auto
qed



text \<open>
  The directory table is searched as if a block held two entries, while it holds 128: a file whose
  entry goes to a slot beyond that bound is created successfully and cannot be found afterwards.
\<close>

lemma created_file_beyond_bound_is_lost:
  assumes "on_disk name d okw cw limit v" and "C = cw (world v)" and "dir_ok C limit m n" and "clean_dir (entries C m n)"
    and "\<forall>c \<in> set (dirs @ [fname]). good_name c"
    and "path = path_text dirs fname \<or> path = CHR ''/'' # path_text dirs fname"
    and "find_mount ('':://'' @ name) ms = Some (k, m)"
    and "descend (searched C m n) root_entry dirs = Some p" and "payload p \<noteq> 0" and "first_free C limit m n j"
    and "lookup fname (payload p) 0 (searched C m n) = None" and "unat (dirsize m * ENTRIES_PER_BLOCK) \<le> j"
  shows "\<exists>v'. echfs_create ms path prm ('':://'' @ name) v = Some (0, v')
    \<and> (\<exists>v''. echfs_get_metadata ms path md FILE_TYPE ('':://'' @ name) v' = Some ((-2, md), v''))"
proof -
  let ?n = "if j = n then Suc n else n" and ?e = "new_file p fname"
  from created_file [OF assms(1-10) refl] obtain v' where v': "echfs_create ms path prm ('':://'' @ name) v = Some (0, v')"
    "on_disk name d okw cw limit v'" "dir_ok (cw (world v')) limit m ?n"
    "searched (cw (world v')) m ?n = searched (put_entry ?e (slot m j) C) m ?n"
    "descend (searched (cw (world v')) m ?n) root_entry dirs = Some p" by blast
  have e: "length (ename ?e) < 218" "NUL \<notin> set (ename ?e)" using assms(5) by (simp_all add: new_file_def good_name_def)
  have j: "j \<le> n" using assms(10) by (simp add: first_free_def)
  have "searched (cw (world v')) m ?n = searched C m n" using v'(4) searched_put_entry [OF j e, of m C] assms(12) by simp
  then have "not_found (resolved (searched (cw (world v')) m ?n) 0 dirs fname)" using assms(8,11) by (simp add: resolved_def)
  moreover have "ed.has name d okw cw limit v' (cw (world v'))" using v'(2) by (simp add: ed.has_def)
  note ed.yields_path_resolver [OF this v'(3) assms(5,6), of 0]
  ultimately show ?thesis using v'(1) assms(7) by (auto simp: ed.yields_def echfs_get_metadata_def)
qed

lemma created_file_beyond_bound_is_lost_witness:
  "\<exists>v' v''. echfs_create [mem_mount\<lparr>dirsize := 0\<rparr>] ''/notes'' 0 '':://ram'' (mem_vfs (\<lambda>_. 0)) = Some (0, v')
     \<and> echfs_get_metadata [mem_mount\<lparr>dirsize := 0\<rparr>] ''/notes'' no_metadata FILE_TYPE '':://ram'' v' = Some ((-2, no_metadata), v'')"
proof -
  let ?m = "mem_mount\<lparr>dirsize := 0\<rparr>"
  have z: "rd_le k (\<lambda>_. 0) a = 0" for k a by (induction k arbitrary: a) auto
  have nl: "name_len (\<lambda>_. 0) a = 0" for a by (rule name_lenI) auto
  have "first_free (\<lambda>_. 0) 1048576 ?m 0 0" "dir_ok (\<lambda>_. 0) 1048576 ?m 0"
    by (simp_all add: first_free_def free_entry_def dir_ok_def dir_def entry_at_def z nl slot_def mem_mount_def)
  moreover have "find_mount ('':://'' @ ''ram'') [?m] = Some (0, ?m)" by (simp add: find_mount_def mem_mount_def)
  moreover have "\<forall>c \<in> set ([] @ [''notes'']). good_name c" by (auto simp: good_name_def NUL_def)
  moreover have "''/notes'' = CHR ''/'' # path_text [] ''notes''" by (simp add: path_text_def)
  moreover have "world (mem_vfs C) = C" for C by (simp add: mem_vfs_def)
  ultimately show ?thesis
    using created_file_beyond_bound_is_lost [OF on_mem_disk, where C = "\<lambda>_. 0" and m = ?m and n = 0 and dirs = "[]" and fname = "''notes''"
        and path = "''/notes''" and ms = "[?m]" and k = 0 and p = root_entry and j = 0 and prm = 0 and md = no_metadata]
    by (auto simp: clean_dir_def entries_def root_entry_def empty_entry_def lookup_def searched_def)
qed

text \<open>
  Making a directory below a missing one is not refused: an entry without parent is written to the
  first free slot and success is returned.  A free parent ends the directory table, so when the slot was
  that of a deleted file, every entry behind it can no longer be found.
\<close>

lemma mkdir_below_missing_directory_cuts_table:
  assumes "on_disk name d okw cw limit v" and "C = cw (world v)" and "dir_ok C limit m n"
    and "\<forall>c \<in> set (dirs @ [fname]). good_name c"
    and "path = path_text dirs fname \<or> path = CHR ''/'' # path_text dirs fname"
    and "find_mount ('':://'' @ name) ms = Some (k, m)"
    and "descend (searched C m n) root_entry dirs = None" and "first_free C limit m n j"
  shows "\<exists>v'. echfs_mkdir ms path prm ('':://'' @ name) v = Some (0, v')
    \<and> (\<forall>nm par type i. lookup nm par type (searched C m n) = Some i \<and> j \<le> i \<longrightarrow>
         (\<exists>v''. search ('':://'' @ name) m nm par type v' = Some (SEARCH_FAILURE, v'')))"
proof -
  let ?r = "resolved (searched C m n) 1 dirs fname" and ?f = "foldl next_id 1 (entries C m n)"
  let ?C = "put_entry (new_dir ?r ?f) (slot m j) C"
  have e: "length (ename (new_dir ?r ?f)) < 218" "NUL \<notin> set (ename (new_dir ?r ?f))" "parent_id (new_dir ?r ?f) = 0"
    using assms(7) by (simp_all add: new_dir_def resolved_def empty_result_def empty_entry_def)
  have j: "j \<le> n" "free_entry (dir C m j)" "\<forall>i<j. \<not> free_entry (dir C m i)" using assms(8) by (auto simp: first_free_def)
  have "ed.has name d okw cw limit v C" using assms(1,2) by (simp add: ed.has_def)
  from ed.mkdir_spec [OF this assms(3-6) j] obtain v' where v': "echfs_mkdir ms path prm ('':://'' @ name) v = Some (0, v')"
    "ed.has name d okw cw limit v' ?C" by blast
  have cut: "dir_ok ?C limit m j"
    using assms(3) j slot_mono [OF j(1), of m] e by (auto simp: dir_ok_def dir_put_entry free_entry_def)
  have same: "searched ?C m j = take j (searched C m n)"
    using j(1) e by (intro nth_equalityI) (auto simp: length_searched searched_nth dir_put_entry)
  have "\<exists>v''. search ('':://'' @ name) m nm par type v' = Some (SEARCH_FAILURE, v'')"
    if "lookup nm par type (searched C m n) = Some i" "j \<le> i" for nm par type i
  proof -
    have "lookup nm par type (searched ?C m j) = None"
      using that unfolding same lookup_def by (auto simp: first_index_Some_iff first_index_None_iff in_set_conv_nth)
    with ed.yields_search [OF v'(2) cut, of nm par type] show ?thesis by (auto simp: ed.yields_def)
  qed
  then show ?thesis using v'(1) by blast
qed

lemma entries_2: "entries C m 2 = [dir C m 0, dir C m 1]"
  by (simp add: entries_def upt_conv_Cons)

text \<open>A directory of a deleted entry and a file.\<close>

definition holed_disk :: "nat \<Rightarrow> u8" where
  "holed_disk = put_entry (new_file root_entry ''notes'') (slot mem_mount 1)
     (put_entry (empty_entry\<lparr>parent_id := DELETED_ENTRY\<rparr>) (slot mem_mount 0) (\<lambda>_. 0))"

lemma zero_disk: "rd_le k (\<lambda>_. 0) a = 0" "name_len (\<lambda>_. 0) a = 0"
  by (induction k arbitrary: a) (auto intro: name_lenI)

lemma holed_dir:
  "dir holed_disk mem_mount i = (if i = 1 then new_file root_entry ''notes''
     else if i = 0 then empty_entry\<lparr>parent_id := DELETED_ENTRY\<rparr> else entry_at (\<lambda>_. 0) (slot mem_mount i))"
  "name_len holed_disk (slot mem_mount i) = (if i = 1 then 5 else 0)"
  by (simp_all add: holed_disk_def dir_put_entry new_file_def empty_entry_def NUL_def zero_disk) (simp add: dir_def)

lemma mkdir_below_missing_directory_cuts_table_witness:
  "\<exists>v' v''. echfs_mkdir [mem_mount] ''/no/such'' 0 '':://ram'' (mem_vfs holed_disk) = Some (0, v')
     \<and> search '':://ram'' mem_mount ''notes'' ROOT_ID 0 v' = Some (SEARCH_FAILURE, v'')"
proof -
  have "dir_ok holed_disk 1048576 mem_mount 2" "first_free holed_disk 1048576 mem_mount 2 0"
    by (auto simp: dir_ok_def first_free_def free_entry_def holed_dir entry_at_def zero_disk less_2_cases_iff
        new_file_def root_entry_def empty_entry_def) (simp_all add: slot_def mem_mount_def)
  moreover have "searched holed_disk mem_mount 2 = [empty_entry\<lparr>parent_id := DELETED_ENTRY\<rparr>, new_file root_entry ''notes'']"
    using entries_2 [of holed_disk mem_mount] by (simp add: searched_def holed_dir) (simp add: mem_mount_def)
  moreover have "find_mount ('':://'' @ ''ram'') [mem_mount] = Some (0, mem_mount)" by (simp add: find_mount_def mem_mount_def)
  moreover have "\<forall>c \<in> set ([''no''] @ [''such'']). good_name c" by (auto simp: good_name_def NUL_def)
  moreover have "''/no/such'' = CHR ''/'' # path_text [''no''] ''such''" by (simp add: path_text_def)
  moreover have "world (mem_vfs C) = C" for C by (simp add: mem_vfs_def)
  ultimately show ?thesis
    using mkdir_below_missing_directory_cuts_table [OF on_mem_disk, where C = holed_disk and m = mem_mount and n = 2 and dirs = "[''no'']"
        and fname = "''such''" and path = "''/no/such''" and ms = "[mem_mount]" and k = 0 and j = 0 and prm = 0]
    by (auto simp: lookup_def new_file_def root_entry_def empty_entry_def)
qed

text \<open>
  Directory identifiers are not unique: when a directory with identifier \<open>a + 1\<close> stands before the
  one with identifier \<open>a\<close> in the table, as after a deleted slot was reused, the next directory made gets
  the identifier \<open>a + 1\<close> again, and the two directories share their contents.
\<close>

lemma directory_identifier_reused:
  assumes "on_disk name d okw cw limit v" and "C = cw (world v)" and "dir_ok C limit m n"
    and "entries C m n = xs @ e1 # ys @ [e2]" and "foldl next_id 1 xs = a" and "foldl next_id a ys = a"
    and "etype e1 = 1" and "payload e1 = a + 1" and "etype e2 = 1" and "payload e2 = a"
  shows "\<exists>v'. get_free_id ('':://'' @ name) m v = Some (payload e1, v')"
proof -
  have "ed.has name d okw cw limit v C" using assms(1,2) by (simp add: ed.has_def)
  from ed.yields_get_free_id [OF this assms(3)] assms(4-10) show ?thesis by (auto simp: ed.yields_def next_id_def)
qed

definition swapped_disk :: "nat \<Rightarrow> u8" where
  "swapped_disk = put_entry (empty_entry\<lparr>parent_id := ROOT_ID, etype := 1, ename := ''b'', payload := 1\<rparr>) (slot mem_mount 1)
     (put_entry (empty_entry\<lparr>parent_id := ROOT_ID, etype := 1, ename := ''c'', payload := 2\<rparr>) (slot mem_mount 0) (\<lambda>_. 0))"

lemma directory_identifier_reused_witness:
  "\<exists>v'. get_free_id '':://ram'' mem_mount (mem_vfs swapped_disk) = Some (payload (dir swapped_disk mem_mount 0), v')"
proof -
  have d: "dir swapped_disk mem_mount i = (if i = 1 then empty_entry\<lparr>parent_id := ROOT_ID, etype := 1, ename := ''b'', payload := 1\<rparr>
      else if i = 0 then empty_entry\<lparr>parent_id := ROOT_ID, etype := 1, ename := ''c'', payload := 2\<rparr> else entry_at (\<lambda>_. 0) (slot mem_mount i))"
    "name_len swapped_disk (slot mem_mount i) = (if i = 1 \<or> i = 0 then 1 else 0)" for i
    by (simp_all add: swapped_disk_def dir_put_entry empty_entry_def NUL_def zero_disk) (simp add: dir_def)
  have "dir_ok swapped_disk 1048576 mem_mount 2"
    by (auto simp: dir_ok_def d entry_at_def zero_disk less_2_cases_iff empty_entry_def) (simp add: slot_def mem_mount_def)
  moreover have "entries swapped_disk mem_mount 2 = [] @ dir swapped_disk mem_mount 0 # [] @ [dir swapped_disk mem_mount 1]"
    by (simp add: entries_2)
  moreover have "world (mem_vfs C) = C" for C by (simp add: mem_vfs_def)
  ultimately show ?thesis
    using directory_identifier_reused [OF on_mem_disk, where C = swapped_disk and m = mem_mount and n = 2 and xs = "[]" and ys = "[]" and a = 1]
    by (simp add: d)
qed

end
