(* ===== verification/Dev_Mount.thy ===== *)
theory Dev_Mount
  imports Partition Vfs
begin

text \<open>
  The device file system behind the switch: \<open>install_devfs\<close> of \<open>kernel/src/fs/devfs.c\<close>, and what
  the operations of \<open>kernel/src/vfs.c\<close> do once it is mounted.

  The switch works here on the state of the device file system, so the devices it reaches directly
  (paths that begin with \<open>:://\<close>) are those of its device list.
\<close>

definition devfs_fs :: "'w devfs filesystem_t" where
  "devfs_fs = \<lparr>fs_name = ''devfs'',
     fs_read = (\<lambda>path loc dev. devfs_read path loc), fs_write = (\<lambda>path val loc dev. devfs_write path val loc),
     fs_remove = (\<lambda>path dev s. Some (devfs_remove, s)), fs_mkdir = (\<lambda>path prm dev s. Some (devfs_mkdir, s)),
     fs_create = (\<lambda>path prm dev s. Some (devfs_create, s)),
     fs_get_metadata = (\<lambda>path md type dev s. Some (case devfs_get_metadata path type s of None \<Rightarrow> (-2, md) | Some md \<Rightarrow> (0, md), s)),
     fs_list = (\<lambda>path md entry dev s. Some (case devfs_list entry s of None \<Rightarrow> (-2, md) | Some md \<Rightarrow> (0, md), s)),
     fs_mount = (\<lambda>dev s. Some (devfs_mount, s)), fs_open = (\<lambda>path flags mode dev. devfs_open path flags mode),
     fs_close = (\<lambda>h s. Some (devfs_close h s)), fs_fork = devfs_fork,
     fs_uread = (\<lambda>h n s. map_option (\<lambda>(r, bs, s). ((r, bs, read_stat s), s)) (devfs_uread h n s)),
     fs_uwrite = (\<lambda>h bs s. map_option (\<lambda>(r, s). ((r, write_stat s), s)) (devfs_uwrite h bs s)),
     fs_seek = (\<lambda>h off type s. Some (devfs_seek h off type s))\<rparr>"

definition lift_device :: "'w device_t \<Rightarrow> 'w devfs device_t" where
  "lift_device d = \<lparr>dev_name = dev_name d, gp_value = gp_value d, dev_size = dev_size d,
     dev_io = (\<lambda>gp loc type val s. map_option (\<lambda>(r, w). (r, s\<lparr>dev_world := w\<rparr>)) (dev_io d gp loc type val (dev_world s)))\<rparr>"

definition devices_shared :: "'w devfs vfs \<Rightarrow> bool" where
  "devices_shared v \<longleftrightarrow> vfs_devices v = map lift_device (device_list (world v))"

lemma find_device_lift: "find_device name (map lift_device ds) = find_device name ds"
  by (induction ds) (simp_all add: find_device_def lift_device_def)

subsection \<open>Storage behind a handle of the switch\<close>

definition on_handle :: "int \<Rightarrow> 'w device_t \<Rightarrow> u64 \<Rightarrow> ('w \<Rightarrow> bool) \<Rightarrow> ('w \<Rightarrow> nat \<Rightarrow> u8) \<Rightarrow> nat \<Rightarrow> 'w devfs vfs \<Rightarrow> bool" where
  "on_handle h d E okw cw limit v \<longleftrightarrow> byte_device (dev_io d) (gp_value d) okw cw limit \<and> okw (dev_world (world v))
     \<and> (\<exists>f. handle_fs 0 h v = Some (f, devfs_fs) \<and> open_on d E (f2_internal_handle f) (world v))
     \<and> limit \<le> unat E \<and> limit < 2 ^ 31"

lemma handle_fs_world: "handle_fs pid h (v\<lparr>world := w, vfs_read_stat := a\<rparr>) = handle_fs pid h v"
  "handle_fs pid h (v\<lparr>world := w, vfs_write_stat := a\<rparr>) = handle_fs pid h v" "handle_fs pid h (v\<lparr>world := w\<rparr>) = handle_fs pid h v"
  by (simp_all add: handle_fs_def vfs_translate_fs_def Let_def cong: if_cong option.case_cong)

lemma on_handle_seek:
  assumes "handle_fs 0 h v = Some (f, devfs_fs)"
  shows "vfs_kseek h off type v = Some (fst (devfs_seek (f2_internal_handle f) off type (world v)),
    v\<lparr>world := snd (devfs_seek (f2_internal_handle f) off type (world v))\<rparr>)"
  using assms by (simp add: vfs_kseek_def seek_for_def devfs_fs_def split: prod.splits)

text \<open>Seeking and reading, or writing, through the switch: exactly the bytes addressed.\<close>

lemma on_handle_read:
  assumes "on_handle h d E okw cw limit v" and "p + length buf \<le> limit"
  shows "\<exists>v'. do { (_, v) \<leftarrow> vfs_kseek h (int p) SEEK_SET v; ((_, bs), v) \<leftarrow> vfs_kuread h (int (length buf)) v;
        Some (bs @ drop (length bs) buf, v) } = Some (map (cw (dev_world (world v))) [p..<p + length buf], v')
    \<and> on_handle h d E okw cw limit v' \<and> (\<forall>q<limit. cw (dev_world (world v')) q = cw (dev_world (world v)) q)"
proof -
  from assms(1) obtain f where f: "handle_fs 0 h v = Some (f, devfs_fs)" "open_on d E (f2_internal_handle f) (world v)"
    "byte_device (dev_io d) (gp_value d) okw cw limit" "okw (dev_world (world v))" "limit \<le> unat E" "limit < 2 ^ 31"
    by (auto simp: on_handle_def)
  have "int p \<le> uint E" by (rule le_unatI) (use assms(2) f(5) in simp)
  moreover have "p + length buf < 2 ^ 31" using assms(2) f(6) by simp
  ultimately obtain s' where s': "read_at (f2_internal_handle f) (int p) buf (world v)
      = Some (map (cw (dev_world (world v))) [p..<p + length buf], s')" "okw (dev_world s')" "open_on d E (f2_internal_handle f) s'"
    "\<forall>q<limit. cw (dev_world s') q = cw (dev_world (world v)) q"
    using read_at_storage [OF f(3,4,2) _ assms(2)] by blast
  let ?v = "v\<lparr>world := s', vfs_read_stat := read_stat s'\<rparr>"
  have "do { (_, v) \<leftarrow> vfs_kseek h (int p) SEEK_SET v; ((_, bs), v) \<leftarrow> vfs_kuread h (int (length buf)) v;
        Some (bs @ drop (length bs) buf, v) } = Some (map (cw (dev_world (world v))) [p..<p + length buf], ?v)"
    using s'(1) f(1) unfolding on_handle_seek [OF f(1)] read_at_def
    by (auto simp: vfs_kuread_def uread_for_def handle_fs_world devfs_fs_def bind_eq_Some_conv split: prod.splits)
  moreover have "on_handle h d E okw cw limit ?v" using s' f by (auto simp: on_handle_def handle_fs_world)
  ultimately show ?thesis using s'(4) by auto
qed

lemma on_handle_write:
  assumes "on_handle h d E okw cw limit v" and "p + length bs \<le> limit"
  shows "\<exists>v'. do { (_, v) \<leftarrow> vfs_kseek h (int p) SEEK_SET v; (_, v) \<leftarrow> vfs_kuwrite h bs v; Some v } = Some v'
    \<and> on_handle h d E okw cw limit v' \<and> (\<forall>q<limit. cw (dev_world (world v')) q =
        (if p \<le> q \<and> q < p + length bs then bs ! (q - p) else cw (dev_world (world v)) q))"
proof -
  from assms(1) obtain f where f: "handle_fs 0 h v = Some (f, devfs_fs)" "open_on d E (f2_internal_handle f) (world v)"
    "byte_device (dev_io d) (gp_value d) okw cw limit" "okw (dev_world (world v))" "limit \<le> unat E" "limit < 2 ^ 31"
    by (auto simp: on_handle_def)
  have "int p \<le> uint E" by (rule le_unatI) (use assms(2) f(5) in simp)
  moreover have "p + length bs < 2 ^ 31" using assms(2) f(6) by simp
  ultimately obtain s' where s': "map_option snd (devfs_uwrite (f2_internal_handle f) bs (snd (devfs_seek (f2_internal_handle f) (int p) SEEK_SET (world v)))) = Some s'"
    "okw (dev_world s')" "open_on d E (f2_internal_handle f) s'"
    "\<forall>q<limit. cw (dev_world s') q = (if p \<le> q \<and> q < p + length bs then bs ! (q - p) else cw (dev_world (world v)) q)"
    using write_at_storage [OF f(3,4,2) _ assms(2)] by blast
  let ?v = "v\<lparr>world := s', vfs_write_stat := write_stat s'\<rparr>"
  have "do { (_, v) \<leftarrow> vfs_kseek h (int p) SEEK_SET v; (_, v) \<leftarrow> vfs_kuwrite h bs v; Some v } = Some ?v"
    using s'(1) f(1) unfolding on_handle_seek [OF f(1)]
    by (auto simp: vfs_kuwrite_def uwrite_for_def handle_fs_world devfs_fs_def)
  moreover have "on_handle h d E okw cw limit ?v" using s' f by (auto simp: on_handle_def handle_fs_world)
  ultimately show ?thesis using s'(4) by auto
qed

end
