(* ===== verification/Echfs.thy ===== *)
theory Echfs
  imports Echfs_Dir Dev_Mount
begin

text \<open>
  Files of the echidna file system, \<open>kernel/src/fs/echfs.c\<close>: the table of cached files with their
  allocation maps and one-block caches, the handles, and every operation on them.

  The code reaches the device in two ways, byte by byte through its path (\<open>echfs_read\<close>,
  \<open>echfs_write\<close>) and through a kernel handle (\<open>echfs_uread\<close>, \<open>echfs_uwrite\<close>).  Both run the
  same algorithm; it is written once here on an \<open>accessor\<close>, the record of the accesses it makes.

  A handle keeps a pointer into the array \<open>cached_files\<close>, which \<open>krealloc\<close> moves every time it
  grows or shrinks (an element is larger than a page).  Such a pointer is a pair of the array's
  generation and an index; \<open>cf_gen\<close> is the generation of the array, and an access through a pointer
  of another generation is a use of freed memory, a fault.  \<open>cf_lost\<close> holds when the variable
  \<open>cached_files\<close> itself points to the freed array.

  \<open>junk\<close> is the arbitrary content of uninitialised local variables.  \<open>long\<close> has 32 bits.
\<close>

record cached_file_t =
  cf_path :: string
  cf_result :: path_result_t
  cf_block :: u64
  cf_cache :: "u8 list"
  cf_status :: nat
  alloc_map :: "u64 list"

record echfs_handle_t =
  eh_free :: bool
  eh_path :: string
  eh_flags :: u32
  eh_mode :: int
  eh_ptr :: int
  eh_begin :: int
  eh_end :: int
  eh_device :: nat
  eh_dev_handle :: int
  eh_file :: "nat \<times> nat"

record 'w echfs =
  mounts :: "mount_t list"
  cached_files :: "cached_file_t list"
  cf_gen :: nat
  cf_lost :: bool
  echfs_handles :: "echfs_handle_t list"
  junk :: "u8 list"
  junk_md :: vfs_metadata_t
  evfs :: "'w vfs"

definition echfs_create_handle :: "echfs_handle_t list \<Rightarrow> echfs_handle_t \<Rightarrow> nat \<times> echfs_handle_t list" where
  "echfs_create_handle hs h =
     (case first_index eh_free hs of
        Some handle_n \<Rightarrow> (handle_n, hs[handle_n := h])
      | None \<Rightarrow> (length hs, hs @ [h]))"

interpretation efh: handle_table eh_free echfs_create_handle
  by unfold_locales (simp_all add: echfs_create_handle_def)

subsection \<open>Access through a kernel handle\<close>

text \<open>The offset is truncated to the \<open>int\<close> that \<open>vfs_kseek\<close> takes; results of the calls are ignored.\<close>

definition read_u :: "int \<Rightarrow> u64 \<Rightarrow> u8 list \<Rightarrow> 'w vfs \<Rightarrow> (u8 list \<times> 'w vfs) option" where
  "read_u h loc buf v = do {
     (_, v) \<leftarrow> vfs_kseek h (s32 (uint loc)) SEEK_SET v;
     ((_, bs), v) \<leftarrow> vfs_kuread h (int (length buf)) v;
     Some (bs @ drop (length bs) buf, v) }"

definition write_u :: "int \<Rightarrow> u64 \<Rightarrow> u8 list \<Rightarrow> 'w vfs \<Rightarrow> 'w vfs option" where
  "write_u h loc bs v = do {
     (_, v) \<leftarrow> vfs_kseek h (s32 (uint loc)) SEEK_SET v;
     (_, v) \<leftarrow> vfs_kuwrite h bs v;
     Some v }"

definition le_bytes :: "nat \<Rightarrow> nat \<Rightarrow> u8 list" where
  "le_bytes n x = map (\<lambda>i. of_nat (x div 256 ^ i)) [0..<n]"

definition rd_qword_u :: "u8 list \<Rightarrow> int \<Rightarrow> u64 \<Rightarrow> 'w vfs \<Rightarrow> (u64 \<times> 'w vfs) option" where
  "rd_qword_u jk h loc v = do {
     (bs, v) \<leftarrow> read_u h loc (take 8 jk) v;
     Some (of_nat (rd_le 8 (\<lambda>i. if i < length bs then bs ! i else 0) 0), v) }"

definition wr_qword_u :: "int \<Rightarrow> u64 \<Rightarrow> u64 \<Rightarrow> 'w vfs \<Rightarrow> 'w vfs option" where
  "wr_qword_u h loc x v = write_u h loc (le_bytes 8 (unat x)) v"

definition wr_byte_u :: "int \<Rightarrow> u64 \<Rightarrow> u8 \<Rightarrow> 'w vfs \<Rightarrow> 'w vfs option" where
  "wr_byte_u h loc x v = write_u h loc [x] v"

text \<open>The 256 bytes of the packed structure; behind the name's terminator they are arbitrary.\<close>

definition entry_bytes :: "u8 list \<Rightarrow> entry_t \<Rightarrow> u8 list" where
  "entry_bytes jk e = le_bytes 8 (unat (parent_id e)) @ [etype e]
     @ (map of_char (ename e) @ [0] @ drop (length (ename e) + 1) (take FILENAME_LEN jk))
     @ [perms e] @ le_bytes 2 (unat (owner e)) @ le_bytes 2 (unat (egroup e))
     @ [hundreths e, seconds e, minutes e, hours e, day e, month e] @ le_bytes 2 (unat (year e))
     @ le_bytes 8 (unat (payload e)) @ le_bytes 8 (unat (esize e))"

definition wr_entry_u :: "u8 list \<Rightarrow> int \<Rightarrow> mount_t \<Rightarrow> u64 \<Rightarrow> entry_t \<Rightarrow> 'w vfs \<Rightarrow> 'w vfs option" where
  "wr_entry_u jk h m entry e v = write_u h (entry_loc m entry) (entry_bytes jk e) v"

text \<open>The byte loops of \<open>echfs_read\<close> and \<open>echfs_write\<close> over a block.\<close>

fun rd_block :: "nat \<Rightarrow> string \<Rightarrow> u64 \<Rightarrow> 'w vfs \<Rightarrow> (u8 list \<times> 'w vfs) option" where
  "rd_block 0 dev loc v = Some ([], v)"
| "rd_block (Suc n) dev loc v = do {
     (c, v) \<leftarrow> rd_byte dev loc v;
     (cs, v) \<leftarrow> rd_block n dev (loc + 1) v;
     Some (c # cs, v) }"

fun wr_block :: "string \<Rightarrow> u64 \<Rightarrow> u8 list \<Rightarrow> 'w vfs \<Rightarrow> 'w vfs option" where
  "wr_block dev loc [] v = Some v"
| "wr_block dev loc (b # bs) v = do { v \<leftarrow> wr_byte dev loc b v; wr_block dev (loc + 1) bs v }"

record 'w accessor =
  a_rdq :: "u64 \<Rightarrow> 'w vfs \<Rightarrow> (u64 \<times> 'w vfs) option"
  a_wrq :: "u64 \<Rightarrow> u64 \<Rightarrow> 'w vfs \<Rightarrow> 'w vfs option"
  a_wrb :: "u64 \<Rightarrow> u8 \<Rightarrow> 'w vfs \<Rightarrow> 'w vfs option"
  a_load :: "u64 \<Rightarrow> u8 list \<Rightarrow> 'w vfs \<Rightarrow> (u8 list \<times> 'w vfs) option"
  a_store :: "u64 \<Rightarrow> u8 list \<Rightarrow> 'w vfs \<Rightarrow> 'w vfs option"
  a_entry :: "path_result_t \<Rightarrow> 'w vfs \<Rightarrow> 'w vfs option"

definition by_path :: "string \<Rightarrow> mount_t \<Rightarrow> 'w accessor" where
  "by_path dev m = \<lparr>a_rdq = rd_qword dev, a_wrq = wr_qword dev, a_wrb = wr_byte dev,
     a_load = (\<lambda>loc buf. rd_block (length buf) dev loc), a_store = wr_block dev,
     a_entry = (\<lambda>r. wr_entry dev m (target_entry r) (target r))\<rparr>"

definition by_handle :: "u8 list \<Rightarrow> int \<Rightarrow> 'w accessor" where
  "by_handle jk h = \<lparr>a_rdq = rd_qword_u jk h, a_wrq = wr_qword_u h, a_wrb = wr_byte_u h,
     a_load = read_u h, a_store = write_u h, a_entry = (\<lambda>_ v. Some v)\<rparr>"

subsection \<open>The cache of a file\<close>

text \<open>Write a dirty block back, load another one.\<close>

definition fill_cache :: "'w accessor \<Rightarrow> u64 \<Rightarrow> nat \<Rightarrow> cached_file_t \<Rightarrow> 'w vfs \<Rightarrow> (cached_file_t \<times> 'w vfs) option" where
  "fill_cache acc block st f v = do {
     v \<leftarrow> (if cf_status f = 2
           then do { b \<leftarrow> arr_get (alloc_map f) (unat (cf_block f)); a_store acc (b * 32768) (cf_cache f) v }
           else Some v);
     b \<leftarrow> arr_get (alloc_map f) (unat block);
     (buf, v) \<leftarrow> a_load acc (b * 32768) (cf_cache f) v;
     Some (f\<lparr>cf_status := st, cf_block := block, cf_cache := buf\<rparr>, v) }"

definition cached :: "u64 \<Rightarrow> cached_file_t \<Rightarrow> bool" where
  "cached block f \<longleftrightarrow> cf_status f \<noteq> 0 \<and> cf_block f = block"

definition get_byte :: "'w accessor \<Rightarrow> u64 \<Rightarrow> u64 \<Rightarrow> cached_file_t \<Rightarrow> 'w vfs \<Rightarrow> (u8 \<times> cached_file_t \<times> 'w vfs) option" where
  "get_byte acc block offset f v = do {
     (f, v) \<leftarrow> (if cached block f then Some (f, v) else fill_cache acc block 1 f v);
     c \<leftarrow> arr_get (cf_cache f) (unat offset);
     Some (c, f, v) }"

definition put_byte :: "'w accessor \<Rightarrow> u64 \<Rightarrow> u64 \<Rightarrow> u8 \<Rightarrow> cached_file_t \<Rightarrow> 'w vfs \<Rightarrow> (cached_file_t \<times> 'w vfs) option" where
  "put_byte acc block offset val f v = do {
     (f, v) \<leftarrow> (if cached block f then Some (f, v) else fill_cache acc block 2 f v);
     buf \<leftarrow> arr_set (cf_cache f) (unat offset) val;
     Some (f\<lparr>cf_cache := buf, cf_status := 2\<rparr>, v) }"

subsection \<open>Growing a file\<close>

partial_function (option) find_block :: "'w accessor \<Rightarrow> u64 \<Rightarrow> u64 \<Rightarrow> 'w vfs \<Rightarrow> (u64 \<times> 'w vfs) option" where
  "find_block acc t_block t_loc v =
     (case a_rdq acc t_loc v of
        None \<Rightarrow> None
      | Some (q, v) \<Rightarrow> if q = 0 then Some (t_block, v) else find_block acc (t_block + 1) (t_loc + 8) v)"

text \<open>\<open>krealloc\<close> to \<open>i + 1\<close> elements (memory behind the old ones is zero), then the store of the last.\<close>

definition alloc_put :: "u64 list \<Rightarrow> nat \<Rightarrow> u64 \<Rightarrow> u64 list" where
  "alloc_put bs i b = take i (bs @ replicate (i - length bs) 0) @ [b]"

definition set_payload :: "u64 \<Rightarrow> cached_file_t \<Rightarrow> cached_file_t" where
  "set_payload b f = f\<lparr>cf_result := (cf_result f)\<lparr>target := (target (cf_result f))\<lparr>payload := b\<rparr>\<rparr>\<rparr>"

function extend :: "'w accessor \<Rightarrow> mount_t \<Rightarrow> nat \<Rightarrow> nat \<Rightarrow> cached_file_t \<Rightarrow> 'w vfs \<Rightarrow> (cached_file_t \<times> 'w vfs) option" where
  "extend acc m i new f v =
     (if i < new then
        (case find_block acc 0 (fatstart m * 32768) v of
           None \<Rightarrow> None
         | Some (t_block, v) \<Rightarrow>
             let f = f\<lparr>alloc_map := alloc_put (alloc_map f) i t_block\<rparr> in
             (case (if i = 0 then let f = set_payload t_block f in map_option (Pair f) (a_entry acc (cf_result f) v)
                    else map_option (Pair f) (a_wrq acc (fatstart m * 32768 + alloc_map f ! (i - 1) * 8) t_block v)) of
                None \<Rightarrow> None
              | Some (f, v) \<Rightarrow> extend acc m (Suc i) new f v))
      else Some (f, v))"
  by pat_completeness auto
termination
  by (relation "measure (\<lambda>(_, _, i, new, _). new - i)") auto

declare extend.simps [simp del]

fun zero_bytes :: "nat \<Rightarrow> 'w accessor \<Rightarrow> u64 \<Rightarrow> 'w vfs \<Rightarrow> 'w vfs option" where
  "zero_bytes 0 acc loc v = Some v"
| "zero_bytes (Suc n) acc loc v = do { v \<leftarrow> a_wrb acc loc 0 v; zero_bytes n acc (loc + 1) v }"

fun zero_blocks :: "'w accessor \<Rightarrow> u64 list \<Rightarrow> 'w vfs \<Rightarrow> 'w vfs option" where
  "zero_blocks acc [] v = None"
| "zero_blocks acc (b # bs) v =
     (if b = END_OF_CHAIN then Some v
      else do { v \<leftarrow> zero_bytes BYTES_PER_BLOCK acc (b * 32768) v; zero_blocks acc bs v })"

definition grow :: "'w accessor \<Rightarrow> mount_t \<Rightarrow> nat \<Rightarrow> nat \<Rightarrow> cached_file_t \<Rightarrow> 'w vfs \<Rightarrow> (cached_file_t \<times> 'w vfs) option" where
  "grow acc m block_count new f v = do {
     (f, v) \<leftarrow> extend acc m block_count new f v;
     v \<leftarrow> a_wrq acc (fatstart m * 32768 + alloc_map f ! (new - 1) * 8) END_OF_CHAIN v;
     let f = f\<lparr>alloc_map := alloc_put (alloc_map f) new END_OF_CHAIN\<rparr>;
     v \<leftarrow> zero_blocks acc (drop block_count (alloc_map f)) v;
     Some (f, v) }"

definition set_size :: "u64 \<Rightarrow> cached_file_t \<Rightarrow> cached_file_t" where
  "set_size n f = f\<lparr>cf_result := (cf_result f)\<lparr>target := (target (cf_result f))\<lparr>esize := n\<rparr>\<rparr>\<rparr>"

definition blocks_for :: "u64 \<Rightarrow> nat" where
  "blocks_for sz = unat (sz div 32768 + (if sz mod 32768 \<noteq> 0 then 1 else 0))"

text \<open>
  One byte at a position: the size is raised, blocks are added, the byte goes to the cache.  \<open>loc\<close>
  is the position as the size sees it, \<open>next\<close> the size when it is the last byte.
\<close>

definition write_byte ::
  "'w accessor \<Rightarrow> mount_t \<Rightarrow> u64 \<Rightarrow> u64 \<Rightarrow> nat \<Rightarrow> u64 \<Rightarrow> u64 \<Rightarrow> u8 \<Rightarrow> cached_file_t \<Rightarrow> 'w vfs \<Rightarrow> (cached_file_t \<times> 'w vfs) option" where
  "write_byte acc m loc nxt new_block_count block offset val f v =
     (let sz = esize (target (cf_result f)) in do {
       (f, v) \<leftarrow> (if sz \<le> loc then let f = set_size nxt f in map_option (Pair f) (a_entry acc (cf_result f) v) else Some (f, v));
       (f, v) \<leftarrow> (if blocks_for sz < new_block_count then grow acc m (blocks_for sz) new_block_count f v else Some (f, v));
       put_byte acc block offset val f v })"

text \<open>Division and remainder of \<open>long\<close>, truncating.\<close>

definition tdiv :: "int \<Rightarrow> int \<Rightarrow> int" where
  "tdiv x n = sgn x * (\<bar>x\<bar> div n)"

definition tmod :: "int \<Rightarrow> int \<Rightarrow> int" where
  "tmod x n = sgn x * (\<bar>x\<bar> mod n)"

subsection \<open>The table of cached files\<close>

definition find_cached :: "string \<Rightarrow> 'w echfs \<Rightarrow> nat option option" where
  "find_cached path s =
     (if cached_files s = [] then Some None
      else if cf_lost s then None
      else Some (first_index (\<lambda>f. cf_path f = path) (cached_files s)))"

partial_function (option) chain_from :: "u64 \<Rightarrow> string \<Rightarrow> mount_t \<Rightarrow> 'w vfs \<Rightarrow> (u64 list \<times> 'w vfs) option" where
  "chain_from b dev m v =
     (if b = END_OF_CHAIN then Some ([b], v)
      else
        (case rd_qword dev (fatstart m * 32768 + b * 8) v of
           None \<Rightarrow> None
         | Some (q, v) \<Rightarrow>
             do { (bs, v) \<leftarrow> chain_from q dev m v; Some (b # bs, v) }))"

definition add_cached :: "string \<Rightarrow> string \<Rightarrow> mount_t \<Rightarrow> 'w echfs \<Rightarrow> (nat \<times> 'w echfs) option" where
  "add_cached path dev m s =
     (if cf_lost s then None
      else if 2048 \<le> length path then None
      else do {
        (r, v) \<leftarrow> path_resolver dev m path 0 (evfs s);
        (bs, v) \<leftarrow> chain_from (payload (target r)) dev m v;
        Some (length (cached_files s),
          s\<lparr>cached_files := cached_files s @ [\<lparr>cf_path = path, cf_result = r, cf_block = 0,
               cf_cache = replicate BYTES_PER_BLOCK 0, cf_status = 0, alloc_map = bs\<rparr>],
            cf_gen := Suc (cf_gen s), evfs := v\<rparr>) })"

definition lookup_file :: "string \<Rightarrow> string \<Rightarrow> mount_t \<Rightarrow> 'w echfs \<Rightarrow> (nat \<times> 'w echfs) option" where
  "lookup_file path dev m s =
     (case find_cached path s of
        None \<Rightarrow> None
      | Some (Some i) \<Rightarrow> Some (i, s)
      | Some None \<Rightarrow> add_cached path dev m s)"

subsection \<open>Operations by path\<close>

definition echfs_read :: "string \<Rightarrow> u64 \<Rightarrow> string \<Rightarrow> 'w echfs \<Rightarrow> (int \<times> 'w echfs) option" where
  "echfs_read path loc dev s = do {
     (_, m) \<leftarrow> find_mount dev (mounts s);
     (i, s) \<leftarrow> lookup_file path dev m s;
     let f = cached_files s ! i;
     if not_found (cf_result f) then Some (-2, s)
     else if esize (target (cf_result f)) \<le> loc then Some (-1, s)
     else do {
       (c, f, v) \<leftarrow> get_byte (by_path dev m) (loc div 32768) (loc mod 32768) f (evfs s);
       Some (uint c, s\<lparr>cached_files := (cached_files s)[i := f], evfs := v\<rparr>) } }"

definition echfs_write :: "string \<Rightarrow> u8 \<Rightarrow> u64 \<Rightarrow> string \<Rightarrow> 'w echfs \<Rightarrow> (int \<times> 'w echfs) option" where
  "echfs_write path val loc dev s = do {
     (_, m) \<leftarrow> find_mount dev (mounts s);
     (i, s) \<leftarrow> lookup_file path dev m s;
     let f = cached_files s ! i;
     if not_found (cf_result f) then Some (-2, s)
     else do {
       (f, v) \<leftarrow> write_byte (by_path dev m) m loc (loc + 1) (blocks_for (loc + 1)) (loc div 32768) (loc mod 32768) val f (evfs s);
       Some (0, s\<lparr>cached_files := (cached_files s)[i := f], evfs := v\<rparr>) } }"

partial_function (option) free_chain :: "u64 \<Rightarrow> string \<Rightarrow> mount_t \<Rightarrow> 'w vfs \<Rightarrow> 'w vfs option" where
  "free_chain b dev m v =
     (if b = END_OF_CHAIN then Some v
      else
        (case rd_qword dev (fatstart m * 32768 + b * 8) v of
           None \<Rightarrow> None
         | Some (q, v) \<Rightarrow>
             (case wr_qword dev (fatstart m * 32768 + b * 8) 0 v of
                None \<Rightarrow> None
              | Some v \<Rightarrow> free_chain q dev m v)))"

text \<open>
  Removing a cached file closes the gap in the table; the element read from behind the table lands in
  the slot that is cut off.  The array is moved and the result of \<open>krealloc\<close> dropped.
\<close>

definition echfs_remove :: "string \<Rightarrow> string \<Rightarrow> 'w echfs \<Rightarrow> (int \<times> 'w echfs) option" where
  "echfs_remove path dev s = do {
     (_, m) \<leftarrow> find_mount dev (mounts s);
     c \<leftarrow> find_cached path s;
     (r, s) \<leftarrow> (case c of
        Some i \<Rightarrow> Some (cf_result (cached_files s ! i),
          s\<lparr>cached_files := take i (cached_files s) @ drop (Suc i) (cached_files s), cf_gen := Suc (cf_gen s), cf_lost := True\<rparr>)
      | None \<Rightarrow> map_option (\<lambda>(r, v). (r, s\<lparr>evfs := v\<rparr>)) (path_resolver dev m path 0 (evfs s)));
     if not_found r then Some (-2, s)
     else do {
       v \<leftarrow> free_chain (payload (target r)) dev m (evfs s);
       v \<leftarrow> wr_entry dev m (target_entry r) (empty_entry\<lparr>parent_id := DELETED_ENTRY\<rparr>) v;
       Some (0, s\<lparr>evfs := v\<rparr>) } }"

subsection \<open>Handles\<close>

definition on_vfs :: "'w echfs \<Rightarrow> ('r \<times> 'w vfs) option \<Rightarrow> ('r \<times> 'w echfs) option" where
  "on_vfs s r = map_option (\<lambda>(x, v). (x, s\<lparr>evfs := v\<rparr>)) r"

text \<open>The first part of \<open>echfs_open\<close>: the file is looked up, created or emptied; \<open>None\<close> inside is the return of -1.\<close>

definition open_metadata :: "string \<Rightarrow> u32 \<Rightarrow> string \<Rightarrow> 'w echfs \<Rightarrow> (vfs_metadata_t option \<times> 'w echfs) option" where
  "open_metadata path flags dev s = do {
     ((r, md), s) \<leftarrow> on_vfs s (echfs_get_metadata (mounts s) path (junk_md s) FILE_TYPE dev (evfs s));
     (md, s) \<leftarrow>
       (if r = -2 then
          if flags AND O_CREAT \<noteq> 0 then do {
            (c, s) \<leftarrow> on_vfs s (echfs_create (mounts s) path 0 dev (evfs s));
            if c = -2 then Some (None, s)
            else do {
              ((_, md), s) \<leftarrow> on_vfs s (echfs_get_metadata (mounts s) path md FILE_TYPE dev (evfs s));
              Some (Some md, s) } }
          else Some (None, s)
        else Some (Some md, s));
     (case md of
        None \<Rightarrow> Some (None, s)
      | Some md \<Rightarrow>
          if flags AND O_TRUNC \<noteq> 0 then do {
            (_, s) \<leftarrow> echfs_remove path dev s;
            (_, s) \<leftarrow> on_vfs s (echfs_create (mounts s) path 0 dev (evfs s));
            ((_, md), s) \<leftarrow> on_vfs s (echfs_get_metadata (mounts s) path md FILE_TYPE dev (evfs s));
            Some (Some md, s) }
          else Some (Some md, s)) }"

definition echfs_open :: "string \<Rightarrow> u32 \<Rightarrow> int \<Rightarrow> string \<Rightarrow> 'w echfs \<Rightarrow> (int \<times> 'w echfs) option" where
  "echfs_open path flags mode dev s = do {
     (md, s) \<leftarrow> open_metadata path flags dev s;
     (case md of
        None \<Rightarrow> Some (-1, s)
      | Some md \<Rightarrow>
          if 1024 \<le> length path then None
          else do {
            (dev_n, m) \<leftarrow> find_mount dev (mounts s);
            (i, s) \<leftarrow> lookup_file path dev m s;
            (h, s) \<leftarrow> on_vfs s (vfs_kopen dev O_RDWR 0 (evfs s));
            let sz = s32 (uint (fsize md));
            let start = (if flags AND O_APPEND \<noteq> 0 then sz else 0);
            let (n, hs) = echfs_create_handle (echfs_handles s)
                  \<lparr>eh_free = False, eh_path = path, eh_flags = flags, eh_mode = mode, eh_ptr = start, eh_begin = start,
                   eh_end = sz, eh_device = dev_n, eh_dev_handle = h, eh_file = (cf_gen s, i)\<rparr>;
            Some (int n, s\<lparr>echfs_handles := hs\<rparr>) }) }"

definition echfs_close :: "int \<Rightarrow> 'w echfs \<Rightarrow> (int \<times> 'w echfs) option" where
  "echfs_close handle s =
     (if handle < 0 then Some (-1, s)
      else if nat handle \<ge> length (echfs_handles s) then Some (-1, s)
      else if eh_free (echfs_handles s ! nat handle) then Some (-1, s)
      else do {
        (_, s) \<leftarrow> on_vfs s (vfs_kclose (eh_dev_handle (echfs_handles s ! nat handle)) (evfs s));
        Some (0, s\<lparr>echfs_handles := (echfs_handles s)[nat handle := (echfs_handles s ! nat handle)\<lparr>eh_free := True\<rparr>]\<rparr>) })"

definition get_handle :: "int \<Rightarrow> 'w echfs \<Rightarrow> echfs_handle_t option" where
  "get_handle handle s = (if 0 \<le> handle then arr_get (echfs_handles s) (nat handle) else None)"

definition echfs_fork :: "int \<Rightarrow> 'w echfs \<Rightarrow> (int \<times> 'w echfs) option" where
  "echfs_fork handle s = do {
     h \<leftarrow> get_handle handle s;
     (dh, s) \<leftarrow> on_vfs s (vfs_kfork (eh_dev_handle h) (evfs s));
     let (n, hs) = echfs_create_handle (echfs_handles s) (h\<lparr>eh_dev_handle := dh\<rparr>);
     Some (int n, s\<lparr>echfs_handles := hs\<rparr>) }"

definition seek_base_of :: "echfs_handle_t \<Rightarrow> int \<Rightarrow> int option" where
  "seek_base_of h type =
     (if type = SEEK_SET then Some (eh_begin h) else if type = SEEK_END then Some (eh_end h)
      else if type = SEEK_CUR then Some (eh_ptr h) else None)"

definition echfs_seek :: "int \<Rightarrow> int \<Rightarrow> int \<Rightarrow> 'w echfs \<Rightarrow> int \<times> 'w echfs" where
  "echfs_seek handle offset type s =
     (if handle < 0 then (-1, s)
      else if nat handle \<ge> length (echfs_handles s) then (-1, s)
      else let h = echfs_handles s ! nat handle in
        if eh_free h then (-1, s)
        else case seek_base_of h type of
          None \<Rightarrow> (-1, s)
        | Some b \<Rightarrow>
            let p = s32 (b + offset) in
            if p > eh_end h \<or> p < eh_begin h then (-1, s)
            else (p, s\<lparr>echfs_handles := (echfs_handles s)[nat handle := h\<lparr>eh_ptr := p\<rparr>]\<rparr>))"

text \<open>The file a handle points to.\<close>

definition handle_file :: "echfs_handle_t \<Rightarrow> 'w echfs \<Rightarrow> (nat \<times> cached_file_t) option" where
  "handle_file h s =
     (case eh_file h of (g, i) \<Rightarrow> if g = cf_gen s then map_option (Pair i) (arr_get (cached_files s) i) else None)"

definition echfs_ureadbyte :: "'w accessor \<Rightarrow> int \<Rightarrow> int \<Rightarrow> cached_file_t \<Rightarrow> 'w vfs \<Rightarrow> (int \<times> int \<times> cached_file_t \<times> 'w vfs) option" where
  "echfs_ureadbyte acc cur_loc cur_end f v =
     (if cur_loc \<ge> cur_end then Some (-1, cur_loc, f, v)
      else do {
        (c, f, v) \<leftarrow> get_byte acc (word_of_int (tdiv cur_loc 32768)) (word_of_int (tmod cur_loc 32768)) f v;
        Some (uint c, s32 (cur_loc + 1), f, v) })"

fun uread_bytes :: "'w accessor \<Rightarrow> nat \<Rightarrow> int \<Rightarrow> int \<Rightarrow> cached_file_t \<Rightarrow> 'w vfs \<Rightarrow> (u8 list \<times> int \<times> cached_file_t \<times> 'w vfs) option" where
  "uread_bytes acc 0 cur_loc cur_end f v = Some ([], cur_loc, f, v)"
| "uread_bytes acc (Suc n) cur_loc cur_end f v = do {
     (c, cur_loc, f, v) \<leftarrow> echfs_ureadbyte acc cur_loc cur_end f v;
     if c = -1 then Some ([], cur_loc, f, v)
     else do {
       (cs, cur_loc, f, v) \<leftarrow> uread_bytes acc n cur_loc cur_end f v;
       Some (word_of_int c # cs, cur_loc, f, v) } }"

definition echfs_uread :: "int \<Rightarrow> int \<Rightarrow> 'w echfs \<Rightarrow> ((int \<times> u8 list \<times> bool) \<times> 'w echfs) option" where
  "echfs_uread handle n s = do {
     h \<leftarrow> get_handle handle s;
     _ \<leftarrow> arr_get (mounts s) (eh_device h);
     if n \<le> 0 \<or> eh_end h \<le> eh_ptr h then Some ((0, [], False), s)
     else do {
       (i, f) \<leftarrow> handle_file h s;
       (bs, p, f, v) \<leftarrow> uread_bytes (by_handle (junk s) (eh_dev_handle h)) (nat n) (eh_ptr h) (eh_end h) f ((evfs s)\<lparr>vfs_read_stat := False\<rparr>);
       Some ((int (length bs), bs, vfs_read_stat v),
         s\<lparr>evfs := v, cached_files := (cached_files s)[i := f],
           echfs_handles := (echfs_handles s)[nat handle := h\<lparr>eh_ptr := p\<rparr>]\<rparr>) } }"

definition echfs_uwritebyte :: "'w accessor \<Rightarrow> mount_t \<Rightarrow> int \<Rightarrow> u8 \<Rightarrow> cached_file_t \<Rightarrow> 'w vfs \<Rightarrow> (int \<times> cached_file_t \<times> 'w vfs) option" where
  "echfs_uwritebyte acc m cur_loc val f v =
     (let nxt = s32 (cur_loc + 1);
          new_block_count = unat (word_of_int (tdiv nxt 32768) + (if tmod nxt 32768 \<noteq> 0 then 1 else 0) :: u64) in do {
       (f, v) \<leftarrow> write_byte acc m (word_of_int cur_loc) (word_of_int nxt) new_block_count
          (word_of_int (tdiv cur_loc 32768)) (word_of_int (tmod cur_loc 32768)) val f v;
       Some (nxt, f, v) })"

fun uwrite_bytes :: "'w accessor \<Rightarrow> mount_t \<Rightarrow> u8 list \<Rightarrow> int \<Rightarrow> cached_file_t \<Rightarrow> 'w vfs \<Rightarrow> (int \<times> cached_file_t \<times> 'w vfs) option" where
  "uwrite_bytes acc m [] cur_loc f v = Some (cur_loc, f, v)"
| "uwrite_bytes acc m (b # bs) cur_loc f v = do {
     (cur_loc, f, v) \<leftarrow> echfs_uwritebyte acc m cur_loc b f v;
     uwrite_bytes acc m bs cur_loc f v }"

definition echfs_uwrite :: "int \<Rightarrow> u8 list \<Rightarrow> 'w echfs \<Rightarrow> ((int \<times> bool) \<times> 'w echfs) option" where
  "echfs_uwrite handle bs s = do {
     h \<leftarrow> get_handle handle s;
     m \<leftarrow> arr_get (mounts s) (eh_device h);
     (i, f) \<leftarrow> handle_file h s;
     (p, f, v) \<leftarrow> uwrite_bytes (by_handle (junk s) (eh_dev_handle h)) m bs (eh_ptr h) f ((evfs s)\<lparr>vfs_write_stat := False\<rparr>);
     v \<leftarrow> wr_entry_u (junk s) (eh_dev_handle h) m (target_entry (cf_result f)) (target (cf_result f)) v;
     Some ((int (length bs), vfs_write_stat v),
       s\<lparr>evfs := v, cached_files := (cached_files s)[i := f],
         echfs_handles := (echfs_handles s)[nat handle := h\<lparr>eh_ptr := p\<rparr>]\<rparr>) }"

subsection \<open>The file system as a record\<close>

definition echfs_fs :: "'w echfs filesystem_t" where
  "echfs_fs = \<lparr>fs_name = ''echfs'', fs_read = echfs_read, fs_write = echfs_write, fs_remove = echfs_remove,
     fs_mkdir = (\<lambda>path prm dev s. on_vfs s (echfs_mkdir (mounts s) path prm dev (evfs s))),
     fs_create = (\<lambda>path prm dev s. on_vfs s (echfs_create (mounts s) path prm dev (evfs s))),
     fs_get_metadata = (\<lambda>path md type dev s. on_vfs s (echfs_get_metadata (mounts s) path md type dev (evfs s))),
     fs_list = (\<lambda>path md entry dev s. on_vfs s (echfs_list (mounts s) path md entry dev (evfs s))),
     fs_mount = (\<lambda>dev s. map_option (\<lambda>(r, ms, v). (r, s\<lparr>mounts := ms, evfs := v\<rparr>)) (echfs_mount dev (mounts s) (evfs s))),
     fs_open = echfs_open, fs_close = echfs_close, fs_fork = echfs_fork, fs_uread = echfs_uread, fs_uwrite = echfs_uwrite,
     fs_seek = (\<lambda>h off type s. Some (echfs_seek h off type s))\<rparr>"

end
