(* ===== verification/Echfs_File.thy ===== *)
theory Echfs_File
  imports Echfs
begin

text \<open>
  The bytes of an echfs file: what \<open>echfs_ureadbyte\<close>, \<open>echfs_uwritebyte\<close>, \<open>echfs_read\<close> and
  \<open>echfs_write\<close> of \<open>kernel/src/fs/echfs.c\<close> do to them through the one-block cache.

  Locale \<open>block_store\<close> is what the cache needs of the accessor below it: blocks of bytes that can be
  loaded and stored.  It holds for the accesses by path (every \<open>disk\<close>) and for those by handle.
\<close>

text \<open>The file a cached file and a disk represent: its byte at a position.\<close>

definition block_pos :: "cached_file_t \<Rightarrow> nat \<Rightarrow> nat" where
  "block_pos f b = unat (alloc_map f ! b) * BYTES_PER_BLOCK"

definition file_byte :: "cached_file_t \<Rightarrow> (nat \<Rightarrow> u8) \<Rightarrow> nat \<Rightarrow> u8" where
  "file_byte f C p =
     (if cf_status f \<noteq> 0 \<and> unat (cf_block f) = p div BYTES_PER_BLOCK then cf_cache f ! (p mod BYTES_PER_BLOCK)
      else C (block_pos f (p div BYTES_PER_BLOCK) + p mod BYTES_PER_BLOCK))"

text \<open>The first \<open>n\<close> blocks are distinct blocks of the disk, and a clean cache agrees with the disk.\<close>

definition file_ok :: "nat \<Rightarrow> nat \<Rightarrow> (nat \<Rightarrow> u8) \<Rightarrow> cached_file_t \<Rightarrow> bool" where
  "file_ok limit n C f \<longleftrightarrow> n \<le> length (alloc_map f) \<and> length (cf_cache f) = BYTES_PER_BLOCK
     \<and> distinct (take n (alloc_map f)) \<and> (\<forall>b<n. block_pos f b + BYTES_PER_BLOCK \<le> limit)
     \<and> (cf_status f \<noteq> 0 \<longrightarrow> unat (cf_block f) < n)
     \<and> (cf_status f \<noteq> 0 \<and> cf_status f \<noteq> 2 \<longrightarrow> (\<forall>k<BYTES_PER_BLOCK. cf_cache f ! k = C (block_pos f (unat (cf_block f)) + k)))"

definition same_file :: "cached_file_t \<Rightarrow> cached_file_t \<Rightarrow> bool" where
  "same_file f g \<longleftrightarrow> alloc_map g = alloc_map f \<and> cf_result g = cf_result f \<and> cf_path g = cf_path f"

lemma block_pos_apart:
  assumes "file_ok limit n C f" and "a < n" and "b < n" and "a \<noteq> b" and "i < 32768"
  shows "\<not> (block_pos f b \<le> block_pos f a + i \<and> block_pos f a + i < block_pos f b + 32768)"
proof
  assume "block_pos f b \<le> block_pos f a + i \<and> block_pos f a + i < block_pos f b + 32768"
  then have "(block_pos f a + i) div 32768 = unat (alloc_map f ! b)" by (intro div_nat_eqI) (simp_all add: block_pos_def)
  then have "alloc_map f ! a = alloc_map f ! b" using assms(5) by (simp add: block_pos_def word_unat_eq_iff)
  then show False using assms(1-4) by (auto simp: file_ok_def distinct_conv_nth)
qed

lemma unat_block:
  assumes "unat (b :: u64) * 32768 + 32768 \<le> l" and "l < 2 ^ 63"
  shows "unat (b * 32768) = unat b * 32768"
  using assms by (simp add: unat_word_ariths)

locale block_store =
  fixes acc :: "'w accessor" and ok :: "'w vfs \<Rightarrow> bool" and content :: "'w vfs \<Rightarrow> nat \<Rightarrow> u8" and limit :: nat
  assumes load_law: "ok v \<Longrightarrow> unat loc + length buf \<le> limit \<Longrightarrow>
      \<exists>v'. a_load acc loc buf v = Some (map (content v) [unat loc..<unat loc + length buf], v') \<and> ok v'
        \<and> (\<forall>q<limit. content v' q = content v q)"
    and store_law: "ok v \<Longrightarrow> unat loc + length bs \<le> limit \<Longrightarrow>
      \<exists>v'. a_store acc loc bs v = Some v' \<and> ok v'
        \<and> (\<forall>q<limit. content v' q = (if unat loc \<le> q \<and> q < unat loc + length bs then bs ! (q - unat loc) else content v q))"
    and limit_bound: "ok v \<Longrightarrow> limit < 2 ^ 63"
begin

text \<open>Writing a dirty block back makes the disk agree with the cache.\<close>

lemma write_back:
  assumes "ok v" and "file_ok limit n (content v) f"
  shows "\<exists>v'. (if cf_status f = 2
           then do { b \<leftarrow> arr_get (alloc_map f) (unat (cf_block f)); a_store acc (b * 32768) (cf_cache f) v }
           else Some v) = Some v' \<and> ok v'
     \<and> (\<forall>p<n * 32768. content v' (block_pos f (p div 32768) + p mod 32768) = file_byte f (content v) p)
     \<and> (\<forall>q<limit. (\<forall>b<n. q div 32768 \<noteq> unat (alloc_map f ! b)) \<longrightarrow> content v' q = content v q)"
proof (cases "cf_status f = 2")
  case False
  have "content v (block_pos f (p div 32768) + p mod 32768) = file_byte f (content v) p" for p
    using assms(2) False by (auto simp: file_byte_def file_ok_def)
  then show ?thesis using False assms(1) by auto
next
  case True
  let ?c = "unat (cf_block f)"
  let ?b = "alloc_map f ! ?c"
  have c: "?c < n" "?c < length (alloc_map f)" "length (cf_cache f) = 32768" "block_pos f ?c + 32768 \<le> limit"
    using assms(2) True by (auto simp: file_ok_def)
  have b: "unat (?b * 32768) = block_pos f ?c" using unat_block [of ?b limit] c(4) limit_bound [OF assms(1)] by (simp add: block_pos_def)
  from store_law [OF assms(1), of "?b * 32768" "cf_cache f"] b c obtain v' where
    v': "a_store acc (?b * 32768) (cf_cache f) v = Some v'" "ok v'"
    "\<forall>q<limit. content v' q = (if block_pos f ?c \<le> q \<and> q < block_pos f ?c + 32768 then cf_cache f ! (q - block_pos f ?c) else content v q)"
    by auto
  have "content v' (block_pos f (p div 32768) + p mod 32768) = file_byte f (content v) p" if p: "p < n * 32768" for p
  proof (cases "p div 32768 = ?c")
    case True
    then show ?thesis using v'(3) c(4) \<open>cf_status f = 2\<close> by (auto simp: file_byte_def)
  next
    case False
    have pn: "p div 32768 < n" using p by (simp add: less_mult_imp_div_less)
    then have fit: "block_pos f (p div 32768) + p mod 32768 < limit"
    proof -
      have "block_pos f (p div 32768) + 32768 \<le> limit" using assms(2) pn by (simp add: file_ok_def)
      then show ?thesis using mod_less_divisor [of 32768 p] by linarith
    qed
    have "\<not> (block_pos f ?c \<le> block_pos f (p div 32768) + p mod 32768 \<and> block_pos f (p div 32768) + p mod 32768 < block_pos f ?c + 32768)"
      by (rule block_pos_apart [OF assms(2) pn c(1) False]) simp
    then show ?thesis using v'(3) fit False by (auto simp: file_byte_def)
  qed
  moreover have "content v' q = content v q" if "q < limit" "\<forall>b<n. q div 32768 \<noteq> unat (alloc_map f ! b)" for q
  proof -
    have "q div 32768 \<noteq> unat ?b" using that(2) c(1) by blast
    then have "\<not> (block_pos f ?c \<le> q \<and> q < block_pos f ?c + 32768)" unfolding block_pos_def by (metis div_nat_eqI mult.commute mult_Suc add.commute)
    then show ?thesis using v'(3) that(1) by auto
  qed
  ultimately show ?thesis using True c(2) v'(1,2) by auto
qed

text \<open>Loading another block into the cache keeps every byte of the file.\<close>

lemma fill_cache_spec:
  assumes "ok v" and "file_ok limit n (content v) f" and "unat block < n" and "st \<noteq> 0"
  shows "\<exists>f' v'. fill_cache acc block st f v = Some (f', v') \<and> ok v' \<and> file_ok limit n (content v') f' \<and> same_file f f'
     \<and> cf_block f' = block \<and> cf_status f' = st
     \<and> (\<forall>p<n * 32768. file_byte f' (content v') p = file_byte f (content v) p)
     \<and> (\<forall>q<limit. (\<forall>b<n. q div 32768 \<noteq> unat (alloc_map f ! b)) \<longrightarrow> content v' q = content v q)"
proof -
  let ?b = "alloc_map f ! unat block"
  from write_back [OF assms(1,2)] obtain v1 where v1:
    "(if cf_status f = 2 then do { b \<leftarrow> arr_get (alloc_map f) (unat (cf_block f)); a_store acc (b * 32768) (cf_cache f) v }
      else Some v) = Some v1" "ok v1"
    "\<forall>p<n * 32768. content v1 (block_pos f (p div 32768) + p mod 32768) = file_byte f (content v) p"
    "\<forall>q<limit. (\<forall>b<n. q div 32768 \<noteq> unat (alloc_map f ! b)) \<longrightarrow> content v1 q = content v q" by blast
  have c: "unat block < length (alloc_map f)" "length (cf_cache f) = 32768" "block_pos f (unat block) + 32768 \<le> limit"
    using assms(2,3) by (auto simp: file_ok_def)
  have b: "unat (?b * 32768) = block_pos f (unat block)"
    using unat_block [of ?b limit] c(3) limit_bound [OF assms(1)] by (simp add: block_pos_def)
  from load_law [OF v1(2), of "?b * 32768" "cf_cache f"] b c obtain v2 where
    v2: "a_load acc (?b * 32768) (cf_cache f) v1 = Some (map (content v1) [block_pos f (unat block)..<block_pos f (unat block) + 32768], v2)"
    "ok v2" "\<forall>q<limit. content v2 q = content v1 q" by auto
  let ?f = "f\<lparr>cf_status := st, cf_block := block, cf_cache := map (content v1) [block_pos f (unat block)..<block_pos f (unat block) + 32768]\<rparr>"
  have bp: "block_pos ?f = block_pos f" by (simp add: fun_eq_iff block_pos_def)
  have "fill_cache acc block st f v = Some (?f, v2)"
    using v1(1) v2(1) c(1) by (simp add: fill_cache_def)
  moreover have "file_ok limit n (content v2) ?f"
    using assms(2,3) c v2(3) by (auto simp: file_ok_def bp)
  moreover have "file_byte ?f (content v2) p = file_byte f (content v) p" if p: "p < n * 32768" for p
  proof -
    have pn: "p div 32768 < n" using p by (simp add: less_mult_imp_div_less)
    have "block_pos f (p div 32768) + 32768 \<le> limit" using assms(2) pn by (simp add: file_ok_def)
    then have "block_pos f (p div 32768) + p mod 32768 < limit" using mod_less_divisor [of 32768 p] by linarith
    then have "content v2 (block_pos f (p div 32768) + p mod 32768) = file_byte f (content v) p" using v2(3) v1(3) p by simp
    moreover have "file_byte ?f (content v2) p = content v2 (block_pos f (p div 32768) + p mod 32768)"
      using v2(3) c(3) \<open>block_pos f (p div 32768) + p mod 32768 < limit\<close> by (auto simp: file_byte_def bp)
    ultimately show ?thesis by simp
  qed
  ultimately show ?thesis using v2(2,3) v1(4) by (auto simp: same_file_def)
qed

lemma get_byte_spec:
  assumes "ok v" and "file_ok limit n (content v) f" and "unat block < n" and "unat offset < 32768"
  shows "\<exists>f' v'. get_byte acc block offset f v = Some (file_byte f (content v) (unat block * 32768 + unat offset), f', v')
     \<and> ok v' \<and> file_ok limit n (content v') f' \<and> same_file f f'
     \<and> (\<forall>p<n * 32768. file_byte f' (content v') p = file_byte f (content v) p)
     \<and> (\<forall>q<limit. (\<forall>b<n. q div 32768 \<noteq> unat (alloc_map f ! b)) \<longrightarrow> content v' q = content v q)"
proof -
  have "\<exists>f' v'. (if cached block f then Some (f, v) else fill_cache acc block 1 f v) = Some (f', v')
     \<and> ok v' \<and> file_ok limit n (content v') f' \<and> same_file f f' \<and> cached block f'
     \<and> (\<forall>p<n * 32768. file_byte f' (content v') p = file_byte f (content v) p)
     \<and> (\<forall>q<limit. (\<forall>b<n. q div 32768 \<noteq> unat (alloc_map f ! b)) \<longrightarrow> content v' q = content v q)"
    using fill_cache_spec [OF assms(1-3), of 1] assms(1,2) by (auto simp: same_file_def cached_def)
  then obtain f' v' where f': "(if cached block f then Some (f, v) else fill_cache acc block 1 f v) = Some (f', v')"
     "ok v'" "file_ok limit n (content v') f'" "same_file f f'" "cached block f'"
     "\<forall>p<n * 32768. file_byte f' (content v') p = file_byte f (content v) p"
     "\<forall>q<limit. (\<forall>b<n. q div 32768 \<noteq> unat (alloc_map f ! b)) \<longrightarrow> content v' q = content v q" by blast
  have len: "unat offset < length (cf_cache f')" using f'(3) assms(4) by (simp add: file_ok_def)
  have "unat block * 32768 + unat offset < n * 32768" using assms(3,4) by simp
  with f'(6) have "file_byte f (content v) (unat block * 32768 + unat offset) = file_byte f' (content v') (unat block * 32768 + unat offset)" by simp
  also have "\<dots> = cf_cache f' ! unat offset" using f'(5) assms(4) by (simp add: file_byte_def cached_def)
  finally show ?thesis using f' len by (simp add: get_byte_def)
qed

lemma put_byte_spec:
  assumes "ok v" and "file_ok limit n (content v) f" and "unat block < n" and "unat offset < 32768"
  shows "\<exists>f' v'. put_byte acc block offset val f v = Some (f', v')
     \<and> ok v' \<and> file_ok limit n (content v') f' \<and> same_file f f'
     \<and> (\<forall>p<n * 32768. file_byte f' (content v') p = (if p = unat block * 32768 + unat offset then val else file_byte f (content v) p))
     \<and> (\<forall>q<limit. (\<forall>b<n. q div 32768 \<noteq> unat (alloc_map f ! b)) \<longrightarrow> content v' q = content v q)"
proof -
  have "\<exists>f' v'. (if cached block f then Some (f, v) else fill_cache acc block 2 f v) = Some (f', v')
     \<and> ok v' \<and> file_ok limit n (content v') f' \<and> same_file f f' \<and> cached block f'
     \<and> (\<forall>p<n * 32768. file_byte f' (content v') p = file_byte f (content v) p)
     \<and> (\<forall>q<limit. (\<forall>b<n. q div 32768 \<noteq> unat (alloc_map f ! b)) \<longrightarrow> content v' q = content v q)"
    using fill_cache_spec [OF assms(1-3), of 2] assms(1,2) by (auto simp: same_file_def cached_def)
  then obtain f' v' where f': "(if cached block f then Some (f, v) else fill_cache acc block 2 f v) = Some (f', v')"
     "ok v'" "file_ok limit n (content v') f'" "same_file f f'" "cached block f'"
     "\<forall>p<n * 32768. file_byte f' (content v') p = file_byte f (content v) p"
     "\<forall>q<limit. (\<forall>b<n. q div 32768 \<noteq> unat (alloc_map f ! b)) \<longrightarrow> content v' q = content v q" by blast
  let ?f = "f'\<lparr>cf_cache := (cf_cache f')[unat offset := val], cf_status := 2\<rparr>"
  have len: "unat offset < length (cf_cache f')" using f'(3) assms(4) by (simp add: file_ok_def)
  have bp: "block_pos ?f = block_pos f'" by (simp add: fun_eq_iff block_pos_def)
  have ok: "file_ok limit n (content v') ?f" using f'(3,5) by (auto simp: file_ok_def bp cached_def)
  have "file_byte ?f (content v') p = (if p = unat block * 32768 + unat offset then val else file_byte f (content v) p)"
    if p: "p < n * 32768" for p
  proof -
    have "file_byte ?f (content v') p = (if p = unat block * 32768 + unat offset then val else file_byte f' (content v') p)"
    proof (cases "p div 32768 = unat block")
      case True
      then have "p = unat block * 32768 + unat offset \<longleftrightarrow> p mod 32768 = unat offset"
        using assms(4) div_mult_mod_eq [of p 32768] by (metis add_left_cancel)
      then show ?thesis using True f'(5) len by (auto simp: file_byte_def cached_def bp)
    next
      case False
      then have "p \<noteq> unat block * 32768 + unat offset" using assms(4) by auto
      then show ?thesis using False f'(5) by (auto simp: file_byte_def cached_def bp)
    qed
    then show ?thesis using f'(6) p by simp
  qed
  then show ?thesis using f' len ok by (auto simp: put_byte_def same_file_def)
qed

end

subsection \<open>Blocks by path\<close>

context disk
begin

lemma yields_rd_block:
  "has v C \<Longrightarrow> unat loc + n \<le> limit \<Longrightarrow> yields (rd_block n dev loc v) (map C [unat loc..<unat loc + n]) C"
proof (induction n arbitrary: v loc)
  case (Suc n)
  have nx: "unat (loc + 1) = Suc (unat loc)" using unat_next [OF Suc.prems(1)] Suc.prems(2) by simp
  have "yields (do { (cs, v) \<leftarrow> rd_block n dev (loc + 1) v'; Some (C (unat loc) # cs, v) }) (map C [unat loc..<unat loc + Suc n]) C"
    if "has v' C" for v'
    using Suc.IH [OF that, of "loc + 1"] Suc.prems(2) by (auto simp: nx yields_def upt_conv_Cons simp del: upt_Suc)
  then show ?case unfolding rd_block.simps
    using Suc.prems by (intro yields_bind [OF yields_rd_byte [OF Suc.prems(1)]]) auto
qed (simp add: yields_return)

lemma stores_wr_block:
  "has v C \<Longrightarrow> unat loc + length bs \<le> limit \<Longrightarrow> stores (wr_block dev loc bs v) (put_bytes bs (unat loc) C)"
proof (induction bs arbitrary: v C loc)
  case (Cons b bs)
  have nx: "unat (loc + 1) = Suc (unat loc)" using unat_next [OF Cons.prems(1)] Cons.prems(2) by simp
  have "stores (wr_block dev (loc + 1) bs v') (put_bytes (b # bs) (unat loc) C)" if "has v' (C(unat loc := b))" for v'
    using Cons.IH [OF that, of "loc + 1"] Cons.prems(2) by (simp add: nx fun_upd_def)
  then show ?case unfolding wr_block.simps
    using Cons.prems by (intro stores_bind [OF stores_wr_byte [OF Cons.prems(1)]]) auto
qed (simp add: stores_def)

lemma has_self: "ok v \<Longrightarrow> has v (content v)"
  by (simp add: has_def)

end

sublocale disk \<subseteq> path: block_store "by_path dev m" ok content limit for m
proof
  fix v :: "'w vfs" and loc :: u64 and bs buf :: "u8 list"
  assume ok: "ok v"
  then show "limit < 2 ^ 63" by (rule limit_small)
  show "\<exists>v'. a_load (by_path dev m) loc buf v = Some (map (content v) [unat loc..<unat loc + length buf], v') \<and> ok v'
      \<and> (\<forall>q<limit. content v' q = content v q)" if "unat loc + length buf \<le> limit"
    using yields_rd_block [OF has_self [OF ok] that] by (auto simp: yields_def has_def by_path_def)
  show "\<exists>v'. a_store (by_path dev m) loc bs v = Some v' \<and> ok v'
      \<and> (\<forall>q<limit. content v' q = (if unat loc \<le> q \<and> q < unat loc + length bs then bs ! (q - unat loc) else content v q))"
    if "unat loc + length bs \<le> limit"
    using stores_wr_block [OF has_self [OF ok] that] by (auto simp: stores_def has_def by_path_def put_bytes_apply)
qed

subsection \<open>Blocks by handle\<close>

interpretation bh: block_store "by_handle jk h" "on_handle h d E okw cw limit" "\<lambda>v. cw (dev_world (world v))" limit
  for jk h d E okw cw limit
proof
  fix v :: "'a devfs vfs" and loc :: u64 and bs buf :: "u8 list"
  assume ok: "on_handle h d E okw cw limit v"
  then have lim: "limit < 2 ^ 31" by (simp add: on_handle_def)
  then show "limit < 2 ^ 63" by simp
  have s: "s32 (uint loc) = int (unat loc)" if "unat loc \<le> limit"
    by (rule s32_uint_small) (use that lim in linarith)
  show "\<exists>v'. a_load (by_handle jk h) loc buf v = Some (map (cw (dev_world (world v))) [unat loc..<unat loc + length buf], v')
      \<and> on_handle h d E okw cw limit v' \<and> (\<forall>q<limit. cw (dev_world (world v')) q = cw (dev_world (world v)) q)"
    if "unat loc + length buf \<le> limit"
    using on_handle_read [OF ok that] s that by (simp add: by_handle_def read_u_def)
  show "\<exists>v'. a_store (by_handle jk h) loc bs v = Some v' \<and> on_handle h d E okw cw limit v'
      \<and> (\<forall>q<limit. cw (dev_world (world v')) q = (if unat loc \<le> q \<and> q < unat loc + length bs then bs ! (q - unat loc) else cw (dev_world (world v)) q))"
    if "unat loc + length bs \<le> limit"
    using on_handle_write [OF ok that] s that by (simp add: by_handle_def write_u_def)
qed

subsection \<open>Reading and writing through a handle\<close>

text \<open>The file \<open>f\<close> on the disk \<open>C\<close> becomes the file \<open>f'\<close> with the bytes \<open>g\<close>; nothing else on the disk changes.\<close>

definition becomes :: "nat \<Rightarrow> nat \<Rightarrow> cached_file_t \<Rightarrow> (nat \<Rightarrow> u8) \<Rightarrow> (nat \<Rightarrow> u8) \<Rightarrow> cached_file_t \<Rightarrow> (nat \<Rightarrow> u8) \<Rightarrow> bool" where
  "becomes limit n f C g f' C' \<longleftrightarrow> file_ok limit n C' f' \<and> same_file f f'
     \<and> (\<forall>p<n * BYTES_PER_BLOCK. file_byte f' C' p = g p)
     \<and> (\<forall>q<limit. (\<forall>b<n. q div BYTES_PER_BLOCK \<noteq> unat (alloc_map f ! b)) \<longrightarrow> C' q = C q)"

lemma becomes_refl: "file_ok limit n C f \<Longrightarrow> becomes limit n f C (file_byte f C) f C"
  by (simp add: becomes_def same_file_def)

lemma becomes_trans:
  "becomes limit n f C g f1 C1 \<Longrightarrow> becomes limit n f1 C1 g' f2 C2 \<Longrightarrow> (\<And>p. p < n * 32768 \<Longrightarrow> g' p = g'' p) \<Longrightarrow>
   becomes limit n f C g'' f2 C2"
  by (auto simp: becomes_def same_file_def)

text \<open>Positions of a file as the 32-bit \<open>long\<close> of the code and the words it computes from them.\<close>

definition ceil_blocks :: "nat \<Rightarrow> nat" where
  "ceil_blocks x = x div BYTES_PER_BLOCK + (if x mod BYTES_PER_BLOCK \<noteq> 0 then 1 else 0)"

lemma ceil_blocks_eq: "ceil_blocks x = (x + 32767) div 32768"
proof (cases "x mod 32768 = 0")
  case True
  then obtain q where "x = 32768 * q" by auto
  then have "(x + 32767) div 32768 = x div 32768" by simp
  then show ?thesis using True by (simp add: ceil_blocks_def)
next
  case False
  define q r where "q = x div 32768" and "r = x mod 32768"
  then have x: "x = 32768 * q + r" "0 < r" "r < 32768" using False by simp_all
  then have "(x + 32767) div 32768 = Suc q" by (intro div_nat_eqI) simp_all
  then have "(x + 32767) div 32768 = Suc (x div 32768)" by (simp add: q_def)
  then show ?thesis using False by (simp add: ceil_blocks_def)
qed

lemma ceil_blocks_mono: "x \<le> y \<Longrightarrow> ceil_blocks x \<le> ceil_blocks y"
  by (simp add: ceil_blocks_eq div_le_mono)

lemma div_less_ceil_blocks: "p < x \<Longrightarrow> p div 32768 < ceil_blocks x"
  using div_le_mono [of "p + 32768" "x + 32767" 32768] by (simp add: ceil_blocks_eq)

lemma blocks_for_eq: "blocks_for sz = ceil_blocks (unat sz)"
proof -
  have "unat sz div 32768 < 18446744073709551615"
    using div_le_dividend [of "unat sz" 32768] unsigned_less [of sz, where 'a = nat] div_le_mono [of "unat sz" 18446744073709551615 32768] by simp
  moreover have "sz mod 32768 = 0 \<longleftrightarrow> unat sz mod 32768 = 0" by (simp add: word_unat_eq_iff unat_mod)
  ultimately show ?thesis by (auto simp: blocks_for_def ceil_blocks_def unat_word_ariths unat_div)
qed

lemma tdiv_pos: "tdiv (int p) 32768 = int (p div 32768)" "tmod (int p) 32768 = int (p mod 32768)"
  by (cases "p = 0"; simp add: tdiv_def tmod_def zdiv_int zmod_int sgn_if)+

lemma unat_pos:
  assumes "p < 2 ^ 31"
  shows "unat (word_of_int (int (p div 32768)) :: u64) = p div 32768" "unat (word_of_int (int (p mod 32768)) :: u64) = p mod 32768"
    "unat (word_of_int (int p) :: u64) = p"
proof -
  have "p div 32768 \<le> p" "p mod 32768 \<le> p" by simp_all
  then show "unat (word_of_int (int (p div 32768)) :: u64) = p div 32768" "unat (word_of_int (int (p mod 32768)) :: u64) = p mod 32768"
    "unat (word_of_int (int p) :: u64) = p" using assms by (simp_all add: unat_of_nat)
qed

lemma new_block_count_eq:
  assumes "Suc p < 2 ^ 31"
  shows "unat (word_of_int (tdiv (int (Suc p)) 32768) + (if tmod (int (Suc p)) 32768 \<noteq> 0 then 1 else 0) :: u64) = ceil_blocks (Suc p)"
proof -
  have "Suc p div 32768 < 2 ^ 31" using div_le_dividend [of "Suc p" 32768] assms by linarith
  moreover have "int (Suc p mod 32768) = 0 \<longleftrightarrow> Suc p mod 32768 = 0" by linarith
  ultimately show ?thesis
    unfolding tdiv_pos by (simp add: ceil_blocks_def unat_word_ariths unat_of_nat del: of_nat_Suc)
qed

lemma uint_not_minus_1: "uint x \<noteq> - 1"
  using uint_ge_0 [of x] by linarith

context block_store
begin

lemma get_byte_becomes:
  assumes "ok v" and "file_ok limit n (content v) f" and "unat block < n" and "unat offset < 32768"
  shows "\<exists>f' v'. get_byte acc block offset f v = Some (file_byte f (content v) (unat block * 32768 + unat offset), f', v')
     \<and> ok v' \<and> becomes limit n f (content v) (file_byte f (content v)) f' (content v')"
  using get_byte_spec [OF assms] by (auto simp: becomes_def)

lemma put_byte_becomes:
  assumes "ok v" and "file_ok limit n (content v) f" and "unat block < n" and "unat offset < 32768"
  shows "\<exists>f' v'. put_byte acc block offset val f v = Some (f', v')
     \<and> ok v' \<and> becomes limit n f (content v) ((file_byte f (content v))(unat block * 32768 + unat offset := val)) f' (content v')"
  using put_byte_spec [OF assms, of val] by (auto simp: becomes_def fun_upd_def)

lemma uread_bytes_spec:
  "ok v \<Longrightarrow> file_ok limit n (content v) f \<Longrightarrow> e \<le> n * 32768 \<Longrightarrow> e < 2 ^ 31 \<Longrightarrow>
   \<exists>f' v'. uread_bytes acc k (int p) (int e) f v =
       Some (map (file_byte f (content v)) [p..<p + min k (e - p)], int (p + min k (e - p)), f', v')
     \<and> ok v' \<and> becomes limit n f (content v) (file_byte f (content v)) f' (content v')"
proof (induction k arbitrary: p f v)
  case 0
  then show ?case by (simp add: becomes_refl)
next
  case (Suc k)
  show ?case
  proof (cases "p < e")
    case False
    then show ?thesis using Suc.prems by (simp add: echfs_ureadbyte_def becomes_refl)
  next
    case True
    have p: "p < 2 ^ 31" "p div 32768 < n" "p mod 32768 < 32768" using True Suc.prems by (simp_all add: less_mult_imp_div_less)
    from get_byte_becomes [OF Suc.prems(1,2), of "word_of_int (int (p div 32768))" "word_of_int (int (p mod 32768))"] p
    obtain f1 v1 where 1: "get_byte acc (word_of_int (int (p div 32768))) (word_of_int (int (p mod 32768))) f v
        = Some (file_byte f (content v) p, f1, v1)" "ok v1" "becomes limit n f (content v) (file_byte f (content v)) f1 (content v1)"
      unfolding unat_pos [OF p(1)] by auto
    have s: "s32 (int p + 1) = int (Suc p)" using True Suc.prems(4) by (subst s32_id) auto
    have ok1: "file_ok limit n (content v1) f1" using 1(3) by (simp add: becomes_def)
    from Suc.IH [OF 1(2) ok1 Suc.prems(3,4), of "Suc p"] obtain f2 v2 where 2:
      "uread_bytes acc k (int (Suc p)) (int e) f1 v1 =
         Some (map (file_byte f1 (content v1)) [Suc p..<Suc p + min k (e - Suc p)], int (Suc p + min k (e - Suc p)), f2, v2)"
      "ok v2" "becomes limit n f1 (content v1) (file_byte f1 (content v1)) f2 (content v2)" by blast
    have same: "file_byte f1 (content v1) q = file_byte f (content v) q" if "q < n * 32768" for q
      using 1(3) that by (simp add: becomes_def)
    have m: "p + min (Suc k) (e - p) = Suc p + min k (e - Suc p)" using True by simp
    then have "map (file_byte f (content v)) [p..<p + min (Suc k) (e - p)]
        = file_byte f (content v) p # map (file_byte f1 (content v1)) [Suc p..<Suc p + min k (e - Suc p)]"
      using True Suc.prems(3) same by (simp add: upt_conv_Cons del: upt_Suc) auto
    moreover have "becomes limit n f (content v) (file_byte f (content v)) f2 (content v2)"
      by (rule becomes_trans [OF 1(3) 2(3)]) (rule same)
    ultimately show ?thesis
      using True 1(1) 2(1,2) s m uint_not_minus_1 [of "file_byte f (content v) p"]
      unfolding uread_bytes.simps echfs_ureadbyte_def tdiv_pos by (auto simp del: of_nat_Suc upt_Suc)
  qed
qed

lemma uwrite_bytes_spec:
  "ok v \<Longrightarrow> file_ok limit n (content v) f \<Longrightarrow> p + length bs \<le> unat (esize (target (cf_result f))) \<Longrightarrow>
   unat (esize (target (cf_result f))) \<le> n * 32768 \<Longrightarrow> p + length bs < 2 ^ 31 \<Longrightarrow>
   \<exists>f' v'. uwrite_bytes acc m bs (int p) f v = Some (int (p + length bs), f', v')
     \<and> ok v' \<and> becomes limit n f (content v) (put_bytes bs p (file_byte f (content v))) f' (content v')"
proof (induction bs arbitrary: p f v)
  case Nil
  then show ?case by (simp add: becomes_refl)
next
  case (Cons b bs)
  let ?sz = "esize (target (cf_result f))"
  have p: "p < 2 ^ 31" "Suc p < 2 ^ 31" "p < unat ?sz" "Suc p \<le> unat ?sz" "p div 32768 < n" "p mod 32768 < 32768"
    using Cons.prems by (simp_all add: less_mult_imp_div_less)
  have s: "s32 (int p + 1) = int (Suc p)" using p(2) by (subst s32_id) auto
  have "\<not> ?sz \<le> word_of_int (int p)" using p(3) unat_pos(3) [OF p(1)] by (simp add: word_le_nat_alt)
  moreover have "\<not> blocks_for ?sz < ceil_blocks (Suc p)" using ceil_blocks_mono [OF p(4)] by (simp add: blocks_for_eq)
  ultimately have "echfs_uwritebyte acc m (int p) b f v = do {
      (f, v) \<leftarrow> put_byte acc (word_of_int (int (p div 32768))) (word_of_int (int (p mod 32768))) b f v; Some (int (Suc p), f, v) }"
    unfolding echfs_uwritebyte_def Let_def s unfolding new_block_count_eq [OF p(2)] unfolding tdiv_pos write_byte_def Let_def by simp
  moreover from put_byte_becomes [OF Cons.prems(1,2), of "word_of_int (int (p div 32768))" "word_of_int (int (p mod 32768))" b] p
  obtain f1 v1 where 1: "put_byte acc (word_of_int (int (p div 32768))) (word_of_int (int (p mod 32768))) b f v = Some (f1, v1)"
    "ok v1" "becomes limit n f (content v) ((file_byte f (content v))(p := b)) f1 (content v1)"
    unfolding unat_pos [OF p(1)] by auto
  ultimately have step: "echfs_uwritebyte acc m (int p) b f v = Some (int (Suc p), f1, v1)" by simp
  have ok1: "file_ok limit n (content v1) f1" and res: "cf_result f1 = cf_result f" using 1(3) by (simp_all add: becomes_def same_file_def)
  from Cons.IH [OF 1(2) ok1, of "Suc p"] Cons.prems res obtain f2 v2 where 2:
    "uwrite_bytes acc m bs (int (Suc p)) f1 v1 = Some (int (Suc p + length bs), f2, v2)" "ok v2"
    "becomes limit n f1 (content v1) (put_bytes bs (Suc p) (file_byte f1 (content v1))) f2 (content v2)" by auto
  have "put_bytes bs (Suc p) (file_byte f1 (content v1)) q = put_bytes (b # bs) p (file_byte f (content v)) q" if "q < n * 32768" for q
    using 1(3) that by (simp add: becomes_def put_bytes_apply)
  then have "becomes limit n f (content v) (put_bytes (b # bs) p (file_byte f (content v))) f2 (content v2)"
    by (rule becomes_trans [OF 1(3) 2(3)])
  then show ?case using step 2(1,2) by auto
qed

end

subsection \<open>Writing an entry at once\<close>

lemma put_le_bytes: "put_bytes (le_bytes n x) a C = wr_le n C a x"
  by (rule ext) (auto simp: put_bytes_apply le_bytes_def wr_le_apply)

lemma length_le_bytes: "length (le_bytes n x) = n"
  by (simp add: le_bytes_def)

lemma length_entry_bytes: "length (ename e) < 218 \<Longrightarrow> 218 \<le> length jk \<Longrightarrow> length (entry_bytes jk e) = 256"
  by (simp add: entry_bytes_def length_le_bytes)

text \<open>The bytes of an entry, put on the disk in one piece, are the entry with arbitrary bytes behind its name.\<close>

lemma entry_at_entry_bytes:
  assumes "length (ename e) < 218" and "NUL \<notin> set (ename e)" and "218 \<le> length jk"
  shows "entry_at (put_bytes (entry_bytes jk e) a C) a = e"
proof -
  let ?n = "length (ename e)"
  let ?J = "put_bytes (drop (?n + 1) (take 218 jk)) (a + 10 + ?n)"
  have c1: "?J (wr_le 8 C a x) = wr_le 8 (?J C) a x" for C x by (rule ext) (auto simp: put_bytes_apply wr_le_apply)
  have c2: "?J (C(a + 8 := x)) = (?J C)(a + 8 := x)" for C x by (rule ext) (auto simp: put_bytes_apply)
  have c3: "?J (put_bytes (map of_char (ename e) @ [0]) (a + 9) C) = put_bytes (map of_char (ename e) @ [0]) (a + 9) (?J C)" for C
    by (rule ext) (auto simp: put_bytes_apply)
  have len: "?n + (1 + (218 - (?n + 1))) = 218" using assms(1) by simp
  have "put_bytes (entry_bytes jk e) a C = put_entry e a (?J C)"
    unfolding put_entry_def Let_def c1 [symmetric] c2 [symmetric] c3 [symmetric] entry_bytes_def
    using assms(1,3) by (simp add: put_bytes_append put_le_bytes length_le_bytes ac_simps min_def)
  then show ?thesis by (simp only: entry_at_put_entry [OF assms(1,2)])
qed

lemma entry_loc_dvd: "256 dvd unat (entry_loc m i)"
proof -
  have "entry_loc m i = 256 * (dirstart m * 128 + i)" by (simp add: entry_loc_def algebra_simps)
  moreover have "unat (256 * y) = (256 * unat y) mod 2 ^ 64" for y :: u64 by (simp add: unat_word_ariths)
  ultimately have "unat (entry_loc m i) = (256 * unat (dirstart m * 128 + i)) mod 2 ^ 64" by metis
  then show ?thesis by (simp add: dvd_mod)
qed

lemma entry_in_one_block: "k < 256 \<Longrightarrow> (unat (entry_loc m i) + k) div 32768 = unat (entry_loc m i) div 32768"
proof -
  assume k: "k < 256"
  obtain q where q: "unat (entry_loc m i) = 256 * q" using entry_loc_dvd [of m i] by blast
  have "(256 * q + k) div (256 * 128) = q div 128" using k by (simp add: div_mult2_eq)
  moreover have "256 * q div (256 * 128) = q div 128" by (simp add: div_mult2_eq)
  ultimately show ?thesis using q by simp
qed

subsection \<open>Open files\<close>

abbreviation (input) disk_of :: "('w \<Rightarrow> nat \<Rightarrow> u8) \<Rightarrow> 'w devfs echfs \<Rightarrow> nat \<Rightarrow> u8" where
  "disk_of cw s \<equiv> cw (dev_world (world (evfs s)))"

text \<open>An open handle of a file whose blocks and cache are in order, on a device of the device file system.\<close>

definition opened ::
  "int \<Rightarrow> echfs_handle_t \<Rightarrow> nat \<Rightarrow> cached_file_t \<Rightarrow> nat \<Rightarrow> 'w device_t \<Rightarrow> u64 \<Rightarrow> ('w \<Rightarrow> bool) \<Rightarrow> ('w \<Rightarrow> nat \<Rightarrow> u8) \<Rightarrow> nat \<Rightarrow> 'w devfs echfs \<Rightarrow> bool" where
  "opened handle h i f n d E okw cw limit s \<longleftrightarrow> get_handle handle s = Some h \<and> eh_device h < length (mounts s)
     \<and> handle_file h s = Some (i, f) \<and> on_handle (eh_dev_handle h) d E okw cw limit (evfs s) \<and> file_ok limit n (disk_of cw s) f"

lemma on_handle_stat:
  "on_handle h d E okw cw limit (v\<lparr>vfs_read_stat := b\<rparr>) = on_handle h d E okw cw limit v"
  "on_handle h d E okw cw limit (v\<lparr>vfs_write_stat := b\<rparr>) = on_handle h d E okw cw limit v"
  by (simp_all add: on_handle_def handle_fs_def vfs_translate_fs_def Let_def)

lemma handle_file_ptr [simp]: "handle_file (h\<lparr>eh_ptr := p\<rparr>) s = handle_file h s"
  by (simp add: handle_file_def)

text \<open>The state after a transfer: the handle has moved, the file and the device state have changed.\<close>

lemma opened_update:
  assumes "opened handle h i f n d E okw cw limit s" and "on_handle (eh_dev_handle h) d E okw cw limit v"
    and "file_ok limit n (cw (dev_world (world v))) f'"
  shows "opened handle (h\<lparr>eh_ptr := p\<rparr>) i f' n d E okw cw limit
    (s\<lparr>evfs := v, cached_files := (cached_files s)[i := f'], echfs_handles := (echfs_handles s)[nat handle := h\<lparr>eh_ptr := p\<rparr>]\<rparr>)"
  using assms by (auto simp: opened_def get_handle_def handle_file_def arr_get_def split: if_splits prod.splits)

text \<open>
  Reading an open file at position \<open>p\<close> delivers exactly the bytes of the file from \<open>p\<close> on, whether
  they are in the cache or on the disk; the handle moves behind them, and neither the file nor the rest
  of the disk changes, even when a dirty block had to be written back on the way.
\<close>

lemma uread_opened:
  assumes "opened handle h i f n d E okw cw limit s" and "eh_ptr h = int p" and "eh_end h = int e"
    and "e \<le> n * BYTES_PER_BLOCK" and "e < 2 ^ 31"
  shows "\<exists>stat f' s'. echfs_uread handle (int k) s =
      Some ((int (min k (e - p)), map (file_byte f (disk_of cw s)) [p..<p + min k (e - p)], stat), s')
    \<and> opened handle (h\<lparr>eh_ptr := int (p + min k (e - p))\<rparr>) i f' n d E okw cw limit s'
    \<and> becomes limit n f (disk_of cw s) (file_byte f (disk_of cw s)) f' (disk_of cw s')"
proof (cases "k = 0 \<or> e \<le> p")
  case True
  have "h\<lparr>eh_ptr := int p\<rparr> = h" using assms(2) by (cases h) simp
  moreover have "min k (e - p) = 0" using True by auto
  ultimately show ?thesis
    using True assms(1-3) by (auto simp: echfs_uread_def opened_def intro: becomes_refl)
next
  case False
  let ?v = "(evfs s)\<lparr>vfs_read_stat := False\<rparr>"
  have v: "on_handle (eh_dev_handle h) d E okw cw limit ?v" "file_ok limit n (cw (dev_world (world ?v))) f"
    using assms(1) by (simp_all add: opened_def on_handle_stat)
  from bh.uread_bytes_spec [OF v assms(4,5), of "junk s" k p] obtain f' v' where 1:
    "uread_bytes (by_handle (junk s) (eh_dev_handle h)) k (int p) (int e) f ?v =
      Some (map (file_byte f (disk_of cw s)) [p..<p + min k (e - p)], int (p + min k (e - p)), f', v')"
    "on_handle (eh_dev_handle h) d E okw cw limit v'" "becomes limit n f (disk_of cw s) (file_byte f (disk_of cw s)) f' (cw (dev_world (world v')))"
    by auto
  have "file_ok limit n (cw (dev_world (world v'))) f'" using 1(3) by (simp add: becomes_def)
  from opened_update [OF assms(1) 1(2) this, of "int (p + min k (e - p))"] 1(1,3) assms(1,2,3) False show ?thesis
    by (auto simp: echfs_uread_def opened_def simp del: of_nat_add)
qed

text \<open>
  Writing bytes that end within the file's size replaces exactly those bytes of the file and keeps all
  others, moves the handle behind them, and leaves the file's directory entry on the disk as it is cached.
\<close>

lemma uwrite_opened:
  assumes "opened handle h i f n d E okw cw limit s" and "eh_ptr h = int p" and "mounts s ! eh_device h = m"
    and "p + length bs \<le> unat (esize (target (cf_result f)))" and "unat (esize (target (cf_result f))) \<le> n * BYTES_PER_BLOCK"
    and "p + length bs < 2 ^ 31" and "unat (entry_loc m (target_entry (cf_result f))) + 256 \<le> limit"
    and "\<forall>b<n. unat (entry_loc m (target_entry (cf_result f))) div BYTES_PER_BLOCK \<noteq> unat (alloc_map f ! b)"
    and "length (ename (target (cf_result f))) < FILENAME_LEN" and "NUL \<notin> set (ename (target (cf_result f)))"
    and "FILENAME_LEN \<le> length (junk s)"
  shows "\<exists>stat f' s'. echfs_uwrite handle bs s = Some ((int (length bs), stat), s')
    \<and> opened handle (h\<lparr>eh_ptr := int (p + length bs)\<rparr>) i f' n d E okw cw limit s'
    \<and> (\<forall>q<n * BYTES_PER_BLOCK. file_byte f' (disk_of cw s') q =
         (if p \<le> q \<and> q < p + length bs then bs ! (q - p) else file_byte f (disk_of cw s) q))
    \<and> entry_at (disk_of cw s') (unat (entry_loc m (target_entry (cf_result f)))) = target (cf_result f)"
proof -
  let ?v = "(evfs s)\<lparr>vfs_write_stat := False\<rparr>" and ?r = "cf_result f"
  let ?a = "entry_loc m (target_entry ?r)" and ?bs = "entry_bytes (junk s) (target ?r)"
  have v: "on_handle (eh_dev_handle h) d E okw cw limit ?v" "file_ok limit n (cw (dev_world (world ?v))) f"
    using assms(1) by (simp_all add: opened_def on_handle_stat)
  from bh.uwrite_bytes_spec [OF v assms(4,5,6), of "junk s" m] obtain f' v' where 1:
    "uwrite_bytes (by_handle (junk s) (eh_dev_handle h)) m bs (int p) f ?v = Some (int (p + length bs), f', v')"
    "on_handle (eh_dev_handle h) d E okw cw limit v'"
    "becomes limit n f (disk_of cw s) (put_bytes bs p (file_byte f (disk_of cw s))) f' (cw (dev_world (world v')))" by auto
  have len: "length ?bs = 256" by (rule length_entry_bytes) (use assms in auto)
  let ?C = "cw (dev_world (world v'))"
  from bh.store_law [OF 1(2), of ?a ?bs "junk s"] assms(7) len obtain v2 where 2:
    "write_u (eh_dev_handle h) ?a ?bs v' = Some v2" "on_handle (eh_dev_handle h) d E okw cw limit v2"
    "\<forall>q<limit. cw (dev_world (world v2)) q = put_bytes ?bs (unat ?a) ?C q"
    by (auto simp: by_handle_def put_bytes_apply)
  let ?C2 = "cw (dev_world (world v2))"
  have res: "cf_result f' = ?r" "alloc_map f' = alloc_map f" and ok1: "file_ok limit n ?C f'"
    using 1(3) by (simp_all add: becomes_def same_file_def)
  have blk: "?C2 (block_pos f' b + k) = ?C (block_pos f' b + k)" if "b < n" "k < 32768" for b k
  proof -
    have "block_pos f' b + k < limit" using ok1 that by (auto simp: file_ok_def)
    moreover have "\<not> (unat ?a \<le> block_pos f' b + k \<and> block_pos f' b + k < unat ?a + 256)"
    proof
      assume "unat ?a \<le> block_pos f' b + k \<and> block_pos f' b + k < unat ?a + 256"
      then obtain j where "block_pos f' b + k = unat ?a + j" "j < 256" by (metis le_add_diff_inverse nat_add_left_cancel_less)
      then have "(block_pos f' b + k) div 32768 = unat ?a div 32768" using entry_in_one_block by simp
      then show False using assms(8) that res(2) by (auto simp: block_pos_def)
    qed
    ultimately show ?thesis using 2(3) len by (auto simp: put_bytes_apply)
  qed
  have ok2: "file_ok limit n ?C2 f'" using ok1 blk by (auto simp: file_ok_def)
  have "file_byte f' ?C2 q = file_byte f' ?C q" if "q < n * 32768" for q
    using blk [of "q div 32768" "q mod 32768"] that by (simp add: file_byte_def less_mult_imp_div_less)
  then have bytes: "file_byte f' ?C2 q = (if p \<le> q \<and> q < p + length bs then bs ! (q - p) else file_byte f (disk_of cw s) q)"
    if "q < n * 32768" for q using 1(3) that by (simp add: becomes_def put_bytes_apply)
  have "entry_at ?C2 (unat ?a) = entry_at (put_bytes ?bs (unat ?a) ?C) (unat ?a)"
    by (rule entry_at_cong) (use 2(3) assms(7) in auto)
  also have "\<dots> = target ?r" by (rule entry_at_entry_bytes) (use assms in auto)
  finally have "entry_at ?C2 (unat ?a) = target ?r" .
  with opened_update [OF assms(1) 2(2) ok2, of "int (p + length bs)"] bytes 1(1) 2(1) assms(1,2,3) res show ?thesis
    by (auto simp: echfs_uwrite_def opened_def wr_entry_u_def simp del: of_nat_add)
qed

lemma seek_opened:
  assumes "opened handle h i f n d E okw cw limit s" and "\<not> eh_free h" and "eh_begin h = 0" and "int q \<le> eh_end h" and "q < 2 ^ 31"
  shows "\<exists>s'. echfs_seek handle (int q) SEEK_SET s = (int q, s') \<and> evfs s' = evfs s
    \<and> opened handle (h\<lparr>eh_ptr := int q\<rparr>) i f n d E okw cw limit s'"
proof -
  have "s32 (int q) = int q" using assms(5) by (subst s32_id) auto
  then show ?thesis
    using assms by (auto simp: echfs_seek_def seek_base_of_def opened_def get_handle_def handle_file_def arr_get_def Let_def split: if_splits prod.splits)
qed

end
