(* ===== verification/Echfs_Open.thy ===== *)
theory Echfs_Open
  imports Echfs_File
begin

text \<open>
  Opening a file of \<open>kernel/src/fs/echfs.c\<close> on a kernel set up as \<open>kernel/init.c\<close> does it: the device
  file system is mounted on \<open>/dev\<close>, and the disk is one of its devices, reached by the path
  \<open>:://name\<close> and by handles that the switch opens as \<open>/dev/name\<close>.
\<close>

text \<open>The allocation table of a disk, and the chains in it.\<close>

definition fat_pos :: "mount_t \<Rightarrow> nat \<Rightarrow> nat" where
  "fat_pos m b = unat (fatstart m) * BYTES_PER_BLOCK + b * 8"

definition fat :: "(nat \<Rightarrow> u8) \<Rightarrow> mount_t \<Rightarrow> nat \<Rightarrow> u64" where
  "fat C m b = of_nat (rd_le 8 C (fat_pos m b))"

fun chained :: "(nat \<Rightarrow> u8) \<Rightarrow> mount_t \<Rightarrow> nat \<Rightarrow> u64 list \<Rightarrow> bool" where
  "chained C m limit [] = False"
| "chained C m limit [b] = (b = END_OF_CHAIN)"
| "chained C m limit (b # c # bs) =
     (b \<noteq> END_OF_CHAIN \<and> fat_pos m (unat b) + 8 \<le> limit \<and> fat C m (unat b) = c \<and> chained C m limit (c # bs))"

context disk
begin

lemma unat_fat_pos:
  assumes "has v C" and "fat_pos m (unat b) + 8 \<le> limit"
  shows "unat (fatstart m * 32768 + b * 8) = fat_pos m (unat b)"
  using assms limit_small [of v] by (auto simp: has_def fat_pos_def unat_word_ariths)

lemma yields_rd_fat:
  assumes "has v C" and "fat_pos m (unat b) + 8 \<le> limit"
  shows "yields (rd_qword dev (fatstart m * 32768 + b * 8) v) (fat C m (unat b)) C"
  using yields_rd_qword [OF assms(1), of "fatstart m * 32768 + b * 8"] unat_fat_pos [OF assms] assms(2)
  by (simp add: fat_def del: rd_le.simps)

lemma yields_chain_from: "chained C m limit bs \<Longrightarrow> has v C \<Longrightarrow> yields (chain_from (hd bs) dev m v) bs C"
proof (induction bs arbitrary: v)
  case (Cons b bs)
  show ?case
  proof (cases bs)
    case Nil
    then show ?thesis using Cons.prems by (subst chain_from.simps) (simp add: yields_return)
  next
    case (Cons c cs)
    have b: "b \<noteq> END_OF_CHAIN" "fat_pos m (unat b) + 8 \<le> limit" "fat C m (unat b) = c" "chained C m limit bs"
      using Cons.prems(1) Cons by auto
    from yields_rd_fat [OF Cons.prems(2) b(2)] b(3) obtain v1 where
      v1: "rd_qword dev (fatstart m * 32768 + b * 8) v = Some (c, v1)" "has v1 C" by (auto simp: yields_def)
    from Cons.IH [OF b(4) v1(2)] Cons obtain v2 where "chain_from c dev m v1 = Some (bs, v2)" "has v2 C" by (auto simp: yields_def)
    then show ?thesis using b(1) v1(1) by (subst chain_from.simps) (auto simp: yields_def)
  qed
qed simp

end

subsection \<open>A disk of the device file system\<close>

definition dev_disk :: "string \<Rightarrow> 'w device_t \<Rightarrow> ('w \<Rightarrow> bool) \<Rightarrow> ('w \<Rightarrow> nat \<Rightarrow> u8) \<Rightarrow> nat \<Rightarrow> 'w devfs vfs \<Rightarrow> bool" where
  "dev_disk name d okw cw limit v \<longleftrightarrow> byte_device (dev_io d) (gp_value d) okw cw limit \<and> okw (dev_world (world v))
     \<and> devices_shared v \<and> (\<exists>i. find_device name (device_list (world v)) = Some i \<and> device_list (world v) ! i = d)
     \<and> (\<exists>k local dv. resolve_absolute (''/dev/'' @ name) v = Some (k, devfs_fs, local, dv) \<and> skip_slash local = name)
     \<and> 0 < dev_size d \<and> limit \<le> unat (dev_size d) \<and> uint (dev_size d) < 2 ^ 63 \<and> limit < 2 ^ 31
     \<and> length name + 5 < length (stack v) \<and> length name < 1023"

lemma find_device_less: "find_device name ds = Some i \<Longrightarrow> i < length ds"
  by (simp add: find_device_def first_index_less)

lemma resolve_absolute_world: "resolve_absolute p (v\<lparr>world := w\<rparr>) = resolve_absolute p v"
  by (cases "vfs_translate_mnt p (map mp_mountpoint (mountpoints v))") (simp add: resolve_absolute_def vfs_translate_fs_def split: option.splits)

lemma dev_disk_world:
  assumes "dev_disk name d okw cw limit v" and "okw w"
  shows "dev_disk name d okw cw limit (v\<lparr>world := (world v)\<lparr>dev_world := w\<rparr>\<rparr>)"
  using assms by (simp add: dev_disk_def devices_shared_def resolve_absolute_world)

lemma dev_disk_access:
  assumes "dev_disk name d okw cw limit v"
  shows "vfs_kread ('':://'' @ name) loc v =
      map_option (\<lambda>(r, w). (r, v\<lparr>world := (world v)\<lparr>dev_world := w\<rparr>\<rparr>)) (dev_io d (gp_value d) loc 0 0 (dev_world (world v)))"
    and "vfs_kwrite ('':://'' @ name) loc x v =
      map_option (\<lambda>(r, w). (r, v\<lparr>world := (world v)\<lparr>dev_world := w\<rparr>\<rparr>)) (dev_io d (gp_value d) loc 1 x (dev_world (world v)))"
proof -
  from assms obtain i where i: "find_device name (device_list (world v)) = Some i" "device_list (world v) ! i = d"
    "vfs_devices v = map lift_device (device_list (world v))" by (auto simp: dev_disk_def devices_shared_def)
  then have f: "find_device name (vfs_devices v) = Some i" "vfs_devices v ! i = lift_device d"
    using find_device_less [OF i(1)] by (simp_all add: find_device_lift)
  show "vfs_kread ('':://'' @ name) loc v =
      map_option (\<lambda>(r, w). (r, v\<lparr>world := (world v)\<lparr>dev_world := w\<rparr>\<rparr>)) (dev_io d (gp_value d) loc 0 0 (dev_world (world v)))"
    "vfs_kwrite ('':://'' @ name) loc x v =
      map_option (\<lambda>(r, w). (r, v\<lparr>world := (world v)\<lparr>dev_world := w\<rparr>\<rparr>)) (dev_io d (gp_value d) loc 1 x (dev_world (world v)))"
    unfolding vfs_kread_device [OF f] vfs_kwrite_device [OF f]
    by (simp_all add: lift_device_def option.map_comp comp_def case_prod_unfold)
qed

interpretation dd: disk "'':://'' @ name" "dev_disk name d okw cw limit" "\<lambda>v. cw (dev_world (world v))" limit
  for name d okw cw limit
proof
  fix v :: "'a devfs vfs" and p :: u64 and x :: u8
  assume ok: "dev_disk name d okw cw limit v"
  then show "limit < 2 ^ 63" by (simp add: dev_disk_def)
  have dev: "byte_device (dev_io d) (gp_value d) okw cw limit" "okw (dev_world (world v))" using ok by (auto simp: dev_disk_def)
  note keep = dev_disk_world [OF ok]
  assume p: "unat p < limit"
  show "\<exists>v'. path_io ('':://'' @ name) 0 p DF_READ x v = Some (uint (cw (dev_world (world v)) (unat p)), v') \<and> dev_disk name d okw cw limit v'
      \<and> (\<forall>q<limit. cw (dev_world (world v')) q = cw (dev_world (world v)) q)"
    using byte_device.read_law [OF dev p, of 0] keep by (auto simp: path_io_def dev_disk_access [OF ok] simp del: append_Cons append_Nil)
  show "\<exists>v'. path_io ('':://'' @ name) 0 p DF_WRITE x v = Some (0, v') \<and> dev_disk name d okw cw limit v'
      \<and> (\<forall>q<limit. cw (dev_world (world v')) q = (if q = unat p then x else cw (dev_world (world v)) q))"
    using byte_device.write_law [OF dev p, of x] keep by (auto simp: path_io_def dev_disk_access [OF ok] simp del: append_Cons append_Nil)
qed

lemma skip_slash_length: "length p \<le> Suc (length (skip_slash p))"
  by (simp add: skip_slash_def split: list.splits char.splits bool.splits)

text \<open>Opening the disk through the switch gives a handle on the same bytes.\<close>

lemma kopen_dev_disk:
  assumes "dev_disk name d okw cw limit v"
  shows "\<exists>h v'. vfs_kopen ('':://'' @ name) O_RDWR 0 v = Some (h, v') \<and> on_handle h d (dev_size d) okw cw limit v'
    \<and> dev_world (world v') = dev_world (world v)"
proof -
  from assms obtain i k lp dv where v: "byte_device (dev_io d) (gp_value d) okw cw limit" "okw (dev_world (world v))"
    "find_device name (device_list (world v)) = Some i" "device_list (world v) ! i = d"
    "resolve_absolute (''/dev/'' @ name) v = Some (k, devfs_fs, lp, dv)" "skip_slash lp = name"
    "0 < dev_size d" "limit \<le> unat (dev_size d)" "uint (dev_size d) < 2 ^ 63" "limit < 2 ^ 31"
    "length name + 5 < length (stack v)" "length name < 1023" by (auto simp: dev_disk_def)
  have len: "length lp < 1024" using skip_slash_length [of lp] v(6,12) by simp
  from devfs_open_spec [of lp "world v" i O_RDWR 0] v(3,6) len obtain n w h where
    w: "devfs_open lp O_RDWR 0 (world v) = Some (int n, w)" "handle_device (int n) w = Some (h, d)" "df_ptr h = 0" "df_begin h = 0"
    "df_end h = dev_size d" "\<not> df_free h" "df_isblock h = (dev_size d = 0)" "dev_world w = dev_world (world v)" using v(4) by auto
  let ?f = "\<lparr>f2_free = False, f2_mountpoint = int k, f2_internal_handle = int n\<rparr>"
  obtain j hs where c: "create_file_handle_v2 (handles_of v 0) ?f = (j, hs)" by (cases "create_file_handle_v2 (handles_of v 0) ?f")
  let ?v = "v\<lparr>world := w, handles_of := (handles_of v)(0 := hs)\<rparr>"
  have "vfs_kopen ('':://'' @ name) O_RDWR 0 v = Some (int j, ?v)"
    using v(5,11) w(1) c by (simp add: vfs_kopen_def open_for_def direct_device_def devfs_fs_def)
  moreover have "handle_fs 0 (int j) ?v = Some (?f, devfs_fs)"
    using resolve_absoluteD [OF v(5)] fh2.create_stores [OF c] by (auto simp: handle_fs_def vfs_translate_fs_def)
  moreover have "open_on d (dev_size d) (int n) w" using w v(7,9) by (auto simp: open_on_def)
  ultimately show ?thesis using v w(8) by (auto simp: on_handle_def)
qed

subsection \<open>Files on a disk\<close>

text \<open>The file \<open>fname\<close> below the directories \<open>dirs\<close> is entry \<open>j\<close>, which is \<open>e\<close>, and has the blocks \<open>blks\<close>.\<close>

definition file_on_disk ::
  "(nat \<Rightarrow> u8) \<Rightarrow> nat \<Rightarrow> mount_t \<Rightarrow> nat \<Rightarrow> string list \<Rightarrow> string \<Rightarrow> nat \<Rightarrow> entry_t \<Rightarrow> u64 list \<Rightarrow> bool" where
  "file_on_disk C limit m n dirs fname j e blks \<longleftrightarrow> dir_ok C limit m n \<and> (\<forall>c \<in> set (dirs @ [fname]). good_name c)
     \<and> (\<exists>p. descend (searched C m n) root_entry dirs = Some p \<and> lookup fname (payload p) 0 (searched C m n) = Some j)
     \<and> searched C m n ! j = e \<and> payload e = hd (blks @ [END_OF_CHAIN]) \<and> chained C m limit (blks @ [END_OF_CHAIN])
     \<and> distinct blks \<and> (\<forall>b \<in> set blks. unat b * BYTES_PER_BLOCK + BYTES_PER_BLOCK \<le> limit)
     \<and> unat (esize e) \<le> length blks * BYTES_PER_BLOCK \<and> unat (esize e) < 2 ^ 31"

definition path_to :: "string list \<Rightarrow> string \<Rightarrow> string \<Rightarrow> bool" where
  "path_to dirs fname path \<longleftrightarrow> path = path_text dirs fname \<or> path = CHR ''/'' # path_text dirs fname"

context disk
begin

lemma yields_file_resolver:
  assumes "has v C" and "file_on_disk C limit m n dirs fname j e blks" and "path_to dirs fname path"
  shows "\<exists>r. yields (path_resolver dev m path 0 v) r C \<and> \<not> failure r \<and> \<not> not_found r \<and> target r = e \<and> target_entry r = of_nat j"
proof -
  have "yields (path_resolver dev m path 0 v) (resolved (searched C m n) 0 dirs fname) C"
    by (rule yields_path_resolver) (use assms in \<open>auto simp: file_on_disk_def path_to_def\<close>)
  then show ?thesis using assms(2) by (intro exI) (auto simp: file_on_disk_def resolved_def empty_result_def)
qed

end

lemma find_cached_none:
  assumes "\<not> cf_lost s" and "\<forall>f \<in> set (cached_files s). cf_path f \<noteq> path"
  shows "find_cached path s = Some None"
  using assms by (auto simp: find_cached_def first_index_None_iff)

text \<open>Opening a file that is not cached yet.\<close>

lemma echfs_open_spec:
  assumes "dev_disk name d okw cw limit (evfs s)" and "C = disk_of cw s" and "find_mount ('':://'' @ name) (mounts s) = Some (k, m)"
    and "file_on_disk C limit m n dirs fname j e blks" and "path_to dirs fname path" and "length path < 1024"
    and "\<not> cf_lost s" and "\<forall>f \<in> set (cached_files s). cf_path f \<noteq> path"
    and "flags AND O_CREAT = 0" and "flags AND O_TRUNC = 0" and "flags AND O_APPEND = 0"
  shows "\<exists>hn h f s1. echfs_open path flags mode ('':://'' @ name) s = Some (int hn, s1)
    \<and> opened (int hn) h (length (cached_files s)) f (length blks) d (dev_size d) okw cw limit s1
    \<and> eh_ptr h = 0 \<and> eh_begin h = 0 \<and> eh_end h = int (unat (esize e)) \<and> \<not> eh_free h \<and> eh_device h = k
    \<and> alloc_map f = blks @ [END_OF_CHAIN] \<and> cf_status f = 0 \<and> target (cf_result f) = e \<and> target_entry (cf_result f) = of_nat j
    \<and> junk s1 = junk s
    \<and> (\<forall>q<limit. disk_of cw s1 q = C q) \<and> cf_gen s1 = Suc (cf_gen s) \<and> mounts s1 = mounts s
    \<and> (\<forall>i. live eh_free (echfs_handles s) i \<longrightarrow> live eh_free (echfs_handles s1) i \<and> echfs_handles s1 ! i = echfs_handles s ! i)"
proof -
  let ?dev = "'':://'' @ name" and ?bs = "blks @ [END_OF_CHAIN]"
  have on: "payload e = hd ?bs" "chained C m limit ?bs" "distinct blks" "\<forall>b \<in> set blks. unat b * 32768 + 32768 \<le> limit"
    "unat (esize e) < 2 ^ 31" using assms(4) by (auto simp: file_on_disk_def)
  have h0: "dd.has name d okw cw limit (evfs s) C" using assms(1,2) by (simp add: dd.has_def)
  from dd.yields_file_resolver [OF h0 assms(4,5)] obtain r1 v1 where
    1: "path_resolver ?dev m path 0 (evfs s) = Some (r1, v1)" "dd.has name d okw cw limit v1 C" "\<not> failure r1" "\<not> not_found r1" "target r1 = e"
    by (auto simp: dd.yields_def)
  from dd.yields_file_resolver [OF 1(2) assms(4,5)] obtain r v2 where
    2: "path_resolver ?dev m path 0 v1 = Some (r, v2)" "dd.has name d okw cw limit v2 C" "\<not> failure r" "\<not> not_found r" "target r = e"
    "target_entry r = of_nat j" by (auto simp: dd.yields_def)
  from dd.yields_chain_from [OF on(2) 2(2)] on(1) obtain v3 where
    3: "chain_from (payload e) ?dev m v2 = Some (?bs, v3)" "dd.has name d okw cw limit v3 C" by (auto simp: dd.yields_def)
  have "dev_disk name d okw cw limit v3" using 3(2) by (simp add: dd.has_def)
  from kopen_dev_disk [OF this] obtain dh v4 where
    4: "vfs_kopen ?dev O_RDWR 0 v3 = Some (dh, v4)" "on_handle dh d (dev_size d) okw cw limit v4" "dev_world (world v4) = dev_world (world v3)" by blast
  let ?md = "(junk_md s)\<lparr>filetype := FILE_TYPE, fsize := esize e, filename := ename e\<rparr>"
  let ?f = "\<lparr>cf_path = path, cf_result = r, cf_block = 0, cf_cache = replicate BYTES_PER_BLOCK 0, cf_status = 0, alloc_map = ?bs\<rparr>"
  let ?sz = "int (unat (esize e))"
  let ?h = "\<lparr>eh_free = False, eh_path = path, eh_flags = flags, eh_mode = mode, eh_ptr = 0, eh_begin = 0, eh_end = ?sz,
     eh_device = k, eh_dev_handle = dh, eh_file = (Suc (cf_gen s), length (cached_files s))\<rparr>"
  obtain hn hs where c: "echfs_create_handle (echfs_handles s) ?h = (hn, hs)" by (cases "echfs_create_handle (echfs_handles s) ?h")
  let ?s = "s\<lparr>cached_files := cached_files s @ [?f], cf_gen := Suc (cf_gen s), evfs := v4, echfs_handles := hs\<rparr>"
  have md: "open_metadata path flags ?dev s = Some (Some ?md, s\<lparr>evfs := v1\<rparr>)"
    using 1 assms(3,9,10) by (simp add: open_metadata_def echfs_get_metadata_def on_vfs_def del: append_Cons append_Nil)
  have lk: "lookup_file path ?dev m (s\<lparr>evfs := v1\<rparr>) = Some (length (cached_files s),
      s\<lparr>cached_files := cached_files s @ [?f], cf_gen := Suc (cf_gen s), evfs := v3\<rparr>)"
    using find_cached_none [of "s\<lparr>evfs := v1\<rparr>" path] assms(6,7,8) 2 3(1)
    by (simp add: lookup_file_def add_cached_def del: append_Cons append_Nil)
  have sz: "s32 (uint (esize e)) = ?sz" by (rule s32_uint_small) (rule on(5))
  have "echfs_open path flags mode ?dev s = Some (int hn, ?s)"
    using md lk 4(1) c assms(3,6,11) sz
    by (simp add: echfs_open_def on_vfs_def Let_def del: append_Cons append_Nil)
  moreover have "disk_of cw ?s q = C q" if "q < limit" for q
    using 3(2) 4(3) that by (simp add: dd.has_def)
  moreover have "k < length (mounts s)" using assms(3) by (auto simp: find_mount_def first_index_less)
  moreover have "file_ok limit (length blks) (disk_of cw ?s) ?f"
    using on(3,4) by (auto simp: file_ok_def block_pos_def nth_append)
  ultimately show ?thesis
    using efh.create_spec [OF c] 4(2) 2(5,6)
    by (intro exI [of _ hn] exI [of _ ?h] exI [of _ ?f] exI [of _ ?s]) (auto simp: opened_def get_handle_def handle_file_def)
qed

lemma fresh_file_byte:
  assumes "file_on_disk C limit m n dirs fname j e blks" and "alloc_map f = blks @ [END_OF_CHAIN]" and "cf_status f = 0"
    and "\<forall>q<limit. D q = C q" and "q < unat (esize e)"
  shows "file_byte f D q = C (unat (blks ! (q div 32768)) * 32768 + q mod 32768)"
proof -
  have sz: "unat (esize e) \<le> length blks * 32768" "\<forall>b \<in> set blks. unat b * 32768 + 32768 \<le> limit"
    using assms(1) by (auto simp: file_on_disk_def)
  have q: "q div 32768 < length blks" using assms(5) sz(1) by (simp add: less_mult_imp_div_less)
  then have "unat (blks ! (q div 32768)) * 32768 + 32768 \<le> limit" using sz(2) by simp
  then have "unat (blks ! (q div 32768)) * 32768 + q mod 32768 < limit" using mod_less_divisor [of 32768 q] by linarith
  then show ?thesis using assms(2-4) q by (simp add: file_byte_def block_pos_def nth_append)
qed

text \<open>The entry of a file on a disk: its place and its name.\<close>

lemma file_entry_spec:
  assumes "dev_disk name d okw cw limit (evfs s)" and "C = disk_of cw s" and "file_on_disk C limit m n dirs fname j e blks"
  shows "unat (entry_loc m (of_nat j)) = slot m j" and "slot m j + 256 \<le> limit"
    and "length (ename e) < 218" and "NUL \<notin> set (ename e)"
proof -
  from assms(3) obtain p :: entry_t where p: "dir_ok C limit m n" "lookup fname (payload p) 0 (searched C m n) = Some j" "searched C m n ! j = e"
    unfolding file_on_disk_def by blast
  have h: "dd.has name d okw cw limit (evfs s) C" using assms(1,2) by (simp add: dd.has_def)
  have "ename e = fname" using p(2,3) by (auto simp: lookup_def first_index_Some_iff)
  moreover have "good_name fname" using assms(3) by (simp add: file_on_disk_def)
  ultimately show "length (ename e) < 218" "NUL \<notin> set (ename e)" by (auto simp: good_name_def)
  have "j \<le> n" by (rule dd.found_entry(1) [OF h p(1,2)])
  then show fit: "slot m j + 256 \<le> limit" using slot_mono [of j n m] p(1) by (auto simp: dir_ok_def)
  show "unat (entry_loc m (of_nat j)) = slot m j" by (rule dd.unat_entry_loc [OF h fit])
qed

text \<open>
  Opening a file and reading it, through the whole stack: the path is walked in the directory on
  the disk, the chain of blocks collected, the disk opened through the device file system; then
  \<open>echfs_uread\<close> delivers the bytes that stand in those blocks, in order, up to the file's size.
\<close>

lemma echfs_open_then_read:
  assumes "dev_disk name d okw cw limit (evfs s)" and "C = disk_of cw s" and "find_mount ('':://'' @ name) (mounts s) = Some (k, m)"
    and "file_on_disk C limit m n dirs fname j e blks" and "path_to dirs fname path" and "length path < 1024"
    and "\<not> cf_lost s" and "\<forall>f \<in> set (cached_files s). cf_path f \<noteq> path"
    and "flags AND O_CREAT = 0" and "flags AND O_TRUNC = 0" and "flags AND O_APPEND = 0"
  shows "\<exists>hn s1 stat s2. echfs_open path flags mode ('':://'' @ name) s = Some (int hn, s1)
    \<and> echfs_uread (int hn) (int cnt) s1 = Some ((int (min cnt (unat (esize e))),
        map (\<lambda>q. C (unat (blks ! (q div BYTES_PER_BLOCK)) * BYTES_PER_BLOCK + q mod BYTES_PER_BLOCK)) [0..<min cnt (unat (esize e))], stat), s2)"
proof -
  from echfs_open_spec [OF assms, of mode] obtain hn h f s1 where
    1: "echfs_open path flags mode ('':://'' @ name) s = Some (int hn, s1)"
    "opened (int hn) h (length (cached_files s)) f (length blks) d (dev_size d) okw cw limit s1" "eh_ptr h = int 0" "eh_end h = int (unat (esize e))"
    "alloc_map f = blks @ [END_OF_CHAIN]" "cf_status f = 0" "\<forall>q<limit. disk_of cw s1 q = C q" by auto
  have sz: "unat (esize e) \<le> length blks * 32768" "unat (esize e) < 2 ^ 31" using assms(4) by (auto simp: file_on_disk_def)
  have "file_byte f (disk_of cw s1) q = C (unat (blks ! (q div 32768)) * 32768 + q mod 32768)" if "q < unat (esize e)" for q
    by (rule fresh_file_byte [OF assms(4) 1(5,6,7) that])
  then have "map (file_byte f (disk_of cw s1)) [0..<0 + min cnt (unat (esize e) - 0)] =
      map (\<lambda>q. C (unat (blks ! (q div 32768)) * 32768 + q mod 32768)) [0..<min cnt (unat (esize e))]" by simp
  with uread_opened [OF 1(2,3,4) sz(1,2), of cnt] 1(1) show ?thesis by auto
qed

text \<open>
  C4. Writing is read back: open a file, write bytes over its beginning, seek to the start and read: the
  bytes written come back, followed by the old bytes of the file behind them.  The write goes to the
  cache and, with the cached directory entry, to the disk through the handle.
\<close>

theorem echfs_rewrite_roundtrip:
  assumes "dev_disk name d okw cw limit (evfs s)" and "C = disk_of cw s" and "find_mount ('':://'' @ name) (mounts s) = Some (k, m)"
    and "file_on_disk C limit m n dirs fname j e blks" and "path_to dirs fname path" and "length path < 1024"
    and "\<not> cf_lost s" and "\<forall>f \<in> set (cached_files s). cf_path f \<noteq> path"
    and "flags AND O_CREAT = 0" and "flags AND O_TRUNC = 0" and "flags AND O_APPEND = 0"
    and "length bs \<le> unat (esize e)" and "\<forall>b \<in> set blks. slot m j div BYTES_PER_BLOCK \<noteq> unat b" and "FILENAME_LEN \<le> length (junk s)"
  shows "\<exists>hn s1 st s2 s3 st' s4. echfs_open path flags mode ('':://'' @ name) s = Some (int hn, s1)
    \<and> echfs_uwrite (int hn) bs s1 = Some ((int (length bs), st), s2) \<and> echfs_seek (int hn) 0 SEEK_SET s2 = (0, s3)
    \<and> echfs_uread (int hn) (int (unat (esize e))) s3 = Some ((int (unat (esize e)),
        bs @ map (\<lambda>q. C (unat (blks ! (q div BYTES_PER_BLOCK)) * BYTES_PER_BLOCK + q mod BYTES_PER_BLOCK)) [length bs..<unat (esize e)], st'), s4)"
proof -
  let ?n = "length blks" and ?sz = "unat (esize e)"
  from echfs_open_spec [OF assms(1-11), of mode] obtain hn h f s1 where
    1: "echfs_open path flags mode ('':://'' @ name) s = Some (int hn, s1)"
    "opened (int hn) h (length (cached_files s)) f ?n d (dev_size d) okw cw limit s1"
    "eh_ptr h = int 0" "eh_begin h = 0" "eh_end h = int ?sz" "\<not> eh_free h" "eh_device h = k" "alloc_map f = blks @ [END_OF_CHAIN]" "cf_status f = 0"
    "target (cf_result f) = e" "target_entry (cf_result f) = of_nat j" "junk s1 = junk s" "\<forall>q<limit. disk_of cw s1 q = C q" "mounts s1 = mounts s"
    by auto
  have sz: "?sz \<le> ?n * 32768" "?sz < 2 ^ 31" using assms(4) by (auto simp: file_on_disk_def)
  have m: "mounts s1 ! k = m" using assms(3) 1(14) by (auto simp: find_mount_def)
  note entry = file_entry_spec [OF assms(1,2,4)]
  from uwrite_opened [OF 1(2,3) m [folded 1(7)], of bs] 1 sz entry assms(12,13,14) obtain st f2 s2 where
    2: "echfs_uwrite (int hn) bs s1 = Some ((int (length bs), st), s2)"
    "opened (int hn) (h\<lparr>eh_ptr := int (0 + length bs)\<rparr>) (length (cached_files s)) f2 ?n d (dev_size d) okw cw limit s2"
    "\<forall>q<?n * 32768. file_byte f2 (disk_of cw s2) q = (if q < length bs then bs ! q else file_byte f (disk_of cw s1) q)"
    by (auto simp: nth_append)
  from seek_opened [OF 2(2), of 0] 1(4,5,6) obtain s3 where
    3: "echfs_seek (int hn) 0 SEEK_SET s2 = (0, s3)" "disk_of cw s3 = disk_of cw s2"
    "opened (int hn) (h\<lparr>eh_ptr := int 0\<rparr>) (length (cached_files s)) f2 ?n d (dev_size d) okw cw limit s3" by auto
  have "file_byte f (disk_of cw s1) q = C (unat (blks ! (q div 32768)) * 32768 + q mod 32768)" if "q < ?sz" for q
    by (rule fresh_file_byte [OF assms(4) 1(8,9,13) that])
  then have "map (file_byte f2 (disk_of cw s3)) [0..<0 + min ?sz (?sz - 0)] =
      bs @ map (\<lambda>q. C (unat (blks ! (q div 32768)) * 32768 + q mod 32768)) [length bs..<?sz]"
    using 2(3) 3(2) sz(1) assms(12) by (auto intro!: nth_equalityI simp: nth_append)
  with uread_opened [OF 3(3) _ _ sz, of 0 ?sz] 1(1,5) 2(1) 3(1) show ?thesis by auto
qed

text \<open>
  C36. Opening a file that is not cached yet moves the table of cached files, and no open handle is
  told: every handle whose pointer was valid before now points into freed memory, and the next read
  or write through it that is not empty is a use after free.
\<close>

theorem opening_invalidates_other_handles:
  assumes "dev_disk name d okw cw limit (evfs s)" and "C = disk_of cw s" and "find_mount ('':://'' @ name) (mounts s) = Some (k, m)"
    and "file_on_disk C limit m n dirs fname j e blks" and "path_to dirs fname path" and "length path < 1024"
    and "\<not> cf_lost s" and "\<forall>f \<in> set (cached_files s). cf_path f \<noteq> path"
    and "flags AND O_CREAT = 0" and "flags AND O_TRUNC = 0" and "flags AND O_APPEND = 0"
    and "live eh_free (echfs_handles s) i" and "fst (eh_file (echfs_handles s ! i)) = cf_gen s"
    and "eh_device (echfs_handles s ! i) < length (mounts s)"
    and "eh_ptr (echfs_handles s ! i) < eh_end (echfs_handles s ! i)" and "0 < cnt"
  shows "\<exists>hn s1. echfs_open path flags mode ('':://'' @ name) s = Some (int hn, s1)
    \<and> echfs_uread (int i) cnt s1 = None \<and> echfs_uwrite (int i) bs s1 = None"
proof -
  from echfs_open_spec [OF assms(1-11), of mode] obtain hn s1 where
    1: "echfs_open path flags mode ('':://'' @ name) s = Some (int hn, s1)" "cf_gen s1 = Suc (cf_gen s)" "mounts s1 = mounts s"
    "live eh_free (echfs_handles s1) i" "echfs_handles s1 ! i = echfs_handles s ! i" using assms(12) by blast
  let ?h = "echfs_handles s ! i"
  have "get_handle (int i) s1 = Some ?h" using 1(4,5) by (simp add: get_handle_def live_def)
  moreover have "handle_file ?h s1 = None" using 1(2) assms(13) by (cases "eh_file ?h") (simp add: handle_file_def)
  ultimately show ?thesis using 1(1,3) assms(14-16) by (simp add: echfs_uread_def echfs_uwrite_def)
qed

subsection \<open>A kernel with a disk\<close>

text \<open>A disk in memory that holds one file, \<open>/notes\<close>, of three bytes in block 22, on a kernel that has it mounted.\<close>

definition notes_entry :: entry_t where
  "notes_entry = (new_file root_entry ''notes'')\<lparr>payload := 22, esize := 3\<rparr>"

definition notes_disk :: "nat \<Rightarrow> u8" where
  "notes_disk = put_bytes [104, 105, 33] (22 * 32768) (put_entry notes_entry (slot mem_mount 0)
     (wr_le 8 (\<lambda>_. 0) (fat_pos mem_mount 22) 18446744073709551615))"

definition ram_vfs :: "(nat \<Rightarrow> u8) \<Rightarrow> (nat \<Rightarrow> u8) devfs vfs" where
  "ram_vfs C = \<lparr>filesystems = [devfs_fs], mountpoints = [\<lparr>mp_mountpoint = ''/dev'', mp_device = ''devfs'', mp_filesystem = ''devfs''\<rparr>],
     vfs_devices = [lift_device mem_disk], current_pid = 0, pwd_of = (\<lambda>_. ''/''), handles_of = (\<lambda>_. []),
     vfs_read_stat = False, vfs_write_stat = False, stack = replicate 2048 NUL,
     world = \<lparr>device_list = [mem_disk], devfs_handles = [], read_stat = False, write_stat = False, dev_world = C\<rparr>\<rparr>"

definition ram_echfs :: "(nat \<Rightarrow> u8) \<Rightarrow> cached_file_t list \<Rightarrow> echfs_handle_t list \<Rightarrow> (nat \<Rightarrow> u8) devfs echfs" where
  "ram_echfs C fs hs = \<lparr>mounts = [mem_mount], cached_files = fs, cf_gen = 0, cf_lost = False, echfs_handles = hs,
     junk = replicate 218 7, junk_md = \<lparr>filename = [], filetype = 0, fsize = 0\<rparr>, evfs = ram_vfs C\<rparr>"

lemma ram_dev_disk: "dev_disk ''ram'' mem_disk (\<lambda>_. True) (\<lambda>w. w) 1048576 (ram_vfs C)"
proof -
  have "byte_device (dev_io mem_disk) (gp_value mem_disk) (\<lambda>_. True) (\<lambda>w. w) 1048576"
    using on_mem_disk [of C] by (simp add: on_disk_def)
  moreover have "resolve_absolute (''/dev/'' @ ''ram'') (ram_vfs C) = Some (0, devfs_fs, ''/ram'', ''devfs'')"
    by (simp add: resolve_absolute_def vfs_translate_mnt_def mount_matches_def ram_vfs_def vfs_translate_fs_def devfs_fs_def)
  ultimately show ?thesis
    by (auto simp: dev_disk_def devices_shared_def ram_vfs_def mem_disk_def find_device_def skip_slash_def)
qed

lemma notes_dir:
  "i < 64 \<Longrightarrow> dir notes_disk mem_mount i = (if i = 0 then notes_entry else entry_at (\<lambda>_. 0) (slot mem_mount i))"
  "i < 64 \<Longrightarrow> name_len notes_disk (slot mem_mount i) = (if i = 0 then 5 else 0)"
proof -
  let ?F = "wr_le 8 (\<lambda>_. 0) (fat_pos mem_mount 22) 18446744073709551615"
  let ?D = "put_entry notes_entry (slot mem_mount 0) ?F"
  have pos: "fat_pos mem_mount 22 = 524464" "slot mem_mount i = 557056 + i * 256" by (simp_all add: fat_pos_def slot_def mem_mount_def)
  have e: "length (ename notes_entry) < 218" "NUL \<notin> set (ename notes_entry)" by (simp_all add: notes_entry_def new_file_def NUL_def)
  have 1: "i < 64 \<Longrightarrow> dir notes_disk mem_mount i = dir ?D mem_mount i"
    "i < 64 \<Longrightarrow> name_len notes_disk (slot mem_mount i) = name_len ?D (slot mem_mount i)"
    unfolding dir_def notes_disk_def
    by (intro entry_at_cong; simp add: put_bytes_apply pos)+
  have 2: "dir ?F mem_mount i = entry_at (\<lambda>_. 0) (slot mem_mount i)" "name_len ?F (slot mem_mount i) = name_len (\<lambda>_. 0) (slot mem_mount i)"
    unfolding dir_def by (intro entry_at_cong; simp add: pos del: wr_le.simps)+
  show "i < 64 \<Longrightarrow> dir notes_disk mem_mount i = (if i = 0 then notes_entry else entry_at (\<lambda>_. 0) (slot mem_mount i))"
    using 1(1) 2(1) dir_put_entry(1) [OF e, of mem_mount 0 ?F i] by simp
  show "i < 64 \<Longrightarrow> name_len notes_disk (slot mem_mount i) = (if i = 0 then 5 else 0)"
    using 1(2) 2(2) dir_put_entry(2) [OF e, of mem_mount 0 ?F i] by (simp add: zero_disk notes_entry_def new_file_def)
qed

lemma notes_fat: "fat notes_disk mem_mount 22 = END_OF_CHAIN"
proof -
  let ?F = "wr_le 8 (\<lambda>_. 0) (fat_pos mem_mount 22) 18446744073709551615"
  have pos: "fat_pos mem_mount 22 = 524464" "slot mem_mount 0 = 557056" by (simp_all add: fat_pos_def slot_def mem_mount_def)
  have "rd_le 8 notes_disk (fat_pos mem_mount 22) = rd_le 8 ?F (fat_pos mem_mount 22)"
    unfolding notes_disk_def
    by (rule rd_le_cong) (simp add: put_bytes_apply put_entry_frame pos notes_entry_def new_file_def del: wr_le.simps)
  also have "\<dots> = 18446744073709551615 mod 256 ^ 8" by (rule rd_wr_le)
  finally show ?thesis by (simp add: fat_def del: rd_le.simps)
qed

lemma notes_on_disk: "file_on_disk notes_disk 1048576 mem_mount 1 [] ''notes'' 0 notes_entry [22]"
proof -
  have d: "dir notes_disk mem_mount 0 = notes_entry" "dir notes_disk mem_mount 1 = entry_at (\<lambda>_. 0) (slot mem_mount 1)"
    using notes_dir(1) [of 0] notes_dir(1) [of 1] by simp_all
  have "\<forall>i\<le>1. name_len notes_disk (slot mem_mount i) < 218" by (auto simp: le_Suc_eq notes_dir(2))
  then have "dir_ok notes_disk 1048576 mem_mount 1"
    unfolding dir_ok_def using d
    by (simp add: entry_at_def zero_disk notes_entry_def new_file_def root_entry_def del: rd_le.simps) (simp add: slot_def mem_mount_def)
  moreover have "searched notes_disk mem_mount 1 = [notes_entry]" using d(1) by (simp add: searched_def entries_def) (simp add: mem_mount_def)
  moreover have "chained notes_disk mem_mount 1048576 [22, END_OF_CHAIN]" by (simp add: notes_fat fat_pos_def) (simp add: mem_mount_def)
  ultimately show ?thesis
    by (auto simp: file_on_disk_def good_name_def NUL_def lookup_def notes_entry_def new_file_def root_entry_def empty_entry_def)
qed

lemmas ram_kernel = ram_dev_disk notes_on_disk

lemma ram_mounted:
  "dev_disk ''ram'' mem_disk (\<lambda>_. True) (\<lambda>w. w) 1048576 (evfs (ram_echfs C fs hs))"
  "C = dev_world (world (evfs (ram_echfs C fs hs)))"
  "find_mount ('':://'' @ ''ram'') (mounts (ram_echfs C fs hs)) = Some (0, mem_mount)"
  "path_to [] ''notes'' ''/notes''"
  by (simp_all add: ram_echfs_def ram_dev_disk path_to_def path_text_def) (simp_all add: ram_vfs_def find_mount_def mem_mount_def)

lemma notes_bytes: "notes_disk 720896 = 104" "notes_disk 720897 = 105" "notes_disk 720898 = 33"
  by (simp_all add: notes_disk_def)

lemma echfs_open_then_read_witness:
  "\<exists>hn s1 stat s2. echfs_open ''/notes'' 1 0 '':://ram'' (ram_echfs notes_disk [] []) = Some (int hn, s1)
     \<and> echfs_uread (int hn) 10 s1 = Some ((3, [104, 105, 33], stat), s2)"
  using echfs_open_then_read [OF ram_mounted(1-3) notes_on_disk ram_mounted(4), of "[]" "[]" 1 0 10]
  by (simp add: ram_echfs_def notes_entry_def upt_conv_Cons notes_bytes)

theorem echfs_rewrite_roundtrip_witness:
  "\<exists>hn s1 st s2 s3 st' s4. echfs_open ''/notes'' 3 0 '':://ram'' (ram_echfs notes_disk [] []) = Some (int hn, s1)
     \<and> echfs_uwrite (int hn) [72] s1 = Some ((1, st), s2) \<and> echfs_seek (int hn) 0 SEEK_SET s2 = (0, s3)
     \<and> echfs_uread (int hn) 3 s3 = Some ((3, [72, 105, 33], st'), s4)"
proof -
  have "slot mem_mount 0 = 557056" by (simp add: slot_def mem_mount_def)
  then show ?thesis
    using echfs_rewrite_roundtrip [OF ram_mounted(1-3) notes_on_disk ram_mounted(4), of "[]" "[]" 3 "[72]" 0]
    by (simp add: ram_echfs_def notes_entry_def upt_conv_Cons notes_bytes)
qed

text \<open>A handle that is open on another file, \<open>/log\<close>.\<close>

definition log_file :: cached_file_t where
  "log_file = \<lparr>cf_path = ''/log'', cf_result = empty_result, cf_block = 0, cf_cache = replicate BYTES_PER_BLOCK 0,
     cf_status = 0, alloc_map = [23, END_OF_CHAIN]\<rparr>"

definition log_handle :: echfs_handle_t where
  "log_handle = \<lparr>eh_free = False, eh_path = ''/log'', eh_flags = 3, eh_mode = 0, eh_ptr = 0, eh_begin = 0, eh_end = 100,
     eh_device = 0, eh_dev_handle = 0, eh_file = (0, 0)\<rparr>"

theorem opening_invalidates_other_handles_witness:
  "\<exists>hn s1. echfs_open ''/notes'' 1 0 '':://ram'' (ram_echfs notes_disk [log_file] [log_handle]) = Some (int hn, s1)
     \<and> echfs_uread 0 10 s1 = None \<and> echfs_uwrite 0 [72] s1 = None"
  using opening_invalidates_other_handles [OF ram_mounted(1-3) notes_on_disk ram_mounted(4), of "[log_file]" "[log_handle]" 1 0 10 0 "[72]"]
  by (simp add: ram_echfs_def log_file_def log_handle_def live_def)

end
