(* ===== verification/Echfs_Grow.thy ===== *)
theory Echfs_Grow
  imports Echfs_Open
begin

text \<open>
  Growing a file of \<open>kernel/src/fs/echfs.c\<close>: the search for a free block, the chain in the allocation
  table, the zeroed blocks.  Growing by one block is right; growing by two at once is not, because a
  block counts as free until something is written into its entry of the table.
\<close>

text \<open>The first free block of a disk.\<close>

definition first_free_block :: "(nat \<Rightarrow> u8) \<Rightarrow> nat \<Rightarrow> mount_t \<Rightarrow> nat \<Rightarrow> bool" where
  "first_free_block C limit m t \<longleftrightarrow> fat C m t = 0 \<and> (\<forall>b<t. fat C m b \<noteq> 0) \<and> fat_pos m t + 8 \<le> limit"

lemma fat_write:
  "fat (wr_le 8 C (fat_pos m a) (unat x)) m b = (if b = a then x else fat C m b)"
proof (cases "b = a")
  case True
  then show ?thesis by (simp add: fat_def rd_wr_le unat_mod_width del: rd_le.simps wr_le.simps)
next
  case False
  then have "fat_pos m b + 8 \<le> fat_pos m a \<or> fat_pos m a + 8 \<le> fat_pos m b" by (auto simp: fat_pos_def)
  then show ?thesis using False by (simp add: fat_def rd_wr_le_disjoint del: rd_le.simps wr_le.simps)
qed

lemma fat_put_bytes:
  "a + length bs \<le> fat_pos m b \<or> fat_pos m b + 8 \<le> a \<Longrightarrow> fat (put_bytes bs a C) m b = fat C m b"
  by (simp add: fat_def rd_le_put_bytes del: rd_le.simps)

lemma first_free_block_link:
  assumes "first_free_block C limit m t" and "fat C m a \<noteq> 0" and "unat (of_nat t :: u64) = t"
  shows "first_free_block (wr_le 8 C (fat_pos m a) t) limit m t"
proof -
  have "fat (wr_le 8 C (fat_pos m a) t) m b = (if b = a then of_nat t else fat C m b)" for b
    using fat_write [of C m a "of_nat t" b] assms(3) by simp
  moreover have "(of_nat t :: u64) \<noteq> 0" if "0 < t" using assms(3) that by (metis unsigned_0 less_numeral_extra(3))
  ultimately show ?thesis using assms(1,2) by (auto simp: first_free_block_def)
qed

text \<open>An entry of the table does not cross a block.\<close>

lemma fat_in_one_block:
  assumes "fat_pos m b div 32768 \<noteq> t"
  shows "t * 32768 + 32768 \<le> fat_pos m b \<or> fat_pos m b + 8 \<le> t * 32768"
proof -
  obtain q where q: "fat_pos m b = 8 * q" using that [of "unat (fatstart m) * 4096 + b"] by (simp add: fat_pos_def)
  have "q div 4096 \<noteq> t" using assms by (simp add: q div_mult2_eq [of "8 * q" 8 4096, simplified])
  then have "q div 4096 < t \<or> t < q div 4096" by linarith
  then have "q < t * 4096 \<or> t * 4096 + 4096 \<le> q"
    using less_mult_imp_div_less [of q t 4096] div_less_iff_less_mult [of 4096 q t] less_eq_div_iff_mult_less_eq [of 4096 "Suc t" q] by auto
  then show ?thesis using q by auto
qed

context disk
begin

lemma fat_index_small:
  assumes "has v C" and "fat_pos m t + 8 \<le> limit"
  shows "t < 2 ^ 60" and "unat (of_nat t :: u64) = t" and "(of_nat t :: u64) \<noteq> END_OF_CHAIN"
proof -
  show t: "t < 2 ^ 60" using assms limit_small [of v] by (simp add: has_def fat_pos_def)
  then show u: "unat (of_nat t :: u64) = t" by (simp add: unat_of_nat)
  show "(of_nat t :: u64) \<noteq> END_OF_CHAIN"
  proof
    assume "(of_nat t :: u64) = END_OF_CHAIN"
    then show False using t u by simp
  qed
qed

lemma yields_find_block:
  assumes "first_free_block C limit m t"
  shows "i \<le> t \<Longrightarrow> has v C \<Longrightarrow> yields (find_block (by_path dev m) (of_nat i) (fatstart m * 32768 + of_nat i * 8) v) (of_nat t) C"
proof (induction "t - i" arbitrary: i v)
  case 0
  have "fat_pos m i + 8 \<le> limit" using 0 assms by (simp add: first_free_block_def)
  note i = fat_index_small [OF 0(3) this] yields_rd_fat [OF 0(3), of m "of_nat i"]
  show ?case using i 0 assms by (subst find_block.simps) (auto simp: by_path_def first_free_block_def yields_def)
next
  case (Suc k)
  have t: "fat_pos m t + 8 \<le> limit" and i: "i < t" "fat C m i \<noteq> 0" using assms Suc.hyps(2) by (auto simp: first_free_block_def)
  then have fit: "fat_pos m i + 8 \<le> limit" by (simp add: fat_pos_def)
  have u: "unat (of_nat i :: u64) = i" by (rule fat_index_small [OF Suc.prems(2) fit])
  from yields_rd_fat [OF Suc.prems(2), of m "of_nat i"] fit u obtain v1 where
    v1: "rd_qword dev (fatstart m * 32768 + of_nat i * 8) v = Some (fat C m i, v1)" "has v1 C" by (auto simp: yields_def)
  have "yields (find_block (by_path dev m) (of_nat (Suc i)) (fatstart m * 32768 + of_nat (Suc i) * 8) v1) (of_nat t) C"
    by (rule Suc.hyps(1)) (use Suc.hyps(2) v1(2) in auto)
  then show ?case using v1(1) i(2) by (subst find_block.simps) (simp add: by_path_def algebra_simps)
qed

lemma stores_zero_bytes:
  "has v C \<Longrightarrow> unat loc + n \<le> limit \<Longrightarrow> stores (zero_bytes n (by_path dev m) loc v) (put_bytes (replicate n 0) (unat loc) C)"
proof (induction n arbitrary: v C loc)
  case (Suc n)
  have nx: "unat (loc + 1) = Suc (unat loc)" using unat_next [OF Suc.prems(1)] Suc.prems(2) by simp
  have "stores (zero_bytes n (by_path dev m) (loc + 1) v') (put_bytes (replicate (Suc n) 0) (unat loc) C)"
    if "has v' (C(unat loc := 0))" for v'
    using Suc.IH [OF that, of "loc + 1"] Suc.prems(2) by (simp add: nx fun_upd_def)
  then show ?case unfolding zero_bytes.simps
    using Suc.prems by (intro stores_bind) (auto simp: by_path_def intro: stores_wr_byte)
qed (simp add: stores_def)

lemma stores_zero_block:
  assumes "has v C" and "unat b * 32768 + 32768 \<le> limit"
  shows "stores (zero_bytes BYTES_PER_BLOCK (by_path dev m) (b * 32768) v) (put_bytes (replicate BYTES_PER_BLOCK 0) (unat b * 32768) C)"
proof -
  have "unat (b * 32768) = unat b * 32768" by (rule unat_block [OF assms(2)]) (use assms(1) limit_small [of v] in \<open>simp add: has_def\<close>)
  then show ?thesis using stores_zero_bytes [OF assms(1), of "b * 32768" BYTES_PER_BLOCK m] assms(2) by simp
qed

lemma stores_wr_fat:
  assumes "has v C" and "fat_pos m (unat b) + 8 \<le> limit"
  shows "stores (a_wrq (by_path dev m) (fatstart m * 32768 + b * 8) x v) (wr_le 8 C (fat_pos m (unat b)) (unat x))"
  using stores_wr_qword [OF assms(1), of "fatstart m * 32768 + b * 8" x] unat_fat_pos [OF assms] assms(2)
  by (simp add: by_path_def del: wr_le.simps)

text \<open>One round of the loop: a free block is found and linked behind the last one.\<close>

lemma extend_link:
  assumes "has v C" and "first_free_block C limit m t" and "0 < i" and "i < new"
    and "i \<le> length (alloc_map f)" and "fat_pos m (unat (alloc_map f ! (i - 1))) + 8 \<le> limit"
  shows "\<exists>v'. extend (by_path dev m) m i new f v =
      extend (by_path dev m) m (Suc i) new (f\<lparr>alloc_map := take i (alloc_map f) @ [of_nat t]\<rparr>) v'
    \<and> has v' (wr_le 8 C (fat_pos m (unat (alloc_map f ! (i - 1)))) (unat (of_nat t :: u64)))"
proof -
  let ?f = "f\<lparr>alloc_map := take i (alloc_map f) @ [of_nat t]\<rparr>"
  from yields_find_block [OF assms(2) _ assms(1), of 0] obtain v1 where
    v1: "find_block (by_path dev m) 0 (fatstart m * 32768) v = Some (of_nat t, v1)" "has v1 C" by (auto simp: yields_def)
  from stores_wr_fat [OF v1(2) assms(6), of "of_nat t"] obtain v2 where
    v2: "a_wrq (by_path dev m) (fatstart m * 32768 + alloc_map f ! (i - 1) * 8) (of_nat t) v1 = Some v2"
      "has v2 (wr_le 8 C (fat_pos m (unat (alloc_map f ! (i - 1)))) (unat (of_nat t :: u64)))" by (auto simp: stores_def)
  have "alloc_put (alloc_map f) i (of_nat t) = take i (alloc_map f) @ [of_nat t]" using assms(5) by (simp add: alloc_put_def)
  moreover have "(take i (alloc_map f) @ [of_nat t :: u64]) ! (i - 1) = alloc_map f ! (i - 1)" using assms(3,5) by (simp add: nth_append)
  ultimately have "extend (by_path dev m) m i new f v = extend (by_path dev m) m (Suc i) new ?f v2"
    using v1(1) v2(1) assms(3,4) by (subst extend.simps) (simp add: Let_def)
  then show ?thesis using v2(2) by blast
qed

text \<open>The end of growing: the end mark, and the new blocks zeroed.\<close>

lemma grow_tail:
  assumes "has v C" and "alloc_map f = xs @ [b]" and "fat_pos m (unat b) + 8 \<le> limit" and "unat b * 32768 + 32768 \<le> limit"
    and "zs = replicate (length zs) b" and "zs \<noteq> []" and "b \<noteq> END_OF_CHAIN" and "drop n (xs @ [b, END_OF_CHAIN]) = zs @ [END_OF_CHAIN]"
    and "extend (by_path dev m) m n (Suc (length xs)) f0 v0 = Some (f, v)"
  shows "\<exists>v'. grow (by_path dev m) m n (Suc (length xs)) f0 v0 = Some (f\<lparr>alloc_map := xs @ [b, END_OF_CHAIN]\<rparr>, v')
    \<and> has v' (put_bytes (replicate BYTES_PER_BLOCK 0) (unat b * 32768) (wr_le 8 C (fat_pos m (unat b)) 18446744073709551615))"
proof -
  let ?C = "wr_le 8 C (fat_pos m (unat b)) 18446744073709551615"
  let ?D = "put_bytes (replicate 32768 0) (unat b * 32768) ?C"
  from stores_wr_fat [OF assms(1,3), of END_OF_CHAIN] obtain v1 where
    v1: "a_wrq (by_path dev m) (fatstart m * 32768 + b * 8) END_OF_CHAIN v = Some v1" "has v1 ?C" by (auto simp: stores_def)
  have idem: "put_bytes (replicate 32768 0) (unat b * 32768) ?D = ?D"
    by (rule put_bytes_idem)
  have rep: "\<exists>v'. zero_blocks (by_path dev m) (replicate k b @ [END_OF_CHAIN]) w = Some v' \<and> has v' (if k = 0 then E else ?D)"
    if "has w E" and "E = ?C \<or> E = ?D" for k w E
    using that
  proof (induction k arbitrary: w E)
    case (Suc k)
    have "put_bytes (replicate 32768 0) (unat b * 32768) E = ?D" using Suc.prems(2) idem by auto
    with stores_zero_block [OF Suc.prems(1) assms(4), of m] obtain w' where
      w': "zero_bytes 32768 (by_path dev m) (b * 32768) w = Some w'" "has w' ?D" by (auto simp: stores_def)
    from Suc.IH [OF w'(2)] obtain v' where "zero_blocks (by_path dev m) (replicate k b @ [END_OF_CHAIN]) w' = Some v'" "has v' ?D"
      by (auto split: if_splits)
    then show ?case using w'(1) assms(7) by simp
  qed simp
  from rep [OF v1(2), of "length zs"] obtain v2 where
    v2: "zero_blocks (by_path dev m) (zs @ [END_OF_CHAIN]) v1 = Some v2" "has v2 ?D"
    using assms(6) by (auto simp flip: assms(5))
  have "alloc_put (xs @ [b]) (Suc (length xs)) END_OF_CHAIN = xs @ [b, END_OF_CHAIN]" by (simp add: alloc_put_def)
  then show ?thesis
    using assms(2,8,9) v1(1) v2 by (simp add: grow_def nth_append Let_def del: drop_append)
qed

end

text \<open>A file with its chain, and a free block for it.\<close>

definition growable :: "(nat \<Rightarrow> u8) \<Rightarrow> nat \<Rightarrow> mount_t \<Rightarrow> cached_file_t \<Rightarrow> u64 list \<Rightarrow> nat \<Rightarrow> bool" where
  "growable C limit m f blks t \<longleftrightarrow> alloc_map f = blks @ [END_OF_CHAIN] \<and> blks \<noteq> [] \<and> 0 \<notin> set blks \<and> distinct blks
     \<and> chained C m limit (blks @ [END_OF_CHAIN]) \<and> first_free_block C limit m t \<and> t * BYTES_PER_BLOCK + BYTES_PER_BLOCK \<le> limit
     \<and> (\<forall>b \<in> insert t (unat ` set blks). fat_pos m b div BYTES_PER_BLOCK \<noteq> t)"

lemma chained_last:
  "chained C m limit (blks @ [e]) \<Longrightarrow> blks \<noteq> [] \<Longrightarrow>
   fat_pos m (unat (last blks)) + 8 \<le> limit \<and> fat C m (unat (last blks)) = e \<and> e = END_OF_CHAIN"
  by (induction blks rule: induct_list012) auto

lemma chained_nonzero: "chained C m limit (blks @ [e]) \<Longrightarrow> b \<in> set blks \<Longrightarrow> fat C m (unat b) = 0 \<Longrightarrow> (0 :: u64) \<in> set blks"
  by (induction blks rule: induct_list012) auto

lemma chained_fits: "chained C m limit (blks @ [e]) \<Longrightarrow> b \<in> set blks \<Longrightarrow> fat_pos m (unat b) + 8 \<le> limit"
  by (induction blks rule: induct_list012) auto

text \<open>A chain after its last block was linked to a new one.\<close>

lemma chained_append:
  assumes "chained C m limit (blks @ [END_OF_CHAIN])" and "blks \<noteq> []" and "distinct blks"
    and "\<And>b. b \<in> set (butlast blks) \<Longrightarrow> fat D m (unat b) = fat C m (unat b)" and "fat D m (unat (last blks)) = c"
    and "chained D m limit (c # cs)"
  shows "chained D m limit (blks @ c # cs)"
  using assms
proof (induction blks rule: induct_list012)
  case (3 x y zs)
  have "chained D m limit ((y # zs) @ c # cs)" by (rule "3.IH"(2)) (use "3.prems" in auto)
  then show ?case using "3.prems"(1) "3.prems"(4) [of x] by simp
qed auto

text \<open>
  C26. Growing a file by one block: the first free block of the allocation table is taken, linked behind
  the file's last block and marked as the end, its bytes are zeroed, and nothing else on the disk
  changes; afterwards the chain on the disk is again the file's allocation map.
\<close>

theorem grow_appends_free_block:
  assumes "on_disk name d okw cw limit v" and "C = cw (world v)" and "growable C limit m f blks t"
  shows "\<exists>v'. grow (by_path ('':://'' @ name) m) m (length blks) (Suc (length blks)) f v =
      Some (f\<lparr>alloc_map := blks @ [of_nat t, END_OF_CHAIN]\<rparr>, v')
    \<and> chained (cw (world v')) m limit (blks @ [of_nat t, END_OF_CHAIN])
    \<and> (\<forall>i<BYTES_PER_BLOCK. cw (world v') (t * BYTES_PER_BLOCK + i) = 0)
    \<and> (\<forall>q<limit. q div BYTES_PER_BLOCK \<noteq> t \<and> \<not> (fat_pos m (unat (last blks)) \<le> q \<and> q < fat_pos m (unat (last blks)) + 8)
         \<and> \<not> (fat_pos m t \<le> q \<and> q < fat_pos m t + 8) \<longrightarrow> cw (world v') q = C q)"
proof -
  let ?l = "fat_pos m (unat (last blks))"
  let ?C1 = "wr_le 8 C ?l t"
  let ?D = "put_bytes (replicate 32768 0) (t * 32768) (wr_le 8 ?C1 (fat_pos m t) 18446744073709551615)"
  note g = assms(3) [unfolded growable_def]
  have v: "ed.has name d okw cw limit v C" using assms(1,2) by (simp add: ed.has_def)
  have l: "?l + 8 \<le> limit" "fat C m (unat (last blks)) = END_OF_CHAIN" using chained_last g by blast+
  have t: "fat_pos m t + 8 \<le> limit" using g by (simp add: first_free_block_def)
  note tu = ed.fat_index_small [OF v t]
  have last: "(blks @ [END_OF_CHAIN]) ! (length blks - 1) = last blks" using g by (simp add: nth_append last_conv_nth)
  from ed.extend_link [OF v, of m t "length blks" "Suc (length blks)" f] g l last tu obtain v1 where
    v1: "extend (by_path ('':://'' @ name) m) m (length blks) (Suc (length blks)) f v = Some (f\<lparr>alloc_map := blks @ [of_nat t]\<rparr>, v1)"
    "ed.has name d okw cw limit v1 ?C1" by (auto simp: extend.simps simp del: append_Cons append_Nil wr_le.simps)
  note ne = tu(3)
  from ed.grow_tail [OF v1(2), where f = "f\<lparr>alloc_map := blks @ [of_nat t]\<rparr>" and xs = blks and b = "of_nat t" and m = m and zs = "[of_nat t]"
      and n = "length blks" and ?f0.0 = f and ?v0.0 = v] v1(1) tu t g obtain v' where
    v': "grow (by_path ('':://'' @ name) m) m (length blks) (Suc (length blks)) f v = Some (f\<lparr>alloc_map := blks @ [of_nat t, END_OF_CHAIN]\<rparr>, v')"
    "ed.has name d okw cw limit v' ?D" by (auto simp del: append_Cons append_Nil wr_le.simps)
  let ?W = "cw (world v')"
  have W: "?W q = ?D q" if "q < limit" for q using v'(2) that by (simp add: ed.has_def)
  have fatW: "fat ?W m b = (if b = t then END_OF_CHAIN else if b = unat (last blks) then of_nat t else fat C m b)"
    if b: "b \<in> insert t (unat ` set blks)" "fat_pos m b + 8 \<le> limit" for b
  proof -
    have "fat_pos m b div 32768 \<noteq> t" using g b(1) by blast
    note far = fat_in_one_block [OF this]
    have "fat ?W m b = fat ?D m b" unfolding fat_def by (rule arg_cong [where f = of_nat], rule rd_le_cong) (use W b(2) in auto)
    also have "\<dots> = fat (wr_le 8 ?C1 (fat_pos m t) 18446744073709551615) m b" by (rule fat_put_bytes) (use far in auto)
    also have "\<dots> = (if b = t then END_OF_CHAIN else fat ?C1 m b)" using fat_write [of ?C1 m t END_OF_CHAIN b] by (simp del: wr_le.simps)
    finally show ?thesis using fat_write [of C m "unat (last blks)" "of_nat t" b] tu by (simp del: wr_le.simps)
  qed
  have t_new: "unat b \<noteq> t" if "b \<in> set blks" for b
    using g chained_nonzero [of C m limit blks END_OF_CHAIN b] that by (auto simp: first_free_block_def)
  have "chained ?W m limit (blks @ of_nat t # [END_OF_CHAIN])"
  proof (rule chained_append)
    show "fat ?W m (unat b) = fat C m (unat b)" if "b \<in> set (butlast blks)" for b
    proof -
      have b: "b \<in> set blks" using that by (rule in_set_butlastD)
      have "b \<noteq> last blks" using that g by (metis append_butlast_last_id distinct_butlast not_distinct_conv_prefix)
      then show ?thesis using fatW [of "unat b"] t_new [OF b] chained_fits [OF _ b] g b by (auto simp: word_unat_eq_iff)
    qed
    show "fat ?W m (unat (last blks)) = of_nat t" using fatW [of "unat (last blks)"] t_new l(1) g by simp
    show "chained ?W m limit (of_nat t # [END_OF_CHAIN])" using ne fatW [of t] t tu by simp
  qed (use g in auto)
  moreover have "?W (t * 32768 + i) = 0" if "i < 32768" for i
    using W [of "t * 32768 + i"] g that by (simp add: put_bytes_apply)
  moreover have "?W q = C q" if "q < limit" "q div 32768 \<noteq> t" "\<not> (?l \<le> q \<and> q < ?l + 8)" "\<not> (fat_pos m t \<le> q \<and> q < fat_pos m t + 8)" for q
  proof -
    have "\<not> (t * 32768 \<le> q \<and> q < t * 32768 + 32768)" using that(2) by (auto simp: div_nat_eqI)
    then show ?thesis using W [OF that(1)] that(3,4) by (auto simp: put_bytes_apply wr_le_apply simp del: wr_le.simps)
  qed
  ultimately show ?thesis using v'(1) by auto
qed

text \<open>The file of the disk in memory, as it is cached.\<close>

definition notes_file :: cached_file_t where
  "notes_file = \<lparr>cf_path = ''/notes'', cf_result = empty_result\<lparr>target := notes_entry\<rparr>, cf_block = 0,
     cf_cache = replicate BYTES_PER_BLOCK 0, cf_status = 0, alloc_map = [22, END_OF_CHAIN]\<rparr>"

lemma notes_growable: "growable notes_disk 1048576 mem_mount notes_file [22] 0"
proof -
  have pos: "fat_pos mem_mount b = 524288 + b * 8" "slot mem_mount 0 = 557056" for b by (simp_all add: fat_pos_def slot_def mem_mount_def)
  have "rd_le 8 notes_disk 524288 = rd_le 8 (\<lambda>_. 0) 524288"
    unfolding notes_disk_def by (rule rd_le_cong) (simp add: put_bytes_apply put_entry_frame pos notes_entry_def new_file_def del: wr_le.simps)
  then have "fat notes_disk mem_mount 0 = 0" by (simp add: fat_def pos zero_disk del: rd_le.simps)
  then show ?thesis by (simp add: growable_def notes_file_def first_free_block_def notes_fat pos)
qed

theorem grow_appends_free_block_witness:
  "\<exists>v'. grow (by_path '':://ram'' mem_mount) mem_mount (Suc 0) (Suc (Suc 0)) notes_file (mem_vfs notes_disk) = Some (notes_file\<lparr>alloc_map := [22, 0, END_OF_CHAIN]\<rparr>, v')
     \<and> chained (world v') mem_mount 1048576 [22, 0, END_OF_CHAIN]"
proof -
  have "notes_disk = world (mem_vfs notes_disk)" by (simp add: mem_vfs_def)
  then show ?thesis
    using grow_appends_free_block [OF on_mem_disk, of notes_disk notes_disk mem_mount notes_file "[22]" 0] notes_growable by (simp del: chained.simps) blast
qed

text \<open>
  C37. Growing a file by two blocks at once gives it the same block twice: nothing is written into the
  table entry of the first block found before the second search, so the search finds it again.  The
  file's last two blocks share their bytes.
\<close>

theorem grow_by_two_shares_block:
  assumes "on_disk name d okw cw limit v" and "C = cw (world v)" and "growable C limit m f blks t"
  shows "\<exists>v'. grow (by_path ('':://'' @ name) m) m (length blks) (length blks + 2) f v =
      Some (f\<lparr>alloc_map := blks @ [of_nat t, of_nat t, END_OF_CHAIN]\<rparr>, v')"
proof -
  let ?l = "fat_pos m (unat (last blks))" and ?n = "length blks"
  let ?C1 = "wr_le 8 C ?l t" and ?f1 = "f\<lparr>alloc_map := blks @ [of_nat t]\<rparr>"
  note g = assms(3) [unfolded growable_def]
  have v: "ed.has name d okw cw limit v C" using assms(1,2) by (simp add: ed.has_def)
  have l: "?l + 8 \<le> limit" "fat C m (unat (last blks)) = END_OF_CHAIN" using chained_last g by blast+
  have t: "fat_pos m t + 8 \<le> limit" using g by (simp add: first_free_block_def)
  note tu = ed.fat_index_small [OF v t]
  have last: "(blks @ [END_OF_CHAIN]) ! (?n - 1) = last blks" using g by (simp add: nth_append last_conv_nth)
  from ed.extend_link [OF v, of m t ?n "?n + 2" f] g l last tu obtain v1 where
    v1: "extend (by_path ('':://'' @ name) m) m ?n (?n + 2) f v = extend (by_path ('':://'' @ name) m) m (Suc ?n) (?n + 2) ?f1 v1"
    "ed.has name d okw cw limit v1 ?C1" by (auto simp del: append_Cons append_Nil wr_le.simps)
  have free: "first_free_block ?C1 limit m t" by (rule first_free_block_link) (use g l tu in auto)
  from ed.extend_link [OF v1(2) free, of "Suc ?n" "?n + 2" ?f1] t tu obtain v2 where
    v2: "extend (by_path ('':://'' @ name) m) m (Suc ?n) (?n + 2) ?f1 v1 = Some (f\<lparr>alloc_map := blks @ [of_nat t, of_nat t]\<rparr>, v2)"
    "ed.has name d okw cw limit v2 (wr_le 8 ?C1 (fat_pos m t) t)"
    by (auto simp: extend.simps [of _ _ "Suc (Suc ?n)"] nth_append simp del: append_Cons append_Nil wr_le.simps)
  from ed.grow_tail [OF v2(2), where f = "f\<lparr>alloc_map := blks @ [of_nat t, of_nat t]\<rparr>" and xs = "blks @ [of_nat t]" and b = "of_nat t" and m = m
      and zs = "[of_nat t, of_nat t]" and n = ?n and ?f0.0 = f and ?v0.0 = v] v1(1) v2(1) tu t g
  show ?thesis by (auto simp del: wr_le.simps)
qed

theorem grow_by_two_shares_block_witness:
  "\<exists>v'. grow (by_path '':://ram'' mem_mount) mem_mount (Suc 0) (Suc (Suc (Suc 0))) notes_file (mem_vfs notes_disk) = Some (notes_file\<lparr>alloc_map := [22, 0, 0, END_OF_CHAIN]\<rparr>, v')"
proof -
  have "notes_disk = world (mem_vfs notes_disk)" by (simp add: mem_vfs_def)
  then show ?thesis
    using grow_by_two_shares_block [OF on_mem_disk, of notes_disk notes_disk mem_mount notes_file "[22]" 0] notes_growable by simp
qed

end
