(* ===== verification/Task.thy ===== *)
theory Task
  imports Vfs Kheap Descriptors Tty
begin

text \<open>
  Tasks and the scheduler, \<open>kernel/src/task.c\<close>: the task table, task creation, the scheduler loop with
  its polling of pending input and output, and the end of a task.

  A slot of the table is the null pointer (\<open>NoTask\<close>), the value \<open>EMPTY_PID\<close> that a finished task leaves
  behind, or a pointer to a task structure, kept with its heap address.  The fields \<open>pwd\<close> and
  \<open>file_handles_v2\<close> of a task and the variable \<open>current_task\<close> are those the file system switch
  works on, \<open>pwd_of\<close>, \<open>handles_of\<close> and \<open>current_pid\<close> of its state.  The memory of a task is a
  block of the kernel heap.  The arrays that hang off a task (\<open>file_handles\<close>, \<open>file_handles_v2\<close>,
  \<open>ldt\<close>, \<open>ipc_queue\<close>) are heap blocks as well: their contents are kept as lists, their places in the
  fields named \<open>_addr\<close>.  (A task's \<open>vfs_open\<close> enlarges its block of \<open>file_handles_v2\<close>; the block is a whole
  page, so it does so in place as long as the task has no more than 341 handles.)

  The scheduler does not return to its caller: it ends by loading a task into the processor (\<open>Run\<close>),
  by halting until the next interrupt (\<open>Idle\<close>) or in a panic.  \<open>None\<close> is an access through a slot that
  holds no task, or outside the table.  \<open>e9_port\<close> is what was sent to the debug port.
\<close>

record task_t =
  t_status :: task_status
  t_parent :: nat
  t_base :: nat
  t_pages :: nat
  cpu :: gpr_state
  t_name :: string
  server_name :: string
  t_stdin :: string
  t_stdout :: string
  t_stderr :: string
  iowait_dev :: string
  iowait_loc :: u64
  iowait_type :: int
  iowait_payload :: u8
  iowait_handle :: int
  iowait_ptr :: nat
  iowait_len :: int
  iowait_done :: int
  ipc_queue_addr :: nat
  ipc_queue :: "ipc_packet_t list"
  heap_base :: nat
  heap_size :: nat
  ldt_addr :: nat
  ldt :: "dt_entry list"
  sigabrt :: u32
  sigfpe :: u32
  sigill :: u32
  sigint :: u32
  sigsegv :: u32
  sigterm :: u32
  file_handles_addr :: nat
  file_handles :: "file_handle_t list"
  file_handles_v2_addr :: nat

datatype task_slot = NoTask | EmptyPid | Task nat task_t

record 'w kernel =
  task_table :: "task_slot list"
  idle_cpu :: bool
  ts_enable :: bool
  kernel_heap :: kheap
  gdt :: "dt_entry list"
  kconsole :: console
  e9_port :: "u8 list"
  kvfs :: "'w vfs"

abbreviation current_task :: "'w kernel \<Rightarrow> nat" where
  "current_task k \<equiv> current_pid (kvfs k)"

abbreviation set_current :: "nat \<Rightarrow> 'w kernel \<Rightarrow> 'w kernel" where
  "set_current c k \<equiv> k\<lparr>kvfs := (kvfs k)\<lparr>current_pid := c\<rparr>\<rparr>"

abbreviation (input) sizeof_task_t :: nat where "sizeof_task_t \<equiv> 10672"

text \<open>Access through \<open>task_table[pid]\<close>.\<close>

definition get_task :: "nat \<Rightarrow> 'w kernel \<Rightarrow> task_t option" where
  "get_task pid k = (case arr_get (task_table k) pid of Some (Task a t) \<Rightarrow> Some t | _ \<Rightarrow> None)"

definition set_task :: "nat \<Rightarrow> task_t \<Rightarrow> 'w kernel \<Rightarrow> 'w kernel option" where
  "set_task pid t k =
     (case arr_get (task_table k) pid of
        Some (Task a _) \<Rightarrow> Some (k\<lparr>task_table := (task_table k)[pid := Task a t]\<rparr>)
      | _ \<Rightarrow> None)"

definition default_cpu_status :: gpr_state where
  "default_cpu_status = \<lparr>eax = 0, ebx = 0, ecx = 0, edx = 0, esi = 0, edi = 0, ebp = 0,
     seg_ds = 0x33, seg_es = 0x33, seg_fs = 0x33, seg_gs = 0x33, eip = 0, seg_cs = 0x2b, eflags = 0x1202, esp = 0, seg_ss = 0x33\<rparr>"

text \<open>A task structure filled with zeros, except for its status.\<close>

definition zero_task :: "task_status \<Rightarrow> task_t" where
  "zero_task st = \<lparr>t_status = st, t_parent = 0, t_base = 0, t_pages = 0,
     cpu = default_cpu_status\<lparr>seg_ds := 0, seg_es := 0, seg_fs := 0, seg_gs := 0, seg_cs := 0, eflags := 0, seg_ss := 0\<rparr>,
     t_name = [], server_name = [], t_stdin = [], t_stdout = [], t_stderr = [], iowait_dev = [], iowait_loc = 0, iowait_type = 0,
     iowait_payload = 0, iowait_handle = 0, iowait_ptr = 0, iowait_len = 0, iowait_done = 0, ipc_queue_addr = 0, ipc_queue = [], heap_base = 0,
     heap_size = 0, ldt_addr = 0, ldt = [], sigabrt = 0, sigfpe = 0, sigill = 0, sigint = 0, sigsegv = 0, sigterm = 0,
     file_handles_addr = 0, file_handles = [], file_handles_v2_addr = 0\<rparr>"

text \<open>\<open>None\<close> is the panic when memory for the table or the kernel task is missing.\<close>

definition task_init :: "'w kernel \<Rightarrow> 'w kernel option" where
  "task_init k =
     (let (tt, h) = kalloc (KRNL_MAX_TASKS * 4) (kernel_heap k) in
      if tt = 0 then None
      else let (a, h) = kalloc sizeof_task_t h in
        if a = 0 then None
        else Some (k\<lparr>kernel_heap := h,
          task_table := Task a ((zero_task Res)\<lparr>t_name := ''kernel''\<rparr>) # replicate (KRNL_MAX_TASKS - 1) NoTask,
          kvfs := (kvfs k)\<lparr>pwd_of := (pwd_of (kvfs k))(0 := ''/''), handles_of := (handles_of (kvfs k))(0 := [])\<rparr>\<rparr>))"

text \<open>The new structure comes with the working directory and the handles that belong to it.\<close>

definition task_create :: "task_t \<Rightarrow> string \<Rightarrow> file_handle_v2_t list \<Rightarrow> 'w kernel \<Rightarrow> int \<times> 'w kernel" where
  "task_create new_task pwd handles k =
     (case first_index (\<lambda>s. s = NoTask \<or> s = EmptyPid) (task_table k) of
        None \<Rightarrow> (-1, k)
      | Some new_pid \<Rightarrow>
          let (a, h) = kalloc sizeof_task_t (kernel_heap k) in
          if a = 0 then (-1, k\<lparr>kernel_heap := h, task_table := (task_table k)[new_pid := EmptyPid]\<rparr>)
          else (int new_pid, k\<lparr>kernel_heap := h, task_table := (task_table k)[new_pid := Task a new_task],
                  kvfs := (kvfs k)\<lparr>pwd_of := (pwd_of (kvfs k))(new_pid := pwd),
                                   handles_of := (handles_of (kvfs k))(new_pid := handles)\<rparr>\<rparr>))"

subsection \<open>The scheduler\<close>

datatype sched_outcome = Run nat gpr_state | Idle | Panicked

text \<open>
  Polling the request a task waits for: done, still waiting, or of an unknown type.  The addresses of
  the task's memory are computed modulo \<open>2 ^ 32\<close>.
\<close>

datatype poll = Done | Waiting | BadType

definition user_addr :: "task_t \<Rightarrow> int \<Rightarrow> nat" where
  "user_addr t p = nat ((int (t_base t) + p) mod 2 ^ 32)"

definition poll_byte :: "(int \<times> 'w vfs) option \<Rightarrow> task_t \<Rightarrow> memory \<Rightarrow> (poll \<times> task_t \<times> memory \<times> 'w vfs) option" where
  "poll_byte r t m = do {
     (c, v) \<leftarrow> r;
     if c \<noteq> IO_NOT_READY then Some (Done, t\<lparr>cpu := (cpu t)\<lparr>eax := word_of_int c\<rparr>, t_status := Active\<rparr>, m, v)
     else Some (Waiting, t, m, v) }"

definition poll_done :: "bool \<Rightarrow> int \<Rightarrow> task_t \<Rightarrow> poll \<times> task_t" where
  "poll_done stat n t =
     (if stat then (Waiting, t\<lparr>iowait_done := s32 (iowait_done t + n)\<rparr>)
      else (Done, t\<lparr>cpu := (cpu t)\<lparr>eax := word_of_int (iowait_done t + n)\<rparr>, t_status := Active\<rparr>))"

definition poll_io :: "task_t \<Rightarrow> memory \<Rightarrow> 'w vfs \<Rightarrow> (poll \<times> task_t \<times> memory \<times> 'w vfs) option" where
  "poll_io t m v =
     (let a = user_addr t (int (iowait_ptr t) + iowait_done t); n = s32 (iowait_len t - iowait_done t) in
      if iowait_type t = 0 then poll_byte (vfs_kread (iowait_dev t) (iowait_loc t) v) t m
      else if iowait_type t = 1 then poll_byte (vfs_kwrite (iowait_dev t) (iowait_loc t) (iowait_payload t) v) t m
      else if iowait_type t = 2 then do {
        ((r, bs), v) \<leftarrow> vfs_uread (iowait_handle t) n v;
        let (p, t) = poll_done (vfs_read_stat v) r t;
        Some (p, t, put_bytes bs a m, v) }
      else if iowait_type t = 3 then do {
        (r, v) \<leftarrow> vfs_uwrite (iowait_handle t) (map m [a..<a + nat n]) v;
        let (p, t) = poll_done (vfs_write_stat v) r t;
        Some (p, t, m, v) }
      else Some (BadType, t, m, v))"

text \<open>The segments of the task are put into the global descriptor table and its registers loaded.\<close>

definition load_segments :: "task_t \<Rightarrow> dt_entry list \<Rightarrow> dt_entry list option" where
  "load_segments t g = do {
     g \<leftarrow> set_segment g 5 (of_nat (t_base t)) (of_nat (t_pages t));
     g \<leftarrow> set_segment g 6 (of_nat (t_base t)) (of_nat (t_pages t));
     load_ldt g (of_nat (ldt_addr t)) (of_nat (length (ldt t))) }"

definition dispatch :: "nat \<Rightarrow> task_t \<Rightarrow> 'w kernel \<Rightarrow> (sched_outcome \<times> 'w kernel) option" where
  "dispatch c t k = do {
     g \<leftarrow> load_segments t (gdt k);
     Some (Run c (cpu t), k\<lparr>idle_cpu := False, gdt := g\<rparr>) }"

function task_scheduler :: "'w kernel \<Rightarrow> (sched_outcome \<times> 'w kernel) option" where
  "task_scheduler k =
     (let c = current_task k in
      case arr_get (task_table k) c of
        None \<Rightarrow> None
      | Some NoTask \<Rightarrow>
          if idle_cpu k then Some (Idle, set_current 0 k) else task_scheduler (set_current 0 (k\<lparr>idle_cpu := True\<rparr>))
      | Some EmptyPid \<Rightarrow> task_scheduler (set_current (Suc c) k)
      | Some (Task a t) \<Rightarrow>
          (case t_status t of
             IoWait \<Rightarrow>
               (case poll_io t (heap_mem (kernel_heap k)) (kvfs k) of
                  None \<Rightarrow> None
                | Some (p, t, m, v) \<Rightarrow>
                    let k = k\<lparr>task_table := (task_table k)[c := Task a t], kernel_heap := (kernel_heap k)\<lparr>heap_mem := m\<rparr>,
                              kvfs := v\<lparr>current_pid := c\<rparr>\<rparr> in
                    (case p of Done \<Rightarrow> dispatch c t k
                     | Waiting \<Rightarrow> task_scheduler (set_current (Suc c) k)
                     | BadType \<Rightarrow> Some (Panicked, k)))
           | Active \<Rightarrow> dispatch c t k
           | _ \<Rightarrow> task_scheduler (set_current (Suc c) k)))"
  by pat_completeness auto
termination
  by (relation "measure (\<lambda>k. (if idle_cpu k then 0 else Suc (length (task_table k))) + (length (task_table k) - current_task k))")
    (auto simp: arr_get_def split: if_splits)

declare task_scheduler.simps [simp del]

definition task_switch :: "gpr_state \<Rightarrow> 'w kernel \<Rightarrow> (sched_outcome \<times> 'w kernel) option" where
  "task_switch regs k = do {
     t \<leftarrow> get_task (current_task k) k;
     k \<leftarrow> set_task (current_task k) (t\<lparr>cpu := regs\<rparr>) k;
     task_scheduler (set_current (Suc (current_task k)) k) }"

text \<open>
  The end of a task.  The parent is looked up without any test; the memory of the task, its handle tables
  and its structure are released.  When the task ends itself the scheduler takes over, otherwise the call returns.
\<close>

definition wake_parent :: "int \<Rightarrow> task_t \<Rightarrow> task_t" where
  "wake_parent return_value p =
     (if t_status p = ProcWait
      then p\<lparr>cpu := (cpu p)\<lparr>eax := word_of_int return_value, edx := word_of_int (return_value div 2 ^ 32)\<rparr>, t_status := Active\<rparr>
      else p)"

definition task_quit :: "nat \<Rightarrow> int \<Rightarrow> 'w kernel \<Rightarrow> (sched_outcome option \<times> 'w kernel) option" where
  "task_quit pid return_value k = do {
     t \<leftarrow> get_task pid k;
     p \<leftarrow> get_task (t_parent t) k;
     k \<leftarrow> set_task (t_parent t) (wake_parent return_value p) k;
     (case arr_get (task_table k) pid of
        Some (Task a t) \<Rightarrow>
          let k = k\<lparr>kernel_heap := kfree a (kfree (t_base t) (kfree (file_handles_v2_addr t) (kfree (file_handles_addr t) (kernel_heap k)))),
                    task_table := (task_table k)[pid := EmptyPid]\<rparr> in
          if pid = current_task k
          then map_option (\<lambda>(r, k). (Some r, k)) (task_scheduler (k\<lparr>ts_enable := True\<rparr>))
          else Some (None, k)
      | _ \<Rightarrow> None) }"

definition task_quit_self :: "int \<Rightarrow> 'w kernel \<Rightarrow> (sched_outcome option \<times> 'w kernel) option" where
  "task_quit_self return_value k = task_quit (current_task k) return_value k"

subsection \<open>Which task runs next\<close>

text \<open>What the scheduler sees of a slot: whether it ends the table, and the status of a task.\<close>

definition kind :: "task_slot \<Rightarrow> task_status option option" where
  "kind s = (case s of NoTask \<Rightarrow> None | EmptyPid \<Rightarrow> Some None | Task a t \<Rightarrow> Some (Some (t_status t)))"

definition next_active :: "task_slot list \<Rightarrow> nat \<Rightarrow> nat \<Rightarrow> nat option" where
  "next_active ts c n = find (\<lambda>i. kind (ts ! i) = Some (Some Active)) [c..<n]"

text \<open>The table in use is its first \<open>n\<close> slots, and no task in it waits for input or output.\<close>

definition settled :: "task_slot list \<Rightarrow> nat \<Rightarrow> bool" where
  "settled ts n \<longleftrightarrow> n < length ts \<and> kind (ts ! n) = None \<and> (\<forall>i<n. kind (ts ! i) \<noteq> None \<and> kind (ts ! i) \<noteq> Some (Some IoWait))"

definition scheduled :: "bool \<Rightarrow> task_slot list \<Rightarrow> nat \<Rightarrow> nat \<Rightarrow> nat option" where
  "scheduled idle ts c n =
     (case next_active ts c n of Some p \<Rightarrow> Some p | None \<Rightarrow> if idle then None else next_active ts 0 n)"

lemma kind_cases:
  "kind s = None \<longleftrightarrow> s = NoTask" "kind s = Some None \<longleftrightarrow> s = EmptyPid" "kind s = Some (Some st) \<longleftrightarrow> (\<exists>a t. s = Task a t \<and> t_status t = st)"
  by (auto simp: kind_def split: task_slot.splits)

lemma next_active_Cons:
  "c < n \<Longrightarrow> next_active ts c n = (if kind (ts ! c) = Some (Some Active) then Some c else next_active ts (Suc c) n)"
  by (simp add: next_active_def upt_conv_Cons)

lemma next_active_end [simp]: "n \<le> c \<Longrightarrow> next_active ts c n = None"
  by (simp add: next_active_def)

lemma next_active_Some:
  "next_active ts c n = Some p \<longleftrightarrow>
   c \<le> p \<and> p < n \<and> kind (ts ! p) = Some (Some Active) \<and> (\<forall>i. c \<le> i \<and> i < p \<longrightarrow> kind (ts ! i) \<noteq> Some (Some Active))"
proof (induction "n - c" arbitrary: c)
  case (Suc d)
  then have c: "c < n" by simp
  from Suc.hyps have IH: "next_active ts (Suc c) n = Some p \<longleftrightarrow> Suc c \<le> p \<and> p < n \<and> kind (ts ! p) = Some (Some Active)
      \<and> (\<forall>i. Suc c \<le> i \<and> i < p \<longrightarrow> kind (ts ! i) \<noteq> Some (Some Active))" by simp
  show ?case unfolding next_active_Cons [OF c] using c IH
    by (auto simp: Suc_le_eq) (metis le_neq_implies_less)+
qed auto

lemma next_active_None:
  "next_active ts c n = None \<longleftrightarrow> (\<forall>i. c \<le> i \<and> i < n \<longrightarrow> kind (ts ! i) \<noteq> Some (Some Active))"
  by (auto simp: next_active_def find_None_iff)

text \<open>The loop passes over slots without a task and over tasks that wait.\<close>

lemma scheduler_scan:
  assumes "settled (task_table k) n" and "current_task k \<le> n"
  shows "task_scheduler k =
    (case next_active (task_table k) (current_task k) n of
       Some p \<Rightarrow> (case task_table k ! p of Task a t \<Rightarrow> dispatch p t (set_current p k) | _ \<Rightarrow> None)
     | None \<Rightarrow> task_scheduler (set_current n k))"
  using assms
proof (induction "n - current_task k" arbitrary: k)
  case 0
  then show ?case by simp
next
  case (Suc d)
  let ?c = "current_task k" and ?k = "set_current (Suc (current_task k)) k"
  have c: "?c < n" "?c < length (task_table k)" using Suc.hyps(2) Suc.prems(1) by (auto simp: settled_def)
  have IH: "task_scheduler ?k = (case next_active (task_table k) (Suc ?c) n of
       Some p \<Rightarrow> (case task_table k ! p of Task a t \<Rightarrow> dispatch p t (set_current p k) | _ \<Rightarrow> None)
     | None \<Rightarrow> task_scheduler (set_current n k))"
    using Suc.hyps(1) [of ?k] Suc.hyps(2) Suc.prems(1) c by (simp split: option.splits task_slot.splits)
  have k: "kind (task_table k ! ?c) \<noteq> None" "kind (task_table k ! ?c) \<noteq> Some (Some IoWait)" using Suc.prems(1) c by (auto simp: settled_def)
  have "set_current ?c k = k" by simp
  then show ?case
    using k IH c by (subst task_scheduler.simps)
      (auto simp: next_active_Cons kind_def Let_def split: task_slot.splits task_status.splits)
qed

lemma scheduler_wrap:
  assumes "settled (task_table k) n"
  shows "task_scheduler (set_current n k) =
    (if idle_cpu k then Some (Idle, set_current 0 k) else task_scheduler (set_current 0 (k\<lparr>idle_cpu := True\<rparr>)))"
  using assms by (subst task_scheduler.simps) (simp add: settled_def kind_cases)

lemma load_segments_ok: "length g = 11 \<Longrightarrow> \<exists>g'. load_segments t g = Some g' \<and> length g' = 11"
  by (simp add: load_segments_def set_segment_def load_ldt_def arr_set_def Let_def)

lemma scheduler_picks:
  assumes "settled (task_table k) n" and "current_task k \<le> n" and "length (gdt k) = 11"
  shows "case scheduled (idle_cpu k) (task_table k) (current_task k) n of
      Some p \<Rightarrow> \<exists>a t g. task_table k ! p = Task a t \<and> t_status t = Active \<and> load_segments t (gdt k) = Some g
        \<and> task_scheduler k = Some (Run p (cpu t), (set_current p k)\<lparr>idle_cpu := False, gdt := g\<rparr>)
    | None \<Rightarrow> task_scheduler k = Some (Idle, (set_current 0 k)\<lparr>idle_cpu := True\<rparr>)"
proof -
  have disp: "\<exists>a t g. task_table k ! p = Task a t \<and> t_status t = Active \<and> load_segments t (gdt k) = Some g
      \<and> (case task_table k ! p of Task a t \<Rightarrow> dispatch p t k' | _ \<Rightarrow> None) = Some (Run p (cpu t), k'\<lparr>idle_cpu := False, gdt := g\<rparr>)"
    if "next_active (task_table k) c n = Some p" "gdt k' = gdt k" for c p and k' :: "'a kernel"
  proof -
    from that(1) obtain a t where t: "task_table k ! p = Task a t" "t_status t = Active" by (auto simp: next_active_Some kind_cases)
    from load_segments_ok [OF assms(3), of t] obtain g where "load_segments t (gdt k) = Some g" by blast
    then show ?thesis using t that(2) by (simp add: dispatch_def)
  qed
  let ?ts = "task_table k" and ?c = "current_task k"
  show ?thesis
  proof (cases "next_active ?ts ?c n")
    case (Some p)
    then show ?thesis using disp [OF Some, of "set_current p k"] scheduler_scan [OF assms(1,2)] by (auto simp: scheduled_def)
  next
    case None
    let ?k = "set_current 0 (k\<lparr>idle_cpu := True\<rparr>)"
    have wrap: "task_scheduler k = (if idle_cpu k then Some (Idle, set_current 0 k) else task_scheduler ?k)"
      using scheduler_scan [OF assms(1,2)] None scheduler_wrap [OF assms(1)] by simp
    have again: "task_scheduler ?k = (case next_active ?ts 0 n of
        Some p \<Rightarrow> (case ?ts ! p of Task a t \<Rightarrow> dispatch p t (set_current p ?k) | _ \<Rightarrow> None) | None \<Rightarrow> Some (Idle, ?k))"
      using scheduler_scan [of ?k n] scheduler_wrap [of ?k n] assms(1) by (simp split: option.splits task_slot.splits)
    show ?thesis
    proof (cases "next_active ?ts 0 n")
      case (Some p)
      then show ?thesis using disp [OF Some, of "set_current p ?k"] wrap again None by (auto simp: scheduled_def)
    next
      case none: None
      have "idle_cpu k \<Longrightarrow> set_current 0 k = ?k" by simp
      then show ?thesis using wrap again None none by (auto simp: scheduled_def)
    qed
  qed
qed

text \<open>
  C5. The scheduler is a round robin: when no task waits for input or output it runs the first active
  task from the current one on; when there is none before the end of the table in use it starts over
  from the beginning, once, and halts the processor only when no task at all is active.  The task that
  runs has its own segments in the descriptor table and its saved registers in the processor, and
  nothing else of the kernel changes.
\<close>

theorem scheduler_round_robin:
  assumes "settled (task_table k) n" and "current_task k \<le> n" and "length (gdt k) = 11"
  shows "case scheduled (idle_cpu k) (task_table k) (current_task k) n of
      Some p \<Rightarrow> \<exists>a t g. task_table k ! p = Task a t \<and> t_status t = Active \<and> load_segments t (gdt k) = Some g
        \<and> task_scheduler k = Some (Run p (cpu t), (set_current p k)\<lparr>idle_cpu := False, gdt := g\<rparr>)
    | None \<Rightarrow> task_scheduler k = Some (Idle, (set_current 0 k)\<lparr>idle_cpu := True\<rparr>)"
  by (rule scheduler_picks [OF assms])

text \<open>A kernel with the kernel task, a finished task, a task that waits for a packet and two active tasks.\<close>

definition demo_kernel :: "unit kernel" where
  "demo_kernel = \<lparr>task_table = [Task 0x1000 (zero_task Res), EmptyPid, Task 0x6000 (zero_task Active), Task 0xa000 (zero_task IpcWait),
       Task 0xe000 (zero_task Active), NoTask], idle_cpu = False, ts_enable = True,
     kernel_heap = \<lparr>heap_pmm = \<lparr>bitmap = (\<lambda>i. i < 32), last_used_index = 0, highest_page = 64 * 4096\<rparr>, heap_mem = (\<lambda>_. 0)\<rparr>,
     gdt = load_gdt 0 104, kconsole = switch_tty 0 (init_tty (bss_console (\<lambda>_. 0))), e9_port = [], kvfs = demo_vfs\<lparr>current_pid := 4\<rparr>\<rparr>"

lemma demo_kernel_settled: "settled (task_table demo_kernel) 5" "length (gdt demo_kernel) = 11" "\<not> idle_cpu demo_kernel" "current_task demo_kernel = 4"
proof -
  have "kind (task_table demo_kernel ! i) \<noteq> None \<and> kind (task_table demo_kernel ! i) \<noteq> Some (Some IoWait)" if "i < 5" for i
  proof -
    have "i = 0 \<or> i = 1 \<or> i = 2 \<or> i = 3 \<or> i = 4" using that by linarith
    then show ?thesis by (auto simp: demo_kernel_def kind_def zero_task_def)
  qed
  then show "settled (task_table demo_kernel) 5" by (auto simp: settled_def) (simp_all add: demo_kernel_def kind_def)
qed (simp_all add: demo_kernel_def load_gdt_def)

theorem scheduler_round_robin_witness:
  "\<exists>g. task_scheduler (set_current 5 demo_kernel) =
     Some (Run 2 (cpu (zero_task Active)), (set_current 2 demo_kernel)\<lparr>idle_cpu := False, gdt := g\<rparr>)"
proof -
  have "next_active (task_table demo_kernel) 0 5 = Some 2"
    by (simp add: next_active_def demo_kernel_def kind_def zero_task_def upt_conv_Cons)
  then have "scheduled (idle_cpu (set_current 5 demo_kernel)) (task_table (set_current 5 demo_kernel)) (current_task (set_current 5 demo_kernel)) 5 = Some 2"
    using demo_kernel_settled by (simp add: scheduled_def)
  then show ?thesis
    using scheduler_round_robin [of "set_current 5 demo_kernel" 5] demo_kernel_settled by (auto simp: demo_kernel_def)
qed

subsection \<open>No active task starves\<close>

text \<open>The tasks that run when the timer interrupts the running task again and again.\<close>

fun switch_pids :: "gpr_state list \<Rightarrow> 'w kernel \<Rightarrow> nat list" where
  "switch_pids [] k = []"
| "switch_pids (r # rs) k = (case task_switch r k of Some (Run p _, k) \<Rightarrow> p # switch_pids rs k | _ \<Rightarrow> [])"

definition running :: "task_status option option list \<Rightarrow> nat \<Rightarrow> 'w kernel \<Rightarrow> bool" where
  "running ks n k \<longleftrightarrow> settled (task_table k) n \<and> map kind (task_table k) = ks \<and> current_task k < n
     \<and> (\<exists>a t. task_table k ! current_task k = Task a t) \<and> \<not> idle_cpu k \<and> length (gdt k) = 11"

lemma settled_kinds: "map kind ts = map kind ts' \<Longrightarrow> settled ts n = settled ts' n"
  unfolding settled_def by (metis (no_types, lifting) length_map nth_map order.strict_trans)

lemma switch_step:
  assumes "running ks n k" and "p < n" and "ks ! p = Some (Some Active)"
  shows "\<exists>q g k'. task_switch r k = Some (Run q g, k') \<and> running ks n k' \<and> current_task k' = q
    \<and> scheduled False (task_table k') (Suc (current_task k)) n = Some q"
proof -
  let ?c = "current_task k"
  from assms(1) obtain a t where t: "task_table k ! ?c = Task a t" "settled (task_table k) n" "map kind (task_table k) = ks" "?c < n"
    "\<not> idle_cpu k" "length (gdt k) = 11" "?c < length (task_table k)" by (auto simp: running_def settled_def)
  let ?ts = "(task_table k)[?c := Task a (t\<lparr>cpu := r\<rparr>)]"
  let ?k = "set_current (Suc ?c) (k\<lparr>task_table := ?ts\<rparr>)"
  have kinds: "map kind ?ts = ks" using t(1,3,7) by (auto simp: map_update kind_def list_update_same_conv [THEN iffD2] nth_map)
  have set: "settled ?ts n" using settled_kinds [of ?ts "task_table k" n] kinds t(2,3) by simp
  have sw: "task_switch r k = task_scheduler ?k" using t(1,7) by (simp add: task_switch_def get_task_def set_task_def)
  have "p < length ?ts" "kind (?ts ! p) = Some (Some Active)" using kinds assms(2,3) set by (auto simp: settled_def simp flip: nth_map)
  then obtain q where q: "scheduled False ?ts (Suc ?c) n = Some q"
    using assms(2) by (cases "next_active ?ts (Suc ?c) n"; cases "next_active ?ts 0 n") (auto simp: scheduled_def next_active_None)
  have qn: "q < n" using q by (auto simp: scheduled_def next_active_Some split: option.splits)
  from scheduler_picks [of ?k n] set t(4,5,6) q obtain b u g where
    u: "?ts ! q = Task b u" "load_segments u (gdt k) = Some g" "task_scheduler ?k = Some (Run q (cpu u), (set_current q ?k)\<lparr>idle_cpu := False, gdt := g\<rparr>)"
    by auto
  have "length g = 11" using load_segments_ok [OF t(6), of u] u(2) by auto
  then have "running ks n ((set_current q ?k)\<lparr>idle_cpu := False, gdt := g\<rparr>)" using set kinds qn u(1) by (simp add: running_def)
  then show ?thesis using sw u(3) q by auto
qed

text \<open>How many slots lie between the running task and another one, going round.\<close>

definition slots_ahead :: "nat \<Rightarrow> nat \<Rightarrow> nat \<Rightarrow> nat" where
  "slots_ahead n c p = (if c < p then p - c else n - c + p)"

lemma scheduled_closer:
  assumes "scheduled False ts (Suc c) n = Some q" and "p < n" and "kind (ts ! p) = Some (Some Active)" and "c < n" and "q \<noteq> p"
  shows "slots_ahead n q p < slots_ahead n c p"
proof (cases "next_active ts (Suc c) n")
  case None
  then have "next_active ts 0 n = Some q" "p \<le> c"
    using assms None [unfolded next_active_None] by (auto simp: scheduled_def Suc_le_eq) (meson not_le)
  moreover from this(1) have "q \<le> p" using assms(2,3) by (auto simp: next_active_Some) (meson not_le)
  ultimately show ?thesis using assms(4,5) by (auto simp: slots_ahead_def)
next
  case (Some r)
  then have "r = q" "next_active ts (Suc c) n = Some q" using assms(1) by (auto simp: scheduled_def)
  then have q: "Suc c \<le> q" "q < n" "\<And>i. Suc c \<le> i \<Longrightarrow> i < q \<Longrightarrow> kind (ts ! i) \<noteq> Some (Some Active)" by (auto simp: next_active_Some)
  show ?thesis
  proof (cases "c < p")
    case True
    then have "q \<le> p" using q(3) [of p] assms(3) by (meson Suc_leI not_le)
    then show ?thesis using q(1) assms(5) by (auto simp: slots_ahead_def)
  qed (use q in \<open>auto simp: slots_ahead_def\<close>)
qed

lemma eventually_runs:
  "running ks n k \<Longrightarrow> p < n \<Longrightarrow> ks ! p = Some (Some Active) \<Longrightarrow> slots_ahead n (current_task k) p \<le> length rs \<Longrightarrow> p \<in> set (switch_pids rs k)"
proof (induction rs arbitrary: k)
  case Nil
  then show ?case by (auto simp: slots_ahead_def running_def split: if_splits)
next
  case (Cons r rs)
  from switch_step [OF Cons.prems(1-3), of r] obtain q g k' where
    q: "task_switch r k = Some (Run q g, k')" "running ks n k'" "current_task k' = q" "scheduled False (task_table k') (Suc (current_task k)) n = Some q"
    by blast
  show ?case
  proof (cases "q = p")
    case False
    have "kind (task_table k' ! p) = Some (Some Active)"
      using q(2) Cons.prems(2,3) by (auto simp: running_def settled_def simp flip: nth_map)
    moreover have "current_task k < n" using Cons.prems(1) by (simp add: running_def)
    ultimately have "slots_ahead n q p < slots_ahead n (current_task k) p" using scheduled_closer [OF q(4) Cons.prems(2)] False by blast
    then have "p \<in> set (switch_pids rs k')" using Cons.IH [OF q(2) Cons.prems(2,3)] Cons.prems(4) q(3) by simp
    then show ?thesis using q(1) by simp
  qed (use q(1) in simp)
qed

text \<open>
  C12. No active task starves: while the tasks only compute and the timer interrupts them, every active
  task runs again within as many switches as there are slots in use, whatever registers the interrupted
  tasks have.
\<close>

theorem active_task_runs_again:
  assumes "running ks n k" and "p < n" and "ks ! p = Some (Some Active)" and "n \<le> length rs"
  shows "p \<in> set (switch_pids rs k)"
proof (rule eventually_runs [OF assms(1-3)])
  show "slots_ahead n (current_task k) p \<le> length rs"
    using assms(1,2,4) by (auto simp: slots_ahead_def running_def)
qed

theorem active_task_runs_again_witness: "2 \<in> set (switch_pids (replicate 5 default_cpu_status) demo_kernel)"
proof -
  have "running (map kind (task_table demo_kernel)) 5 demo_kernel"
    using demo_kernel_settled by (simp add: running_def) (simp add: demo_kernel_def)
  moreover have "map kind (task_table demo_kernel) ! 2 = Some (Some Active)" by (simp add: demo_kernel_def kind_def zero_task_def)
  ultimately show ?thesis using active_task_runs_again [of "map kind (task_table demo_kernel)" 5 demo_kernel 2] by simp
qed

subsection \<open>The end of a task\<close>

text \<open>What the scheduler never changes: which slots hold a task, and the parents.\<close>

definition parents :: "task_slot list \<Rightarrow> (nat \<times> nat) option option list" where
  "parents ts = map (\<lambda>s. case s of NoTask \<Rightarrow> None | EmptyPid \<Rightarrow> Some None | Task a t \<Rightarrow> Some (Some (a, t_parent t))) ts"

lemma length_parents [simp]: "length (parents ts) = length ts"
  by (simp add: parents_def)

lemma parents_slot:
  assumes "i < length ts"
  shows "parents ts ! i = Some None \<longleftrightarrow> ts ! i = EmptyPid"
    and "parents ts ! i = Some (Some (a, p)) \<longleftrightarrow> (\<exists>t. ts ! i = Task a t \<and> t_parent t = p)"
  using assms by (auto simp: parents_def split: task_slot.splits)

lemma poll_io_parent: "poll_io t m v = Some (p, t', m', v') \<Longrightarrow> t_parent t' = t_parent t"
  by (auto simp: poll_io_def poll_byte_def poll_done_def Let_def bind_eq_Some_conv split: if_splits prod.splits)

lemma dispatch_table: "dispatch c t k = Some (r, k') \<Longrightarrow> task_table k' = task_table k"
  by (auto simp: dispatch_def bind_eq_Some_conv)

lemma parents_update:
  "c < length ts \<Longrightarrow> ts ! c = Task a t \<Longrightarrow> t_parent t' = t_parent t \<Longrightarrow> parents (ts[c := Task a t']) = parents ts"
  by (auto simp: parents_def map_update intro!: list_update_same_conv [THEN iffD2])

lemma scheduler_parents: "task_scheduler k = Some (r, k') \<Longrightarrow> parents (task_table k') = parents (task_table k)"
proof (induction k rule: task_scheduler.induct)
  case (1 k)
  let ?c = "current_task k"
  show ?case
  proof (cases "arr_get (task_table k) ?c")
    case None
    then show ?thesis using "1.prems" by (simp add: task_scheduler.simps [of k])
  next
    case (Some s)
    note s = Some
    then have len: "?c < length (task_table k)" "task_table k ! ?c = s" by (auto simp: arr_get_def split: if_splits)
    show ?thesis
    proof (cases s)
      case NoTask
      then show ?thesis using "1.prems" "1.IH"(1) s by (auto simp: task_scheduler.simps [of k] Let_def split: if_splits)
    next
      case EmptyPid
      then show ?thesis using "1.prems" "1.IH"(2) s by (simp add: task_scheduler.simps [of k] Let_def)
    next
      case (Task a t)
      show ?thesis
      proof (cases "t_status t = IoWait")
        case True
        from "1.prems" s Task True obtain p t' m v where poll: "poll_io t (heap_mem (kernel_heap k)) (kvfs k) = Some (p, t', m, v)"
          by (auto simp: task_scheduler.simps [of k] Let_def split: option.splits)
        have "parents ((task_table k)[?c := Task a t']) = parents (task_table k)"
          by (rule parents_update) (use len Task poll_io_parent [OF poll] in auto)
        then show ?thesis
          using "1.prems" "1.IH"(4) [OF refl s Task True poll] s Task True poll
          by (auto simp: task_scheduler.simps [of k] Let_def dest: dispatch_table split: poll.splits)
      next
        case False
        then show ?thesis
          using "1.prems" "1.IH" s Task
          by (auto simp: task_scheduler.simps [of k] Let_def dest: dispatch_table split: task_status.splits)
      qed
    qed
  qed
qed

text \<open>The state a finished task leaves behind; when it ended itself, the scheduler goes on from there.\<close>

definition after_quit :: "nat \<Rightarrow> int \<Rightarrow> 'w kernel \<Rightarrow> nat \<Rightarrow> task_t \<Rightarrow> nat \<Rightarrow> task_t \<Rightarrow> 'w kernel" where
  "after_quit pid rv k a t b p = k\<lparr>kernel_heap := kfree a (kfree (t_base t) (kfree (file_handles_v2_addr t) (kfree (file_handles_addr t) (kernel_heap k)))),
     task_table := (task_table k)[t_parent t := Task b (wake_parent rv p), pid := EmptyPid]\<rparr>"

lemma task_quit_eq:
  assumes "pid < length (task_table k)" and "task_table k ! pid = Task a t" and "t_parent t < length (task_table k)"
    and "task_table k ! t_parent t = Task b p" and "t_parent t \<noteq> pid"
  shows "task_quit pid rv k =
    (if pid = current_task k
     then map_option (\<lambda>(r, k). (Some r, k)) (task_scheduler ((after_quit pid rv k a t b p)\<lparr>ts_enable := True\<rparr>))
     else Some (None, after_quit pid rv k a t b p))"
  using assms by (simp add: task_quit_def get_task_def set_task_def after_quit_def Let_def)



text \<open>
  C38. An orphan cannot end: once a task's parent has ended, the slot of the parent holds \<open>EMPTY_PID\<close>,
  and when the task ends in turn the kernel follows that value as a pointer to look at the parent's
  status.
\<close>

theorem orphan_quit_faults:
  assumes "get_task child k = Some t" and "t_parent t = par" and "par \<noteq> child" and "task_quit par rv k = Some (r, k1)"
  shows "task_quit child rv' k1 = None"
proof -
  from assms(4) obtain a u b p where u: "par < length (task_table k)" "task_table k ! par = Task a u" "t_parent u < length (task_table k)"
    "task_table k ! t_parent u = Task b p"
    by (auto simp: task_quit_def get_task_def set_task_def bind_eq_Some_conv arr_get_def split: task_slot.splits if_splits)
  let ?ts = "(task_table k)[t_parent u := Task b (wake_parent rv p), par := EmptyPid]"
  have wp: "t_parent (wake_parent rv p) = t_parent p" by (simp add: wake_parent_def)
  have k1: "parents (task_table k1) = parents ?ts"
    using assms(4) u scheduler_parents
    by (fastforce simp: task_quit_def get_task_def set_task_def Let_def nth_list_update split: if_splits)
  then have len: "length (task_table k1) = length (task_table k)" by (metis length_list_update length_parents)
  from assms(1) obtain c where c: "child < length (task_table k)" "task_table k ! child = Task c t"
    by (auto simp: get_task_def arr_get_def split: task_slot.splits if_splits)
  have "parents ?ts ! par = Some None" "\<exists>c'. parents ?ts ! child = Some (Some (c', par))"
    using u c assms(2,3) wp by (auto simp: parents_def nth_list_update)
  then have "task_table k1 ! par = EmptyPid" "\<exists>c' t'. task_table k1 ! child = Task c' t' \<and> t_parent t' = par"
    unfolding k1 [symmetric] using len u(1) c(1) by (auto simp: parents_slot)
  then show ?thesis using len u(1) c(1) by (auto simp: task_quit_def get_task_def)
qed

theorem orphan_quit_faults_witness:
  "\<exists>r k1. task_quit 2 0 (demo_kernel\<lparr>task_table := (task_table demo_kernel)[4 := Task 0xe000 ((zero_task Active)\<lparr>t_parent := 2\<rparr>)]\<rparr>) = Some (r, k1)
     \<and> task_quit 4 0 k1 = None"
proof -
  let ?t = "(zero_task Active)\<lparr>t_parent := 2\<rparr>"
  let ?k = "demo_kernel\<lparr>task_table := (task_table demo_kernel)[4 := Task 0xe000 ?t]\<rparr>"
  have "get_task 4 ?k = Some ?t" by (simp add: get_task_def demo_kernel_def)
  moreover have "\<exists>r k1. task_quit 2 0 ?k = Some (r, k1)"
    by (subst task_quit_eq [of 2 ?k "0x6000" "zero_task Active" "0x1000" "zero_task Res"]) (simp_all add: demo_kernel_def zero_task_def)
  ultimately show ?thesis using orphan_quit_faults [of 4 ?k ?t 2 0] by auto
qed

end
