(* ===== verification/Syscalls.thy ===== *)
theory Syscalls
  imports Task Kprint
begin

text \<open>
  The system calls of \<open>kernel/src/syscalls.c\<close>: segments, the debug log, signals, messages between
  tasks, the heap of a task and the requests that put a task to sleep.

  A system call returns a value to the task (\<open>Inr\<close>), or the task is ended and the processor goes to
  another one (\<open>Inl\<close>); \<open>None\<close> is a fault of the kernel.  Pointers of the task are relocated by adding
  its base in 32-bit arithmetic; strings behind such pointers are passed as strings.  \<open>lseek\<close>, \<open>read\<close>,
  \<open>write\<close>, \<open>open\<close> and \<open>close\<close> are the operations of the file system switch.
\<close>

text \<open>The size of a task's memory, computed in 32 bits.\<close>

definition task_bytes :: "task_t \<Rightarrow> nat" where
  "task_bytes t = (t_pages t * PAGE_SIZE) mod 2 ^ 32"

abbreviation self :: "'w kernel \<Rightarrow> task_t option" where
  "self k \<equiv> get_task (current_task k) k"

abbreviation set_self :: "task_t \<Rightarrow> 'w kernel \<Rightarrow> 'w kernel option" where
  "set_self t k \<equiv> set_task (current_task k) t k"

subsection \<open>Segments and the log\<close>

text \<open>
  The table of the task is enlarged to \<open>n + 8\<close> bytes, \<open>n\<close> its number of entries; a write behind the
  pages of the block is a fault.
\<close>

definition syscall_new_segment :: "nat \<Rightarrow> nat \<Rightarrow> bool \<Rightarrow> 'w kernel \<Rightarrow> (u16 \<times> 'w kernel) option" where
  "syscall_new_segment base page_count code k = do {
     t \<leftarrow> self k;
     if (base + page_count * PAGE_SIZE) mod 2 ^ 32 \<ge> task_bytes t then Some (0xffff, k)
     else
       let n = length (ldt t); (a, h) = krealloc (ldt_addr t) (n + 1 * 8) (kernel_heap k); k = k\<lparr>kernel_heap := h\<rparr> in
       if a = 0 then Some (0xffff, k)
       else if DIV_ROUNDUP (n + 8) PAGE_SIZE * PAGE_SIZE < (n + 1) * 8 then None
       else do {
         l \<leftarrow> set_segment (ldt t @ [gdt_entry 0 0 0]) n (of_nat (base + t_base t)) (of_nat page_count);
         let l = l[n := (l ! n)\<lparr>dt_access := (if code then 0b11111010 else 0b11110010), granularity := 0b11000000\<rparr>];
         k \<leftarrow> set_self (t\<lparr>ldt := l, ldt_addr := a\<rparr>) k;
         g \<leftarrow> load_ldt (gdt k) (of_nat a) (of_nat (n + 1));
         Some (of_nat (n * 8) OR push_bit 2 1 OR 3, k\<lparr>gdt := g\<rparr>) } }"

definition syscall_log :: "string \<Rightarrow> 'w kernel \<Rightarrow> 'w kernel" where
  "syscall_log msg k = k\<lparr>e9_port := e9_port k @ map of_char msg @ [0x0a]\<rparr>"

subsection \<open>Files, signals and the identity of a task\<close>

definition lseek :: "int \<Rightarrow> int \<Rightarrow> int \<Rightarrow> 'w kernel \<Rightarrow> (int \<times> 'w kernel) option" where
  "lseek handle offset type k = map_option (\<lambda>(r, v). (r, k\<lparr>kvfs := v\<rparr>)) (vfs_seek handle offset type (kvfs k))"

text \<open>\<open>read\<close> stores what the switch delivers in the memory of the task; \<open>write\<close> takes it from there.\<close>

definition sys_read :: "int \<Rightarrow> nat \<Rightarrow> int \<Rightarrow> 'w kernel \<Rightarrow> (int \<times> 'w kernel) option" where
  "sys_read handle ptr len k = do {
     t \<leftarrow> self k;
     ((r, bs), v) \<leftarrow> vfs_uread handle len (kvfs k);
     Some (r, k\<lparr>kvfs := v, kernel_heap := (kernel_heap k)\<lparr>heap_mem := put_bytes bs (user_addr t (int ptr)) (heap_mem (kernel_heap k))\<rparr>\<rparr>) }"

definition sys_write :: "int \<Rightarrow> nat \<Rightarrow> int \<Rightarrow> 'w kernel \<Rightarrow> (int \<times> 'w kernel) option" where
  "sys_write handle ptr len k = do {
     t \<leftarrow> self k;
     let a = user_addr t (int ptr);
     (r, v) \<leftarrow> vfs_uwrite handle (map (heap_mem (kernel_heap k)) [a..<a + nat len]) (kvfs k);
     Some (r, k\<lparr>kvfs := v\<rparr>) }"

definition sys_open :: "string \<Rightarrow> u32 \<Rightarrow> int \<Rightarrow> 'w kernel \<Rightarrow> (int \<times> 'w kernel) option" where
  "sys_open path flags mode k = map_option (\<lambda>(r, v). (r, k\<lparr>kvfs := v\<rparr>)) (vfs_open path flags mode (kvfs k))"

definition sys_close :: "int \<Rightarrow> 'w kernel \<Rightarrow> (int \<times> 'w kernel) option" where
  "sys_close handle k = map_option (\<lambda>(r, v). (r, k\<lparr>kvfs := v\<rparr>)) (vfs_close handle (kvfs k))"

definition signal :: "int \<Rightarrow> u32 \<Rightarrow> 'w kernel \<Rightarrow> (u32 \<times> 'w kernel) option" where
  "signal sig handler k =
     (if sig = 0 then do { t \<leftarrow> self k; k \<leftarrow> set_self (t\<lparr>sigabrt := handler\<rparr>) k; Some (sigabrt t, k) }
      else if sig = 1 then do { t \<leftarrow> self k; k \<leftarrow> set_self (t\<lparr>sigfpe := handler\<rparr>) k; Some (sigfpe t, k) }
      else if sig = 2 then do { t \<leftarrow> self k; k \<leftarrow> set_self (t\<lparr>sigill := handler\<rparr>) k; Some (sigill t, k) }
      else if sig = 3 then do { t \<leftarrow> self k; k \<leftarrow> set_self (t\<lparr>sigint := handler\<rparr>) k; Some (sigint t, k) }
      else if sig = 4 then do { t \<leftarrow> self k; k \<leftarrow> set_self (t\<lparr>sigsegv := handler\<rparr>) k; Some (sigsegv t, k) }
      else if sig = 5 then do { t \<leftarrow> self k; k \<leftarrow> set_self (t\<lparr>sigterm := handler\<rparr>) k; Some (sigterm t, k) }
      else Some (0xffffffff, k))"

definition getpid :: "'w kernel \<Rightarrow> nat" where
  "getpid k = current_task k"

subsection \<open>Messages\<close>

text \<open>The messages on the first terminal, and the end of the calling task.\<close>

definition terminate_self :: "string \<Rightarrow> 'w kernel \<Rightarrow> ((sched_outcome + 'r) \<times> 'w kernel) option" where
  "terminate_self msg k = do {
     c \<leftarrow> tty_kputs (0x0a # clit msg) 0 (kconsole k);
     c \<leftarrow> tty_kputs (0x0a # map of_char ''Task terminated.'' @ [0x0a, 0]) 0 c;
     (r, k) \<leftarrow> task_quit (current_task k) (-1) (k\<lparr>kconsole := c\<rparr>);
     map_option (\<lambda>r. (Inl r, k)) r }"

text \<open>
  A packet takes 12 bytes of the queue.  A queue that cannot be enlarged is a null pointer, and storing
  the packet in it a fault.
\<close>

definition ipc_send_packet :: "nat \<Rightarrow> nat \<Rightarrow> nat \<Rightarrow> 'w kernel \<Rightarrow> ((sched_outcome + unit) \<times> 'w kernel) option" where
  "ipc_send_packet pid payload len k = do {
     t \<leftarrow> self k;
     if (payload + len) mod 2 ^ 32 \<ge> task_bytes t then terminate_self ''IPC packet had a bogus length.'' k
     else
       (case arr_get (task_table k) pid of
          None \<Rightarrow> None
        | Some NoTask \<Rightarrow> terminate_self ''IPC packet targeted a non-existent PID.'' k
        | Some EmptyPid \<Rightarrow> terminate_self ''IPC packet targeted a non-existent PID.'' k
        | Some (Task a r) \<Rightarrow>
            let (q, h) = krealloc (ipc_queue_addr r) ((length (ipc_queue r) + 1) * 12) (kernel_heap k);
                (p, h) = kalloc len h;
                m = memcpy (heap_mem h) p (user_addr t (int payload)) len;
                r = r\<lparr>ipc_queue_addr := q,
                      ipc_queue := ipc_queue r @ [\<lparr>pk_sender = current_task k, pk_length = len, pk_payload = p\<rparr>],
                      t_status := (if t_status r = IpcWait then Active else t_status r)\<rparr>
            in if q = 0 then None
               else Some (Inr (), k\<lparr>kernel_heap := h\<lparr>heap_mem := m\<rparr>, task_table := (task_table k)[pid := Task a r]\<rparr>)) }"

definition ipc_payload_length :: "'w kernel \<Rightarrow> nat option" where
  "ipc_payload_length k = map_option (\<lambda>t. case ipc_queue t of [] \<Rightarrow> 0 | p # _ \<Rightarrow> pk_length p) (self k)"

definition ipc_payload_sender :: "'w kernel \<Rightarrow> nat option" where
  "ipc_payload_sender k = map_option (\<lambda>t. case ipc_queue t of [] \<Rightarrow> 0 | p # _ \<Rightarrow> pk_sender p) (self k)"

text \<open>The search goes over the table up to its first null pointer; running past its end is a fault.\<close>

fun resolve_server :: "string \<Rightarrow> nat \<Rightarrow> task_slot list \<Rightarrow> nat option" where
  "resolve_server name pid [] = None"
| "resolve_server name pid (NoTask # ts) = Some 0"
| "resolve_server name pid (EmptyPid # ts) = resolve_server name (Suc pid) ts"
| "resolve_server name pid (Task a t # ts) = (if server_name t = name then Some pid else resolve_server name (Suc pid) ts)"

definition ipc_resolve_name :: "nat \<Rightarrow> string \<Rightarrow> 'w kernel \<Rightarrow> ((sched_outcome + nat) \<times> 'w kernel) option" where
  "ipc_resolve_name ptr name k = do {
     t \<leftarrow> self k;
     if (ptr + length name) mod 2 ^ 32 \<ge> task_bytes t
     then terminate_self ''IPC server name resolve request had a bogus length.'' k
     else do { pid \<leftarrow> resolve_server name 0 (task_table k); Some (Inr pid, k) } }"

text \<open>\<open>for (i = n; i; i--) q[i-1] = q[i];\<close>\<close>

fun shift_back :: "nat \<Rightarrow> 'a list \<Rightarrow> 'a list option" where
  "shift_back 0 q = Some q"
| "shift_back (Suc i) q = do { x \<leftarrow> arr_get q (Suc i); q \<leftarrow> arr_set q i x; shift_back i q }"

text \<open>The loop moves the queue of the sender, and only when more than one packet waits.\<close>

definition push_queue_back :: "nat \<Rightarrow> nat \<Rightarrow> 'w kernel \<Rightarrow> 'w kernel option" where
  "push_queue_back n pid k =
     (if n \<le> 1 then Some k
      else do {
        s \<leftarrow> get_task pid k;
        q \<leftarrow> shift_back (n - 1) (ipc_queue s);
        set_task pid (s\<lparr>ipc_queue := q\<rparr>) k })"

text \<open>
  The queue is made shorter by one packet; \<open>None\<close> also when there are packets left and no memory to
  move them to, which leaves a null pointer for them.
\<close>

definition ipc_read_packet :: "nat \<Rightarrow> 'w kernel \<Rightarrow> ((sched_outcome + nat) \<times> 'w kernel) option" where
  "ipc_read_packet payload k = do {
     t \<leftarrow> self k;
     (case ipc_queue t of
        [] \<Rightarrow> Some (Inr 0, k)
      | pk # _ \<Rightarrow>
          if (payload + pk_length pk) mod 2 ^ 32 \<ge> task_bytes t then terminate_self ''IPC payload length exceeds task limit.'' k
          else do {
            let h = kernel_heap k;
            let h = kfree (pk_payload pk) (h\<lparr>heap_mem := memcpy (heap_mem h) (user_addr t (int payload)) (pk_payload pk) (pk_length pk)\<rparr>);
            k \<leftarrow> push_queue_back (length (ipc_queue t)) (pk_sender pk) (k\<lparr>kernel_heap := h\<rparr>);
            t \<leftarrow> self k;
            let (q, h) = krealloc (ipc_queue_addr t) ((length (ipc_queue t) - 1) * 12) (kernel_heap k);
            k \<leftarrow> set_self (t\<lparr>ipc_queue_addr := q, ipc_queue := butlast (ipc_queue t)\<rparr>) (k\<lparr>kernel_heap := h\<rparr>);
            if q = 0 \<and> 1 < length (ipc_queue t) then None else Some (Inr (pk_sender pk), k) }) }"

subsection \<open>The heap of a task\<close>

definition get_heap_base :: "'w kernel \<Rightarrow> nat option" where
  "get_heap_base k = map_option heap_base (self k)"

definition get_heap_size :: "'w kernel \<Rightarrow> nat option" where
  "get_heap_size k = map_option heap_size (self k)"

definition resize_heap :: "nat \<Rightarrow> 'w kernel \<Rightarrow> (int \<times> 'w kernel) option" where
  "resize_heap n k = do {
     t \<leftarrow> self k;
     let heap_pages = n div PAGE_SIZE + (if n mod PAGE_SIZE \<noteq> 0 then 1 else 0);
     let (new_ptr, h) = krealloc (t_base t) ((heap_base t + heap_pages * PAGE_SIZE) mod 2 ^ 32) (kernel_heap k);
     let k = k\<lparr>kernel_heap := h\<rparr>;
     if new_ptr = 0 then Some (-1, k)
     else do {
       let t = t\<lparr>t_base := new_ptr, t_pages := heap_base t div PAGE_SIZE + heap_pages, heap_size := n\<rparr>;
       k \<leftarrow> set_self t k;
       g \<leftarrow> load_segments t (gdt k);
       Some (0, k\<lparr>gdt := g\<rparr>) } }"

text \<open>The older allocation calls are stubs.\<close>

definition sys_alloc :: "nat \<Rightarrow> 'w kernel \<Rightarrow> nat \<times> 'w kernel" where
  "sys_alloc n k = (0, k)"

definition sys_free :: "nat \<Rightarrow> 'w kernel \<Rightarrow> 'w kernel" where
  "sys_free addr k = k"

definition sys_realloc :: "nat \<Rightarrow> nat \<Rightarrow> 'w kernel \<Rightarrow> nat \<times> 'w kernel" where
  "sys_realloc prev_ptr n k = (0, k)"

subsection \<open>Going to sleep\<close>

definition enter_iowait_status :: "string \<Rightarrow> u64 \<Rightarrow> u8 \<Rightarrow> int \<Rightarrow> 'w kernel \<Rightarrow> 'w kernel option" where
  "enter_iowait_status dev loc payload type k = do {
     t \<leftarrow> self k;
     if 2048 \<le> length dev then None
     else set_self (t\<lparr>iowait_dev := dev, iowait_loc := loc, t_status := IoWait, iowait_type := type, iowait_payload := payload\<rparr>) k }"

definition enter_iowait_status1 :: "int \<Rightarrow> nat \<Rightarrow> int \<Rightarrow> int \<Rightarrow> int \<Rightarrow> 'w kernel \<Rightarrow> 'w kernel option" where
  "enter_iowait_status1 handle ptr len type done k = do {
     t \<leftarrow> self k;
     set_self (t\<lparr>t_status := IoWait, iowait_type := type, iowait_handle := handle, iowait_ptr := ptr, iowait_len := len, iowait_done := done\<rparr>) k }"

definition enter_vdevwait_status :: "'w kernel \<Rightarrow> 'w kernel option" where
  "enter_vdevwait_status k = do { t \<leftarrow> self k; set_self (t\<lparr>t_status := VdevWait\<rparr>) k }"

definition enter_ipcwait_status :: "'w kernel \<Rightarrow> 'w kernel option" where
  "enter_ipcwait_status k = do {
     t \<leftarrow> self k;
     if ipc_queue t = [] then set_self (t\<lparr>t_status := IpcWait\<rparr>) k else Some k }"

definition dump_string :: "string \<Rightarrow> nat \<Rightarrow> 'w kernel \<Rightarrow> 'w kernel option" where
  "dump_string s ptr k = do {
     t \<leftarrow> self k;
     Some (k\<lparr>kernel_heap := (kernel_heap k)\<lparr>heap_mem := put_bytes (clit s) (user_addr t (int ptr)) (heap_mem (kernel_heap k))\<rparr>\<rparr>) }"

definition pwd :: "nat \<Rightarrow> 'w kernel \<Rightarrow> 'w kernel option" where
  "pwd ptr k = dump_string (pwd_of (kvfs k) (current_task k)) ptr k"

definition what_stdin :: "nat \<Rightarrow> 'w kernel \<Rightarrow> 'w kernel option" where
  "what_stdin ptr k = do { t \<leftarrow> self k; dump_string (t_stdin t) ptr k }"

definition what_stdout :: "nat \<Rightarrow> 'w kernel \<Rightarrow> 'w kernel option" where
  "what_stdout ptr k = do { t \<leftarrow> self k; dump_string (t_stdout t) ptr k }"

definition what_stderr :: "nat \<Rightarrow> 'w kernel \<Rightarrow> 'w kernel option" where
  "what_stderr ptr k = do { t \<leftarrow> self k; dump_string (t_stderr t) ptr k }"

subsection \<open>Messages arrive\<close>

lemma get_taskD: "get_task i k = Some t \<Longrightarrow> \<exists>a. i < length (task_table k) \<and> task_table k ! i = Task a t"
  by (auto simp: get_task_def arr_get_def split: task_slot.splits if_splits)

lemma get_task_slot: "i < length (task_table k) \<Longrightarrow> task_table k ! i = Task a t \<Longrightarrow> get_task i k = Some t"
  by (simp add: get_task_def)

lemma set_task_slot:
  "i < length (task_table k) \<Longrightarrow> task_table k ! i = Task a t \<Longrightarrow> set_task i u k = Some (k\<lparr>task_table := (task_table k)[i := Task a u]\<rparr>)"
  by (simp add: set_task_def)

text \<open>The memory of a task is a block of the heap.\<close>

definition owns_memory :: "kheap \<Rightarrow> task_t \<Rightarrow> bool" where
  "owns_memory h t \<longleftrightarrow> kblock h (t_base t) (t_pages t * PAGE_SIZE)"

lemma owns_memoryD:
  assumes "heap_inv h" and "owns_memory h t"
  shows "t_base t + t_pages t * PAGE_SIZE < 2 ^ 32" and "PAGE_SIZE < t_base t" and "task_bytes t = t_pages t * PAGE_SIZE"
    and "t_pages t * PAGE_SIZE \<le> 2 ^ 32 - PAGE_SIZE" and "DIV_ROUNDUP (t_pages t * PAGE_SIZE) PAGE_SIZE = t_pages t"
proof -
  from assms(2) obtain page where p: "t_base t = (page + 1) * PAGE_SIZE" "kblock_at h page (t_pages t * PAGE_SIZE)"
    unfolding owns_memory_def by (rule kblock_page)
  then show le: "t_pages t * PAGE_SIZE \<le> 2 ^ 32 - PAGE_SIZE" by (simp add: kblock_at_def)
  then show r: "DIV_ROUNDUP (t_pages t * PAGE_SIZE) PAGE_SIZE = t_pages t" by (simp add: DIV_ROUNDUP_page)
  have "page + 1 + t_pages t \<le> highest_page (heap_pmm h) div PAGE_SIZE" "0 < page" using p(2) r by (auto simp: kblock_at_def)
  moreover have "highest_page (heap_pmm h) < 2 ^ 32" using assms(1) by (simp add: heap_inv_def)
  ultimately show "t_base t + t_pages t * PAGE_SIZE < 2 ^ 32" "PAGE_SIZE < t_base t" unfolding p(1) by auto
  show "task_bytes t = t_pages t * PAGE_SIZE" using le by (simp add: task_bytes_def)
qed

lemma user_addr_in: "t_base t + p < 2 ^ 32 \<Longrightarrow> user_addr t (int p) = t_base t + p"
  by (simp add: user_addr_def nat_mod_as_int flip: of_nat_add)

text \<open>
  The two allocations of a packet sent to a task with an empty queue, the blocks they leave alone and
  the contents of the packet.
\<close>

lemma packet_allocated:
  assumes "heap_inv h" and "kalloc 12 h = (q, h0)" and "q \<noteq> 0" and "kalloc len h0 = (p, h1)" and "p \<noteq> 0" and "len \<le> 2 ^ 32 - PAGE_SIZE"
    and "kblock h b n"
  shows "heap_inv h1" and "kblock h1 q 12" and "kblock h1 p len" and "kblock h1 b n"
    and "blocks_apart p len q 12" and "blocks_apart p len b n" and "blocks_apart q 12 b n"
    and "\<forall>a. b - PAGE_SIZE \<le> a \<and> a < b + n \<longrightarrow> heap_mem h1 a = heap_mem h a"
proof -
  have q: "kblock h0 q 12" "heap_inv h0" by (rule kalloc_block [OF assms(1) _ assms(2,3)], simp)+
  have b: "kblock h0 b n" "\<forall>i<n. heap_mem h0 (b + i) = heap_mem h (b + i)"
    "\<forall>a. b - PAGE_SIZE \<le> a \<and> a < b \<longrightarrow> heap_mem h0 a = heap_mem h a" "blocks_apart q 12 b n"
    by (rule kalloc_frame [OF assms(1) _ assms(2,3,7)], simp)+
  note p = kalloc_block [OF q(2) assms(6,4,5)]
  note fq = kalloc_frame [OF q(2) assms(6,4,5) q(1)] and fb = kalloc_frame [OF q(2) assms(6,4,5) b(1)]
  show "heap_inv h1" "kblock h1 q 12" "kblock h1 p len" "kblock h1 b n" "blocks_apart p len q 12" "blocks_apart p len b n"
    by (fact p(3) fq(1) p(1) fb(1) fq(3) fb(3))+
  show "blocks_apart q 12 b n" by (rule b(4))
  show "\<forall>a. b - PAGE_SIZE \<le> a \<and> a < b + n \<longrightarrow> heap_mem h1 a = heap_mem h a"
  proof (intro allI impI)
    fix a
    assume a: "b - PAGE_SIZE \<le> a \<and> a < b + n"
    show "heap_mem h1 a = heap_mem h a"
    proof (cases "a < b")
      case True
      then show ?thesis using a b(3) fb(4) by simp
    next
      case False
      then have "a - b < n" using a by linarith
      then show ?thesis using False b(2) [rule_format, of "a - b"] fb(2) [rule_format, of "a - b"] by simp
    qed
  qed
qed

text \<open>Reading the packet: the bytes are copied, and the releases that follow leave them alone.\<close>

lemma packet_read:
  assumes "heap_inv h" and "kblock h q 12" and "kblock h p len" and "kblock h b n" and "blocks_apart p len q 12"
    and "blocks_apart p len b n" and "blocks_apart q 12 b n" and "dst + len \<le> n" and "len \<le> 2 ^ 32 - PAGE_SIZE"
    and "krealloc q 0 (kfree p (h\<lparr>heap_mem := memcpy (heap_mem h) (b + dst) p len\<rparr>)) = (r, h')" and "i < len"
  shows "heap_mem h' (b + dst + i) = heap_mem h (p + i)"
proof -
  let ?h = "h\<lparr>heap_mem := memcpy (heap_mem h) (b + dst) p len\<rparr>"
  have cov: "len \<le> DIV_ROUNDUP len PAGE_SIZE * PAGE_SIZE" "n \<le> DIV_ROUNDUP n PAGE_SIZE * PAGE_SIZE" 
    using kblock_covers [OF assms(3)] kblock_covers [OF assms(4)] by auto
  have m: "heap_mem ?h = (\<lambda>a. if b + dst \<le> a \<and> a < b + dst + len then heap_mem h (p + (a - (b + dst))) else heap_mem h a)"
    using memcpy_disjoint [of p len "b + dst" "heap_mem h"] assms(6,8) cov by auto
  have inv: "heap_inv ?h" using assms(1) by (simp add: heap_inv_def)
  have keep: "kblock ?h x k" if "kblock h x k" and "\<And>a. x - PAGE_SIZE \<le> a \<Longrightarrow> a < x \<Longrightarrow> a < b + dst \<or> b + dst + len \<le> a" for x k
  proof (rule kblock_mem [OF that(1)])
    show "memcpy (heap_mem h) (b + dst) p len a = heap_mem h a" if "x - PAGE_SIZE \<le> a" "a < x" for a
      using m \<open>x - PAGE_SIZE \<le> a \<Longrightarrow> a < x \<Longrightarrow> a < b + dst \<or> b + dst + len \<le> a\<close> [OF that] by auto
  qed
  have q: "kblock ?h q 12" by (rule keep [OF assms(2)]) (use assms(7,8) cov in auto)
  have p: "kblock ?h p len" by (rule keep [OF assms(3)]) (use assms(6,8) cov in auto)
  have b: "kblock ?h b n" by (rule keep [OF assms(4)]) auto
  note f = kfree_frame [OF inv p q assms(5)] and g = kfree_frame [OF inv p b assms(6)]
  have "\<forall>i<n. heap_mem h' (b + i) = heap_mem (kfree p ?h) (b + i)"
    by (rule krealloc_frame [OF f(1,2) _ assms(10) g(2) assms(7)]) simp
  then have "heap_mem h' (b + (dst + i)) = heap_mem ?h (b + (dst + i))" using assms(8,11) f(3) by simp
  then show ?thesis using m assms(11) by (simp add: add.assoc)
qed

text \<open>
  C11. A message arrives: a task sends bytes of its memory to a task with no messages in its queue; when
  that task runs and reads the packet, it gets the sender's number, and the bytes stand in its memory
  where it asked for them; a receiver that waited for a message is active again.
\<close>

theorem ipc_message_delivered:
  assumes "get_task (current_task k) k = Some t" and "get_task b k = Some r" and "b \<noteq> current_task k"
    and "ipc_queue r = []" and "ipc_queue_addr r = 0"
    and "heap_inv (kernel_heap k)" and "owns_memory (kernel_heap k) t" and "owns_memory (kernel_heap k) r"
    and "src + len < t_pages t * PAGE_SIZE" and "dst + len < t_pages r * PAGE_SIZE"
    and "kalloc 12 (kernel_heap k) = (q, h0)" and "q \<noteq> 0" and "fst (kalloc len h0) \<noteq> 0"
  shows "\<exists>k1 r1 k2. ipc_send_packet b src len k = Some (Inr (), k1) \<and> get_task b k1 = Some r1
    \<and> t_status r1 = (if t_status r = IpcWait then Active else t_status r)
    \<and> ipc_read_packet dst (set_current b k1) = Some (Inr (current_task k), k2)
    \<and> (\<forall>i<len. heap_mem (kernel_heap k2) (t_base r + dst + i) = heap_mem (kernel_heap k) (t_base t + src + i))"
proof -
  obtain p h where p: "kalloc len h0 = (p, h)" "p \<noteq> 0" using assms(13) by (cases "kalloc len h0") auto
  note tD = owns_memoryD [OF assms(6,7)] and rD = owns_memoryD [OF assms(6,8)]
  have len: "len \<le> 2 ^ 32 - PAGE_SIZE" using assms(9) tD(4) by linarith
  have cover: "len \<le> DIV_ROUNDUP len PAGE_SIZE * PAGE_SIZE" by (rule DIV_ROUNDUP_covers [OF len])
  note ft = packet_allocated [OF assms(6,11,12) p len assms(7) [unfolded owns_memory_def]]
    and fr = packet_allocated [OF assms(6,11,12) p len assms(8) [unfolded owns_memory_def]]
  have src: "user_addr t (int src) = t_base t + src" by (rule user_addr_in) (use assms(9) tD(1) in linarith)
  let ?m = "memcpy (heap_mem h) p (t_base t + src) len"
  let ?pk = "\<lparr>pk_sender = current_task k, pk_length = len, pk_payload = p\<rparr>"
  let ?r = "r\<lparr>ipc_queue_addr := q, ipc_queue := [?pk], t_status := (if t_status r = IpcWait then Active else t_status r)\<rparr>"
  obtain a where a: "b < length (task_table k)" "task_table k ! b = Task a r" using get_taskD [OF assms(2)] by blast
  let ?k1 = "k\<lparr>kernel_heap := h\<lparr>heap_mem := ?m\<rparr>, task_table := (task_table k)[b := Task a ?r]\<rparr>"
  have send: "ipc_send_packet b src len k = Some (Inr (), ?k1)"
    using assms(1,4,5,9,11,12) a p(1) src tD by (simp add: ipc_send_packet_def krealloc_def)
  have r1: "get_task b ?k1 = Some ?r" using a(1) by (simp add: get_task_def)
  have m: "?m = (\<lambda>x. if p \<le> x \<and> x < p + len then heap_mem h (t_base t + src + (x - p)) else heap_mem h x)"
    by (rule memcpy_disjoint) (use ft(6) tD(5) cover assms(9) in auto)
  have apart: "blocks_apart p len (t_base r) (t_pages r * PAGE_SIZE)" by (rule fr(6))
  have inv: "heap_inv (h\<lparr>heap_mem := ?m\<rparr>)" using fr(1) by (simp add: heap_inv_def)
  have blocks: "kblock (h\<lparr>heap_mem := ?m\<rparr>) q 12" "kblock (h\<lparr>heap_mem := ?m\<rparr>) p len"
    "kblock (h\<lparr>heap_mem := ?m\<rparr>) (t_base r) (t_pages r * PAGE_SIZE)"
    unfolding m by (rule kblock_mem, rule fr, use fr(5,6) cover in auto)+
  have dst: "user_addr ?r (int dst) = t_base r + dst"
    using user_addr_in [of r dst] assms(10) rD(1) by (simp add: user_addr_def)
  have bytes: "task_bytes ?r = t_pages r * PAGE_SIZE" using rD(3) by (simp add: task_bytes_def)
  obtain q' h' where k': "krealloc q 0 (kfree p (h\<lparr>heap_mem := memcpy ?m (t_base r + dst) p len\<rparr>)) = (q', h')" by fastforce
  let ?k2 = "(set_current b ?k1)\<lparr>kernel_heap := h', task_table := (task_table ?k1)[b := Task a (?r\<lparr>ipc_queue_addr := q', ipc_queue := []\<rparr>)]\<rparr>"
  have "(dst + len) mod 2 ^ 32 < t_pages r * PAGE_SIZE" using assms(10) by (meson le_less_trans mod_less_eq_dividend)
  then have read: "ipc_read_packet dst (set_current b ?k1) = Some (Inr (current_task k), ?k2)"
    using a(1) dst bytes k'
    by (simp add: ipc_read_packet_def push_queue_back_def get_task_slot [where a = a and t = ?r] set_task_slot [where a = a and t = ?r])
  have "heap_mem h' (t_base r + dst + i) = heap_mem (kernel_heap k) (t_base t + src + i)" if i: "i < len" for i
  proof -
    have "heap_mem h' (t_base r + dst + i) = ?m (p + i)"
      using packet_read [OF inv blocks fr(5,6,7) _ len, of dst q' h' i] k' assms(10) i by simp
    also have "\<dots> = heap_mem h (t_base t + src + i)" using i by (simp add: m)
    also have "\<dots> = heap_mem (kernel_heap k) (t_base t + src + i)"
      by (rule ft(8) [rule_format]) (use assms(9) i in auto)
    finally show ?thesis .
  qed
  then show ?thesis using send r1 read by fastforce
qed

text \<open>Two tasks with a page of memory each; the second waits for a message.\<close>

definition ipc_heap :: kheap where
  "ipc_heap = \<lparr>heap_pmm = \<lparr>bitmap = (\<lambda>i. i < 5), last_used_index = 4, highest_page = 16 * 4096\<rparr>,
     heap_mem = wr_le 4 (wr_le 4 (wr_le 4 (wr_le 4 (\<lambda>_. 7) 0x1000 1) 0x1004 4096) 0x3000 1) 0x3004 4096\<rparr>"

definition ipc_kernel :: "unit kernel" where
  "ipc_kernel = demo_kernel\<lparr>task_table := [Task 0x9000 (zero_task Res), Task 0xd000 ((zero_task Active)\<lparr>t_base := 0x2000, t_pages := 1\<rparr>),
       Task 0x11000 ((zero_task IpcWait)\<lparr>t_base := 0x4000, t_pages := 1\<rparr>), NoTask],
     kernel_heap := ipc_heap, kvfs := (kvfs demo_kernel)\<lparr>current_pid := 1\<rparr>\<rparr>"

lemma ipc_kernel_facts:
  "get_task (current_task ipc_kernel) ipc_kernel = Some ((zero_task Active)\<lparr>t_base := 0x2000, t_pages := 1\<rparr>)"
  "get_task 2 ipc_kernel = Some ((zero_task IpcWait)\<lparr>t_base := 0x4000, t_pages := 1\<rparr>)"
  "current_task ipc_kernel = 1" "kernel_heap ipc_kernel = ipc_heap" "length (gdt ipc_kernel) = 11"
  by (simp_all add: ipc_kernel_def demo_kernel_def get_task_def load_gdt_def)

lemma ipc_heap_facts:
  "heap_inv ipc_heap" "owns_memory ipc_heap ((zero_task Active)\<lparr>t_base := 0x2000, t_pages := 1\<rparr>)"
  "owns_memory ipc_heap ((zero_task IpcWait)\<lparr>t_base := 0x4000, t_pages := 1\<rparr>)"
  by (simp_all add: heap_inv_def pmm_inv_def ipc_heap_def owns_memory_def kblock_def kblock_at_def DIV_ROUNDUP_def rd_wr_le rd_wr_le_disjoint
      kalloc_def pmm_allocz_def pmm_alloc_def inner_alloc_def inner_alloc_loop.simps)

lemma ipc_heap_kalloc:
  obtains h0 h where "kalloc 12 ipc_heap = (0x6000, h0)" "kalloc 3 h0 = (0x8000, h)"
proof
  have "fst (kalloc 12 ipc_heap) = 0x6000" "fst (kalloc 3 (snd (kalloc 12 ipc_heap))) = 0x8000"
    by (simp_all add: ipc_heap_def DIV_ROUNDUP_def kalloc_def pmm_allocz_def pmm_alloc_def inner_alloc_def inner_alloc_loop.simps bitmap_set_def)
  then show "kalloc 12 ipc_heap = (0x6000, snd (kalloc 12 ipc_heap))"
    "kalloc 3 (snd (kalloc 12 ipc_heap)) = (0x8000, snd (kalloc 3 (snd (kalloc 12 ipc_heap))))" by (metis prod.collapse)+
qed

theorem ipc_message_delivered_witness:
  "\<exists>k1 r1 k2. ipc_send_packet 2 0x100 3 ipc_kernel = Some (Inr (), k1) \<and> get_task 2 k1 = Some r1 \<and> t_status r1 = Active
     \<and> ipc_read_packet 0x200 (set_current 2 k1) = Some (Inr 1, k2)
     \<and> (\<forall>i<3. heap_mem (kernel_heap k2) (0x4200 + i) = heap_mem ipc_heap (0x2100 + i))"
proof -
  obtain h0 h where "kalloc 12 ipc_heap = (0x6000, h0)" "kalloc 3 h0 = (0x8000, h)" by (rule ipc_heap_kalloc)
  then show ?thesis
    using ipc_message_delivered [OF ipc_kernel_facts(1,2), where src = "0x100" and len = 3 and dst = "0x200" and q = "0x6000" and ?h0.0 = h0]
      ipc_kernel_facts ipc_heap_facts
    by (auto simp: zero_task_def)
qed

text \<open>
  C39. The limit check of a message wraps around: a task that gives an address just below \<open>2 ^ 32\<close> and a
  length that reaches it passes the check, and the kernel sends the bytes in front of the task's
  memory, which belong to the kernel.
\<close>

theorem ipc_send_leaks_kernel_memory:
  assumes "get_task (current_task k) k = Some t" and "get_task b k = Some r" and "ipc_queue r = []" and "ipc_queue_addr r = 0"
    and "heap_inv (kernel_heap k)" and "owns_memory (kernel_heap k) t" and "0 < t_pages t" and "0 < len" and "len \<le> PAGE_SIZE"
    and "kalloc 12 (kernel_heap k) = (q, h0)" and "q \<noteq> 0" and "kalloc len h0 = (p, h)" and "p \<noteq> 0"
  shows "\<exists>k1 r1. ipc_send_packet b (2 ^ 32 - len) len k = Some (Inr (), k1) \<and> get_task b k1 = Some r1
    \<and> ipc_queue r1 = [\<lparr>pk_sender = current_task k, pk_length = len, pk_payload = p\<rparr>]
    \<and> (\<forall>i<len. heap_mem (kernel_heap k1) (p + i) = heap_mem (kernel_heap k) (t_base t - len + i))"
proof -
  note tD = owns_memoryD [OF assms(5,6)]
  have len: "len \<le> 2 ^ 32 - PAGE_SIZE" using assms(9) by simp
  have cover: "len \<le> DIV_ROUNDUP len PAGE_SIZE * PAGE_SIZE" by (rule DIV_ROUNDUP_covers [OF len])
  note ft = packet_allocated [OF assms(5,10-13) len assms(6) [unfolded owns_memory_def]]
  have "(int (t_base t) + int (2 ^ 32 - len)) mod 2 ^ 32 = int (t_base t - len)"
  proof -
    have eq: "int (t_base t) + int (2 ^ 32 - len) = int (t_base t - len) + 2 ^ 32" using assms(9) tD(2) by simp
    show ?thesis unfolding eq mod_add_self2 by (rule mod_pos_pos_trivial) (use tD(1) in auto)
  qed
  then have src: "user_addr t (int (2 ^ 32 - len)) = t_base t - len" by (simp add: user_addr_def)
  obtain a where a: "b < length (task_table k)" "task_table k ! b = Task a r" using get_taskD [OF assms(2)] by blast
  let ?m = "memcpy (heap_mem h) p (t_base t - len) len"
  let ?r = "r\<lparr>ipc_queue_addr := q, ipc_queue := [\<lparr>pk_sender = current_task k, pk_length = len, pk_payload = p\<rparr>],
      t_status := (if t_status r = IpcWait then Active else t_status r)\<rparr>"
  let ?k1 = "k\<lparr>kernel_heap := h\<lparr>heap_mem := ?m\<rparr>, task_table := (task_table k)[b := Task a ?r]\<rparr>"
  have "ipc_send_packet b (2 ^ 32 - len) len k = Some (Inr (), ?k1)"
    using assms(1,3,4,7,9-13) a src tD by (simp add: ipc_send_packet_def krealloc_def)
  moreover have "?m (p + i) = heap_mem (kernel_heap k) (t_base t - len + i)" if i: "i < len" for i
  proof -
    have "?m (p + i) = heap_mem h (t_base t - len + i)"
      by (subst memcpy_disjoint) (use ft(6) tD(2,5) cover assms(9) i in auto)
    also have "\<dots> = heap_mem (kernel_heap k) (t_base t - len + i)"
      by (rule ft(8) [rule_format]) (use i assms(9) tD(2) in auto)
    finally show ?thesis .
  qed
  ultimately show ?thesis using a(1) get_task_slot [of b ?k1 a ?r] by auto
qed

theorem ipc_send_leaks_kernel_memory_witness:
  "\<exists>k1 r1. ipc_send_packet 2 (2 ^ 32 - 3) 3 ipc_kernel = Some (Inr (), k1) \<and> get_task 2 k1 = Some r1
     \<and> (\<forall>i<3. heap_mem (kernel_heap k1) (0x8000 + i) = heap_mem ipc_heap (0x1ffd + i))"
proof -
  obtain h0 h where "kalloc 12 ipc_heap = (0x6000, h0)" "kalloc 3 h0 = (0x8000, h)" by (rule ipc_heap_kalloc)
  then obtain k1 r1 where "ipc_send_packet 2 (2 ^ 32 - 3) 3 ipc_kernel = Some (Inr (), k1)" "get_task 2 k1 = Some r1"
    "\<forall>i<3. heap_mem (kernel_heap k1) (0x8000 + i) = heap_mem ipc_heap (0x2000 - 3 + i)"
    using ipc_send_leaks_kernel_memory [OF ipc_kernel_facts(1,2), where len = 3 and q = "0x6000" and ?h0.0 = h0 and h = h] ipc_kernel_facts(4) ipc_heap_facts
    by (auto simp: zero_task_def)
  then show ?thesis by simp
qed

text \<open>
  C40. Messages that pile up break the kernel: when a task reads a packet while another one waits, the
  kernel moves the queue of the sender instead of the reader's; if the sender has fewer packets waiting
  than the reader, which is the normal case of a client that sent two requests, it accesses memory
  behind the sender's queue.
\<close>

theorem ipc_read_with_backlog_faults:
  assumes "get_task (current_task k) k = Some t" and "ipc_queue t = pk # pks" and "pks \<noteq> []"
    and "get_task (pk_sender pk) k = Some s" and "length (ipc_queue s) < length (ipc_queue t)"
    and "(dst + pk_length pk) mod 2 ^ 32 < task_bytes t"
  shows "ipc_read_packet dst k = None"
proof -
  obtain n where n: "length pks = Suc n" using assms(3) by (cases pks) auto
  let ?k = "k\<lparr>kernel_heap := kfree (pk_payload pk) ((kernel_heap k)\<lparr>heap_mem :=
    memcpy (heap_mem (kernel_heap k)) (user_addr t (int dst)) (pk_payload pk) (pk_length pk)\<rparr>)\<rparr>"
  have "get_task (pk_sender pk) ?k = Some s" using assms(4) by (simp add: get_task_def)
  moreover have "shift_back (Suc n) (ipc_queue s) = None" using assms(2,5) n by (simp add: arr_get_def)
  ultimately have "push_queue_back (Suc (Suc n)) (pk_sender pk) ?k = None" by (simp add: push_queue_back_def del: shift_back.simps)
  then show ?thesis using assms(1,2,6) n by (simp add: ipc_read_packet_def Let_def)
qed

text \<open>A server with two requests of a client in its queue.\<close>

definition backlog_kernel :: "unit kernel" where
  "backlog_kernel = ipc_kernel\<lparr>task_table := (task_table ipc_kernel)[1 := Task 0xd000 ((zero_task Active)\<lparr>t_base := 0x2000, t_pages := 1,
     ipc_queue := [\<lparr>pk_sender = 2, pk_length = 3, pk_payload = 0x6000\<rparr>, \<lparr>pk_sender = 2, pk_length = 3, pk_payload = 0x8000\<rparr>]\<rparr>)]\<rparr>"

theorem ipc_read_with_backlog_faults_witness: "ipc_read_packet 0x100 backlog_kernel = None"
proof (rule ipc_read_with_backlog_faults [where pk = "\<lparr>pk_sender = 2, pk_length = 3, pk_payload = 0x6000\<rparr>"
      and pks = "[\<lparr>pk_sender = 2, pk_length = 3, pk_payload = 0x8000\<rparr>]"])
  show "get_task (current_task backlog_kernel) backlog_kernel = Some ((zero_task Active)\<lparr>t_base := 0x2000, t_pages := 1,
     ipc_queue := [\<lparr>pk_sender = 2, pk_length = 3, pk_payload = 0x6000\<rparr>, \<lparr>pk_sender = 2, pk_length = 3, pk_payload = 0x8000\<rparr>]\<rparr>)"
    by (simp add: backlog_kernel_def get_task_def ipc_kernel_def)
  show "get_task (pk_sender \<lparr>pk_sender = 2, pk_length = 3, pk_payload = 0x6000\<rparr>) backlog_kernel
      = Some ((zero_task IpcWait)\<lparr>t_base := 0x4000, t_pages := 1\<rparr>)"
    by (simp add: backlog_kernel_def get_task_def ipc_kernel_def)
qed (simp_all add: zero_task_def task_bytes_def)

text \<open>
  A task can get a segment beyond its memory: the bound of \<open>syscall_new_segment\<close> is computed in 32
  bits, so a page count of \<open>2 ^ 20\<close> passes as zero, and the descriptor made spans 65536 pages from the
  task's base.
\<close>

lemma new_segment_escapes_task:
  assumes "get_task (current_task k) k = Some t" and "0 < task_bytes t" and "length (ldt t) < 512"
    and "krealloc (ldt_addr t) (length (ldt t) + 8) (kernel_heap k) = (a, h)" and "a \<noteq> 0" and "length (gdt k) = 11"
  shows "\<exists>sel k' t'. syscall_new_segment 0 (2 ^ 20) code k = Some (sel, k') \<and> get_task (current_task k) k' = Some t'
    \<and> length (ldt t') = Suc (length (ldt t)) \<and> segment_base (last (ldt t')) = of_nat (t_base t)
    \<and> segment_limit (last (ldt t')) = 0xffff \<and> granularity (last (ldt t')) = 0xc0"
proof -
  let ?n = "length (ldt t)"
  let ?w = "write_fields (gdt_entry 0 0 0) (of_nat (t_base t)) (0xfffff :: u32) 0x100000"
  let ?e = "?w\<lparr>dt_access := (if code then 0b11111010 else 0b11110010), granularity := 0b11000000\<rparr>"
  obtain b where b: "current_task k < length (task_table k)" "task_table k ! current_task k = Task b t" using get_taskD [OF assms(1)] by blast
  have "segment_base ?e = segment_base ?w" by (simp add: segment_base_def)
  then have base: "segment_base ?e = of_nat (t_base t)" by (simp add: write_fields_decode)
  have limit: "segment_limit ?e = 0xffff" by (simp add: segment_limit_def write_fields_sel)
  have cover: "\<not> DIV_ROUNDUP (?n + 8) PAGE_SIZE * PAGE_SIZE < (?n + 1) * 8" 
  proof -
    have "DIV_ROUNDUP (?n + 8) PAGE_SIZE = 1" unfolding DIV_ROUNDUP_def using assms(3) by (intro div_nat_eqI) simp_all
    then show ?thesis using assms(3) by simp
  qed
  let ?k = "k\<lparr>kernel_heap := h, task_table := (task_table k)[current_task k := Task b (t\<lparr>ldt := ldt t @ [?e], ldt_addr := a\<rparr>)]\<rparr>"
  have "\<exists>g. load_ldt (gdt ?k) (of_nat a) (of_nat (?n + 1)) = Some g" using assms(6) by (simp add: load_ldt_def Let_def)
  then obtain g where g: "load_ldt (gdt k) (of_nat a) (of_nat (?n + 1)) = Some g" by auto
  have "set_segment (ldt t @ [gdt_entry 0 0 0]) ?n (of_nat (t_base t)) 0x100000 = Some (ldt t @ [?w])"
    by (simp add: set_segment_Some)
  moreover have "set_task (current_task k) (t\<lparr>ldt := ldt t @ [?e], ldt_addr := a\<rparr>) (k\<lparr>kernel_heap := h\<rparr>) = Some ?k"
    using b by (simp add: set_task_def)
  ultimately have "syscall_new_segment 0 (2 ^ 20) code k = Some (of_nat (?n * 8) OR push_bit 2 1 OR 3, ?k\<lparr>gdt := g\<rparr>)"
    using assms(1,2,4,5) g cover by (simp add: syscall_new_segment_def get_task_def Let_def)
  moreover have "get_task (current_task k) (?k\<lparr>gdt := g\<rparr>) = Some (t\<lparr>ldt := ldt t @ [?e], ldt_addr := a\<rparr>)" using b by (simp add: get_task_def)
  ultimately show ?thesis using base limit by auto
qed

lemma new_segment_escapes_task_witness:
  "\<exists>sel k' t'. syscall_new_segment 0 (2 ^ 20) False ipc_kernel = Some (sel, k') \<and> get_task 1 k' = Some t'
     \<and> segment_base (last (ldt t')) = 0x2000 \<and> segment_limit (last (ldt t')) = 0xffff"
proof -
  have "krealloc 0 8 ipc_heap = kalloc 8 ipc_heap" by (simp add: krealloc_def)
  moreover have "fst (kalloc 8 ipc_heap) = 0x6000"
    by (simp add: ipc_heap_def DIV_ROUNDUP_def kalloc_def pmm_allocz_def pmm_alloc_def inner_alloc_def inner_alloc_loop.simps)
  ultimately obtain h where "krealloc 0 8 ipc_heap = (0x6000, h)" by (metis prod.collapse)
  then show ?thesis
    using new_segment_escapes_task [OF ipc_kernel_facts(1), where code = False] ipc_kernel_facts(3-5)
    by (auto simp: zero_task_def task_bytes_def)
qed

end
