(* ===== verification/Exec.thy ===== *)
theory Exec
  imports Syscalls
begin

text \<open>
  Making tasks, the rest of \<open>kernel/src/task.c\<close>: \<open>task_fork\<close>, \<open>general_execute\<close> and \<open>execve\<close>.

  \<open>task_info_t\<close> holds the strings its pointers lead to in the memory of the caller, \<open>ti_argv\<close> the
  strings of the argument array.  The argument arrays of \<open>execve\<close> are read from memory, because the
  function follows their pointers in two ways.  Copies do not overlap their source.
\<close>

record task_info_t =
  ti_path :: string
  ti_stdin :: string
  ti_stdout :: string
  ti_stderr :: string
  ti_pwd :: string
  ti_name :: string
  ti_server_name :: string
  ti_argc :: int
  ti_argv :: "string list"

abbreviation (input) sizeof_file_handle_t :: nat where "sizeof_file_handle_t \<equiv> 1052"
abbreviation (input) sizeof_file_handle_v2_t :: nat where "sizeof_file_handle_v2_t \<equiv> 12"

abbreviation set_mem :: "memory \<Rightarrow> 'w kernel \<Rightarrow> 'w kernel" where
  "set_mem m k \<equiv> k\<lparr>kernel_heap := (kernel_heap k)\<lparr>heap_mem := m\<rparr>\<rparr>"

abbreviation mem_of :: "'w kernel \<Rightarrow> memory" where
  "mem_of k \<equiv> heap_mem (kernel_heap k)"

subsection \<open>Fork\<close>

text \<open>A mount point without its file system is an access outside the table of file systems.\<close>

fun clone_handles :: "file_handle_v2_t list \<Rightarrow> 'w vfs \<Rightarrow> (file_handle_v2_t list \<times> 'w vfs) option" where
  "clone_handles [] v = Some ([], v)"
| "clone_handles (h # hs) v =
     (if f2_free h then do {
        (hs, v) \<leftarrow> clone_handles hs v;
        Some (\<lparr>f2_free = True, f2_mountpoint = 0, f2_internal_handle = 0\<rparr> # hs, v) }
      else if 0 \<le> f2_mountpoint h \<and> nat (f2_mountpoint h) < length (mountpoints v) then do {
        i \<leftarrow> vfs_translate_fs (nat (f2_mountpoint h)) v;
        (n, w) \<leftarrow> fs_fork (filesystems v ! i) (f2_internal_handle h) (world v);
        (hs, v) \<leftarrow> clone_handles hs (v\<lparr>world := w\<rparr>);
        Some (\<lparr>f2_free = False, f2_mountpoint = f2_mountpoint h, f2_internal_handle = n\<rparr> # hs, v) }
      else None)"

text \<open>A failed fork returns \<open>-1\<close> to the task; the scheduler goes on.\<close>

definition fork_failed :: "'w kernel \<Rightarrow> (sched_outcome \<times> 'w kernel) option" where
  "fork_failed k = do {
     t \<leftarrow> self k;
     k \<leftarrow> set_self (t\<lparr>cpu := (cpu t)\<lparr>eax := -1\<rparr>\<rparr>) k;
     task_scheduler k }"

text \<open>
  The table of local descriptors is copied onto itself, since the new structure is a copy of the old
  one with the same pointer.
\<close>

definition task_fork :: "gpr_state \<Rightarrow> 'w kernel \<Rightarrow> (sched_outcome \<times> 'w kernel) option" where
  "task_fork regs k = do {
     t \<leftarrow> self k;
     let t = t\<lparr>cpu := regs\<rparr>;
     k \<leftarrow> set_self t k;
     let task_size = task_bytes t;
     let (base, h) = kalloc task_size (kernel_heap k);
     if base = 0 then fork_failed (k\<lparr>kernel_heap := h\<rparr>)
     else
       let (fh, h) = kalloc (length (file_handles t) * sizeof_file_handle_t) h in
       if fh = 0 then fork_failed (k\<lparr>kernel_heap := kfree base h\<rparr>)
       else
         let handles = handles_of (kvfs k) (current_task k);
             (fh2, h) = kalloc (length handles * sizeof_file_handle_v2_t) h in
         if fh2 = 0 then fork_failed (k\<lparr>kernel_heap := kfree fh (kfree base h)\<rparr>)
         else do {
           (handles, v) \<leftarrow> clone_handles handles (kvfs k);
           let h = h\<lparr>heap_mem := memcpy (heap_mem h) base (t_base t) task_size\<rparr>;
           let new_process = t\<lparr>t_parent := current_task k, ipc_queue := [], ipc_queue_addr := 0, server_name := [],
                 t_base := base, file_handles_addr := fh, file_handles_v2_addr := fh2\<rparr>;
           let (new_pid, k) = task_create new_process (pwd_of (kvfs k) (current_task k)) handles (k\<lparr>kernel_heap := h, kvfs := v\<rparr>);
           if new_pid = -1 then fork_failed (k\<lparr>kernel_heap := kfree fh2 (kfree fh (kfree base (kernel_heap k)))\<rparr>)
           else do {
             k \<leftarrow> set_self (t\<lparr>cpu := regs\<lparr>eax := word_of_int new_pid\<rparr>\<rparr>) k;
             k \<leftarrow> set_task (nat new_pid) (new_process\<lparr>cpu := regs\<lparr>eax := 0\<rparr>\<rparr>) k;
             task_scheduler k } } }"

subsection \<open>Loading a program\<close>

definition image_size :: "u64 \<Rightarrow> u64" where
  "image_size n = of_nat TASK_RESERVED_SPACE + n + of_nat DEFAULT_STACK"

definition image_pages :: "u64 \<Rightarrow> nat" where
  "image_pages n = (unat (image_size n) div PAGE_SIZE + (if unat (image_size n) mod PAGE_SIZE \<noteq> 0 then 1 else 0)) mod 2 ^ 32"

definition image_esp :: "u64 \<Rightarrow> u32" where
  "image_esp n = ucast ((image_size n - 1) AND 0xfffffff0)"

definition load_program :: "string \<Rightarrow> nat \<Rightarrow> u64 \<Rightarrow> 'w kernel \<Rightarrow> 'w kernel option" where
  "load_program path base n k = do {
     (tmp_handle, v) \<leftarrow> vfs_kopen path O_RDWR 0 (kvfs k);
     ((r, bs), v) \<leftarrow> vfs_kuread tmp_handle (s32 (uint n)) v;
     (r, v) \<leftarrow> vfs_kclose tmp_handle v;
     Some (set_mem (put_bytes bs (base + TASK_RESERVED_SPACE) (mem_of k)) (k\<lparr>kvfs := v\<rparr>)) }"

subsection \<open>Handles of a new task\<close>

text \<open>The array of handles is enlarged when no slot is free; without memory for it the store is a fault.\<close>

definition add_file_handle :: "nat \<Rightarrow> string \<Rightarrow> u32 \<Rightarrow> 'w kernel \<Rightarrow> 'w kernel option" where
  "add_file_handle pid path flags k = do {
     t \<leftarrow> get_task pid k;
     let handle = \<lparr>fh_free = False, fh_path = path, fh_flags = flags, fh_mode = 0, fh_ptr = 0, fh_begin = 0, fh_end = 0, fh_isblock = True\<rparr>;
     let (n, hs) = create_file_handle (file_handles t) handle;
     let (a, h) = (if n = length (file_handles t) then krealloc (file_handles_addr t) ((n + 1) * sizeof_file_handle_t) (kernel_heap k)
                   else (file_handles_addr t, kernel_heap k));
     if a = 0 \<or> 1024 \<le> length path then None
     else set_task pid (t\<lparr>file_handles := hs, file_handles_addr := a\<rparr>) (k\<lparr>kernel_heap := h\<rparr>) }"

definition add_file_handle_v2 :: "nat \<Rightarrow> file_handle_v2_t \<Rightarrow> 'w kernel \<Rightarrow> 'w kernel option" where
  "add_file_handle_v2 pid handle k = do {
     t \<leftarrow> get_task pid k;
     let old = handles_of (kvfs k) pid;
     let (n, hs) = create_file_handle_v2 old handle;
     let (a, h) = (if n = length old then krealloc (file_handles_v2_addr t) ((n + 1) * sizeof_file_handle_v2_t) (kernel_heap k)
                   else (file_handles_v2_addr t, kernel_heap k));
     if a = 0 then None
     else set_task pid (t\<lparr>file_handles_v2_addr := a\<rparr>)
            (k\<lparr>kernel_heap := h, kvfs := (kvfs k)\<lparr>handles_of := (handles_of (kvfs k))(pid := hs)\<rparr>\<rparr>) }"

text \<open>
  A stream is opened for the kernel, its handle is given to the task and the slot of the kernel's table
  is marked free.  A stream that cannot be opened is an access in front of that table.
\<close>

definition open_stream :: "nat \<Rightarrow> string \<Rightarrow> u32 \<Rightarrow> 'w kernel \<Rightarrow> 'w kernel option" where
  "open_stream pid dev flags k = do {
     (khandle, v) \<leftarrow> vfs_kopen dev flags 0 (kvfs k);
     if khandle < 0 then None
     else do {
       handle \<leftarrow> arr_get (handles_of v 0) (nat khandle);
       k \<leftarrow> add_file_handle_v2 pid handle (k\<lparr>kvfs := v\<rparr>);
       let v = kvfs k;
       Some (k\<lparr>kvfs := v\<lparr>handles_of := (handles_of v)(0 := (handles_of v 0)[nat khandle := (handles_of v 0 ! nat khandle)\<lparr>f2_free := True\<rparr>])\<rparr>\<rparr>) } }"

subsection \<open>Execution\<close>

text \<open>The loop that copies the arguments: the strings from \<open>limit\<close> on, the pointers from \<open>slot\<close> on.\<close>

fun copy_args :: "string list \<Rightarrow> nat \<Rightarrow> nat \<Rightarrow> nat \<Rightarrow> memory \<Rightarrow> memory" where
  "copy_args [] base slot limit m = wr_le 4 m slot 0"
| "copy_args (s # ss) base slot limit m =
     copy_args ss base (slot + 4) (limit + length s + 1) (wr_le 4 (put_bytes (clit s) (base + limit) m) slot limit)"

text \<open>The fields of the new task that are set once it has a number; the strings must fit their arrays.\<close>

definition init_task :: "task_info_t \<Rightarrow> u64 \<Rightarrow> nat \<Rightarrow> nat \<Rightarrow> 'w kernel \<Rightarrow> 'w kernel option" where
  "init_task ti n pages pid k = do {
     t \<leftarrow> get_task pid k;
     if length (ti_pwd ti) < 2048 \<and> length (ti_name ti) < 128 \<and> length (ti_server_name ti) < 128
        \<and> length (ti_stdin ti) < 2048 \<and> length (ti_stdout ti) < 2048 \<and> length (ti_stderr ti) < 2048
     then set_task pid (t\<lparr>cpu := (cpu t)\<lparr>esp := image_esp n, eip := of_nat TASK_RESERVED_SPACE\<rparr>,
            heap_base := pages * PAGE_SIZE mod 2 ^ 32, heap_size := 0, ldt_addr := 0, ldt := [],
            t_name := ti_name ti, server_name := ti_server_name ti,
            t_stdin := ti_stdin ti, t_stdout := ti_stdout ti, t_stderr := ti_stderr ti\<rparr>)
          (k\<lparr>kvfs := (kvfs k)\<lparr>pwd_of := (pwd_of (kvfs k))(pid := ti_pwd ti)\<rparr>\<rparr>)
     else None }"

definition init_std_streams :: "task_info_t \<Rightarrow> nat \<Rightarrow> 'w kernel \<Rightarrow> 'w kernel option" where
  "init_std_streams ti pid k = do {
     k \<leftarrow> add_file_handle pid (ti_stdin ti) O_RDONLY k;
     k \<leftarrow> add_file_handle pid (ti_stdout ti) O_WRONLY k;
     k \<leftarrow> add_file_handle pid (ti_stderr ti) O_WRONLY k;
     k \<leftarrow> open_stream pid (ti_stdin ti) O_RDONLY k;
     k \<leftarrow> open_stream pid (ti_stdout ti) O_WRONLY k;
     open_stream pid (ti_stderr ti) O_WRONLY k }"

text \<open>The arguments are \<open>argc\<close> strings of the array; one that is not there is a fault.\<close>

definition init_args :: "task_info_t \<Rightarrow> nat \<Rightarrow> 'w kernel \<Rightarrow> 'w kernel option" where
  "init_args ti base k =
     (if nat (ti_argc ti) \<le> length (ti_argv ti)
      then Some (set_mem (copy_args (take (nat (ti_argc ti)) (ti_argv ti)) base (base + 0x1010) 0x4000
             (wr_le 4 (mem_of k) (base + 0x1000) (u32_of (ti_argc ti)))) k)
      else None)"

definition general_execute :: "task_info_t \<Rightarrow> 'w kernel \<Rightarrow> (int \<times> 'w kernel) option" where
  "general_execute ti k = do {
     t \<leftarrow> self k;
     ((r, metadata), v) \<leftarrow> vfs_kget_metadata (ti_path ti) no_metadata FILE_TYPE (kvfs k);
     let k = k\<lparr>kvfs := v\<rparr>;
     let n = fsize (metadata :: vfs_metadata_t);
     let pages = image_pages n;
     if r = -2 then Some (-1, k)
     else
       let (base, h) = kalloc (pages * PAGE_SIZE mod 2 ^ 32) (kernel_heap k); k = k\<lparr>kernel_heap := h\<rparr> in
       if base = 0 then Some (-1, k)
       else do {
         k \<leftarrow> load_program (ti_path ti) base n k;
         let new_task = (zero_task Active)\<lparr>cpu := default_cpu_status, t_parent := current_task k, t_pages := pages, t_base := base\<rparr>;
         let (new_pid, k) = task_create new_task [] [] k;
         if new_pid = -1 then Some (-1, k\<lparr>kernel_heap := kfree base (kernel_heap k)\<rparr>)
         else do {
           k \<leftarrow> init_task ti n pages (nat new_pid) k;
           k \<leftarrow> init_std_streams ti (nat new_pid) k;
           k \<leftarrow> init_args ti base k;
           Some (new_pid, k) } } }"

definition general_execute_block :: "task_info_t \<Rightarrow> 'w kernel \<Rightarrow> (int \<times> 'w kernel) option" where
  "general_execute_block ti k = do {
     (r, k) \<leftarrow> general_execute ti k;
     if r = -1 then Some (-1, k)
     else do {
       t \<leftarrow> self k;
       k \<leftarrow> set_self (t\<lparr>t_status := ProcWait\<rparr>) k;
       Some (0, k) } }"

subsection \<open>execve\<close>

text \<open>The string at an address; \<open>None\<close> when memory holds no terminator from there on.\<close>

partial_function (option) cstr :: "memory \<Rightarrow> nat \<Rightarrow> u8 list option" where
  "cstr m a = (if m a = 0 then Some [] else do { s \<leftarrow> cstr m (Suc a); Some (m a # s) })"

declare cstr.simps [code]

text \<open>
  The first loops: for each pointer of the array up to a null pointer, and at most 256 of them, a buffer
  is made for the string at the pointer relocated to the task's memory, and the string at the pointer as
  it stands is copied into the buffer.
\<close>

fun collect_args :: "nat \<Rightarrow> nat \<Rightarrow> nat \<Rightarrow> kheap \<Rightarrow> (nat list \<times> kheap) option" where
  "collect_args 0 v base h = Some ([], h)"
| "collect_args (Suc n) v base h =
     (let p = rd_le 4 (heap_mem h) v in
      if p = 0 then Some ([], h)
      else do {
        s \<leftarrow> cstr (heap_mem h) ((p + base) mod 2 ^ 32);
        let (b, h) = kalloc (length s + 1) h;
        s \<leftarrow> cstr (heap_mem h) p;
        (bs, h) \<leftarrow> collect_args n (v + 4) base (h\<lparr>heap_mem := put_bytes (s @ [0]) b (heap_mem h)\<rparr>);
        Some (b # bs, h) })"

text \<open>The second loops: the buffers up to a null pointer go to the new program and are released.\<close>

fun place_args :: "nat list \<Rightarrow> nat \<Rightarrow> nat \<Rightarrow> nat \<Rightarrow> kheap \<Rightarrow> kheap option" where
  "place_args [] base slot limit h = Some (h\<lparr>heap_mem := wr_le 4 (heap_mem h) slot 0\<rparr>)"
| "place_args (b # bs) base slot limit h =
     (if b = 0 then Some (h\<lparr>heap_mem := wr_le 4 (heap_mem h) slot 0\<rparr>)
      else do {
        s \<leftarrow> cstr (heap_mem h) b;
        let m = wr_le 4 (put_bytes (s @ [0]) (base + limit) (heap_mem h)) slot limit;
        place_args bs base (slot + 4) (limit + length s + 1) (kfree b (h\<lparr>heap_mem := m\<rparr>)) })"

definition execve :: "string \<Rightarrow> nat \<Rightarrow> nat \<Rightarrow> 'w kernel \<Rightarrow> ((sched_outcome + int) \<times> 'w kernel) option" where
  "execve path argv envp k = do {
     let (tmp_argv, h) = kalloc (4 * 256) (kernel_heap k);
     let (tmp_envp, h) = kalloc (4 * 256) h;
     let k = k\<lparr>kernel_heap := h\<rparr>;
     t \<leftarrow> self k;
     ((r, metadata), v) \<leftarrow> vfs_kget_metadata path no_metadata FILE_TYPE (kvfs k);
     let k = k\<lparr>kvfs := v\<rparr>;
     let n = fsize (metadata :: vfs_metadata_t);
     let pages = image_pages n;
     if r = -2 then Some (Inr (-1), k)
     else do {
       (as, h) \<leftarrow> collect_args 256 (user_addr t (int argv)) (t_base t) (kernel_heap k);
       (es, h) \<leftarrow> collect_args 256 (user_addr t (int envp)) (t_base t) h;
       let (base, h) = kalloc (pages * PAGE_SIZE mod 2 ^ 32) h;
       k \<leftarrow> load_program path base n (k\<lparr>kernel_heap := h\<rparr>);
       k \<leftarrow> set_self (t\<lparr>cpu := default_cpu_status\<lparr>esp := image_esp n, eip := of_nat TASK_RESERVED_SPACE\<rparr>,
              t_status := Active, t_base := base, heap_base := pages * PAGE_SIZE mod 2 ^ 32, heap_size := 0\<rparr>) k;
       let h = (kernel_heap k)\<lparr>heap_mem := wr_le 4 (mem_of k) (base + 0x1000) (length as)\<rparr>;
       h \<leftarrow> place_args as base (base + 0x1010) 0x4000 h;
       h \<leftarrow> place_args es base (base + 0x1020) 0x8000 h;
       let h = kfree tmp_envp (kfree tmp_argv (kfree (t_base t) h));
       (r, k) \<leftarrow> task_scheduler (k\<lparr>kernel_heap := h, ts_enable := True\<rparr>);
       Some (Inl r, k) } }"

subsection \<open>A forked task is a copy\<close>

lemma scheduler_current:
  assumes "get_task (current_task k) k = Some t" and "t_status t = Active" and "length (gdt k) = 11"
  shows "\<exists>g. task_scheduler k = Some (Run (current_task k) (cpu t), k\<lparr>idle_cpu := False, gdt := g\<rparr>)"
proof -
  obtain a where a: "current_task k < length (task_table k)" "task_table k ! current_task k = Task a t" using get_taskD [OF assms(1)] by blast
  obtain g where "load_segments t (gdt k) = Some g" using load_segments_ok [OF assms(3), of t] by blast
  then have "task_scheduler k = Some (Run (current_task k) (cpu t), k\<lparr>idle_cpu := False, gdt := g\<rparr>)"
    using a assms(2) by (simp add: task_scheduler.simps [of k] dispatch_def)
  then show ?thesis by blast
qed

lemma clone_handles_pid: "clone_handles hs v = Some (hs', v') \<Longrightarrow> current_pid v' = current_pid v \<and> length hs' = length hs"
proof (induction hs arbitrary: v hs')
  case (Cons h hs)
  then show ?case by (cases "f2_free h") (fastforce simp: bind_eq_Some_conv split: if_splits)+
qed simp

text \<open>Three blocks allocated in a row leave a block alone, and the first of them keeps its place.\<close>

lemma three_blocks:
  assumes "heap_inv h" and "kblock h q n" and "kalloc n h = (b, h1)" and "b \<noteq> 0"
    and "kalloc x h1 = (f, h2)" and "f \<noteq> 0" and "x \<le> 2 ^ 32 - PAGE_SIZE"
    and "kalloc y h2 = (g, h3)" and "g \<noteq> 0" and "y \<le> 2 ^ 32 - PAGE_SIZE"
  shows "heap_inv h3" and "kblock h3 b n" and "blocks_apart b n q n" and "\<forall>i<n. heap_mem h3 (q + i) = heap_mem h (q + i)"
proof -
  have n: "n \<le> 2 ^ 32 - PAGE_SIZE" using assms(2) by (simp add: kblock_def kblock_at_def)
  note b = kalloc_block [OF assms(1) n assms(3,4)] and bq = kalloc_frame [OF assms(1) n assms(3,4,2)]
  note f = kalloc_block [OF b(3) assms(7,5,6)] and fq = kalloc_frame [OF b(3) assms(7,5,6) bq(1)] and fb = kalloc_frame [OF b(3) assms(7,5,6) b(1)]
  note g = kalloc_block [OF f(3) assms(10,8,9)] and gq = kalloc_frame [OF f(3) assms(10,8,9) fq(1)] and gb = kalloc_frame [OF f(3) assms(10,8,9) fb(1)]
  show "heap_inv h3" "kblock h3 b n" "blocks_apart b n q n" by (fact g(3) gb(1) bq(3))+
  show "\<forall>i<n. heap_mem h3 (q + i) = heap_mem h (q + i)" using bq(2) fq(2) gq(2) by simp
qed

text \<open>Copying a block into another one, and a further allocation: the copy stays.\<close>

lemma copied_block:
  assumes "heap_inv h" and "kblock h b n" and "blocks_apart b n q n" and "m \<le> 2 ^ 32 - PAGE_SIZE"
    and "kalloc m (h\<lparr>heap_mem := memcpy (heap_mem h) b q n\<rparr>) = (a, h')" and "a \<noteq> 0"
  shows "\<forall>i<n. heap_mem h' (b + i) = heap_mem h (q + i)"
proof -
  let ?h = "h\<lparr>heap_mem := memcpy (heap_mem h) b q n\<rparr>"
  have c: "memcpy (heap_mem h) b q n = (\<lambda>x. if b \<le> x \<and> x < b + n then heap_mem h (q + (x - b)) else heap_mem h x)"
    by (rule memcpy_disjoint) (use assms(3) kblock_covers [OF assms(2)] in auto)
  have inv: "heap_inv ?h" using assms(1) by (simp add: heap_inv_def)
  have b: "kblock ?h b n" by (rule kblock_mem [OF assms(2)]) (simp add: c)
  have "heap_mem h' (b + i) = heap_mem ?h (b + i)" if "i < n" for i
    using kalloc_frame(2) [OF inv assms(4-6) b] that by blast
  then show ?thesis by (simp add: c)
qed

text \<open>
  C15. Fork: when there is memory and a free number, the new task has the registers of its parent but for
  \<open>eax\<close>, which is zero, a block of its own with the same contents as the parent's memory, copies of the
  parent's open files and its working directory, and no messages; the parent runs on, with the number of
  the new task in \<open>eax\<close>.  The table of local descriptors, though, is the parent's own.
\<close>

theorem task_fork_clones:
  assumes "get_task (current_task k) k = Some t" and "t_status t = Active" and "length (gdt k) = 11"
    and "heap_inv (kernel_heap k)" and "owns_memory (kernel_heap k) t"
    and "kalloc (task_bytes t) (kernel_heap k) = (b, h1)" and "b \<noteq> 0"
    and "kalloc (length (file_handles t) * 1052) h1 = (f, h2)" and "f \<noteq> 0" and "length (file_handles t) \<le> 4000000"
    and "kalloc (length (handles_of (kvfs k) (current_task k)) * 12) h2 = (g, h3)" and "g \<noteq> 0"
    and "length (handles_of (kvfs k) (current_task k)) \<le> 4000000"
    and "clone_handles (handles_of (kvfs k) (current_task k)) (kvfs k) = Some (hs, v)"
    and "first_index (\<lambda>s. s = NoTask \<or> s = EmptyPid) (task_table k) = Some new"
    and "fst (kalloc sizeof_task_t (h3\<lparr>heap_mem := memcpy (heap_mem h3) b (t_base t) (task_bytes t)\<rparr>)) \<noteq> 0"
  shows "\<exists>k' child. task_fork regs k = Some (Run (current_task k) (regs\<lparr>eax := of_nat new\<rparr>), k')
    \<and> get_task new k' = Some child \<and> t_status child = Active \<and> cpu child = regs\<lparr>eax := 0\<rparr> \<and> t_parent child = current_task k
    \<and> t_base child = b \<and> t_pages child = t_pages t \<and> ipc_queue child = []
    \<and> (\<forall>i<task_bytes t. heap_mem (kernel_heap k') (b + i) = heap_mem (kernel_heap k) (t_base t + i))
    \<and> handles_of (kvfs k') new = hs \<and> pwd_of (kvfs k') new = pwd_of (kvfs k) (current_task k) \<and> ldt_addr child = ldt_addr t"
proof -
  let ?c = "current_task k"
  note tD = owns_memoryD [OF assms(4,5)]
  obtain a h4 where a: "kalloc sizeof_task_t (h3\<lparr>heap_mem := memcpy (heap_mem h3) b (t_base t) (task_bytes t)\<rparr>) = (a, h4)" "a \<noteq> 0"
    using assms(16) by (metis prod.collapse)
  have own: "kblock (kernel_heap k) (t_base t) (task_bytes t)" using assms(5) tD(3) by (simp add: owns_memory_def)
  have blocks: "heap_inv h3" "kblock h3 b (task_bytes t)" "blocks_apart b (task_bytes t) (t_base t) (task_bytes t)"
    "\<forall>i<task_bytes t. heap_mem h3 (t_base t + i) = heap_mem (kernel_heap k) (t_base t + i)"
    by (rule three_blocks [OF assms(4) own assms(6,7,8,9) _ assms(11,12)]; use assms(10,13) in simp)+
  have mem: "\<forall>i<task_bytes t. heap_mem h4 (b + i) = heap_mem (kernel_heap k) (t_base t + i)"
    using copied_block [OF blocks(1-3) _ a] blocks(4) by simp
  obtain s where s: "?c < length (task_table k)" "task_table k ! ?c = Task s t" using get_taskD [OF assms(1)] by blast
  have new: "new < length (task_table k)" "new \<noteq> ?c" "task_table k ! new = NoTask \<or> task_table k ! new = EmptyPid"
    using assms(15) s by (auto simp: first_index_Some_iff)
  have fi: "first_index (\<lambda>s. s = NoTask \<or> s = EmptyPid) ((task_table k)[?c := Task s (t\<lparr>cpu := regs\<rparr>)]) = Some new"
    using assms(15) s new by (auto simp: first_index_Some_iff nth_list_update)
  note pid = clone_handles_pid [OF assms(14)]
  let ?n = "t\<lparr>cpu := regs, t_parent := ?c, ipc_queue := [], ipc_queue_addr := 0, server_name := [], t_base := b, file_handles_addr := f, file_handles_v2_addr := g\<rparr>"
  let ?child = "?n\<lparr>cpu := regs\<lparr>eax := 0\<rparr>\<rparr>" and ?par = "t\<lparr>cpu := regs\<lparr>eax := of_nat new\<rparr>\<rparr>"
  let ?k = "k\<lparr>kernel_heap := h4, kvfs := v\<lparr>pwd_of := (pwd_of v)(new := pwd_of (kvfs k) ?c), handles_of := (handles_of v)(new := hs)\<rparr>,
    task_table := (task_table k)[?c := Task s ?par, new := Task a ?child]\<rparr>"
  have "task_fork regs k = task_scheduler ?k"
    using assms(1,6-9,11,12,14) s new fi a tD pid
    by (simp add: task_fork_def task_create_def get_task_def set_task_def task_bytes_def nth_list_update list_update_swap)
  moreover obtain gd where "task_scheduler ?k = Some (Run ?c (regs\<lparr>eax := of_nat new\<rparr>), ?k\<lparr>idle_cpu := False, gdt := gd\<rparr>)"
    using scheduler_current [of ?k ?par] assms(2,3) pid s new by (auto simp: get_task_def)
  moreover have "get_task new (?k\<lparr>idle_cpu := False, gdt := gd\<rparr>) = Some ?child" using new by (simp add: get_task_def)
  ultimately show ?thesis using mem assms(2) by (intro exI [of _ "?k\<lparr>idle_cpu := False, gdt := gd\<rparr>"] exI [of _ ?child]) simp
qed

lemma kalloc_place:
  "fst (kalloc n h) = (let r = fst (pmm_alloc (DIV_ROUNDUP n PAGE_SIZE + 1) (heap_pmm h)) in if r = 0 then 0 else r + PAGE_SIZE)"
  "heap_pmm (snd (kalloc n h)) = snd (pmm_alloc (DIV_ROUNDUP n PAGE_SIZE + 1) (heap_pmm h))"
  by (auto simp: kalloc_def pmm_allocz_def Let_def split: prod.splits)

theorem task_fork_clones_witness:
  "\<exists>k' child. task_fork default_cpu_status ipc_kernel = Some (Run 1 (default_cpu_status\<lparr>eax := 3\<rparr>), k')
     \<and> get_task 3 k' = Some child \<and> t_parent child = 1 \<and> t_base child = 0x6000
     \<and> (\<forall>i<4096. heap_mem (kernel_heap k') (0x6000 + i) = heap_mem ipc_heap (0x2000 + i))"
proof -
  let ?t = "(zero_task Active)\<lparr>t_base := 0x2000, t_pages := 1\<rparr>"
  let ?h1 = "snd (kalloc 4096 ipc_heap)" and ?h2 = "snd (kalloc 0 (snd (kalloc 4096 ipc_heap)))"
  let ?h3 = "snd (kalloc 0 (snd (kalloc 0 (snd (kalloc 4096 ipc_heap)))))"
  have places: "fst (kalloc 4096 ipc_heap) = 0x6000" "fst (kalloc 0 ?h1) = 0x8000" "fst (kalloc 0 ?h2) = 0x9000"
    "fst (kalloc sizeof_task_t (?h3\<lparr>heap_mem := memcpy (heap_mem ?h3) 0x6000 0x2000 4096\<rparr>)) \<noteq> 0"
    by (simp_all add: kalloc_place ipc_heap_def DIV_ROUNDUP_def pmm_alloc_def inner_alloc_def inner_alloc_loop.simps bitmap_set_def)
  have eqs: "kalloc 4096 ipc_heap = (0x6000, ?h1)" "kalloc 0 ?h1 = (0x8000, ?h2)" "kalloc 0 ?h2 = (0x9000, ?h3)"
    using places(1-3) by (metis prod.collapse)+
  have v: "handles_of (kvfs ipc_kernel) (current_task ipc_kernel) = []" "file_handles ?t = []" "task_bytes ?t = 4096" "t_status ?t = Active" "t_base ?t = 0x2000"
    by (simp_all add: ipc_kernel_def demo_kernel_def demo_vfs_def zero_task_def task_bytes_def)
  have "first_index (\<lambda>s. s = NoTask \<or> s = EmptyPid) (task_table ipc_kernel) = Some 3" by (simp add: ipc_kernel_def)
  then show ?thesis
    using task_fork_clones [OF ipc_kernel_facts(1) v(4), of "0x6000" ?h1 "0x8000" ?h2 "0x9000" ?h3 "[]" "kvfs ipc_kernel" 3 default_cpu_status]
      ipc_kernel_facts(3,4,5) ipc_heap_facts(1,2) eqs places(4) v by auto
qed

subsection \<open>The arguments of a program\<close>

text \<open>The string at an address, with its terminator, and where the strings of a list start.\<close>

definition string_at :: "memory \<Rightarrow> nat \<Rightarrow> string \<Rightarrow> bool" where
  "string_at m a s \<longleftrightarrow> (\<forall>i \<le> length s. m (a + i) = clit s ! i)"

definition args_size :: "string list \<Rightarrow> nat" where
  "args_size ss = sum_list (map (\<lambda>s. length s + 1) ss)"

lemma length_clit [simp]: "length (clit s) = Suc (length s)"
  by (simp add: clit_def)

lemma copy_args_frame:
  "a < base + limit \<Longrightarrow> a < slot \<or> slot + 4 * length ss + 4 \<le> a \<Longrightarrow> copy_args ss base slot limit m a = m a"
  by (induction ss arbitrary: slot limit m) (auto simp: put_bytes_apply)

lemma copy_args_layout:
  "slot + 4 * length ss + 4 \<le> base + limit \<Longrightarrow> limit + args_size ss < 2 ^ 32 \<Longrightarrow>
   (\<forall>i<length ss. rd_le 4 (copy_args ss base slot limit m) (slot + 4 * i) = limit + args_size (take i ss)
      \<and> string_at (copy_args ss base slot limit m) (base + limit + args_size (take i ss)) (ss ! i))
   \<and> rd_le 4 (copy_args ss base slot limit m) (slot + 4 * length ss) = 0"
proof (induction ss arbitrary: slot limit m)
  case Nil
  then show ?case by (simp add: rd_wr_le)
next
  case (Cons s ss)
  let ?m = "wr_le 4 (put_bytes (clit s) (base + limit) m) slot limit" and ?l = "limit + length s + 1"
  let ?c = "copy_args ss base (slot + 4) ?l ?m"
  have bound: "slot + 4 + 4 * length ss + 4 \<le> base + ?l" "?l + args_size ss < 2 ^ 32" using Cons.prems by (simp_all add: args_size_def)
  note IH = Cons.IH [OF bound, of ?m]
  have "?c a = ?m a" if "slot \<le> a" "a < slot + 4" for a using that Cons.prems by (intro copy_args_frame) auto
  then have "rd_le 4 ?c slot = rd_le 4 ?m slot" by (intro rd_le_cong) simp
  then have ptr: "rd_le 4 ?c slot = limit" using bound by (simp add: rd_wr_le)
  have "?c (base + limit + j) = clit s ! j" if "j \<le> length s" for j
  proof -
    have "?c (base + limit + j) = ?m (base + limit + j)" using that Cons.prems by (intro copy_args_frame) auto
    also have "\<dots> = clit s ! j" using that Cons.prems by (simp add: put_bytes_apply)
    finally show ?thesis .
  qed
  then have str: "string_at ?c (base + limit) s" by (simp add: string_at_def)
  have "rd_le 4 ?c (slot + 4 * i) = limit + args_size (take i (s # ss)) \<and> string_at ?c (base + limit + args_size (take i (s # ss))) ((s # ss) ! i)"
    if i: "i < length (s # ss)" for i
  proof (cases i)
    case 0
    then show ?thesis using ptr str by (simp add: args_size_def)
  next
    case (Suc j)
    then show ?thesis using IH i by (simp add: args_size_def algebra_simps)
  qed
  then show ?case using IH by (simp add: algebra_simps)
qed

text \<open>What the later steps of \<open>general_execute\<close> leave alone in a task.\<close>

definition core :: "task_t \<Rightarrow> task_status \<times> nat \<times> nat \<times> nat \<times> gpr_state \<times> string \<times> string" where
  "core t = (t_status t, t_parent t, t_base t, t_pages t, cpu t, t_name t, server_name t)"

lemma set_task_core:
  "set_task pid u k = Some k' \<Longrightarrow> get_task pid k = Some t \<Longrightarrow> core u = core t \<Longrightarrow>
   map_option core (get_task q k') = map_option core (get_task q k) \<and> kvfs k' = kvfs k"
  by (auto simp: set_task_def get_task_def arr_get_def nth_list_update split: task_slot.splits if_splits)

lemma get_task_heap [simp]: "get_task q (k\<lparr>kernel_heap := h\<rparr>) = get_task q k" "get_task q (k\<lparr>kvfs := v\<rparr>) = get_task q k"
  by (simp_all add: get_task_def)

lemma open_for_pid: "open_for pid path flags mode v = Some (r, v') \<Longrightarrow> current_pid v' = current_pid v"
  by (auto simp: open_for_def bind_eq_Some_conv Let_def case_prod_beta split: option.splits if_splits)

lemma uread_for_pid: "uread_for pid h n v = Some (r, v') \<Longrightarrow> current_pid v' = current_pid v"
  by (auto simp: uread_for_def bind_eq_Some_conv Let_def)

lemma close_for_pid: "close_for pid h v = Some (r, v') \<Longrightarrow> current_pid v' = current_pid v"
  by (auto simp: close_for_def bind_eq_Some_conv Let_def split: if_splits)

lemma vfs_kget_metadata_pid: "vfs_kget_metadata path md type v = Some (r, v') \<Longrightarrow> current_pid v' = current_pid v"
  by (auto simp: vfs_kget_metadata_def with_fs_def bind_eq_Some_conv split: option.splits prod.splits)

lemma load_program_core:
  "load_program path base n k = Some k' \<Longrightarrow> get_task q k' = get_task q k \<and> current_task k' = current_task k \<and> task_table k' = task_table k"
  by (auto simp: load_program_def bind_eq_Some_conv vfs_kopen_def vfs_kuread_def vfs_kclose_def
      dest!: open_for_pid uread_for_pid close_for_pid)

lemma add_file_handle_core:
  assumes "add_file_handle pid path flags k = Some k'"
  shows "map_option core (get_task q k') = map_option core (get_task q k)"
proof -
  from assms obtain t where t: "get_task pid k = Some t" by (auto simp: add_file_handle_def bind_eq_Some_conv)
  let ?handle = "\<lparr>fh_free = False, fh_path = path, fh_flags = flags, fh_mode = 0, fh_ptr = 0, fh_begin = 0, fh_end = 0, fh_isblock = True\<rparr>"
  obtain n hs where c: "create_file_handle (file_handles t) ?handle = (n, hs)" by fastforce
  obtain a h where "(if n = length (file_handles t) then krealloc (file_handles_addr t) ((n + 1) * sizeof_file_handle_t) (kernel_heap k)
                   else (file_handles_addr t, kernel_heap k)) = (a, h)" by fastforce
  with assms t c have "set_task pid (t\<lparr>file_handles := hs, file_handles_addr := a\<rparr>) (k\<lparr>kernel_heap := h\<rparr>) = Some k'"
    by (auto simp: add_file_handle_def split: if_splits)
  then show ?thesis using set_task_core [of pid _ "k\<lparr>kernel_heap := h\<rparr>" k' t q] t by (simp add: core_def)
qed

lemma add_file_handle_v2_core:
  assumes "add_file_handle_v2 pid handle k = Some k'"
  shows "map_option core (get_task q k') = map_option core (get_task q k)"
proof -
  from assms obtain t where t: "get_task pid k = Some t" by (auto simp: add_file_handle_v2_def bind_eq_Some_conv)
  obtain n hs where c: "create_file_handle_v2 (handles_of (kvfs k) pid) handle = (n, hs)" by fastforce
  let ?v = "(kvfs k)\<lparr>handles_of := (handles_of (kvfs k))(pid := hs)\<rparr>"
  obtain a h where "(if n = length (handles_of (kvfs k) pid) then krealloc (file_handles_v2_addr t) ((n + 1) * sizeof_file_handle_v2_t) (kernel_heap k)
                   else (file_handles_v2_addr t, kernel_heap k)) = (a, h)" by fastforce
  with assms t c have "set_task pid (t\<lparr>file_handles_v2_addr := a\<rparr>) (k\<lparr>kernel_heap := h, kvfs := ?v\<rparr>) = Some k'"
    by (auto simp: add_file_handle_v2_def split: if_splits)
  then show ?thesis using set_task_core [of pid _ "k\<lparr>kernel_heap := h, kvfs := ?v\<rparr>" k' t q] t by (simp add: core_def)
qed

lemma open_stream_core:
  assumes "open_stream pid dev flags k = Some k'"
  shows "map_option core (get_task q k') = map_option core (get_task q k)"
  using assms by (auto simp: open_stream_def bind_eq_Some_conv Let_def split: if_splits dest!: add_file_handle_v2_core [where q = q])

lemma init_std_streams_core:
  "init_std_streams ti pid k = Some k' \<Longrightarrow> map_option core (get_task q k') = map_option core (get_task q k)"
  by (auto simp: init_std_streams_def bind_eq_Some_conv dest!: add_file_handle_core [where q = q] open_stream_core [where q = q])

lemma init_task_core:
  assumes "init_task ti n pages pid k = Some k'" and "get_task pid k = Some t"
  shows "\<exists>u. get_task pid k' = Some u \<and> core u = core (t\<lparr>cpu := (cpu t)\<lparr>esp := image_esp n, eip := of_nat TASK_RESERVED_SPACE\<rparr>,
    t_name := ti_name ti, server_name := ti_server_name ti\<rparr>)"
  using assms by (auto simp: init_task_def set_task_def core_def get_task_def arr_get_def split: if_splits task_slot.splits)

text \<open>A run of \<open>general_execute\<close> that makes a task, step by step.\<close>

lemma general_execute_steps:
  assumes "general_execute ti k = Some (pid, k')" and "pid \<noteq> -1"
  obtains r md v n base h k1 k2 k3 k4 where
    "vfs_kget_metadata (ti_path ti) no_metadata FILE_TYPE (kvfs k) = Some ((r, md), v)" "n = fsize md" "base \<noteq> 0"
    "load_program (ti_path ti) base n (k\<lparr>kvfs := v, kernel_heap := h\<rparr>) = Some k1"
    "task_create ((zero_task Active)\<lparr>cpu := default_cpu_status, t_parent := current_task k1, t_pages := image_pages n, t_base := base\<rparr>) [] [] k1 = (pid, k2)"
    "init_task ti n (image_pages n) (nat pid) k2 = Some k3" "init_std_streams ti (nat pid) k3 = Some k4" "init_args ti base k4 = Some k'"
proof -
  from assms(1) obtain r md v where m: "vfs_kget_metadata (ti_path ti) no_metadata FILE_TYPE (kvfs k) = Some ((r, md), v)"
    by (auto simp: general_execute_def bind_eq_Some_conv Let_def)
  let ?n = "fsize md"
  obtain base h where a: "kalloc (image_pages ?n * PAGE_SIZE mod 2 ^ 32) (kernel_heap k) = (base, h)" by fastforce
  from assms(1) obtain t where t: "self k = Some t" by (auto simp: general_execute_def bind_eq_Some_conv Let_def)
  have ok: "r \<noteq> -2" "base \<noteq> 0"
  proof -
    show r: "r \<noteq> -2" using assms m t by (auto simp: general_execute_def)
    have "base = 0 \<Longrightarrow> general_execute ti k = Some (-1, k\<lparr>kvfs := v, kernel_heap := h\<rparr>)" using m t a r by (simp add: general_execute_def)
    then show "base \<noteq> 0" using assms by auto
  qed
  with assms m a obtain k1 where l: "load_program (ti_path ti) base ?n (k\<lparr>kvfs := v, kernel_heap := h\<rparr>) = Some k1"
    by (auto simp: general_execute_def bind_eq_Some_conv Let_def)
  obtain p k2 where c: "task_create ((zero_task Active)\<lparr>cpu := default_cpu_status, t_parent := current_task k1, t_pages := image_pages ?n, t_base := base\<rparr>) [] [] k1 = (p, k2)"
    by fastforce
  from assms m a ok l c have "p \<noteq> -1" by (auto simp: general_execute_def bind_eq_Some_conv Let_def)
  with assms m a ok l c obtain k3 k4 where "init_task ti ?n (image_pages ?n) (nat pid) k2 = Some k3"
    "init_std_streams ti (nat pid) k3 = Some k4" "init_args ti base k4 = Some k'" "p = pid"
    by (auto simp: general_execute_def bind_eq_Some_conv Let_def)
  with that [OF m refl ok(2) l] c show thesis by simp
qed

lemma task_create_core:
  assumes "task_create t d hs k = (pid, k')" and "pid \<noteq> -1"
  shows "get_task (nat pid) k' = Some t" and "current_task k' = current_task k"
  using assms by (auto simp: task_create_def get_task_def first_index_less split: option.splits if_splits prod.splits)

text \<open>
  A new program finds its arguments: the task made by \<open>general_execute\<close> is ready to run at its entry
  point, is a child of the caller with the names it asked for, and its memory holds the number of the
  arguments and the array of pointers to them, ended by a null pointer; each pointer, taken relative
  to the task's memory, leads to the argument with its terminator.
\<close>

lemma program_finds_arguments:
  assumes "general_execute ti k = Some (pid, k')" and "pid \<noteq> -1" and "0 \<le> ti_argc ti" and "ti_argc ti < 0xbfb"
    and "args_size (ti_argv ti) < 2 ^ 31"
  shows "\<exists>t m n. get_task (nat pid) k' = Some t \<and> m = heap_mem (kernel_heap k') \<and> n = nat (ti_argc ti)
    \<and> t_status t = Active \<and> t_parent t = current_task k \<and> eip (cpu t) = 0x10000
    \<and> t_name t = ti_name ti \<and> server_name t = ti_server_name ti
    \<and> rd_le 4 m (t_base t + 0x1000) = n \<and> rd_le 4 m (t_base t + 0x1010 + 4 * n) = 0
    \<and> (\<forall>i<n. string_at m (t_base t + rd_le 4 m (t_base t + 0x1010 + 4 * i)) (ti_argv ti ! i))"
proof -
  let ?n = "nat (ti_argc ti)" and ?ss = "take (nat (ti_argc ti)) (ti_argv ti)"
  from general_execute_steps [OF assms(1,2)] obtain r md v n base h k1 k2 k3 k4 where
    m: "vfs_kget_metadata (ti_path ti) no_metadata FILE_TYPE (kvfs k) = Some ((r, md), v)" and
    l: "load_program (ti_path ti) base n (k\<lparr>kvfs := v, kernel_heap := h\<rparr>) = Some k1" and
    c: "task_create ((zero_task Active)\<lparr>cpu := default_cpu_status, t_parent := current_task k1, t_pages := image_pages n, t_base := base\<rparr>) [] [] k1 = (pid, k2)" and
    i: "init_task ti n (image_pages n) (nat pid) k2 = Some k3" and s: "init_std_streams ti (nat pid) k3 = Some k4" and
    a: "init_args ti base k4 = Some k'"
    by metis
  let ?t = "(zero_task Active)\<lparr>cpu := default_cpu_status, t_parent := current_task k1, t_pages := image_pages n, t_base := base\<rparr>"
  have parent: "current_task k1 = current_task k" using load_program_core [OF l] vfs_kget_metadata_pid [OF m] by simp
  from init_task_core [OF i task_create_core(1) [OF c assms(2)]] obtain u where
    u: "get_task (nat pid) k3 = Some u" "core u = core (?t\<lparr>cpu := (cpu ?t)\<lparr>esp := image_esp n, eip := of_nat TASK_RESERVED_SPACE\<rparr>,
      t_name := ti_name ti, server_name := ti_server_name ti\<rparr>)" by blast
  from a have k': "mem_of k' = copy_args ?ss base (base + 0x1010) 0x4000 (wr_le 4 (mem_of k4) (base + 0x1000) (u32_of (ti_argc ti)))"
    "get_task (nat pid) k' = get_task (nat pid) k4" "?n \<le> length (ti_argv ti)" by (auto simp: init_args_def split: if_splits)
  obtain t where t: "get_task (nat pid) k' = Some t" "core t = core u"
    using init_std_streams_core [OF s, of "nat pid"] u(1) k'(2) by (cases "get_task (nat pid) k'") auto
  have "args_size ?ss \<le> args_size (ti_argv ti)"
    by (metis append_take_drop_id args_size_def le_add1 map_append sum_list_append)
  then have "0x4000 + args_size ?ss < 2 ^ 32" "base + 0x1010 + 4 * length ?ss + 4 \<le> base + 0x4000" using assms(3-5) k'(3) by auto
  note lay = copy_args_layout [OF this(2,1), of "wr_le 4 (mem_of k4) (base + 0x1000) (u32_of (ti_argc ti))", folded k'(1)]
  have "rd_le 4 (mem_of k') (base + 0x1000) = rd_le 4 (wr_le 4 (mem_of k4) (base + 0x1000) (u32_of (ti_argc ti))) (base + 0x1000)"
    unfolding k'(1) by (intro rd_le_cong copy_args_frame) auto
  also have "\<dots> = ?n" using assms(3,4) by (simp add: rd_wr_le u32_of_id)
  finally have argc: "rd_le 4 (mem_of k') (base + 0x1000) = ?n" .
  show ?thesis
    by (rule exI [of _ t], rule exI [of _ "mem_of k'"], rule exI [of _ ?n])
      (use t u parent argc lay k'(3) in \<open>simp add: core_def zero_task_def min_absorb2 add.assoc\<close>)
qed

text \<open>A file system with one program of three bytes, on a kernel with 128 pages of memory.\<close>

definition prog_fs :: "unit filesystem_t" where
  "prog_fs = demo_fs\<lparr>fs_get_metadata := \<lambda>_ m _ _ w. Some ((0, m\<lparr>fsize := 3\<rparr>), w), fs_uread := \<lambda>_ n w. Some ((n, [1, 2, 3], False), w)\<rparr>"

definition prog_kernel :: "unit kernel" where
  "prog_kernel = ipc_kernel\<lparr>kernel_heap := ipc_heap\<lparr>heap_pmm := (heap_pmm ipc_heap)\<lparr>highest_page := 128 * 4096\<rparr>\<rparr>,
     kvfs := demo_vfs\<lparr>filesystems := [prog_fs]\<rparr>\<rparr>"

definition prog_mounted :: "unit vfs \<Rightarrow> bool" where
  "prog_mounted v \<longleftrightarrow> filesystems v = [prog_fs] \<and> mountpoints v = mountpoints demo_vfs \<and> pwd_of v (current_pid v) = ''/'' \<and> stack v = stack demo_vfs"

lemma prog_path:
  assumes "prog_mounted v"
  shows "absolute_path ''/p'' v = Some ''/p''" and "resolve_absolute ''/p'' v = Some (0, prog_fs, ''p'', ''x'')"
proof -
  have "normalise [] ''/p'' = [''p'']" by (simp add: normalise_def components.simps walk_def)
  then obtain buf where "vfs_get_absolute_path ''/'' ''/p'' (replicate 2048 NUL) = Some buf" "holds_string buf ''/p''"
    using absolute_path_normal [of "[]" "''/''" "''/p''" "replicate 2048 NUL"]
    by (auto simp: good_components_def render_path_def NUL_def)
  then show "absolute_path ''/p'' v = Some ''/p''"
    using assms by (simp add: absolute_path_def prog_mounted_def demo_vfs_def holds_string_takeWhile)
  show "resolve_absolute ''/p'' v = Some (0, prog_fs, ''p'', ''x'')"
    using assms by (simp add: prog_mounted_def resolve_absolute_def vfs_translate_mnt_def mount_matches_def demo_vfs_def vfs_translate_fs_def prog_fs_def demo_fs_def)
qed

abbreviation (input) prog_handle :: file_handle_v2_t where "prog_handle \<equiv> \<lparr>f2_free = False, f2_mountpoint = 0, f2_internal_handle = 5\<rparr>"

lemma prog_vfs:
  assumes "prog_mounted v" and "handles_of v 0 = [] \<or> (\<exists>h. handles_of v 0 = [h] \<and> f2_free h)"
  shows "vfs_kget_metadata ''/p'' no_metadata FILE_TYPE v = Some ((0, no_metadata\<lparr>fsize := 3\<rparr>), v)"
    and "vfs_kopen ''/p'' fl 0 v = Some (0, v\<lparr>handles_of := (handles_of v)(0 := [prog_handle])\<rparr>)"
  using prog_path [OF assms(1)] assms
  by (auto simp: vfs_kget_metadata_def with_fs_def prog_fs_def demo_fs_def vfs_kopen_def open_for_def direct_device_def
      create_file_handle_v2_def Let_def)

lemma prog_load:
  assumes "prog_mounted (kvfs k)" and "handles_of (kvfs k) 0 = []"
  shows "load_program ''/p'' base 3 k = Some (k\<lparr>kvfs := (kvfs k)\<lparr>handles_of := (handles_of (kvfs k))(0 := [prog_handle\<lparr>f2_free := True\<rparr>]), vfs_read_stat := False\<rparr>,
    kernel_heap := (kernel_heap k)\<lparr>heap_mem := put_bytes [1, 2, 3] (base + TASK_RESERVED_SPACE) (mem_of k)\<rparr>\<rparr>)"
  using prog_vfs(2) [OF assms(1), of O_RDWR] assms
  by (simp add: load_program_def vfs_kuread_def uread_for_def vfs_kclose_def close_for_def handle_fs_def prog_mounted_def
      vfs_translate_fs_def demo_vfs_def prog_fs_def demo_fs_def Let_def)

text \<open>Steps that make a handle.\<close>

lemma grow_in_place:
  assumes "heap_inv h" and "kblock h p n" and "0 < n" "n \<le> PAGE_SIZE" "0 < m" "m \<le> PAGE_SIZE"
  obtains h' where "krealloc p m h = (p, h')" "kblock h' p m" "heap_inv h'" "heap_pmm h' = heap_pmm h" "p \<noteq> 0"
proof -
  have hi: "highest_page (heap_pmm h) < 2 ^ 32" using assms(1) by (simp add: heap_inv_def)
  have one: "DIV_ROUNDUP x PAGE_SIZE = 1" if "0 < x" "x \<le> PAGE_SIZE" for x
    unfolding DIV_ROUNDUP_def using that by (intro div_nat_eqI) simp_all
  have eq: "DIV_ROUNDUP n PAGE_SIZE = DIV_ROUNDUP m PAGE_SIZE" by (simp only: one assms)
  have m: "m \<le> 2 ^ 32 - PAGE_SIZE" using assms(6) by simp
  note k = krealloc_in_place [OF assms(2) hi m eq]
  show thesis by (rule that [OF k(1,2)]) (use assms(1,2) in \<open>simp_all add: heap_inv_def kblock_def\<close>)
qed

lemma add_file_handle_step:
  assumes "get_task pid k = Some t" and "first_index fh_free (file_handles t) = None"
    and "krealloc (file_handles_addr t) ((length (file_handles t) + 1) * sizeof_file_handle_t) (kernel_heap k) = (a, h)" and "a \<noteq> 0" and "length path < 1024"
  obtains k' H where "add_file_handle pid path flags k = Some k'" "\<not> fh_free H"
    "get_task pid k' = Some (t\<lparr>file_handles := file_handles t @ [H], file_handles_addr := a\<rparr>)" "kernel_heap k' = h" "kvfs k' = kvfs k"
proof -
  let ?H = "\<lparr>fh_free = False, fh_path = path, fh_flags = flags, fh_mode = 0, fh_ptr = 0, fh_begin = 0, fh_end = 0, fh_isblock = True\<rparr>"
  obtain s where s: "pid < length (task_table k)" "task_table k ! pid = Task s t" using get_taskD [OF assms(1)] by blast
  show thesis
    by (rule that [of "k\<lparr>kernel_heap := h, task_table := (task_table k)[pid := Task s (t\<lparr>file_handles := file_handles t @ [?H], file_handles_addr := a\<rparr>)]\<rparr>" ?H])
      (use s assms in \<open>simp_all add: add_file_handle_def create_file_handle_def set_task_def get_task_def\<close>)
qed

lemma open_stream_step:
  assumes "prog_mounted (kvfs k)" and "handles_of (kvfs k) 0 = [g]" and "f2_free g" and "pid \<noteq> 0" and "get_task pid k = Some t"
    and "first_index f2_free (handles_of (kvfs k) pid) = None"
    and "krealloc (file_handles_v2_addr t) ((length (handles_of (kvfs k) pid) + 1) * sizeof_file_handle_v2_t) (kernel_heap k) = (a, h)" and "a \<noteq> 0"
  obtains k' where "open_stream pid ''/p'' flags k = Some k'" "get_task pid k' = Some (t\<lparr>file_handles_v2_addr := a\<rparr>)" "kernel_heap k' = h"
    "kvfs k' = (kvfs k)\<lparr>handles_of := (handles_of (kvfs k))(0 := [prog_handle\<lparr>f2_free := True\<rparr>], pid := handles_of (kvfs k) pid @ [prog_handle])\<rparr>"
proof -
  obtain s where s: "pid < length (task_table k)" "task_table k ! pid = Task s t" using get_taskD [OF assms(5)] by blast
  let ?v = "(kvfs k)\<lparr>handles_of := (handles_of (kvfs k))(0 := [prog_handle\<lparr>f2_free := True\<rparr>], pid := handles_of (kvfs k) pid @ [prog_handle])\<rparr>"
  have o: "vfs_kopen ''/p'' flags 0 (kvfs k) = Some (0, (kvfs k)\<lparr>handles_of := (handles_of (kvfs k))(0 := [prog_handle])\<rparr>)"
    using prog_vfs(2) [OF assms(1)] assms(2,3) by simp
  show thesis
    by (rule that [of "k\<lparr>kernel_heap := h, kvfs := ?v, task_table := (task_table k)[pid := Task s (t\<lparr>file_handles_v2_addr := a\<rparr>)]\<rparr>"])
      (use s assms o in \<open>simp_all add: open_stream_def add_file_handle_v2_def create_file_handle_v2_def set_task_def get_task_def fun_upd_twist\<close>)
qed

lemma prog_streams:
  assumes "get_task pid k = Some t" and "pid \<noteq> 0" and "file_handles t = []" "file_handles_addr t = 0" "file_handles_v2_addr t = 0"
    and "prog_mounted (kvfs k)" and "handles_of (kvfs k) 0 = [g]" and "f2_free g" and "handles_of (kvfs k) pid = []"
    and "heap_inv (kernel_heap k)" and "fst (kalloc 1052 (kernel_heap k)) \<noteq> 0"
    and "\<And>h. heap_pmm h = heap_pmm (snd (kalloc 1052 (kernel_heap k))) \<Longrightarrow> fst (kalloc 12 h) \<noteq> 0"
    and "ti_stdin ti = ''/p''" "ti_stdout ti = ''/p''" "ti_stderr ti = ''/p''"
  obtains k' where "init_std_streams ti pid k = Some k'"
proof -
  obtain a h1 where a: "kalloc 1052 (kernel_heap k) = (a, h1)" "a \<noteq> 0" using assms(11) by (metis prod.collapse)
  have b1: "kblock h1 a 1052" "heap_inv h1" using kalloc_block [OF assms(10) _ a] by simp_all
  obtain k1 H1 where k1: "add_file_handle pid ''/p'' O_RDONLY k = Some k1" "\<not> fh_free H1"
    "get_task pid k1 = Some (t\<lparr>file_handles := [H1], file_handles_addr := a\<rparr>)" "kernel_heap k1 = h1" "kvfs k1 = kvfs k"
    using add_file_handle_step [OF assms(1), of a h1 "''/p''"] a assms(3,4) by (auto simp: krealloc_def)
  obtain h2 where h2: "krealloc a 2104 h1 = (a, h2)" "kblock h2 a 2104" "heap_inv h2" "heap_pmm h2 = heap_pmm h1"
    by (rule grow_in_place [OF b1(2,1), of 2104]) simp_all
  obtain k2 H2 where k2: "add_file_handle pid ''/p'' O_WRONLY k1 = Some k2" "\<not> fh_free H2"
    "get_task pid k2 = Some (t\<lparr>file_handles := [H1, H2], file_handles_addr := a\<rparr>)" "kernel_heap k2 = h2" "kvfs k2 = kvfs k"
    using add_file_handle_step [OF k1(3), of a h2 "''/p''"] h2(1) a(2) k1(2,4,5) by auto
  obtain h3 where h3: "krealloc a 3156 h2 = (a, h3)" "heap_inv h3" "heap_pmm h3 = heap_pmm h1"
    by (rule grow_in_place [OF h2(3,2), of 3156]) (use h2(4) in simp_all)
  obtain k3 H3 where k3: "add_file_handle pid ''/p'' O_WRONLY k2 = Some k3"
    "get_task pid k3 = Some (t\<lparr>file_handles := [H1, H2, H3], file_handles_addr := a\<rparr>)" "kernel_heap k3 = h3" "kvfs k3 = kvfs k"
    by (rule add_file_handle_step [OF k2(3), of a h3 "''/p''" O_WRONLY]) (use h3(1) a(2) k1(2) k2(2,4,5) in auto)
  obtain b h4 where b: "kalloc 12 h3 = (b, h4)" "b \<noteq> 0" using assms(12) [of h3] h3(3) a(1) by (metis prod.collapse snd_conv)
  have b4: "kblock h4 b 12" "heap_inv h4" using kalloc_block [OF h3(2) _ b] by simp_all
  obtain k4 where k4: "open_stream pid ''/p'' O_RDONLY k3 = Some k4" "get_task pid k4 = Some (t\<lparr>file_handles := [H1, H2, H3], file_handles_addr := a, file_handles_v2_addr := b\<rparr>)"
    "kernel_heap k4 = h4" "kvfs k4 = (kvfs k)\<lparr>handles_of := (handles_of (kvfs k))(0 := [prog_handle\<lparr>f2_free := True\<rparr>], pid := [prog_handle])\<rparr>"
    by (rule open_stream_step [OF _ _ assms(8,2) k3(2), of b h4 O_RDONLY])
      (use k3(1,3,4) b assms(2,5,6,7,9) in \<open>auto simp: krealloc_def\<close>)
  obtain h5 where h5: "krealloc b 24 h4 = (b, h5)" "kblock h5 b 24" "heap_inv h5" by (rule grow_in_place [OF b4(2,1), of 24]) simp_all
  obtain k5 where k5: "open_stream pid ''/p'' O_WRONLY k4 = Some k5" "get_task pid k5 = Some (t\<lparr>file_handles := [H1, H2, H3], file_handles_addr := a, file_handles_v2_addr := b\<rparr>)"
    "kernel_heap k5 = h5" "kvfs k5 = (kvfs k)\<lparr>handles_of := (handles_of (kvfs k))(0 := [prog_handle\<lparr>f2_free := True\<rparr>], pid := [prog_handle, prog_handle])\<rparr>"
    by (rule open_stream_step [OF _ _ _ assms(2) k4(2), of "prog_handle\<lparr>f2_free := True\<rparr>" b h5 O_WRONLY])
      (use k4(1,3,4) h5(1) b(2) assms(2,6) in \<open>auto simp: prog_mounted_def\<close>)
  obtain h6 where h6: "krealloc b 36 h5 = (b, h6)" by (rule grow_in_place [OF h5(3,2), of 36]) simp_all
  obtain k6 where "open_stream pid ''/p'' O_WRONLY k5 = Some k6"
    by (rule open_stream_step [OF _ _ _ assms(2) k5(2), of "prog_handle\<lparr>f2_free := True\<rparr>" b h6 O_WRONLY])
      (use k5(1,3,4) h6 b(2) assms(2,6) in \<open>auto simp: prog_mounted_def\<close>)
  then show thesis using that [of k6] k1(1) k2(1) k3(1) k4(1) k5(1) assms(13-15) by (simp add: init_std_streams_def)
qed

definition prog_info :: task_info_t where
  "prog_info = \<lparr>ti_path = ''/p'', ti_stdin = ''/p'', ti_stdout = ''/p'', ti_stderr = ''/p'', ti_pwd = ''/'', ti_name = ''p'',
     ti_server_name = [], ti_argc = 2, ti_argv = [''p'', ''x'']\<rparr>"

lemma prog_kernel_facts:
  "prog_mounted (kvfs prog_kernel)" "handles_of (kvfs prog_kernel) 0 = []" "current_task prog_kernel = 1" "heap_inv (kernel_heap prog_kernel)"
  "self prog_kernel = Some ((zero_task Active)\<lparr>t_base := 0x2000, t_pages := 1\<rparr>)"
  "first_index (\<lambda>s. s = NoTask \<or> s = EmptyPid) (task_table prog_kernel) = Some 3" "length (task_table prog_kernel) = 4" "length (gdt prog_kernel) = 11"
  "task_table prog_kernel ! 1 = Task 0xd000 ((zero_task Active)\<lparr>t_base := 0x2000, t_pages := 1\<rparr>)"
  by (simp_all add: prog_kernel_def prog_mounted_def demo_vfs_def ipc_kernel_def heap_inv_def ipc_heap_def pmm_inv_def get_task_def
      demo_kernel_def load_gdt_def)

lemma image_pages_3: "image_pages 3 = 33"
  by (simp add: image_pages_def image_size_def)

text \<open>Where the first blocks of that kernel go.\<close>

lemma prog_places:
  assumes "heap_pmm h1 = heap_pmm (snd (kalloc 135168 (kernel_heap prog_kernel)))"
    and "heap_pmm h2 = heap_pmm (snd (kalloc 10672 h1))" and "heap_pmm h3 = heap_pmm (snd (kalloc 1052 h2))"
  shows "fst (kalloc 135168 (kernel_heap prog_kernel)) = 0x6000" and "fst (kalloc 10672 h1) \<noteq> 0" and "fst (kalloc 1052 h2) \<noteq> 0" and "fst (kalloc 12 h3) \<noteq> 0"
  using assms
  by (simp_all add: kalloc_place prog_kernel_def ipc_heap_def DIV_ROUNDUP_def pmm_alloc_def inner_alloc_def inner_alloc_loop.simps
      iterate_bitmap_set mark_def del: iterate.simps)

definition prog_start :: "task_info_t \<Rightarrow> bool" where
  "prog_start ti \<longleftrightarrow> ti_path ti = ''/p'' \<and> ti_stdin ti = ''/p'' \<and> ti_stdout ti = ''/p'' \<and> ti_stderr ti = ''/p'' \<and> ti_pwd ti = ''/''
     \<and> length (ti_name ti) < 128 \<and> length (ti_server_name ti) < 128 \<and> nat (ti_argc ti) \<le> length (ti_argv ti)"

lemma prog_runs:
  assumes "prog_start ti"
  shows "\<exists>k'. general_execute ti prog_kernel = Some (3, k')"
proof -
  note ti = assms [unfolded prog_start_def]
  let ?K = prog_kernel and ?N = "no_metadata\<lparr>fsize := (3 :: u64)\<rparr>"
  note K = prog_kernel_facts
  obtain h1 where h1: "kalloc 135168 (kernel_heap ?K) = (0x6000, h1)"
    using prog_places(1) [OF refl refl refl] by (cases "kalloc 135168 (kernel_heap ?K)") simp
  have inv: "heap_inv h1" using kalloc_block(3) [OF K(4) _ h1] by simp
  let ?k0 = "?K\<lparr>kernel_heap := h1\<rparr>"
  let ?v1 = "(kvfs ?K)\<lparr>handles_of := (handles_of (kvfs ?K))(0 := [prog_handle\<lparr>f2_free := True\<rparr>]), vfs_read_stat := False\<rparr>"
  let ?h1 = "h1\<lparr>heap_mem := put_bytes [1, 2, 3] (0x6000 + TASK_RESERVED_SPACE) (heap_mem h1)\<rparr>"
  let ?k1 = "?K\<lparr>kvfs := ?v1, kernel_heap := ?h1\<rparr>"
  have load: "load_program ''/p'' 0x6000 3 (?K\<lparr>kvfs := kvfs ?K, kernel_heap := h1\<rparr>) = Some ?k1" using prog_load [of "?k0" "0x6000"] K(1,2) by simp
  have pmm1: "heap_pmm ?h1 = heap_pmm (snd (kalloc 135168 (kernel_heap ?K)))" by (simp add: h1)
  obtain a h2 where a: "kalloc 10672 ?h1 = (a, h2)" "a \<noteq> 0" using prog_places(2) [OF pmm1 refl refl] by (cases "kalloc 10672 ?h1") simp
  have inv2: "heap_inv h2" using kalloc_block(3) [OF _ _ a] inv by (simp add: heap_inv_def)
  let ?t = "(zero_task Active)\<lparr>cpu := default_cpu_status, t_parent := 1, t_pages := 33, t_base := 0x6000\<rparr>"
  let ?v2 = "?v1\<lparr>pwd_of := (pwd_of ?v1)(3 := []), handles_of := (handles_of ?v1)(3 := [])\<rparr>"
  let ?k2 = "?K\<lparr>kernel_heap := h2, task_table := (task_table ?K)[3 := Task a ?t], kvfs := ?v2\<rparr>"
  have create: "task_create ?t [] [] ?k1 = (3, ?k2)" using a K(6) by (simp add: task_create_def)
  have t: "get_task 3 ?k2 = Some ?t" using K(7) by (simp add: get_task_def)
  let ?u = "?t\<lparr>cpu := default_cpu_status\<lparr>esp := image_esp 3, eip := of_nat TASK_RESERVED_SPACE\<rparr>, heap_base := 135168, heap_size := 0, ldt_addr := 0, ldt := [],
     t_name := ti_name ti, server_name := ti_server_name ti, t_stdin := ''/p'', t_stdout := ''/p'', t_stderr := ''/p''\<rparr>"
  let ?k3 = "?k2\<lparr>task_table := (task_table ?k2)[3 := Task a ?u], kvfs := ?v2\<lparr>pwd_of := (pwd_of ?v2)(3 := ''/'')\<rparr>\<rparr>"
  have init: "init_task ti 3 33 3 ?k2 = Some ?k3" using t K(7) ti by (simp add: init_task_def set_task_def zero_task_def)
  have u: "get_task 3 ?k3 = Some ?u" using K(7) by (simp add: get_task_def)
  have pmm2: "heap_pmm h2 = heap_pmm (snd (kalloc 10672 ?h1))" by (simp only: a snd_conv)
  obtain k4 where k4: "init_std_streams ti 3 ?k3 = Some k4"
  proof (rule prog_streams [OF u, of "prog_handle\<lparr>f2_free := True\<rparr>" ti])
    show "prog_mounted (kvfs ?k3)" using K(1,3) by (simp add: prog_mounted_def)
    show "fst (kalloc 1052 (kernel_heap ?k3)) \<noteq> 0" using prog_places(3) [OF pmm1 pmm2 refl] by simp
    show "fst (kalloc 12 h) \<noteq> 0" if "heap_pmm h = heap_pmm (snd (kalloc 1052 (kernel_heap ?k3)))" for h
      using prog_places(4) [OF pmm1 pmm2, of h] that by simp
  qed (use K inv2 ti in \<open>simp_all add: zero_task_def\<close>)
  have "general_execute ti ?K = map_option (Pair 3) (init_args ti 0x6000 k4)"
    using K(5) prog_vfs(1) [OF K(1)] K(2,3) h1 load create init k4 ti
    by (simp add: general_execute_def image_pages_3 map_option_case split: option.splits)
  then show ?thesis using ti by (simp add: init_args_def)
qed

lemma program_finds_arguments_witness:
  "\<exists>k' t m. general_execute prog_info prog_kernel = Some (3, k') \<and> get_task 3 k' = Some t \<and> m = heap_mem (kernel_heap k')
     \<and> t_parent t = 1 \<and> rd_le 4 m (t_base t + 0x1000) = 2 \<and> string_at m (t_base t + rd_le 4 m (t_base t + 0x1014)) ''x''"
proof -
  obtain k' where k': "general_execute prog_info prog_kernel = Some (3, k')" using prog_runs [of prog_info] by (auto simp: prog_start_def prog_info_def)
  from program_finds_arguments [OF k'] obtain t m where
    "get_task 3 k' = Some t" "m = heap_mem (kernel_heap k')" "t_parent t = 1" "rd_le 4 m (t_base t + 0x1000) = 2"
    and args: "\<forall>i<2. string_at m (t_base t + rd_le 4 m (t_base t + 0x1010 + 4 * i)) (ti_argv prog_info ! i)"
    by (auto simp: prog_info_def args_size_def prog_kernel_facts)
  moreover from args [rule_format, of 1] have "string_at m (t_base t + rd_le 4 m (t_base t + 0x1014)) ''x''"
    by (simp add: prog_info_def add.commute)
  ultimately show ?thesis using k' by blast
qed

subsection \<open>Replacing the program\<close>

lemma set_self_parts:
  assumes "set_task c u k = Some k'" and "get_task c k = Some t"
  shows "get_task c k' = Some u" and "kvfs k' = kvfs k" and "gdt k' = gdt k"
  using assms by (auto simp: set_task_def get_task_def arr_get_def split: task_slot.splits if_splits)

lemma load_program_gdt: "load_program path base n k = Some k' \<Longrightarrow> gdt k' = gdt k"
  by (auto simp: load_program_def bind_eq_Some_conv)

text \<open>
  \<open>execve\<close> keeps the page count of the old program: the task gets a new block of memory, and its
  registers and the start of its heap are those of the new program, but the field the segment limit is
  computed from still holds the size of the old one.  A larger program is cut off by its segments, a
  smaller one can reach beyond its memory.
\<close>

lemma execve_keeps_page_count:
  assumes "execve path argv envp k = Some (Inl r, k')" and "get_task (current_task k) k = Some t" and "length (gdt k) = 11"
  shows "\<exists>t' x md v. vfs_kget_metadata path no_metadata FILE_TYPE (kvfs k) = Some ((x, md), v)
    \<and> get_task (current_task k) k' = Some t' \<and> r = Run (current_task k) (cpu t')
    \<and> eip (cpu t') = 0x10000 \<and> esp (cpu t') = image_esp (fsize md) \<and> heap_base t' = image_pages (fsize md) * PAGE_SIZE mod 2 ^ 32
    \<and> t_pages t' = t_pages t"
proof -
  from assms(1) obtain x md v base h3 k1 k2 h5 where
    m: "vfs_kget_metadata path no_metadata FILE_TYPE (kvfs k) = Some ((x, md), v)" and
    l: "load_program path base (fsize md) (k\<lparr>kvfs := v, kernel_heap := h3\<rparr>) = Some k1" and
    s: "set_task (current_task k1) (t\<lparr>cpu := default_cpu_status\<lparr>esp := image_esp (fsize md), eip := of_nat TASK_RESERVED_SPACE\<rparr>,
              t_status := Active, t_base := base, heap_base := image_pages (fsize md) * PAGE_SIZE mod 2 ^ 32, heap_size := 0\<rparr>) k1 = Some k2" and
    sch: "task_scheduler (k2\<lparr>kernel_heap := h5, ts_enable := True\<rparr>) = Some (r, k')"
    using assms(2)
    by (auto simp: execve_def bind_eq_Some_conv Let_def case_prod_beta split: if_splits)
  let ?u = "t\<lparr>cpu := default_cpu_status\<lparr>esp := image_esp (fsize md), eip := of_nat TASK_RESERVED_SPACE\<rparr>,
              t_status := Active, t_base := base, heap_base := image_pages (fsize md) * PAGE_SIZE mod 2 ^ 32, heap_size := 0\<rparr>"
  have k1: "current_task k1 = current_task k" "get_task (current_task k) k1 = Some t" "gdt k1 = gdt k"
    using load_program_core [OF l, of "current_task k"] load_program_gdt [OF l] vfs_kget_metadata_pid [OF m] assms(2) by simp_all
  note k2 = set_self_parts [OF s [unfolded k1(1)] k1(2)]
  let ?k = "k2\<lparr>kernel_heap := h5, ts_enable := True\<rparr>"
  have "get_task (current_task ?k) ?k = Some ?u" "length (gdt ?k) = 11" using k1 k2 assms(3) by (simp_all add: get_task_def)
  from scheduler_current [OF this(1) _ this(2)] obtain g where
    "task_scheduler ?k = Some (Run (current_task ?k) (cpu ?u), ?k\<lparr>idle_cpu := False, gdt := g\<rparr>)" by auto
  then have "r = Run (current_task k) (cpu ?u)" "get_task (current_task k) k' = Some ?u"
    using sch k1 k2 by (auto simp: get_task_def)
  then show ?thesis using m by (intro exI [of _ ?u] exI [of _ x] exI [of _ md] exI [of _ v]) simp
qed

lemma collect_args_none: "rd_le 4 (heap_mem h) v = 0 \<Longrightarrow> collect_args n v base h = Some ([], h)"
  by (cases n) simp_all

text \<open>The kernel of the example with a null pointer at address \<open>0x100\<close> of the task.\<close>

definition exec_kernel :: "unit kernel" where
  "exec_kernel = set_mem (wr_le 4 (mem_of prog_kernel) 0x2100 0) prog_kernel"

lemma exec_runs: "\<exists>r k'. execve ''/p'' 0x100 0x100 exec_kernel = Some (Inl r, k')"
proof -
  let ?K = exec_kernel and ?t = "(zero_task Active)\<lparr>t_base := 0x2000, t_pages := 1\<rparr>"
  note K = prog_kernel_facts
  have inv: "heap_inv (kernel_heap ?K)" using K(4) by (simp add: exec_kernel_def heap_inv_def)
  have own: "kblock (kernel_heap ?K) 0x2000 4096"
    by (simp add: exec_kernel_def prog_kernel_def ipc_heap_def kblock_def kblock_at_def DIV_ROUNDUP_def rd_wr_le rd_wr_le_disjoint)
  let ?h1 = "snd (kalloc 1024 (kernel_heap ?K))"
  let ?h2 = "snd (kalloc 1024 ?h1)"
  have places: "fst (kalloc 1024 (kernel_heap ?K)) \<noteq> 0" "fst (kalloc 1024 ?h1) \<noteq> 0"
    by (simp_all add: exec_kernel_def kalloc_place prog_kernel_def ipc_heap_def DIV_ROUNDUP_def pmm_alloc_def inner_alloc_def
        inner_alloc_loop.simps bitmap_set_def)
  have e1: "kalloc 1024 (kernel_heap ?K) = (fst (kalloc 1024 (kernel_heap ?K)), ?h1)" and e2: "kalloc 1024 ?h1 = (fst (kalloc 1024 ?h1), ?h2)" by simp_all
  have inv1: "heap_inv ?h1" by (rule kalloc_block(3) [OF inv _ e1 places(1)]) simp
  have f1: "kblock ?h1 0x2000 4096" "\<forall>i<4096. heap_mem ?h1 (0x2000 + i) = mem_of ?K (0x2000 + i)"
    by (rule kalloc_frame(1,2) [OF inv _ e1 places(1) own], simp)+
  have f2: "\<forall>i<4096. heap_mem ?h2 (0x2000 + i) = heap_mem ?h1 (0x2000 + i)" by (rule kalloc_frame(2) [OF inv1 _ e2 places(2) f1(1)]) simp
  have "rd_le 4 (heap_mem ?h2) 0x2100 = rd_le 4 (mem_of ?K) 0x2100"
  proof (rule rd_le_cong)
    show "heap_mem ?h2 (0x2100 + i) = mem_of ?K (0x2100 + i)" if "i < 4" for i
      using f1(2) [rule_format, of "0x100 + i"] f2 [rule_format, of "0x100 + i"] that by simp
  qed
  then have null: "rd_le 4 (heap_mem ?h2) 0x2100 = 0" by (simp add: exec_kernel_def rd_wr_le)
  have addr: "user_addr ?t 0x100 = 0x2100" by (simp add: user_addr_def)
  have md: "vfs_kget_metadata ''/p'' no_metadata FILE_TYPE (kvfs ?K) = Some ((0, no_metadata\<lparr>fsize := 3\<rparr>), kvfs ?K)"
    using prog_vfs(1) [OF K(1)] K(2) by (simp add: exec_kernel_def)
  have self: "self ?K = Some ?t" using K(5) by (simp add: exec_kernel_def)
  obtain base h3 where b: "kalloc 135168 ?h2 = (base, h3)" by fastforce
  let ?k3 = "?K\<lparr>kvfs := kvfs ?K, kernel_heap := h3\<rparr>"
  from prog_load [of ?k3 base] K(1,2) obtain k1 where k1: "load_program ''/p'' base 3 ?k3 = Some k1" by (simp add: exec_kernel_def)
  have c1: "task_table k1 = task_table prog_kernel" "current_task k1 = 1" "gdt k1 = gdt prog_kernel"
    using load_program_core [OF k1] load_program_gdt [OF k1] K(3) by (simp_all add: exec_kernel_def)
  let ?u = "?t\<lparr>cpu := default_cpu_status\<lparr>esp := image_esp 3, eip := of_nat TASK_RESERVED_SPACE\<rparr>,
              t_status := Active, t_base := base, heap_base := 135168, heap_size := 0\<rparr>"
  let ?k2 = "k1\<lparr>task_table := (task_table k1)[1 := Task 0xd000 ?u]\<rparr>"
  have set: "set_task 1 ?u k1 = Some ?k2" using K(7,9) c1(1) by (simp add: set_task_def)
  have sch: "\<exists>r k'. (do { (r, k) \<leftarrow> task_scheduler (?k2\<lparr>kernel_heap := h, ts_enable := True\<rparr>); Some (Inl r :: sched_outcome + int, k) }) = Some (Inl r, k')" for h
    using scheduler_current [of "?k2\<lparr>kernel_heap := h, ts_enable := True\<rparr>" ?u] c1 K(7,8) by (auto simp: get_task_def)
  have c: "collect_args 256 0x2100 0x2000 ?h2 = Some ([], ?h2)" by (rule collect_args_none [OF null])
  from sch show ?thesis
    using self md addr c b k1 set c1(2) image_pages_3 by (simp add: execve_def case_prod_beta)
qed

lemma execve_keeps_page_count_witness:
  "\<exists>r k' t'. execve ''/p'' 0x100 0x100 exec_kernel = Some (Inl r, k') \<and> get_task 1 k' = Some t' \<and> heap_base t' = 33 * 4096 \<and> t_pages t' = 1"
proof -
  obtain r k' where run: "execve ''/p'' 0x100 0x100 exec_kernel = Some (Inl r, k')" using exec_runs by blast
  have "vfs_kget_metadata ''/p'' no_metadata FILE_TYPE (kvfs exec_kernel) = Some ((0, no_metadata\<lparr>fsize := 3\<rparr>), kvfs exec_kernel)"
    using prog_vfs(1) [OF prog_kernel_facts(1)] prog_kernel_facts(2) by (simp add: exec_kernel_def)
  then show ?thesis
    using execve_keeps_page_count [OF run, of "(zero_task Active)\<lparr>t_base := 0x2000, t_pages := 1\<rparr>"] prog_kernel_facts(3,5,8) image_pages_3 run
    by (fastforce simp: exec_kernel_def)
qed

subsection \<open>Arguments and environment\<close>

lemma place_args_frame:
  "place_args bs base slot limit h = Some h' \<Longrightarrow> a < slot \<Longrightarrow> a < base + limit \<Longrightarrow> heap_mem h' a = heap_mem h a"
proof (induction bs arbitrary: slot limit h)
  case (Cons b bs)
  show ?case
  proof (cases "b = 0")
    case False
    with Cons.prems(1) obtain s where s: "place_args bs base (slot + 4) (limit + length s + 1)
        (kfree b (h\<lparr>heap_mem := wr_le 4 (put_bytes (s @ [0]) (base + limit) (heap_mem h)) slot limit\<rparr>)) = Some h'"
      by (auto simp: bind_eq_Some_conv)
    show ?thesis using Cons.IH [OF s] Cons.prems(2,3) by (simp add: kfree_def put_bytes_apply)
  qed (use Cons.prems in auto)
qed auto

lemma place_args_end:
  "place_args bs base slot limit h = Some h' \<Longrightarrow> 0 \<notin> set bs \<Longrightarrow> rd_le 4 (heap_mem h') (slot + 4 * length bs) = 0"
proof (induction bs arbitrary: slot limit h)
  case Nil
  then show ?case by (auto simp: rd_wr_le)
next
  case (Cons b bs)
  then obtain s where s: "place_args bs base (slot + 4) (limit + length s + 1)
      (kfree b (h\<lparr>heap_mem := wr_le 4 (put_bytes (s @ [0]) (base + limit) (heap_mem h)) slot limit\<rparr>)) = Some h'"
    by (auto simp: bind_eq_Some_conv)
  show ?case using Cons.IH [OF s] Cons.prems(2) by (simp add: algebra_simps)
qed

text \<open>
  The environment of a program started with \<open>execve\<close> overwrites its arguments: there is room for four
  pointers between the two arrays, so with four arguments the null pointer that ends them becomes the
  pointer to the first string of the environment.
\<close>

lemma environment_overwrites_arguments:
  assumes "place_args as base (base + 0x1010) 0x4000 h = Some h1" and "length as = 4" and "0 \<notin> set as"
    and "place_args (e # es) base (base + 0x1020) 0x8000 h1 = Some h2" and "e \<noteq> 0"
  shows "rd_le 4 (heap_mem h1) (base + 0x1010 + 4 * length as) = 0" and "rd_le 4 (heap_mem h2) (base + 0x1010 + 4 * length as) = 0x8000"
proof -
  show "rd_le 4 (heap_mem h1) (base + 0x1010 + 4 * length as) = 0" by (rule place_args_end [OF assms(1,3)])
  from assms(4,5) obtain s where s: "place_args es base (base + 0x1020 + 4) (0x8000 + length s + 1)
      (kfree e (h1\<lparr>heap_mem := wr_le 4 (put_bytes (s @ [0]) (base + 0x8000) (heap_mem h1)) (base + 0x1020) 0x8000\<rparr>)) = Some h2"
    by (auto simp: bind_eq_Some_conv)
  have "rd_le 4 (heap_mem h2) (base + 0x1020)
      = rd_le 4 (wr_le 4 (put_bytes (s @ [0]) (base + 0x8000) (heap_mem h1)) (base + 0x1020) 0x8000) (base + 0x1020)"
    using place_args_frame [OF s] by (intro rd_le_cong) (simp add: kfree_def)
  then have "rd_le 4 (heap_mem h2) (base + 0x1020) = 0x8000" by (simp add: rd_wr_le)
  moreover have "base + 0x1010 + 4 * length as = base + 0x1020" using assms(2) by simp
  ultimately show "rd_le 4 (heap_mem h2) (base + 0x1010 + 4 * length as) = 0x8000" by (simp only:)
qed

end
