(* ===== verification/Vdev.thy ===== *)
theory Vdev
  imports Syscalls
begin

text \<open>
  Virtual devices, \<open>kernel/src/drivers/vdev/vdev.c\<close>: a task registers a device and serves it.  It names
  four addresses of its memory, a byte and a flag for each direction; it declares itself ready for one
  access, goes to sleep (\<open>enter_vdevwait_status\<close>) and is woken by the access of another task.

  The state is that of the kernel and the table of virtual devices with its heap address;
  \<open>vdev_registered\<close> are the names and numbers handed to \<open>kernel_add_device\<close>, each with the size zero
  and \<open>vdev_io_wrapper\<close> as its function.  \<open>None\<close> is an access outside the table, through a slot
  without a task, or a function that ends without a value.
\<close>

record vdev_t =
  vd_pid :: nat
  status_in :: int
  payload_in_addr :: nat
  payload_in_flag :: nat
  status_out :: int
  payload_out_addr :: nat
  payload_out_flag :: nat

record vdev_state =
  vdevs_addr :: nat
  vdevs :: "vdev_t list"
  vdev_registered :: "(string \<times> nat) list"

abbreviation (input) READY :: int where "READY \<equiv> 0"
abbreviation (input) NOT_READY :: int where "NOT_READY \<equiv> -1"





text \<open>The task that serves the device is woken with the number of the device in \<open>eax\<close>.\<close>

definition wake_manager :: "nat \<Rightarrow> vdev_t \<Rightarrow> 'w kernel \<Rightarrow> (task_t \<times> 'w kernel) option" where
  "wake_manager vdev d k = do {
     t \<leftarrow> get_task (vd_pid d) k;
     let t = (if t_status t = VdevWait then t\<lparr>t_status := Active, cpu := (cpu t)\<lparr>eax := of_nat vdev\<rparr>\<rparr> else t);
     k \<leftarrow> set_task (vd_pid d) t k;
     Some (t, k) }"

definition vdev_io_wrapper :: "nat \<Rightarrow> u64 \<Rightarrow> int \<Rightarrow> u8 \<Rightarrow> 'w kernel \<Rightarrow> vdev_state \<Rightarrow> (int \<times> 'w kernel \<times> vdev_state) option" where
  "vdev_io_wrapper vdev unused type payload k s = do {
     d \<leftarrow> arr_get (vdevs s) vdev;
     if type = DF_READ then
       if status_out d \<noteq> READY then Some (IO_NOT_READY, k, s)
       else do {
         (t, k) \<leftarrow> wake_manager vdev d k;
         let m = wr_le 4 (heap_mem (kernel_heap k)) (user_addr t (int (payload_out_flag d))) 1;
         Some (uint (m (user_addr t (int (payload_out_addr d)))), k\<lparr>kernel_heap := (kernel_heap k)\<lparr>heap_mem := m\<rparr>\<rparr>,
           s\<lparr>vdevs := (vdevs s)[vdev := d\<lparr>status_out := NOT_READY\<rparr>]\<rparr>) }
     else if type = DF_WRITE then
       if status_in d \<noteq> READY then Some (IO_NOT_READY, k, s)
       else do {
         (t, k) \<leftarrow> wake_manager vdev d k;
         let m = wr_le 4 (heap_mem (kernel_heap k)) (user_addr t (int (payload_in_flag d))) 1;
         let m = m(user_addr t (int (payload_in_addr d)) := payload);
         Some (0, k\<lparr>kernel_heap := (kernel_heap k)\<lparr>heap_mem := m\<rparr>\<rparr>,
           s\<lparr>vdevs := (vdevs s)[vdev := d\<lparr>status_in := NOT_READY\<rparr>]\<rparr>) }
     else None }"



subsection \<open>The table of devices\<close>










subsection \<open>An access reaches the task that serves the device\<close>

lemma wake_manager_eq:
  assumes "get_task (vd_pid d) k = Some t"
  obtains t' k' where "wake_manager v d k = Some (t', k')" "get_task (vd_pid d) k' = Some t'" "t_base t' = t_base t"
    "kernel_heap k' = kernel_heap k" "kvfs k' = kvfs k"
    "t_status t = VdevWait \<Longrightarrow> t_status t' = Active \<and> eax (cpu t') = of_nat v" "t_status t \<noteq> VdevWait \<Longrightarrow> t' = t"
proof -
  let ?t = "if t_status t = VdevWait then t\<lparr>t_status := Active, cpu := (cpu t)\<lparr>eax := of_nat v\<rparr>\<rparr> else t"
  obtain a where a: "vd_pid d < length (task_table k)" "task_table k ! vd_pid d = Task a t" using get_taskD [OF assms] by blast
  show thesis
    by (rule that [of ?t "k\<lparr>task_table := (task_table k)[vd_pid d := Task a ?t]\<rparr>"])
      (use a in \<open>simp_all add: wake_manager_def get_task_def set_task_def Let_def\<close>)
qed

text \<open>
  A write to a virtual device reaches the task behind it: when that task has declared itself ready,
  the byte and the flag stand in its memory where it asked for them, and if it was asleep it is active
  again with the number of the device in \<open>eax\<close>; a second write finds the device not ready, so the byte
  is not overwritten before the task has taken it.
\<close>

lemma vdev_write_reaches_manager:
  assumes "vdev < length (vdevs s)" and "vdevs s ! vdev = d" and "status_in d = READY" and "get_task (vd_pid d) k = Some t"
    and "t_base t + payload_in_addr d < 2 ^ 32" and "t_base t + payload_in_flag d + 4 \<le> 2 ^ 32"
    and "payload_in_addr d < payload_in_flag d \<or> payload_in_flag d + 4 \<le> payload_in_addr d"
  shows "\<exists>k' s' t'. vdev_io_wrapper vdev loc DF_WRITE b k s = Some (0, k', s') \<and> get_task (vd_pid d) k' = Some t'
    \<and> heap_mem (kernel_heap k') (t_base t + payload_in_addr d) = b \<and> rd_le 4 (heap_mem (kernel_heap k')) (t_base t + payload_in_flag d) = 1
    \<and> (t_status t = VdevWait \<longrightarrow> t_status t' = Active \<and> eax (cpu t') = of_nat vdev)
    \<and> (\<forall>loc' b'. vdev_io_wrapper vdev loc' DF_WRITE b' k' s' = Some (IO_NOT_READY, k', s'))"
proof -
  from wake_manager_eq [OF assms(4), of vdev] obtain t' k1 where
    w: "wake_manager vdev d k = Some (t', k1)" "get_task (vd_pid d) k1 = Some t'" "t_base t' = t_base t" "kernel_heap k1 = kernel_heap k"
    "t_status t = VdevWait \<Longrightarrow> t_status t' = Active \<and> eax (cpu t') = of_nat vdev" by metis
  let ?m = "(wr_le 4 (heap_mem (kernel_heap k)) (t_base t + payload_in_flag d) 1)(t_base t + payload_in_addr d := b)"
  let ?k = "k1\<lparr>kernel_heap := (kernel_heap k)\<lparr>heap_mem := ?m\<rparr>\<rparr>" and ?s = "s\<lparr>vdevs := (vdevs s)[vdev := d\<lparr>status_in := NOT_READY\<rparr>]\<rparr>"
  have addr: "user_addr t' (int (payload_in_addr d)) = t_base t + payload_in_addr d" "user_addr t' (int (payload_in_flag d)) = t_base t + payload_in_flag d"
    using user_addr_in [of t' "payload_in_addr d"] user_addr_in [of t' "payload_in_flag d"] w(3) assms(5,6) by simp_all
  have "vdev_io_wrapper vdev loc DF_WRITE b k s = Some (0, ?k, ?s)"
    using assms(1-3) w addr by (simp add: vdev_io_wrapper_def)
  moreover have "rd_le 4 ?m (t_base t + payload_in_flag d) = rd_le 4 (wr_le 4 (heap_mem (kernel_heap k)) (t_base t + payload_in_flag d) 1) (t_base t + payload_in_flag d)"
    using assms(7) by (intro rd_le_cong) auto
  then have "rd_le 4 ?m (t_base t + payload_in_flag d) = 1" by (simp add: rd_wr_le)
  moreover have "get_task (vd_pid d) ?k = Some t'" using w(2) by (simp add: get_task_def)
  moreover have "vdev_io_wrapper vdev loc' DF_WRITE b' ?k ?s = Some (IO_NOT_READY, ?k, ?s)" for loc' b'
    using assms(1) by (simp add: vdev_io_wrapper_def)
  ultimately show ?thesis using w(5) by (intro exI [of _ ?k] exI [of _ ?s] exI [of _ t']) simp
qed

definition demo_vdev :: vdev_state where
  "demo_vdev = \<lparr>vdevs_addr = 0x6000, vdevs = [\<lparr>vd_pid = 1, status_in = READY, payload_in_addr = 0x10, payload_in_flag = 0x20,
     status_out = NOT_READY, payload_out_addr = 0x30, payload_out_flag = 0x40\<rparr>], vdev_registered = [(''vdev0'', 0)]\<rparr>"

lemma vdev_write_reaches_manager_witness:
  "\<exists>k' s'. vdev_io_wrapper 0 0 DF_WRITE 65 ipc_kernel demo_vdev = Some (0, k', s') \<and> heap_mem (kernel_heap k') 0x2010 = 65
     \<and> vdev_io_wrapper 0 0 DF_WRITE 66 k' s' = Some (IO_NOT_READY, k', s')"
  using vdev_write_reaches_manager [of 0 demo_vdev "vdevs demo_vdev ! 0" ipc_kernel "(zero_task Active)\<lparr>t_base := 0x2000, t_pages := 1\<rparr>" 0 65]
    ipc_kernel_facts(1,3) by (auto simp: demo_vdev_def)

text \<open>A device outlives its task: an access after that task has ended follows \<open>EMPTY_PID\<close> as a pointer.\<close>

lemma vdev_of_ended_task_faults:
  assumes "vdev < length (vdevs s)" and "status_in (vdevs s ! vdev) = READY" and "get_task (vd_pid (vdevs s ! vdev)) k = None"
  shows "vdev_io_wrapper vdev loc DF_WRITE b k s = None"
  using assms by (simp add: vdev_io_wrapper_def wake_manager_def)

end
