(* ===== verification/Shell.thy ===== *)
theory Shell
  imports Prelude
begin

text \<open>
  The command line of the shell, \<open>shell/shell.c\<close>: \<open>get_argc\<close> counts the arguments of a line,
  \<open>get_argv\<close> cuts the line into strings in place, notes the redirections and whether to wait for the
  program.

  The line is the contents of the buffer \<open>input\<close> up to its terminator.  \<open>get_argv\<close> overwrites bytes of
  it with zeros and stores pointers into it; the model works on the rest of the line from \<open>index\<close> on and
  returns what becomes of that rest, and pointers as offsets.  \<open>os_calls\<close> are the calls made to
  the file system, whose results are ignored (a \<open>Look_Up\<close> asks for a file and, when there is none,
  for a device).  \<open>None\<close> is a write outside an array: a file name of 128
  characters or more, a 129th argument.
\<close>

datatype os_call = Remove string | Create string | Look_Up string

record shell =
  prog_stdin :: string
  prog_stdout :: string
  prog_stderr :: string
  no_block :: bool
  os_calls :: "os_call list"

abbreviation (input) skip_spaces :: "string \<Rightarrow> string" where "skip_spaces \<equiv> dropWhile (\<lambda>c. c = CHR '' '')"
abbreviation (input) skip_word :: "string \<Rightarrow> string" where "skip_word \<equiv> dropWhile (\<lambda>c. c \<noteq> CHR '' '')"
abbreviation (input) word_of :: "string \<Rightarrow> string" where "word_of \<equiv> takeWhile (\<lambda>c. c \<noteq> CHR '' '')"

lemma length_skip [termination_simp]: "length (dropWhile P (dropWhile Q xs)) < Suc (length xs)"
  by (meson le_imp_less_Suc le_trans length_dropWhile_le)

lemma length_skip2 [termination_simp]: "length (dropWhile P (dropWhile Q (tl xs))) < Suc (length xs)"
  using length_skip [of P Q "tl xs"] by (simp add: less_Suc_eq_le)

lemma length_skip1 [termination_simp]: "length (dropWhile P xs) < Suc (length xs)"
  by (simp add: le_imp_less_Suc length_dropWhile_le)

fun get_argc :: "string \<Rightarrow> nat" where
  "get_argc [] = 0"
| "get_argc (c # cs) =
     (if c = CHR '' '' then get_argc cs
      else if take 2 (c # cs) = ''2>'' \<or> take 2 (c # cs) = ''&>'' then get_argc (skip_word (skip_spaces (tl cs)))
      else if c = CHR ''>'' \<or> c = CHR ''<'' then get_argc (skip_word (skip_spaces cs))
      else if c = CHR ''&'' then get_argc cs
      else Suc (get_argc (skip_word cs)))"

text \<open>
  A redirection: \<open>n\<close> characters of operator, then spaces and the file name, all overwritten.
\<close>

definition redirect :: "nat \<Rightarrow> string \<Rightarrow> string \<times> nat \<times> string" where
  "redirect n cs = (let name = word_of (skip_spaces (drop n cs)); rest = skip_word (skip_spaces (drop n cs))
     in (name, length cs - length rest, rest))"

text \<open>
  What the shell does with the name: it becomes the path of the stream; output files are created anew.
\<close>

datatype stream = Out | In | Err | Both

primrec set_stream :: "stream \<Rightarrow> string \<Rightarrow> shell \<Rightarrow> shell" where
  "set_stream Out name sh = sh\<lparr>prog_stdout := name, os_calls := os_calls sh @ [Remove name, Create name]\<rparr>"
| "set_stream In name sh = sh\<lparr>prog_stdin := name, os_calls := os_calls sh @ [Look_Up name]\<rparr>"
| "set_stream Err name sh = sh\<lparr>prog_stderr := name, os_calls := os_calls sh @ [Remove name, Create name]\<rparr>"
| "set_stream Both name sh = sh\<lparr>prog_stdout := name, prog_stderr := name,
     os_calls := os_calls sh @ [Remove name, Remove name, Create name, Create name]\<rparr>"

text \<open>
  The four operators, with the number of their characters.
\<close>

definition operator :: "string \<Rightarrow> (nat \<times> stream) option" where
  "operator s =
     (if take 1 s = ''>'' then Some (1, Out)
      else if take 1 s = ''<'' then Some (1, In)
      else if take 2 s = ''2>'' then Some (2, Err)
      else if take 2 s = ''&>'' then Some (2, Both)
      else None)"

lemma length_redirect:
  "redirect n (c # cs) = (name, len, rest) \<Longrightarrow> operator (c # cs) = Some (n, f) \<Longrightarrow>
   length rest < length (c # cs) \<and> len + length rest = length (c # cs)"
  using length_skip [of "\<lambda>c. c \<noteq> CHR '' ''" "\<lambda>c. c = CHR '' ''" "drop n (c # cs)"]
  by (auto simp: redirect_def operator_def Let_def split: if_splits)

lemma length_redirect_rest [termination_simp]:
  "(name, len, rest) = redirect n (c # cs) \<Longrightarrow> operator (c # cs) = Some (n, f) \<Longrightarrow> length rest < Suc (length cs)"
  using length_redirect [of n c cs name len rest f] by simp

lemma length_after_word [termination_simp]: "skip_word cs = c # rest \<Longrightarrow> length rest < Suc (length cs)"
  using length_dropWhile_le [of "\<lambda>c. c \<noteq> CHR '' ''" cs] by simp

fun argv_from :: "nat \<Rightarrow> nat \<Rightarrow> string \<Rightarrow> shell \<Rightarrow> (string \<times> nat list \<times> shell) option" where
  "argv_from arg index [] sh = Some ([], [], sh)"
| "argv_from arg index (c # cs) sh =
     (if c = CHR '' '' then map_option (\<lambda>(out, ps, sh). (NUL # out, ps, sh)) (argv_from arg (Suc index) cs sh)
      else
        (case operator (c # cs) of
           Some (n, f) \<Rightarrow>
             (case redirect n (c # cs) of
                (name, len, rest) \<Rightarrow>
                  if 128 \<le> length name then None
                  else map_option (\<lambda>(out, ps, sh). (replicate len NUL @ out, ps, sh))
                         (argv_from arg (index + len) rest (set_stream f name sh)))
         | None \<Rightarrow>
             (if c = CHR ''&''
              then map_option (\<lambda>(out, ps, sh). (NUL # out, ps, sh)) (argv_from arg (Suc index) cs (sh\<lparr>no_block := True\<rparr>))
              else if 128 \<le> arg then None
              else
                (case skip_word cs of
                   [] \<Rightarrow> Some (c # word_of cs, [index], sh)
                 | _ # rest \<Rightarrow>
                     map_option (\<lambda>(out, ps, sh). (c # word_of cs @ NUL # out, index # ps, sh))
                       (argv_from (Suc arg) (index + length (word_of cs) + 2) rest sh)))))"

text \<open>
  \<open>get_argv\<close> starts with the shell's own streams, which the calls \<open>OS_what_stdin\<close>, \<open>OS_what_stdout\<close>
  and \<open>OS_what_stderr\<close> report.
\<close>

definition get_argv :: "string \<times> string \<times> string \<Rightarrow> string \<Rightarrow> shell \<Rightarrow> (string \<times> nat list \<times> shell) option" where
  "get_argv std line sh = argv_from 0 0 line
     (sh\<lparr>no_block := False, prog_stdin := fst std, prog_stdout := fst (snd std), prog_stderr := snd (snd std)\<rparr>)"

text \<open>
  A reference reading of a command line, as the words and operators it consists of.
\<close>

datatype token = Word string | Redirect stream string | Background

fun tokens :: "string \<Rightarrow> token list" where
  "tokens [] = []"
| "tokens (c # cs) =
     (if c = CHR '' '' then tokens cs
      else
        (case operator (c # cs) of
           Some (n, f) \<Rightarrow>
             (case redirect n (c # cs) of (name, len, rest) \<Rightarrow> Redirect f name # tokens rest)
         | None \<Rightarrow>
             if c = CHR ''&'' then Background # tokens cs
             else Word (c # word_of cs) # tokens (skip_word cs)))"

fun words :: "token list \<Rightarrow> string list" where
  "words [] = []"
| "words (Word w # ts) = w # words ts"
| "words (t # ts) = words ts"

primrec obey :: "token \<Rightarrow> shell \<Rightarrow> shell" where
  "obey (Word w) = id"
| "obey (Redirect f name) = set_stream f name"
| "obey Background = no_block_update (\<lambda>_. True)"

fun short_name :: "token \<Rightarrow> bool" where
  "short_name (Redirect f name) = (length name < 128)"
| "short_name t = True"

subsection \<open>The kinds of character that begin a piece of the line\<close>

lemmas line_rules = get_argc.simps(2) argv_from.simps(2) tokens.simps(2)

declare line_rules [simp del]

lemma piece_cases [consumes 0, case_names empty blank operator background word]:
  fixes s :: string
  obtains "s = []"
  | cs where "s = CHR '' '' # cs"
  | c cs n f name len rest where "s = c # cs" "c \<noteq> CHR '' ''" "operator (c # cs) = Some (n, f)"
      "redirect n (c # cs) = (name, len, rest)"
  | cs where "s = CHR ''&'' # cs" "operator s = None"
  | c cs where "s = c # cs" "c \<noteq> CHR '' ''" "c \<noteq> CHR ''&''" "operator (c # cs) = None"
proof (cases s)
  case (Cons c cs)
  show ?thesis
  proof (cases "operator (c # cs)")
    case None
    with Cons that(2,4,5) show ?thesis by metis
  next
    case (Some nf)
    obtain n f where "nf = (n, f)" by (cases nf)
    moreover obtain name len rest where "redirect n (c # cs) = (name, len, rest)" by (metis prod_cases3)
    ultimately show ?thesis using Cons Some that(2,3) by metis
  qed
qed (use that(1) in simp)

lemma operator_None_iff:
  "operator s = None \<longleftrightarrow> take 1 s \<noteq> ''>'' \<and> take 1 s \<noteq> ''<'' \<and> take 2 s \<noteq> ''2>'' \<and> take 2 s \<noteq> ''&>''"
  by (simp add: operator_def)

lemma get_argc_blank [simp]: "get_argc (CHR '' '' # cs) = get_argc cs"
  by (simp add: get_argc.simps(2))

lemma get_argc_operator:
  "operator (c # cs) = Some (n, f) \<Longrightarrow> redirect n (c # cs) = (name, len, rest) \<Longrightarrow> c \<noteq> CHR '' '' \<Longrightarrow>
   get_argc (c # cs) = get_argc rest"
  by (auto simp: operator_def redirect_def Let_def drop_Suc get_argc.simps(2) split: if_splits)

lemma get_argc_background: "operator (CHR ''&'' # cs) = None \<Longrightarrow> get_argc (CHR ''&'' # cs) = get_argc cs"
  by (simp add: operator_None_iff get_argc.simps(2))

lemma get_argc_word:
  "operator (c # cs) = None \<Longrightarrow> c \<noteq> CHR '' '' \<Longrightarrow> c \<noteq> CHR ''&'' \<Longrightarrow> get_argc (c # cs) = Suc (get_argc (skip_word cs))"
  by (auto simp: operator_None_iff get_argc.simps(2))

lemma tokens_blank [simp]: "tokens (CHR '' '' # cs) = tokens cs"
  by (simp add: tokens.simps(2))

lemma tokens_operator:
  "operator (c # cs) = Some (n, f) \<Longrightarrow> redirect n (c # cs) = (name, len, rest) \<Longrightarrow> c \<noteq> CHR '' '' \<Longrightarrow>
   tokens (c # cs) = Redirect f name # tokens rest"
  by (simp add: tokens.simps(2))

lemma tokens_background: "operator (CHR ''&'' # cs) = None \<Longrightarrow> tokens (CHR ''&'' # cs) = Background # tokens cs"
  by (simp add: tokens.simps(2))

lemma tokens_word:
  "operator (c # cs) = None \<Longrightarrow> c \<noteq> CHR '' '' \<Longrightarrow> c \<noteq> CHR ''&'' \<Longrightarrow>
   tokens (c # cs) = Word (c # word_of cs) # tokens (skip_word cs)"
  by (simp add: tokens.simps(2))

lemmas argc_pieces = get_argc_operator get_argc_background get_argc_word
lemmas token_pieces = tokens_operator tokens_background tokens_word

lemma skip_word_le: "length (skip_word cs) \<le> length cs"
  by (rule length_dropWhile_le)

lemma skip_word_blank: "skip_word cs = [] \<or> (\<exists>rest. skip_word cs = CHR '' '' # rest)"
  using hd_dropWhile [of "\<lambda>c. c \<noteq> CHR '' ''" cs] by (cases "skip_word cs") auto

subsection \<open>Counting\<close>

lemma get_argc_tokens: "get_argc s = length (words (tokens s))"
proof (induction s rule: length_induct)
  case (1 s)
  show ?case
  proof (cases s rule: piece_cases)
    case (operator c cs n f name len rest)
    with 1 length_redirect [OF operator(4,3)] show ?thesis by (simp add: argc_pieces token_pieces)
  next
    case (word c cs)
    have "length (skip_word cs) < length s" using skip_word_le [of cs] word(1) by simp
    with 1 word show ?thesis by (simp add: argc_pieces token_pieces)
  qed (use 1 in \<open>simp_all add: argc_pieces token_pieces\<close>)
qed

lemma words_bound: "2 * length (words (tokens s)) \<le> length s + (if take 1 s = '' '' then 0 else 1)"
proof (induction s rule: length_induct)
  case (1 s)
  show ?case
  proof (cases s rule: piece_cases)
    case (blank cs)
    with 1 [rule_format, of cs] show ?thesis by (simp split: if_splits)
  next
    case (operator c cs n f name len rest)
    with 1 [rule_format, of rest] length_redirect [OF operator(4,3)] show ?thesis
      by (simp add: token_pieces split: if_splits)
  next
    case (background cs)
    with 1 [rule_format, of cs] show ?thesis by (simp add: token_pieces split: if_splits)
  next
    case (word c cs)
    have less: "length (skip_word cs) < length s" using skip_word_le [of cs] word(1) by simp
    have w: "length (words (tokens s)) = Suc (length (words (tokens (skip_word cs))))"
      using word by (simp add: token_pieces)
    have "2 * length (words (tokens (skip_word cs))) \<le> length (skip_word cs)"
      using skip_word_blank [of cs] 1 [rule_format, OF less] by (auto simp del: dropWhile_eq_Nil_conv)
    with w less word(1,2) show ?thesis by simp
  qed simp
qed

subsection \<open>The arguments\<close>

definition text_at :: "string \<Rightarrow> nat \<Rightarrow> string" where
  "text_at s p = takeWhile (\<lambda>c. c \<noteq> NUL) (drop p s)"

definition cut_ok :: "nat \<Rightarrow> string \<Rightarrow> shell \<Rightarrow> (string \<times> nat list \<times> shell) option \<Rightarrow> bool" where
  "cut_ok index s sh r =
     (case r of None \<Rightarrow> False
      | Some (out, ps, sh') \<Rightarrow>
          sh' = fold obey (tokens s) sh \<and> length out = length s \<and> list_all (\<lambda>p. index \<le> p) ps \<and>
          map (\<lambda>p. text_at out (p - index)) ps = words (tokens s))"

lemma strings_shift:
  "list_all (\<lambda>p. index + length pre \<le> p) ps \<Longrightarrow>
   map (\<lambda>p. text_at (pre @ out) (p - index)) ps = map (\<lambda>p. text_at out (p - (index + length pre))) ps"
  by (auto simp: list_all_iff text_at_def)

lemma indices_shift: "list_all (\<lambda>p. index + n \<le> p) ps \<Longrightarrow> list_all (\<lambda>p. index \<le> p) (ps :: nat list)"
  by (auto simp: list_all_iff)

lemma cut_ok_shift:
  assumes "cut_ok (index + length pre) rest sh' r" "length s = length pre + length rest"
    "fold obey (tokens s) sh = fold obey (tokens rest) sh'" "words (tokens s) = words (tokens rest)"
  shows "cut_ok index s sh (map_option (\<lambda>(out, ps, sh). (pre @ out, ps, sh)) r)"
proof -
  obtain out ps where r: "r = Some (out, ps, fold obey (tokens rest) sh')" "length out = length rest"
      and ps: "list_all (\<lambda>p. index + length pre \<le> p) ps"
      and strs: "map (\<lambda>p. text_at out (p - (index + length pre))) ps = words (tokens rest)"
    using assms(1) by (auto simp: cut_ok_def split: option.splits)
  show ?thesis
    using assms r indices_shift [OF ps] strings_shift [OF ps, of out] strs by (simp add: cut_ok_def)
qed

lemma cut_ok_word:
  assumes "cut_ok (index + length (w @ [NUL])) rest sh r" "length s = length w + Suc (length rest)" "NUL \<notin> set w"
    "tokens s = Word w # tokens rest"
  shows "cut_ok index s sh (map_option (\<lambda>(out, ps, sh). (w @ NUL # out, index # ps, sh)) r)"
proof -
  obtain out ps where r: "r = Some (out, ps, fold obey (tokens rest) sh)" "length out = length rest"
      and ps: "list_all (\<lambda>p. index + length (w @ [NUL]) \<le> p) ps"
      and strs: "map (\<lambda>p. text_at out (p - (index + length (w @ [NUL])))) ps = words (tokens rest)"
    using assms(1) by (auto simp: cut_ok_def split: option.splits)
  have "map (\<lambda>p. text_at (w @ NUL # out) (p - index)) ps = words (tokens rest)"
    using trans [OF strings_shift [OF ps, of out] strs] unfolding append_assoc append_Cons append_Nil .
  moreover have "text_at (w @ NUL # out) 0 = w"
    using assms(3) by (auto simp: takeWhile_append text_at_def)
  ultimately show ?thesis
    using assms r indices_shift [OF ps] by (simp add: cut_ok_def)
qed

lemma argv_blank [simp]:
  "argv_from arg index (CHR '' '' # cs) sh = map_option (\<lambda>(out, ps, sh). ([NUL] @ out, ps, sh)) (argv_from arg (index + length [NUL]) cs sh)"
  by (simp add: argv_from.simps(2))

lemma argv_operator:
  "operator (c # cs) = Some (n, f) \<Longrightarrow> redirect n (c # cs) = (name, len, rest) \<Longrightarrow> c \<noteq> CHR '' '' \<Longrightarrow> length name < 128 \<Longrightarrow>
   argv_from arg index (c # cs) sh =
     map_option (\<lambda>(out, ps, sh). (replicate len NUL @ out, ps, sh))
       (argv_from arg (index + length (replicate len NUL)) rest (set_stream f name sh))"
  by (simp add: argv_from.simps(2))

lemma argv_background:
  "operator (CHR ''&'' # cs) = None \<Longrightarrow>
   argv_from arg index (CHR ''&'' # cs) sh =
     map_option (\<lambda>(out, ps, sh). ([NUL] @ out, ps, sh)) (argv_from arg (index + length [NUL]) cs (sh\<lparr>no_block := True\<rparr>))"
  by (simp add: argv_from.simps(2))

lemma argv_word:
  "operator (c # cs) = None \<Longrightarrow> c \<noteq> CHR '' '' \<Longrightarrow> c \<noteq> CHR ''&'' \<Longrightarrow> arg < 128 \<Longrightarrow> skip_word cs = d # rest \<Longrightarrow>
   argv_from arg index (c # cs) sh =
     map_option (\<lambda>(out, ps, sh). ((c # word_of cs) @ NUL # out, index # ps, sh))
       (argv_from (Suc arg) (index + length ((c # word_of cs) @ [NUL])) rest sh)"
  by (simp add: argv_from.simps(2) add.commute)

lemma argv_last_word:
  "operator (c # cs) = None \<Longrightarrow> c \<noteq> CHR '' '' \<Longrightarrow> c \<noteq> CHR ''&'' \<Longrightarrow> arg < 128 \<Longrightarrow> skip_word cs = [] \<Longrightarrow>
   argv_from arg index (c # cs) sh = Some (c # word_of cs, [index], sh)"
  by (simp add: argv_from.simps(2) del: dropWhile_eq_Nil_conv)

lemma argv_from_cuts:
  assumes "list_all short_name (tokens s)" "arg + length (words (tokens s)) \<le> 128" "NUL \<notin> set s"
  shows "cut_ok index s sh (argv_from arg index s sh)"
  using assms
proof (induction "length s" arbitrary: s arg index sh rule: less_induct)
  case less
  show ?case
  proof (cases s rule: piece_cases)
    case empty
    then show ?thesis by (simp add: cut_ok_def)
  next
    case (blank cs)
    show ?thesis unfolding blank argv_blank
      by (rule cut_ok_shift [OF less.hyps]) (use less.prems in \<open>simp_all add: blank\<close>)
  next
    case (operator c cs n f name len rest)
    note tok = tokens_operator [OF operator(3,4,2)] and len = length_redirect [OF operator(4,3)]
    have sub: "set rest \<subseteq> set (c # cs)"
      using operator(4) by (auto simp: redirect_def Let_def dest!: set_dropWhileD in_set_dropD)
    have name: "length name < 128" using less.prems(1) by (simp add: operator(1) tok)
    show ?thesis unfolding operator(1) argv_operator [OF operator(3,4,2) name]
      by (rule cut_ok_shift [OF less.hyps]) (use less.prems sub len in \<open>auto simp: operator(1) tok\<close>)
  next
    case (background cs)
    have op: "operator (CHR ''&'' # cs) = None" using background by simp
    show ?thesis unfolding background(1) argv_background [OF op]
      by (rule cut_ok_shift [OF less.hyps]) (use less.prems in \<open>simp_all add: background tokens_background [OF op]\<close>)
  next
    case (word c cs)
    note tok = tokens_word [OF word(4,2,3)]
    have arg: "arg < 128" using less.prems(2) by (simp add: word(1) tok)
    have w: "NUL \<notin> set (c # word_of cs)" using less.prems(3) by (auto simp: word(1) dest: set_takeWhileD)
    show ?thesis
    proof (cases "skip_word cs")
      case Nil
      then have cs: "word_of cs = cs" by (simp add: takeWhile_eq_all_conv)
      moreover have "text_at (c # cs) 0 = c # cs" using w unfolding cs text_at_def drop_0 takeWhile_eq_all_conv by auto
      ultimately show ?thesis
        unfolding word(1) argv_last_word [OF word(4,2,3) arg Nil] cut_ok_def tok Nil cs by simp
    next
      case (Cons d rest)
      then have d: "d = CHR '' ''" using skip_word_blank [of cs] by auto
      have cs: "cs = word_of cs @ d # rest" using takeWhile_dropWhile_id [of "\<lambda>c. c \<noteq> CHR '' ''" cs] Cons by simp
      have len: "length cs = length (word_of cs) + Suc (length rest)" using arg_cong [OF cs, of length] by simp
      have "set rest \<subseteq> set cs" using arg_cong [OF cs, of set] by auto
      with len show ?thesis unfolding word(1) argv_word [OF word(4,2,3) arg Cons]
        by - (rule cut_ok_word [OF less.hyps], use less.prems w in \<open>auto simp: word(1) tok Cons d\<close>)
    qed
  qed
qed

text \<open>
  C30. The shell reads every line its 256-byte buffer can hold, as long as the file name after each
  redirection has fewer than 128 characters: \<open>get_argv\<close> leaves no array (a line of 255 characters has no
  more than 128 arguments), the pointers it stores are as many as \<open>get_argc\<close> counts, each points in the
  cut line to one word of the command, and its streams, background flag and file system calls are those
  of the operators of the line in order.
\<close>

theorem shell_parses_command_line:
  assumes "length line \<le> 255" "NUL \<notin> set line" "\<forall>t \<in> set (tokens line). short_name t"
  shows "\<exists>out argv. get_argv (i, o', e) line sh =
       Some (out, argv, fold obey (tokens line)
         (sh\<lparr>no_block := False, prog_stdin := i, prog_stdout := o', prog_stderr := e\<rparr>)) \<and>
     length out = length line \<and> length argv = get_argc line \<and> map (text_at out) argv = words (tokens line)"
proof -
  have "length (words (tokens line)) \<le> 128"
    using words_bound [of line] assms(1) by (simp split: if_splits)
  then have "cut_ok 0 line (sh\<lparr>no_block := False, prog_stdin := i, prog_stdout := o', prog_stderr := e\<rparr>)
      (get_argv (i, o', e) line sh)"
    unfolding get_argv_def using argv_from_cuts [of line 0 0] assms(2,3) by (simp add: list_all_iff)
  then obtain out argv where *: "get_argv (i, o', e) line sh =
       Some (out, argv, fold obey (tokens line)
         (sh\<lparr>no_block := False, prog_stdin := i, prog_stdout := o', prog_stderr := e\<rparr>))"
      "length out = length line" "map (text_at out) argv = words (tokens line)"
    by (auto simp: cut_ok_def split: option.splits)
  then have "length argv = get_argc line" by (metis get_argc_tokens length_map)
  with * show ?thesis by blast
qed

subsection \<open>A line written down from its pieces\<close>

definition plain :: "string \<Rightarrow> bool" where
  "plain w = (w \<noteq> [] \<and> CHR '' '' \<notin> set w)"

primrec spell :: "token \<Rightarrow> string" where
  "spell (Word w) = w"
| "spell (Redirect f name) = (case f of Out \<Rightarrow> ''>'' | In \<Rightarrow> ''<'' | Err \<Rightarrow> ''2>'' | Both \<Rightarrow> ''&>'') @ name"
| "spell Background = ''&''"

primrec spellable :: "token \<Rightarrow> bool" where
  "spellable (Word w) = (plain w \<and> operator w = None \<and> hd w \<noteq> CHR ''&'')"
| "spellable (Redirect f name) = plain name"
| "spellable Background = True"

lemma plain_piece:
  assumes "CHR '' '' \<notin> set w"
  shows "word_of (w @ CHR '' '' # s) = w" "skip_word (w @ CHR '' '' # s) = CHR '' '' # s"
  using assms by (auto simp: takeWhile_append dropWhile_append)

lemma tokens_spell: "spellable t \<Longrightarrow> tokens (spell t @ CHR '' '' # s) = t # tokens s"
proof (cases t)
  case (Word w)
  assume "spellable t"
  then obtain c cs where w: "w = c # cs" and c: "c \<noteq> CHR '' ''" "c \<noteq> CHR ''&''" "operator (c # cs) = None" "CHR '' '' \<notin> set cs"
    using Word by (cases w) (auto simp: plain_def)
  have "operator (c # cs @ CHR '' '' # s) = None"
    using c(3) by (cases cs) (auto simp: operator_None_iff)
  from tokens_word [OF this c(1,2)] c(4) show ?thesis by (simp add: Word w plain_piece)
next
  case (Redirect f name)
  assume "spellable t"
  then obtain d ds where name: "name = d # ds" "d \<noteq> CHR '' ''" "CHR '' '' \<notin> set ds"
    using Redirect by (cases name) (auto simp: plain_def)
  show ?thesis
    using name by (cases f) (simp_all add: Redirect tokens.simps(2) operator_def redirect_def Let_def plain_piece)
next
  case Background
  then show ?thesis by (simp add: tokens_background operator_def)
qed

lemma tokens_spelled_line:
  "list_all spellable ts \<Longrightarrow> tokens (concat (map (\<lambda>t. spell t @ '' '') ts)) = ts"
  by (induction ts) (simp_all add: tokens_spell)

lemma sample_tokens:
  "tokens ''cat  a b2>log >out &'' = [Word ''cat'', Word ''a'', Word ''b2>log'', Redirect Out ''out'', Background]"
  by code_simp

theorem shell_parses_command_line_witness:
  "\<exists>out argv sh. get_argv (''tty0'', ''tty1'', ''tty2'') ''cat  a b2>log >out &''
       \<lparr>prog_stdin = [], prog_stdout = [], prog_stderr = [], no_block = False, os_calls = []\<rparr> = Some (out, argv, sh) \<and>
     map (text_at out) argv = [''cat'', ''a'', ''b2>log''] \<and>
     (prog_stdin sh, prog_stdout sh, prog_stderr sh) = (''tty0'', ''out'', ''tty2'') \<and> no_block sh \<and>
     os_calls sh = [Remove ''out'', Create ''out'']"
  using shell_parses_command_line [of "''cat  a b2>log >out &''" "''tty0''" "''tty1''" "''tty2''"
      "\<lparr>prog_stdin = [], prog_stdout = [], prog_stderr = [], no_block = False, os_calls = []\<rparr>"]
  unfolding sample_tokens by (auto simp: NUL_def)

lemma long_file_name_overflows:
  assumes "CHR '' '' \<notin> set name" "128 \<le> length name"
  shows "get_argv std (CHR ''>'' # name) sh = None"
proof -
  have "skip_spaces name = name" using assms by (cases name) auto
  moreover have "word_of name = name" unfolding takeWhile_eq_all_conv using assms(1) by auto
  ultimately have "redirect 1 (CHR ''>'' # name) = (name, Suc (length name) - length (skip_word name), skip_word name)"
    by (simp add: redirect_def Let_def del: takeWhile_eq_all_conv)
  with assms(2) show ?thesis
    by (simp add: get_argv_def argv_from.simps(2) operator_def)
qed

end
