(* ===== verification/Shell_Run.thy ===== *)
theory Shell_Run
  imports Shell Exec
begin

text \<open>
  A round of the shell, \<open>main\<close> in \<open>shell/shell.c\<close>: reading a line, deciding what it is, and starting a
  program.  A round of this theory ends with the name of a built-in command; \<open>Shell_Builtins\<close> has the commands.

  \<open>stdin\<close> is what can be read, without a null character; \<open>fgets\<close> takes a line with its newline, at most 255
  characters.  \<open>input\<close>, \<open>s_argc\<close> and \<open>s_argv\<close> are local variables of \<open>main\<close>; an entry \<open>None\<close> of the latter has not
  been set.
\<close>

record session =
  input :: string
  s_argc :: nat
  s_argv :: "nat option list"
  vars :: shell

datatype command = Builtin string | No_Input | Program task_info_t bool

definition builtins :: "string list" where
  "builtins = [''heap'', ''segm'', ''col'', ''vdev'', ''vdevin'', ''vdevout'', ''pid'', ''read'', ''write'', ''div0'', ''esc'',
     ''mkdir'', ''touch'', ''rm'', ''clear'', ''fork'', ''ls'', ''beep'', ''rdspk'', ''send'', ''exit'', ''dump'', ''size'', ''dumpr'', ''cd'']"

abbreviation (input) newline :: char where "newline \<equiv> CHR 0x0A"

definition fgets :: "nat \<Rightarrow> string \<Rightarrow> string \<Rightarrow> string" where
  "fgets n stdin buf =
     (let l = takeWhile (\<lambda>c. c \<noteq> newline) stdin; got = take (n - 1) (if l = stdin then l else l @ [newline])
      in if got = [] then buf else got @ NUL # drop (length got + 1) buf)"

text \<open>\<open>input[strlen(input) - 1] = 0\<close>: with an empty buffer this is a store in front of the array.\<close>

definition strip_last :: "string \<Rightarrow> string option" where
  "strip_last buf = (let n = length (text_at buf 0) in if n = 0 then None else arr_set buf (n - 1) NUL)"

definition prog_info_for :: "string \<Rightarrow> nat \<Rightarrow> string \<Rightarrow> session \<Rightarrow> task_info_t option" where
  "prog_info_for cwd argc first s =
     (if length first < 128 \<and> length cwd < 128
      then Some \<lparr>ti_path = first, ti_stdin = prog_stdin (vars s), ti_stdout = prog_stdout (vars s), ti_stderr = prog_stderr (vars s),
        ti_pwd = cwd, ti_name = first, ti_server_name = [], ti_argc = int argc,
        ti_argv = map (\<lambda>p. case p of None \<Rightarrow> [] | Some p \<Rightarrow> text_at (input s) p) (take argc (s_argv s))\<rparr>
      else None)"

definition shell_round :: "string \<times> string \<times> string \<Rightarrow> string \<Rightarrow> string \<Rightarrow> session \<Rightarrow> (command \<times> session) option" where
  "shell_round std cwd stdin s = do {
     buf \<leftarrow> strip_last (fgets 256 stdin (input s));
     let line = text_at buf 0;
     let argc = get_argc line;
     (out, ps, sh) \<leftarrow> get_argv std line (vars s);
     let s = s\<lparr>input := out @ drop (length out) buf, s_argc := argc, s_argv := map Some ps @ drop (length ps) (s_argv s), vars := sh\<rparr>;
     p0 \<leftarrow> Option.bind (arr_get (s_argv s) 0) id;
     let first = text_at (input s) p0;
     if first \<in> set builtins then Some (Builtin first, s)
     else if input s ! 0 = NUL then Some (No_Input, s)
     else do {
       ti \<leftarrow> prog_info_for cwd argc first s;
       Some (Program ti (\<not> no_block (vars s)), s) } }"

datatype report = Invalid_Command string | Launched int

definition launch :: "task_info_t \<Rightarrow> bool \<Rightarrow> session \<Rightarrow> 'w kernel \<Rightarrow> (report option \<times> 'w kernel) option" where
  "launch ti block s k =
     (if block then do {
        (r, k) \<leftarrow> general_execute_block ti k;
        Some (if r = -1 then Some (Invalid_Command (text_at (input s) 0)) else None, k) }
      else do {
        (r, k) \<leftarrow> general_execute ti k;
        Some (Some (if r = -1 then Invalid_Command (text_at (input s) 0) else Launched r), k) })"

subsection \<open>The line that was read\<close>

lemma fgets_line:
  "newline \<notin> set line \<Longrightarrow> length line \<le> 254 \<Longrightarrow>
   fgets 256 (line @ newline # rest) buf = line @ newline # NUL # drop (length line + 2) buf"
  by (auto simp: fgets_def Let_def takeWhile_append takeWhile_tail)

lemma text_at_line: "NUL \<notin> set line \<Longrightarrow> text_at (line @ NUL # r) 0 = line"
  by (auto simp: text_at_def takeWhile_append)

lemma strip_line:
  assumes "NUL \<notin> set line"
  shows "strip_last (line @ newline # NUL # r) = Some (line @ NUL # NUL # r)"
proof -
  have "text_at ((line @ [newline]) @ NUL # r) 0 = line @ [newline]" by (rule text_at_line) (use assms in \<open>auto simp: NUL_def\<close>)
  then show ?thesis by (simp add: strip_last_def arr_set_def list_update_append)
qed

lemma text_at_prefix: "p \<le> length out \<Longrightarrow> text_at (out @ NUL # r) p = text_at out p"
  by (simp add: text_at_def takeWhile_tail)

lemma words_nonempty: "[] \<notin> set (words (tokens s))"
proof (induction s rule: length_induct)
  case (1 s)
  show ?case
  proof (cases s rule: piece_cases)
    case (operator c cs n f name len rest)
    with 1 length_redirect [OF operator(4,3)] show ?thesis by (simp add: token_pieces)
  next
    case (word c cs)
    have "length (skip_word cs) < length s" using skip_word_le [of cs] word(1) by simp
    with 1 word show ?thesis by (simp add: token_pieces)
  qed (use 1 in \<open>simp_all add: token_pieces\<close>)
qed

lemma args_size_simps [simp]: "args_size [] = 0" "args_size (w # ws) = length w + 1 + args_size ws"
  by (simp_all add: args_size_def)

lemma args_size_words: "args_size (words (tokens s)) \<le> length s + (if take 1 s = '' '' then 0 else 1)"
proof (induction s rule: length_induct)
  case (1 s)
  show ?case
  proof (cases s rule: piece_cases)
    case (blank cs)
    with 1 [rule_format, of cs] show ?thesis by (simp split: if_splits)
  next
    case (operator c cs n f name len rest)
    with 1 [rule_format, of rest] length_redirect [OF operator(4,3)] show ?thesis
      by (simp add: token_pieces split: if_splits)
  next
    case (background cs)
    with 1 [rule_format, of cs] show ?thesis by (simp add: token_pieces split: if_splits)
  next
    case (word c cs)
    have less: "length (skip_word cs) < length s" using skip_word_le [of cs] word(1) by simp
    have w: "args_size (words (tokens s)) = Suc (length (word_of cs)) + 1 + args_size (words (tokens (skip_word cs)))"
      using word by (simp add: token_pieces)
    have "args_size (words (tokens (skip_word cs))) \<le> length (skip_word cs)"
      using skip_word_blank [of cs] 1 [rule_format, OF less] by (auto simp del: dropWhile_eq_Nil_conv)
    moreover have "length (word_of cs) + length (skip_word cs) = length cs"
      by (metis length_append takeWhile_dropWhile_id)
    ultimately show ?thesis using w word(1,2) by simp
  qed simp
qed

definition starts_with_word :: "string \<Rightarrow> bool" where
  "starts_with_word line \<longleftrightarrow> line \<noteq> [] \<and> operator line = None \<and> hd line \<noteq> CHR '' '' \<and> hd line \<noteq> CHR ''&''"

lemma argv_first_word:
  assumes "starts_with_word line" and "argv_from 0 0 line sh = Some (out, ps, sh')"
  shows "\<exists>ps'. ps = 0 # ps' \<and> out ! 0 = hd line"
proof -
  obtain c cs where l: "line = c # cs" "operator (c # cs) = None" "c \<noteq> CHR '' ''" "c \<noteq> CHR ''&''"
    using assms(1) by (cases line) (auto simp: starts_with_word_def)
  show ?thesis
  proof (cases "skip_word cs")
    case Nil
    have "argv_from 0 0 line sh = Some (c # word_of cs, [0], sh)"
      unfolding l(1) by (rule argv_last_word [OF l(2-4) zero_less_numeral Nil])
    with assms(2) l(1) show ?thesis by simp
  next
    case (Cons d rest)
    have "argv_from 0 0 line sh = map_option (\<lambda>(out, ps, sh). ((c # word_of cs) @ NUL # out, 0 # ps, sh))
       (argv_from (Suc 0) (0 + length ((c # word_of cs) @ [NUL])) rest sh)"
      unfolding l(1) by (rule argv_word [OF l(2-4) zero_less_numeral Cons])
    from trans [OF this [symmetric] assms(2)] l(1) show ?thesis by (auto simp: map_option_eq_Some)
  qed
qed

subsection \<open>Starting a program\<close>

abbreviation (input) initial_vars :: "string \<times> string \<times> string \<Rightarrow> shell \<Rightarrow> shell" where
  "initial_vars std sh \<equiv> sh\<lparr>no_block := False, prog_stdin := fst std, prog_stdout := fst (snd std), prog_stderr := snd (snd std)\<rparr>"

lemma get_argv_cuts:
  assumes "length line \<le> 255" and "NUL \<notin> set line" and "list_all short_name (tokens line)"
  shows "\<exists>out ps. get_argv std line sh = Some (out, ps, fold obey (tokens line) (initial_vars std sh))
    \<and> length out = length line \<and> length ps = get_argc line \<and> map (text_at out) ps = words (tokens line) \<and> length ps \<le> 128"
proof -
  have n: "length (words (tokens line)) \<le> 128" using words_bound [of line] assms(1) by (simp split: if_splits)
  then have "cut_ok 0 line (initial_vars std sh) (get_argv std line sh)"
    unfolding get_argv_def using argv_from_cuts [of line 0 0] assms(2,3) by simp
  then obtain out ps where *: "get_argv std line sh = Some (out, ps, fold obey (tokens line) (initial_vars std sh))"
      "length out = length line" "map (text_at out) ps = words (tokens line)"
    by (auto simp: cut_ok_def split: option.splits)
  then have "length ps = length (words (tokens line))" by (metis length_map)
  with * n show ?thesis by (auto simp: get_argc_tokens)
qed

text \<open>What the cut leaves: the strings the pointers point to are the words of the line.\<close>

lemma shell_round_cut:
  assumes "length line \<le> 254" and "NUL \<notin> set line" and "newline \<notin> set line" and "list_all short_name (tokens line)"
    and "words (tokens line) = c # args" and "length (s_argv s) = 128" and "sh = fold obey (tokens line) (initial_vars std (vars s))"
  shows "\<exists>out ps s1. get_argv std line (vars s) = Some (out, ps, sh) \<and> length out = length line \<and> length ps = length (c # args)
    \<and> input s1 ! 0 = (out @ [NUL]) ! 0 \<and> s_argc s1 = length (c # args) \<and> vars s1 = sh
    \<and> s_argv s1 = map Some ps @ drop (length ps) (s_argv s) \<and> length (s_argv s1) = 128 \<and> map (text_at (input s1)) ps = c # args
    \<and> shell_round std cwd (line @ newline # rest) s =
       (if c \<in> set builtins then Some (Builtin c, s1) else if input s1 ! 0 = NUL then Some (No_Input, s1)
        else do { ti \<leftarrow> prog_info_for cwd (length (c # args)) c s1; Some (Program ti (\<not> no_block sh), s1) })"
proof -
  let ?r = "NUL # drop (length line + 2) (input s)"
  have buf: "strip_last (fgets 256 (line @ newline # rest) (input s)) = Some (line @ NUL # ?r)"
    using fgets_line [OF assms(3,1)] strip_line [OF assms(2)] by simp
  have line: "text_at (line @ NUL # ?r) 0 = line" by (rule text_at_line [OF assms(2)])
  obtain out ps where a: "get_argv std line (vars s) = Some (out, ps, sh)" "length out = length line" "length ps = get_argc line"
      "map (text_at out) ps = c # args" "length ps \<le> 128"
    using get_argv_cuts [of line std "vars s"] assms(1,2,4,5,7) by auto
  obtain p0 ps' where ps: "ps = p0 # ps'" using a(4) by (cases ps) auto
  have inside: "text_at (out @ NUL # ?r) p = text_at out p" if "p \<in> set ps" for p
  proof -
    have "text_at out p \<in> set (words (tokens line))" using that a(4) assms(5) by (metis image_eqI list.set_map)
    then have "text_at out p \<noteq> []" using words_nonempty [of line] by metis
    then have "p \<le> length out" by (cases "p \<le> length out") (simp_all add: text_at_def)
    then show ?thesis by (rule text_at_prefix)
  qed
  let ?s = "s\<lparr>input := out @ NUL # ?r, s_argc := get_argc line, s_argv := map Some ps @ drop (length ps) (s_argv s), vars := sh\<rparr>"
  have first: "text_at (out @ NUL # ?r) p0 = c" using inside [of p0] ps a(4) by simp
  have n: "length ps = length (c # args)" using a(4) by (metis length_map)
  have texts: "map (text_at (out @ NUL # ?r)) ps = c # args" using inside a(4) by (metis (no_types, lifting) map_cong)
  have zero: "(out @ NUL # ?r) ! 0 = (out @ [NUL]) ! 0" by (cases out) simp_all
  have "shell_round std cwd (line @ newline # rest) s =
       (if c \<in> set builtins then Some (Builtin c, ?s) else if input ?s ! 0 = NUL then Some (No_Input, ?s)
        else do { ti \<leftarrow> prog_info_for cwd (length (c # args)) c ?s; Some (Program ti (\<not> no_block sh), ?s) })"
    using buf line a(1-3) ps first n by (simp add: shell_round_def Let_def)
  then show ?thesis
    using a n texts zero assms(6) by (intro exI [of _ out] exI [of _ ps] exI [of _ ?s]) simp
qed

text \<open>The decision of a round, in terms of the reference reading of the line.\<close>

lemma shell_round_decision:
  assumes "length line \<le> 254" and "NUL \<notin> set line" and "newline \<notin> set line" and "list_all short_name (tokens line)"
    and "words (tokens line) = c # args" and "c \<notin> set builtins" and "length c < 128" and "length cwd < 128"
    and "length (s_argv s) = 128" and "sh = fold obey (tokens line) (initial_vars std (vars s))"
  shows "\<exists>out ps s'. get_argv std line (vars s) = Some (out, ps, sh) \<and> length out = length line
    \<and> shell_round std cwd (line @ newline # rest) s =
      Some (if (out @ [NUL]) ! 0 = NUL then No_Input
            else Program \<lparr>ti_path = c, ti_stdin = prog_stdin sh, ti_stdout = prog_stdout sh, ti_stderr = prog_stderr sh,
              ti_pwd = cwd, ti_name = c, ti_server_name = [], ti_argc = int (length (c # args)), ti_argv = c # args\<rparr> (\<not> no_block sh), s')"
proof -
  obtain out ps s1 where r: "get_argv std line (vars s) = Some (out, ps, sh)" "length out = length line" "length ps = length (c # args)"
      "input s1 ! 0 = (out @ [NUL]) ! 0" "vars s1 = sh" "s_argv s1 = map Some ps @ drop (length ps) (s_argv s)" "map (text_at (input s1)) ps = c # args"
    and round: "shell_round std cwd (line @ newline # rest) s = (if c \<in> set builtins then Some (Builtin c, s1) else if input s1 ! 0 = NUL then Some (No_Input, s1)
        else do { ti \<leftarrow> prog_info_for cwd (length (c # args)) c s1; Some (Program ti (\<not> no_block sh), s1) })"
    using shell_round_cut [OF assms(1-5,9,10), of cwd rest] by (elim exE conjE) (rule that; assumption)
  have "prog_info_for cwd (length (c # args)) c s1 = Some \<lparr>ti_path = c, ti_stdin = prog_stdin sh, ti_stdout = prog_stdout sh,
      ti_stderr = prog_stderr sh, ti_pwd = cwd, ti_name = c, ti_server_name = [], ti_argc = int (length (c # args)), ti_argv = c # args\<rparr>"
    using assms(7,8) r(3,5-7) by (simp add: prog_info_for_def comp_def)
  with round r(1,2,4) assms(6) show ?thesis by (intro exI [of _ out] exI [of _ ps] exI [of _ s1]) simp
qed

lemma shell_round_program:
  assumes "length line \<le> 254" and "NUL \<notin> set line" and "newline \<notin> set line" and "list_all short_name (tokens line)"
    and "starts_with_word line" and "words (tokens line) = c # args" and "c \<notin> set builtins" and "length c < 128" and "length cwd < 128"
    and "length (s_argv s) = 128" and "sh = fold obey (tokens line) (initial_vars std (vars s))"
  shows "\<exists>s'. shell_round std cwd (line @ newline # rest) s = Some (Program \<lparr>ti_path = c, ti_stdin = prog_stdin sh, ti_stdout = prog_stdout sh,
      ti_stderr = prog_stderr sh, ti_pwd = cwd, ti_name = c, ti_server_name = [], ti_argc = int (length (c # args)), ti_argv = c # args\<rparr> (\<not> no_block sh), s')"
proof -
  obtain out ps s' where d: "get_argv std line (vars s) = Some (out, ps, sh)" "length out = length line"
    "shell_round std cwd (line @ newline # rest) s =
      Some (if (out @ [NUL]) ! 0 = NUL then No_Input
            else Program \<lparr>ti_path = c, ti_stdin = prog_stdin sh, ti_stdout = prog_stdout sh, ti_stderr = prog_stderr sh,
              ti_pwd = cwd, ti_name = c, ti_server_name = [], ti_argc = int (length (c # args)), ti_argv = c # args\<rparr> (\<not> no_block sh), s')"
    using shell_round_decision [OF assms(1-4,6-11), of rest] by blast
  have "out ! 0 = hd line" using argv_first_word [OF assms(5)] d(1) unfolding get_argv_def by blast
  moreover have "out \<noteq> []" "hd line \<noteq> NUL" using d(2) assms(2,5) by (auto simp: starts_with_word_def) (metis list.set_sel(1))
  ultimately have "(out @ [NUL]) ! 0 \<noteq> NUL" by (simp add: nth_append)
  with d(3) show ?thesis by simp
qed

text \<open>
  The test for an empty line looks at the first character after the line has been cut, so a program is not
  started when a blank stands in front of its name.
\<close>

lemma leading_blank_ignored:
  assumes "line = CHR '' '' # cs" and "length line \<le> 254" and "NUL \<notin> set line" and "newline \<notin> set line" and "list_all short_name (tokens line)"
    and "words (tokens line) = c # args" and "c \<notin> set builtins" and "length c < 128" and "length cwd < 128" and "length (s_argv s) = 128"
  shows "\<exists>s'. shell_round std cwd (line @ newline # rest) s = Some (No_Input, s')"
proof -
  obtain out ps s' where d: "get_argv std line (vars s) = Some (out, ps, fold obey (tokens line) (initial_vars std (vars s)))" and
    r: "shell_round std cwd (line @ newline # rest) s =
      Some (if (out @ [NUL]) ! 0 = NUL then No_Input
            else Program \<lparr>ti_path = c, ti_stdin = prog_stdin (fold obey (tokens line) (initial_vars std (vars s))),
              ti_stdout = prog_stdout (fold obey (tokens line) (initial_vars std (vars s))),
              ti_stderr = prog_stderr (fold obey (tokens line) (initial_vars std (vars s))),
              ti_pwd = cwd, ti_name = c, ti_server_name = [], ti_argc = int (length (c # args)), ti_argv = c # args\<rparr>
              (\<not> no_block (fold obey (tokens line) (initial_vars std (vars s)))), s')"
    using shell_round_decision [OF assms(2-10) refl, of std rest] by blast
  have "out ! 0 = NUL \<and> out \<noteq> []" using d assms(1) by (auto simp: get_argv_def map_option_eq_Some)
  with r show ?thesis by (simp add: nth_append)
qed

end
