(* ===== verification/Serial_Tty.thy ===== *)
theory Serial_Tty
  imports Devices Kprint
begin

text \<open>
  The serial terminals, \<open>kernel/src/drivers/stty/stty.c\<close>: a terminal on a serial device, with echo and
  line ends translated.

  \<open>kread\<close> and \<open>kwrite\<close> are \<open>vfs_kread\<close> and \<open>vfs_kwrite\<close>, working on the kernel's state \<open>'w\<close>.  The
  array \<open>devices\<close> holds pointers to path names; \<open>None\<close> is the null pointer, which it holds at first.
\<close>

type_synonym 'w kread = "string \<Rightarrow> u64 \<Rightarrow> 'w \<Rightarrow> (int \<times> 'w) option"
type_synonym 'w kwrite = "string \<Rightarrow> u64 \<Rightarrow> u8 \<Rightarrow> 'w \<Rightarrow> (int \<times> 'w) option"

record stty =
  stty_devices :: "string option list"
  is_eof :: bool

abbreviation (input) MAX_STTY :: nat where "MAX_STTY \<equiv> 1"

definition stty_bss :: stty where
  "stty_bss = \<lparr>stty_devices = replicate MAX_STTY None, is_eof = False\<rparr>"

definition stty_names :: "string list" where
  "stty_names = [''stty0'', ''stty1'', ''stty2'', ''stty3'']"

definition com_devices :: "string list" where
  "com_devices = ['':://com0'', '':://com1'', '':://com2'', '':://com3'']"

text \<open>The path a terminal stands on.\<close>

definition stty_path :: "nat \<Rightarrow> stty \<Rightarrow> string option" where
  "stty_path dev s = Option.bind (arr_get (stty_devices s) dev) id"

lemma stty_path_is_eof [simp]: "stty_path dev (s\<lparr>is_eof := b\<rparr>) = stty_path dev s"
  by (simp add: stty_path_def)

fun echo :: "'w kwrite \<Rightarrow> string \<Rightarrow> u8 list \<Rightarrow> 'w \<Rightarrow> 'w option" where
  "echo kwrite path [] w = Some w"
| "echo kwrite path (b # bs) w = do { (r, w) \<leftarrow> kwrite path 0 b w; echo kwrite path bs w }"

definition stty_io_read :: "'w kread \<Rightarrow> 'w kwrite \<Rightarrow> nat \<Rightarrow> u64 \<Rightarrow> stty \<times> 'w \<Rightarrow> (int \<times> stty \<times> 'w) option" where
  "stty_io_read kread kwrite dev loc = (\<lambda>(s, w).
     if is_eof s then Some (-1, s\<lparr>is_eof := False\<rparr>, w)
     else do {
       path \<leftarrow> stty_path dev s;
       (val, w) \<leftarrow> kread path 0 w;
       if val = IO_NOT_READY then Some (IO_NOT_READY, s, w)
       else if val = 0x0d then do { w \<leftarrow> echo kwrite path [0x0d, 0x0a] w; Some (0x0a, s\<lparr>is_eof := True\<rparr>, w) }
       else if val = 0x08 then do { w \<leftarrow> echo kwrite path [0x08, 0x20, 0x08] w; Some (0x08, s, w) }
       else do { w \<leftarrow> echo kwrite path [word_of_int val] w; Some (val, s, w) } })"

definition stty_io_write :: "'w kwrite \<Rightarrow> nat \<Rightarrow> u64 \<Rightarrow> u8 \<Rightarrow> stty \<times> 'w \<Rightarrow> (int \<times> stty \<times> 'w) option" where
  "stty_io_write kwrite dev loc payload = (\<lambda>(s, w). do {
     path \<leftarrow> stty_path dev s;
     if payload = 0x0a then do { w \<leftarrow> echo kwrite path [0x0d, 0x0a] w; Some (0, s, w) }
     else if payload = 0x08 then do { w \<leftarrow> echo kwrite path [0x08, 0x20, 0x08] w; Some (0, s, w) }
     else do { (r, w) \<leftarrow> kwrite path 0 payload w; Some (r, s, w) } })"

text \<open>The cases of the switch have no \<open>return\<close> and no \<open>break\<close>.\<close>

definition stty_io_wrapper :: "'w kread \<Rightarrow> 'w kwrite \<Rightarrow> (stty \<times> 'w) io_wrapper" where
  "stty_io_wrapper kread kwrite dev loc type payload sw = do {
     sw \<leftarrow> (if type = DF_READ then map_option snd (stty_io_read kread kwrite dev loc sw) else Some sw);
     sw \<leftarrow> (if type = DF_READ \<or> type = DF_WRITE then map_option snd (stty_io_write kwrite dev loc payload sw) else Some sw);
     Some (-1, sw) }"

text \<open>\<open>kstrcpy\<close> goes to where the entry points to, which must be memory.\<close>

fun init_stty_loop :: "'v io_wrapper \<Rightarrow> nat list \<Rightarrow> stty \<times> 'v device_t list \<times> console \<Rightarrow> (stty \<times> 'v device_t list \<times> console) option" where
  "init_stty_loop wrapper [] st = Some st"
| "init_stty_loop wrapper (i # is) (s, ds, c) = do {
     old \<leftarrow> stty_path i s;
     let s = s\<lparr>stty_devices := (stty_devices s)[i := Some (com_devices ! i)]\<rparr>;
     ds \<leftarrow> kernel_add_device (stty_names ! i) i 0 wrapper ds;
     c \<leftarrow> kputs (0x0a # clit ''Initialised '') c;
     c \<leftarrow> kputs (clit (stty_names ! i)) c;
     init_stty_loop wrapper is (s, ds, c) }"

definition init_stty :: "'v io_wrapper \<Rightarrow> stty \<times> 'v device_t list \<times> console \<Rightarrow> (stty \<times> 'v device_t list \<times> console) option" where
  "init_stty wrapper = (\<lambda>(s, ds, c). do {
     c \<leftarrow> kputs (0x0a # clit ''Initialising serial ttys...'') c;
     init_stty_loop wrapper [0..<MAX_STTY] (s, ds, c) })"

lemma init_stty_null_pointer: "init_stty wrapper (stty_bss, ds, c) = None"
  by (auto simp: init_stty_def stty_bss_def stty_path_def Option.bind_eq_None_conv)

lemma stty_io_wrapper_returns_failure: "stty_io_wrapper kread kwrite dev loc type payload sw = Some (r, sw') \<Longrightarrow> r = -1"
  by (auto simp: stty_io_wrapper_def bind_eq_Some_conv)

text \<open>
  The line discipline by itself: a carriage return is read as a newline and the next read is the end of
  the file; both halves of the line end are echoed.
\<close>

lemma stty_line_end:
  assumes "\<not> is_eof s" and "stty_path dev s = Some path" and "kread path 0 w = Some (0x0d, w1)"
    and "kwrite path 0 0x0d w1 = Some (r1, w2)" and "kwrite path 0 0x0a w2 = Some (r2, w3)"
  shows "stty_io_read kread kwrite dev loc (s, w) = Some (0x0a, s\<lparr>is_eof := True\<rparr>, w3)
    \<and> stty_io_read kread kwrite dev loc' (s\<lparr>is_eof := True\<rparr>, w3) = Some (-1, s, w3)"
  using assms by (simp add: stty_io_read_def)

text \<open>A read through the device also sends the payload byte of the request to the line.\<close>

lemma stty_read_also_writes:
  assumes "is_eof s" and "stty_path dev s = Some path" and "b \<noteq> 0x0a" and "b \<noteq> 0x08" and "kwrite path 0 b w = Some (r, w')"
  shows "stty_io_wrapper kread kwrite dev loc DF_READ b (s, w) = Some (-1, s\<lparr>is_eof := False\<rparr>, w')"
  using assms by (simp add: stty_io_wrapper_def stty_io_read_def stty_io_write_def)

end
