(* ===== verification/Ports.thy ===== *)
theory Ports
  imports Devices Kprint
begin

text \<open>
  The drivers that talk to the hardware by port input and output: interrupt controllers
  (\<open>drivers/pic.c\<close>), timer (\<open>drivers/pit.c\<close>), speaker (\<open>drivers/pcspk/pcspk.c\<close>), debug console
  (\<open>drivers/e9/e9.c\<close>) and serial ports (\<open>drivers/com/com.c\<close>).

  The ports are a parameter: \<open>port_in\<close> and \<open>port_out\<close> are the instructions behind the macros
  \<open>port_in_b\<close> and \<open>port_out_b\<close> of \<open>cio.h\<close>, working on a state \<open>'p\<close> of the devices.  What a
  theorem needs of a device is a hypothesis about them.
\<close>

record 'p port_io =
  port_in :: "u16 \<Rightarrow> 'p \<Rightarrow> u8 \<times> 'p"
  port_out :: "u16 \<Rightarrow> u8 \<Rightarrow> 'p \<Rightarrow> 'p"

subsection \<open>Interrupt controllers\<close>

definition set_PIC0_mask :: "'p port_io \<Rightarrow> u8 \<Rightarrow> 'p \<Rightarrow> 'p" where
  "set_PIC0_mask io m p = port_out io 0x21 m p"

definition set_PIC1_mask :: "'p port_io \<Rightarrow> u8 \<Rightarrow> 'p \<Rightarrow> 'p" where
  "set_PIC1_mask io m p = port_out io 0xA1 m p"

definition get_PIC0_mask :: "'p port_io \<Rightarrow> 'p \<Rightarrow> u8 \<times> 'p" where
  "get_PIC0_mask io p = port_in io 0x21 p"

definition get_PIC1_mask :: "'p port_io \<Rightarrow> 'p \<Rightarrow> u8 \<times> 'p" where
  "get_PIC1_mask io p = port_in io 0xA1 p"

definition map_PIC :: "'p port_io \<Rightarrow> u8 \<Rightarrow> u8 \<Rightarrow> 'p \<Rightarrow> 'p" where
  "map_PIC io PIC0Offset PIC1Offset p =
     (let (mask0, p) = get_PIC0_mask io p;
          (mask1, p) = get_PIC1_mask io p;
          p = port_out io 0x20 0x11 p;
          p = port_out io 0xA0 0x11 p;
          p = port_out io 0x21 PIC0Offset p;
          p = port_out io 0xA1 PIC1Offset p;
          p = port_out io 0x21 0x04 p;
          p = port_out io 0xA1 0x02 p;
          p = port_out io 0x21 0x01 p;
          p = port_out io 0xA1 0x01 p;
          p = set_PIC0_mask io mask0 p
      in set_PIC1_mask io mask1 p)"

subsection \<open>Timer\<close>

definition set_pit_freq :: "'p port_io \<Rightarrow> nat \<Rightarrow> 'p \<Rightarrow> 'p option" where
  "set_pit_freq io frequency p =
     (if frequency = 0 then None
      else let x = (of_nat (1193182 div frequency) :: u16);
               x = (if 1193182 mod frequency > frequency div 2 then x + 1 else x);
               p = port_out io 0x40 (ucast (x AND 0x00ff)) p
           in Some (port_out io 0x40 (ucast (x div 0x0100)) p))"

subsection \<open>Speaker\<close>

record speaker =
  sp_div :: u16
  sp_freq :: u32
  get_freq :: int

definition pcspk_io_read :: "speaker \<Rightarrow> int" where
  "pcspk_io_read s = uint (sp_div s)"

definition pcspk_io_write :: "'p port_io \<Rightarrow> u8 \<Rightarrow> speaker \<times> 'p \<Rightarrow> int \<times> speaker \<times> 'p" where
  "pcspk_io_write io payload = (\<lambda>(s, p).
     let s = s\<lparr>sp_freq := sp_freq s * 0x100 + ucast payload, get_freq := get_freq s - 1\<rparr> in
     if get_freq s = 0 then
       let s = s\<lparr>get_freq := 4\<rparr> in
       if sp_freq s = 0 then
         let (v, p) = port_in io 0x61 p in
         (0, s\<lparr>sp_div := 0\<rparr>, port_out io 0x61 (v AND 0b11111100) p)
       else
         let p = port_out io 0x43 0xb6 p;
             d = (ucast (1193180 div sp_freq s) :: u16);
             p = port_out io 0x42 (ucast (d AND 0xff)) p;
             p = port_out io 0x42 (ucast (drop_bit 8 (d AND 0xff00))) p;
             (v, p) = port_in io 0x61 p;
             p = port_out io 0x61 (v OR 0b00000011) p
         in (0, s\<lparr>sp_div := d, sp_freq := 0\<rparr>, p)
     else (-1, s, p))"

definition pcspk_io_wrapper :: "'p port_io \<Rightarrow> (speaker \<times> 'p) io_wrapper" where
  "pcspk_io_wrapper io unused0 unused1 type payload w =
     Some (if type = DF_READ then (pcspk_io_read (fst w), w)
           else if type = DF_WRITE then pcspk_io_write io payload w else (-1, w))"

definition init_pcspk :: "'w io_wrapper \<Rightarrow> 'w device_t list \<Rightarrow> 'w device_t list option" where
  "init_pcspk wrapper ds = kernel_add_device ''pcspkr'' 0 0 wrapper ds"

subsection \<open>Debug console\<close>

definition e9_io_read :: "'p port_io \<Rightarrow> 'p \<Rightarrow> int \<times> 'p" where
  "e9_io_read io p = (case port_in io 0xe9 p of (v, p) \<Rightarrow> (uint v, p))"

definition e9_io_write :: "'p port_io \<Rightarrow> u8 \<Rightarrow> 'p \<Rightarrow> int \<times> 'p" where
  "e9_io_write io payload p = (0, port_out io 0xe9 payload p)"

definition e9_io_wrapper :: "'p port_io \<Rightarrow> 'p io_wrapper" where
  "e9_io_wrapper io unused0 unused1 type payload p =
     Some (if type = DF_READ then e9_io_read io p
           else if type = DF_WRITE then e9_io_write io payload p else (-1, p))"

definition detect_e9 :: "'p port_io \<Rightarrow> 'p \<Rightarrow> bool \<times> 'p" where
  "detect_e9 io p = (case port_in io 0xe9 p of (v, p) \<Rightarrow> (v = 0xe9, p))"

definition init_e9 :: "'p port_io \<Rightarrow> 'w io_wrapper \<Rightarrow> 'w device_t list \<Rightarrow> 'p \<Rightarrow> ('w device_t list \<times> 'p) option" where
  "init_e9 io wrapper ds p =
     (case detect_e9 io p of (present, p) \<Rightarrow>
        if present then map_option (\<lambda>ds. (ds, p)) (kernel_add_device ''e9'' 0 0 wrapper ds) else Some (ds, p))"

subsection \<open>Serial ports\<close>

record com_device =
  com_exists :: bool
  data_reg :: u16
  int_reg :: u16
  fifo_reg :: u16
  line_ctrl_reg :: u16
  mdm_ctrl_reg :: u16
  line_stat_reg :: u16
  mdm_stat_reg :: u16
  scratch_reg :: u16

definition com_names :: "string list" where
  "com_names = [''com0'', ''com1'', ''com2'', ''com3'']"

definition com_ports :: "u16 list" where
  "com_ports = [0x3f8, 0x2f8, 0x3e8, 0x2e8]"

definition com_registers :: "u16 \<Rightarrow> com_device" where
  "com_registers port = \<lparr>com_exists = True, data_reg = port, int_reg = port + 1, fifo_reg = port + 2,
     line_ctrl_reg = port + 3, mdm_ctrl_reg = port + 4, line_stat_reg = port + 5, mdm_stat_reg = port + 6,
     scratch_reg = port + 7\<rparr>"

definition init_com_device :: "'p port_io \<Rightarrow> u16 \<Rightarrow> 'p \<Rightarrow> com_device \<times> 'p" where
  "init_com_device io port p =
     (let dev = com_registers port;
          p = port_out io (scratch_reg dev) 0x55 p;
          (v, p) = port_in io (scratch_reg dev) p;
          dev = (if v \<noteq> 0x55 then dev\<lparr>com_exists := False\<rparr> else dev);
          p = port_out io (scratch_reg dev) 0xaa p;
          (v, p) = port_in io (scratch_reg dev) p;
          dev = (if v \<noteq> 0xaa then dev\<lparr>com_exists := False\<rparr> else dev)
      in if \<not> com_exists dev then (dev, p)
         else
           let p = port_out io (int_reg dev) 0x00 p;
               p = port_out io (line_ctrl_reg dev) 0x80 p;
               p = port_out io (data_reg dev) 0x03 p;
               p = port_out io (int_reg dev) 0x00 p;
               p = port_out io (line_ctrl_reg dev) 0x03 p;
               p = port_out io (fifo_reg dev) 0xC7 p;
               p = port_out io (mdm_ctrl_reg dev) 0x0B p
           in (dev, p))"

text \<open>The loop that waits for the transmitter; \<open>None\<close> when it never becomes free.\<close>

partial_function (option) com_wait :: "'p port_io \<Rightarrow> u16 \<Rightarrow> 'p \<Rightarrow> 'p option" where
  "com_wait io reg p =
     (case port_in io reg p of (v, p) \<Rightarrow> if v AND 0x20 = 0 then com_wait io reg p else Some p)"

declare com_wait.simps [code]

definition com_io_wrapper :: "'p port_io \<Rightarrow> com_device list \<Rightarrow> 'p io_wrapper" where
  "com_io_wrapper io devices dev loc type payload p = do {
     d \<leftarrow> arr_get devices dev;
     if type = DF_READ then
       (case port_in io (line_stat_reg d) p of (v, p) \<Rightarrow>
          if v AND 0x01 = 0 then Some (IO_NOT_READY, p)
          else case port_in io (data_reg d) p of (v, p) \<Rightarrow> Some (uint v, p))
     else if type = DF_WRITE then do {
       p \<leftarrow> com_wait io (line_stat_reg d) p;
       Some (0, port_out io (data_reg d) payload p) }
     else None }"

text \<open>
  The loops of \<open>init_com\<close>: \<open>i\<close> is the number of the next device and the list holds the ports that have
  not been tried.
\<close>

record ('p, 'w) com_init =
  ci_ports :: 'p
  ci_devices :: "com_device list"
  ci_list :: "'w device_t list"
  ci_console :: console

fun init_com_loop :: "'p port_io \<Rightarrow> 'w io_wrapper \<Rightarrow> nat \<Rightarrow> u16 list \<Rightarrow> ('p, 'w) com_init \<Rightarrow> ('p, 'w) com_init option" where
  "init_com_loop io wrapper i [] s = Some s"
| "init_com_loop io wrapper i (port # rest) s = do {
     let (d, p) = init_com_device io port (ci_ports s);
     ds \<leftarrow> arr_set (ci_devices s) i d;
     let s = s\<lparr>ci_ports := p, ci_devices := ds\<rparr>;
     if \<not> com_exists d then init_com_loop io wrapper i rest s
     else do {
       l \<leftarrow> kernel_add_device (com_names ! i) i 0 wrapper (ci_list s);
       c \<leftarrow> kputs (0x0a # clit ''Initialised '') (ci_console s);
       c \<leftarrow> kputs (clit (com_names ! i)) c;
       init_com_loop io wrapper (Suc i) rest (s\<lparr>ci_list := l, ci_console := c\<rparr>) } }"

definition init_com :: "'p port_io \<Rightarrow> 'w io_wrapper \<Rightarrow> ('p, 'w) com_init \<Rightarrow> ('p, 'w) com_init option" where
  "init_com io wrapper s = do {
     c \<leftarrow> kputs (0x0a # clit ''Initialising COM device driver...'') (ci_console s);
     init_com_loop io wrapper 0 com_ports (s\<lparr>ci_console := c\<rparr>) }"

lemma u16_bytes:
  assumes "x < 2 ^ 16"
  shows "ucast (of_nat x AND 0x00ff :: u16) = (of_nat (x mod 256) :: u8)" "ucast (of_nat x div 0x0100 :: u16) = (of_nat (x div 256) :: u8)"
proof -
  have "ucast (w AND mask 8) = (ucast w :: u8)" for w :: u16
    by (intro bit_word_eqI) (auto simp add: bit_and_iff bit_unsigned_iff bit_mask_iff)
  then have "ucast (w AND 0xff) = (ucast w :: u8)" for w :: u16 by (simp add: mask_eq_exp_minus_1)
  moreover have "ucast (of_nat x :: u16) = (of_nat (x mod 256) :: u8)"
    using assms by (simp add: unsigned_of_nat take_bit_nat_eq_self word_of_nat_eq_iff take_bit_eq_mod)
  ultimately show "ucast (of_nat x AND 0x00ff :: u16) = (of_nat (x mod 256) :: u8)" by simp
  have "unat (of_nat x :: u16) = x" using assms by (simp add: unat_of_nat take_bit_nat_eq_self)
  then have "unat (of_nat x div 0x0100 :: u16) = x div 256" by (simp add: unat_div)
  then show "ucast (of_nat x div 0x0100 :: u16) = (of_nat (x div 256) :: u8)" by (metis Word.of_nat_unat)
qed

subsection \<open>The timer runs at the nearest frequency\<close>

text \<open>
  The timer: for every frequency from 19 Hz on, the two bytes sent to the timer, low byte first, form
  the divisor nearest to the quotient of the oscillator frequency 1193182 Hz and the requested frequency.
\<close>

lemma pit_divisor_nearest:
  assumes "19 \<le> f"
  shows "\<exists>x < 2 ^ 16. set_pit_freq io f p = Some (port_out io 0x40 (of_nat (x div 256)) (port_out io 0x40 (of_nat (x mod 256)) p))
    \<and> 2 * \<bar>1193182 - int (x * f)\<bar> \<le> int f"
proof -
  define q r where "q = 1193182 div f" and "r = 1193182 mod f"
  note qr = q_def r_def
  define x where "x = (if r > f div 2 then q + 1 else q)"
  have "q \<le> 1193182 div 19" unfolding q_def using assms by (intro div_le_mono2) auto
  then have x: "x < 2 ^ 16" by (simp add: x_def)
  have eq: "f * q + r = 1193182" "r < f" using assms by (simp_all add: qr)
  have "2 * \<bar>1193182 - int (x * f)\<bar> \<le> int f"
  proof (cases "r > f div 2")
    case True
    then have "x * f = 1193182 + (f - r)" using eq by (simp add: x_def algebra_simps)
    moreover have "2 * (f - r) \<le> f" using True eq(2) by linarith
    ultimately show ?thesis using eq(2) by simp
  next
    case False
    then have "x * f + r = 1193182" using eq by (simp add: x_def algebra_simps)
    then have "1193182 - int (x * f) = int r" by linarith
    moreover have "2 * r \<le> f" using False by linarith
    ultimately show ?thesis by simp
  qed
  moreover
  note bytes = u16_bytes [OF x]
  have "set_pit_freq io f p = Some (port_out io 0x40 (of_nat (x div 256)) (port_out io 0x40 (of_nat (x mod 256)) p))"
    using assms bytes unfolding set_pit_freq_def Let_def by (simp add: x_def add.commute split: if_splits flip: qr)
  ultimately show ?thesis using x by blast
qed

lemma pit_divisor_nearest_witness:
  "\<exists>x < 2 ^ 16. set_pit_freq \<lparr>port_in = (\<lambda>q p. (0, p)), port_out = (\<lambda>q v p. p @ [(q, v)])\<rparr> 4000 [] = Some [(0x40, of_nat (x mod 256)), (0x40, of_nat (x div 256))]
    \<and> 2 * \<bar>1193182 - int (x * 4000)\<bar> \<le> 4000"
  using pit_divisor_nearest [of 4000 "\<lparr>port_in = (\<lambda>q p. (0, p)), port_out = (\<lambda>q v p. p @ [(q, v)])\<rparr>" "[]"] by simp

subsection \<open>The interrupt controllers keep their masks\<close>

text \<open>
  What the data sheet of the 8259 says: the byte 0x11 on the command port starts an initialisation in
  which the mask is cleared and three bytes are expected on the data port, the first of them the vector
  offset, of which the upper five bits count; otherwise the data port is the mask.
\<close>

datatype pic_phase = Ready | Icw2 | Icw3 | Icw4

record pic8259 =
  pic_phase :: pic_phase
  pic_offset :: u8
  pic_mask :: u8

definition pic_data :: "u8 \<Rightarrow> pic8259 \<Rightarrow> pic8259" where
  "pic_data v c =
     (case pic_phase c of
        Ready \<Rightarrow> c\<lparr>pic_mask := v\<rparr>
      | Icw2 \<Rightarrow> c\<lparr>pic_offset := v AND 0xf8, pic_phase := Icw3\<rparr>
      | Icw3 \<Rightarrow> c\<lparr>pic_phase := Icw4\<rparr>
      | Icw4 \<Rightarrow> c\<lparr>pic_phase := Ready\<rparr>)"

definition pic_laws :: "'p port_io \<Rightarrow> u16 \<Rightarrow> ('p \<Rightarrow> pic8259) \<Rightarrow> bool" where
  "pic_laws io port chip \<longleftrightarrow>
     (\<forall>p. chip (port_out io port 0x11 p) = (chip p)\<lparr>pic_phase := Icw2, pic_mask := 0\<rparr>)
     \<and> (\<forall>v p. chip (port_out io (port + 1) v p) = pic_data v (chip p))
     \<and> (\<forall>q v p. q \<noteq> port \<and> q \<noteq> port + 1 \<longrightarrow> chip (port_out io q v p) = chip p)
     \<and> (\<forall>q p. chip (snd (port_in io q p)) = chip p)
     \<and> (\<forall>p. pic_phase (chip p) = Ready \<longrightarrow> fst (port_in io (port + 1) p) = pic_mask (chip p))"

lemma pic_lawsD:
  assumes "pic_laws io port chip"
  shows "chip (port_out io port 0x11 p) = (chip p)\<lparr>pic_phase := Icw2, pic_mask := 0\<rparr>"
    and "chip (port_out io (port + 1) v p) = pic_data v (chip p)"
    and "q \<noteq> port \<Longrightarrow> q \<noteq> port + 1 \<Longrightarrow> chip (port_out io q v p) = chip p"
    and "port_in io q p = (v, p') \<Longrightarrow> chip p' = chip p"
    and "pic_phase (chip p) = Ready \<Longrightarrow> port_in io (port + 1) p = (v, p') \<Longrightarrow> v = pic_mask (chip p)"
  using assms by (auto simp: pic_laws_def) (metis fst_conv snd_conv)+

lemma remapped:
  assumes "pic_laws io 0x20 master" and "pic_laws io 0xA0 slave"
    and "pic_phase (master p) = Ready" and "pic_phase (slave p) = Ready"
  shows "master (map_PIC io a b p) = (master p)\<lparr>pic_offset := a AND 0xf8\<rparr>
    \<and> slave (map_PIC io a b p) = (slave p)\<lparr>pic_offset := b AND 0xf8\<rparr>"
proof

  obtain m0 p0 where p0: "port_in io 0x21 p = (m0, p0)" by fastforce
  obtain m1 p1 where p1: "port_in io 0xA1 p0 = (m1, p1)" by fastforce
  note m = pic_lawsD [OF assms(1), simplified] and s = pic_lawsD [OF assms(2), simplified]
  have masks: "m0 = pic_mask (master p)" "m1 = pic_mask (slave p)"
    using m(5) [OF assms(3) p0] s(5) [OF _ p1] s(4) [OF p0] assms(4) by simp_all
  have same: "master p1 = master p" "slave p1 = slave p"
    using m(4) [OF p0] m(4) [OF p1] s(4) [OF p0] s(4) [OF p1] by simp_all
  show "master (map_PIC io a b p) = (master p)\<lparr>pic_offset := a AND 0xf8\<rparr>"
    by (simp add: map_PIC_def get_PIC0_mask_def get_PIC1_mask_def set_PIC0_mask_def set_PIC1_mask_def p0 p1 m(1-3) same masks pic_data_def assms(3))
  show "slave (map_PIC io a b p) = (slave p)\<lparr>pic_offset := b AND 0xf8\<rparr>"
    by (simp add: map_PIC_def get_PIC0_mask_def get_PIC1_mask_def set_PIC0_mask_def set_PIC1_mask_def p0 p1 s(1-3) same masks pic_data_def assms(4))
qed

text \<open>
  Remapping the interrupt controllers: both are initialised with the offsets given, they are ready
  again afterwards, and exactly the interrupts that were masked before are masked after it, although the
  initialisation clears the masks.
\<close>

lemma map_PIC_keeps_masks:
  assumes "pic_laws io 0x20 master" and "pic_laws io 0xA0 slave"
    and "pic_phase (master p) = Ready" and "pic_phase (slave p) = Ready"
  shows "master (map_PIC io a b p) = (master p)\<lparr>pic_offset := a AND 0xf8\<rparr>
    \<and> slave (map_PIC io a b p) = (slave p)\<lparr>pic_offset := b AND 0xf8\<rparr>"
  by (rule remapped [OF assms])

definition two_pics :: "(pic8259 \<times> pic8259) port_io" where
  "two_pics = \<lparr>port_in = (\<lambda>q (a, b). (if q = 0x21 then pic_mask a else if q = 0xA1 then pic_mask b else 0, a, b)),
     port_out = (\<lambda>q v (a, b). if q = 0x20 then (if v = 0x11 then a\<lparr>pic_phase := Icw2, pic_mask := 0\<rparr> else a, b)
       else if q = 0x21 then (pic_data v a, b)
       else if q = 0xA0 then (a, if v = 0x11 then b\<lparr>pic_phase := Icw2, pic_mask := 0\<rparr> else b)
       else if q = 0xA1 then (a, pic_data v b) else (a, b))\<rparr>"

lemma two_pics_laws: "pic_laws two_pics 0x20 fst" "pic_laws two_pics 0xA0 snd"
  by (auto simp: pic_laws_def two_pics_def split: if_splits prod.splits)

lemma map_PIC_keeps_masks_witness:
  "map_PIC two_pics 0x20 0x28 (\<lparr>pic_phase = Ready, pic_offset = 8, pic_mask = 0xfc\<rparr>, \<lparr>pic_phase = Ready, pic_offset = 0x70, pic_mask = 0xff\<rparr>)
   = (\<lparr>pic_phase = Ready, pic_offset = 0x20, pic_mask = 0xfc\<rparr>, \<lparr>pic_phase = Ready, pic_offset = 0x28, pic_mask = 0xff\<rparr>)"
  using map_PIC_keeps_masks [OF two_pics_laws, of "(\<lparr>pic_phase = Ready, pic_offset = 8, pic_mask = 0xfc\<rparr>, \<lparr>pic_phase = Ready, pic_offset = 0x70, pic_mask = 0xff\<rparr>)" "0x20" "0x28"]
  by (simp add: prod_eq_iff)

subsection \<open>The speaker takes a frequency byte by byte\<close>

lemma speaker_step:
  "get_freq s \<noteq> 1 \<Longrightarrow> pcspk_io_write io b (s, p) = (-1, s\<lparr>sp_freq := sp_freq s * 0x100 + ucast b, get_freq := get_freq s - 1\<rparr>, p)"
  by (simp add: pcspk_io_write_def)

text \<open>
  A frequency is written as four bytes, the most significant first; the fourth write starts or stops the
  tone and the device is ready for the next frequency.
\<close>

lemma speaker_takes_frequency:
  assumes "sp_freq s = 0" and "get_freq s = 4"
    and "pcspk_io_write io b3 (s, p) = (r3, w3)" and "pcspk_io_write io b2 w3 = (r2, w2)"
    and "pcspk_io_write io b1 w2 = (r1, w1)" and "pcspk_io_write io b0 w1 = (r0, s', p')"
    and "f = ((ucast b3 * 0x100 + ucast b2) * 0x100 + ucast b1) * 0x100 + ucast b0"
  shows "(r3, r2, r1, r0) = (-1, -1, -1, 0)"
    and "s' = \<lparr>sp_div = (if f = 0 then 0 else ucast ((1193180 :: u32) div f)), sp_freq = 0, get_freq = 4\<rparr>"
  using assms by (auto simp: speaker_step pcspk_io_write_def [of io b0] Let_def split: prod.splits if_splits)

subsection \<open>Waiting for the transmitter\<close>

primrec polled :: "'p port_io \<Rightarrow> u16 \<Rightarrow> nat \<Rightarrow> 'p \<Rightarrow> 'p" where
  "polled io reg 0 p = p"
| "polled io reg (Suc n) p = polled io reg n (snd (port_in io reg p))"

definition busy :: "'p port_io \<Rightarrow> u16 \<Rightarrow> nat \<Rightarrow> 'p \<Rightarrow> bool" where
  "busy io reg n p \<longleftrightarrow> fst (port_in io reg (polled io reg n p)) AND 0x20 = 0"

lemma busy_Suc: "busy io reg (Suc n) p = busy io reg n (snd (port_in io reg p))"
  by (simp add: busy_def)

lemma com_wait_unfold:
  "com_wait io reg p = (if busy io reg 0 p then com_wait io reg (snd (port_in io reg p)) else Some (snd (port_in io reg p)))"
  by (subst com_wait.simps) (simp add: busy_def case_prod_beta)

lemma com_wait_Some: "(\<forall>i<n. busy io reg i p) \<Longrightarrow> \<not> busy io reg n p \<Longrightarrow> com_wait io reg p = Some (polled io reg (Suc n) p)"
proof (induction n arbitrary: p)
  case 0
  then show ?case by (simp add: com_wait_unfold [of io reg p])
next
  case (Suc n)
  have "busy io reg 0 p" "\<forall>i<n. busy io reg i (snd (port_in io reg p))" "\<not> busy io reg n (snd (port_in io reg p))"
    using Suc.prems by (auto simp flip: busy_Suc)
  with Suc.IH [of "snd (port_in io reg p)"] show ?case by (simp add: com_wait_unfold [of io reg p])
qed

lemma com_wait_returns:
  assumes "com_wait io reg p = Some q"
  shows "\<exists>n. \<not> busy io reg n p"
proof (rule com_wait.raw_induct [where P = "\<lambda>io reg p q. \<exists>n. \<not> busy io reg n p", OF _ assms])
  fix f and io :: "'a port_io" and reg p q
  assume IH: "\<And>io reg p q. f io reg p = Some q \<Longrightarrow> \<exists>n. \<not> busy io reg n p"
    and body: "(case port_in io reg p of (v, p) \<Rightarrow> if v AND 0x20 = 0 then f io reg p else Some p) = Some q"
  show "\<exists>n. \<not> busy io reg n p"
  proof (cases "busy io reg 0 p")
    case True
    then have "f io reg (snd (port_in io reg p)) = Some q" using body by (simp add: busy_def case_prod_beta)
    then obtain n where "\<not> busy io reg n (snd (port_in io reg p))" using IH by blast
    then show ?thesis by (auto simp flip: busy_Suc)
  qed blast
qed

text \<open>
  C31. Writing to a serial port returns exactly when the transmitter becomes free: if the status register
  reports it free for the first time after \<open>n\<close> polls, the byte is sent then, once; if it never does,
  the kernel waits for ever.
\<close>

theorem com_write_returns_when_free:
  assumes "dev < length devices" and "reg = line_stat_reg (devices ! dev)"
  shows "((\<forall>i<n. busy io reg i p) \<and> \<not> busy io reg n p \<longrightarrow>
      com_io_wrapper io devices dev loc DF_WRITE b p = Some (0, port_out io (data_reg (devices ! dev)) b (polled io reg (Suc n) p)))
    \<and> ((\<forall>n. busy io reg n p) \<longrightarrow> com_io_wrapper io devices dev loc DF_WRITE b p = None)"
proof (intro conjI impI)
  assume "(\<forall>i<n. busy io reg i p) \<and> \<not> busy io reg n p"
  then show "com_io_wrapper io devices dev loc DF_WRITE b p = Some (0, port_out io (data_reg (devices ! dev)) b (polled io reg (Suc n) p))"
    using assms com_wait_Some [of n io reg p] by (simp add: com_io_wrapper_def)
next
  assume "\<forall>n. busy io reg n p"
  then have "com_wait io reg p = None" using com_wait_returns [of io reg p] by fastforce
  then show "com_io_wrapper io devices dev loc DF_WRITE b p = None"
    using assms by (simp add: com_io_wrapper_def)
qed

definition slow_uart :: "(nat \<times> u8 list) port_io" where
  "slow_uart = \<lparr>port_in = (\<lambda>q (n, out). if q = 0x3fd then (if n = 0 then 0x20 else 0, n - 1, out) else (0, n, out)),
     port_out = (\<lambda>q v (n, out). (n, if q = 0x3f8 then out @ [v] else out))\<rparr>"

theorem com_write_returns_when_free_witness:
  "com_io_wrapper slow_uart [com_registers 0x3f8] 0 0 DF_WRITE 0x41 (2, []) = Some (0, 0, [0x41])"
proof -
  have "busy slow_uart 0x3fd 0 (2, [])" "busy slow_uart 0x3fd 1 (2, [])" "\<not> busy slow_uart 0x3fd 2 (2, [])" by code_simp+
  moreover have "port_out slow_uart 0x3f8 0x41 (polled slow_uart 0x3fd (Suc 2) (2, [])) = (0, [0x41])" by code_simp
  moreover have "line_stat_reg (com_registers 0x3f8) = 0x3fd" "data_reg (com_registers 0x3f8) = 0x3f8" by code_simp+
  ultimately show ?thesis
    using com_write_returns_when_free [of 0 "[com_registers 0x3f8]" "0x3fd" 2 slow_uart "(2, [])" 0 "0x41"]
    by (auto dest!: less_2_cases)
qed

subsection \<open>Which serial ports there are\<close>

definition scratch_law :: "'p port_io \<Rightarrow> (u16 \<Rightarrow> bool) \<Rightarrow> bool" where
  "scratch_law io present \<longleftrightarrow>
     (\<forall>port \<in> set com_ports. \<forall>v p. fst (port_in io (port + 7) (port_out io (port + 7) v p)) = (if present port then v else 0xff))"

lemma init_com_device_present:
  assumes "scratch_law io present" and "port \<in> set com_ports"
  shows "\<exists>p'. init_com_device io port p = ((com_registers port)\<lparr>com_exists := present port\<rparr>, p')"
proof -
  have s: "fst (port_in io (port + 7) (port_out io (port + 7) v q)) = (if present port then v else 0xff)" for v q
    using assms by (auto simp: scratch_law_def)
  then show ?thesis
    by (auto simp: init_com_device_def Let_def com_registers_def case_prod_beta)
qed

lemma com_names_ok: "i < 4 \<Longrightarrow> length (com_names ! i) < 32 \<and> 0x48 \<notin> set (clit (com_names ! i))"
proof -
  assume "i < 4"
  then consider "i = 0" | "i = 1" | "i = 2" | "i = 3" by linarith
  then show ?thesis by cases (simp_all add: com_names_def clit_def)
qed

lemma init_com_loop_enumerates:
  assumes "scratch_law io present"
  shows "set rest \<subseteq> set com_ports \<Longrightarrow> i + length rest \<le> 4 \<Longrightarrow> length (ci_devices s) = 4 \<Longrightarrow> console_ok (ci_console s) \<Longrightarrow>
    \<exists>s'. init_com_loop io wrapper i rest s = Some s' \<and> console_ok (ci_console s') \<and> length (ci_devices s') = 4
     \<and> take (i + length (filter present rest)) (ci_devices s') = take i (ci_devices s) @ map com_registers (filter present rest)
     \<and> ci_list s' = ci_list s @ map (\<lambda>j. \<lparr>dev_name = com_names ! j, gp_value = j, dev_size = 0, dev_io = wrapper\<rparr>)
         [i..<i + length (filter present rest)]"
proof (induction rest arbitrary: i s)
  case (Cons port rest)
  obtain p' where p': "init_com_device io port (ci_ports s) = ((com_registers port)\<lparr>com_exists := present port\<rparr>, p')"
    using init_com_device_present [OF assms, of port "ci_ports s"] Cons.prems(1) by auto
  let ?d = "(com_registers port)\<lparr>com_exists := present port\<rparr>"
  let ?s = "s\<lparr>ci_ports := p', ci_devices := (ci_devices s)[i := ?d]\<rparr>"
  have i: "i < 4" using Cons.prems(2) by simp
  show ?case
  proof (cases "present port")
    case False
    then have "init_com_loop io wrapper i (port # rest) s = init_com_loop io wrapper i rest ?s"
      using Cons.prems(3) i by (simp add: p')
    with False Cons.IH [of i ?s] Cons.prems show ?thesis by simp
  next
    case True
    obtain c1 where c1: "kputs (0x0a # clit ''Initialised '') (ci_console s) = Some c1" "console_ok c1"
      using kputs_plain [OF Cons.prems(4), of "0x0a # clit ''Initialised ''"] by (auto simp: clit_def)
    obtain c2 where c2: "kputs (clit (com_names ! i)) c1 = Some c2" "console_ok c2"
      using kputs_plain [OF c1(2), of "clit (com_names ! i)"] com_names_ok [OF i] by auto
    let ?l = "ci_list s @ [\<lparr>dev_name = com_names ! i, gp_value = i, dev_size = 0, dev_io = wrapper\<rparr>]"
    have d: "?d = com_registers port" using True by (simp add: com_registers_def)
    have "init_com_loop io wrapper i (port # rest) s = init_com_loop io wrapper (Suc i) rest (?s\<lparr>ci_list := ?l, ci_console := c2\<rparr>)"
      using Cons.prems(3) i True com_names_ok [OF i] c1 c2 by (simp add: p' kernel_add_device_def)
    moreover have "take (Suc i) ((ci_devices s)[i := ?d]) = take i (ci_devices s) @ [com_registers port]"
      using Cons.prems(3) i d by (simp add: take_Suc_conv_app_nth)
    ultimately show ?thesis
      using True Cons.IH [of "Suc i" "?s\<lparr>ci_list := ?l, ci_console := c2\<rparr>"] Cons.prems c2 by (simp add: upt_conv_Cons del: upt_Suc init_com_loop.simps)
  qed
qed simp

text \<open>
  The serial ports are found: of the four addresses exactly those with a working scratch register
  become devices, numbered from \<open>com0\<close> without gaps in the order of the addresses, and each device has
  the registers of its port.
\<close>

lemma init_com_enumerates_ports:
  assumes "scratch_law io present" and "length (ci_devices s) = 4" and "console_ok (ci_console s)"
    and "found = filter present com_ports"
  shows "\<exists>s'. init_com io wrapper s = Some s' \<and> console_ok (ci_console s')
    \<and> take (length found) (ci_devices s') = map com_registers found
    \<and> ci_list s' = ci_list s @ map (\<lambda>j. \<lparr>dev_name = com_names ! j, gp_value = j, dev_size = 0, dev_io = wrapper\<rparr>) [0..<length found]"
proof -
  obtain c where c: "kputs (0x0a # clit ''Initialising COM device driver...'') (ci_console s) = Some c" "console_ok c"
    using kputs_plain [OF assms(3), of "0x0a # clit ''Initialising COM device driver...''"] by (auto simp: clit_def)
  have "length com_ports = 4" by (simp add: com_ports_def)
  then show ?thesis
    using init_com_loop_enumerates [OF assms(1), of com_ports 0 "s\<lparr>ci_console := c\<rparr>" wrapper] assms(2,4) c
    by (auto simp: init_com_def)
qed

definition two_uarts :: "(u16 \<Rightarrow> u8) port_io" where
  "two_uarts = \<lparr>port_in = (\<lambda>q m. (if q = 0x3ff \<or> q = 0x3ef then m q else 0xff, m)), port_out = (\<lambda>q v m. m(q := v))\<rparr>"

lemma two_uarts_law: "scratch_law two_uarts (\<lambda>port. port = 0x3f8 \<or> port = 0x3e8)"
  by (auto simp: scratch_law_def two_uarts_def com_ports_def)

lemma init_com_enumerates_ports_witness:
  "\<exists>s'. init_com two_uarts (null_io_wrapper :: unit io_wrapper) \<lparr>ci_ports = (\<lambda>_. 0), ci_devices = replicate 4 (com_registers 0), ci_list = ([] :: unit device_t list),
       ci_console = switch_tty 0 (init_tty (bss_console (\<lambda>_. 0)))\<rparr> = Some s'
     \<and> take 2 (ci_devices s') = [com_registers 0x3f8, com_registers 0x3e8] \<and> map dev_name (ci_list s') = [''com0'', ''com1'']"
proof -
  let ?s = "\<lparr>ci_ports = (\<lambda>_. 0), ci_devices = replicate 4 (com_registers 0), ci_list = ([] :: unit device_t list),
       ci_console = switch_tty 0 (init_tty (bss_console (\<lambda>_. 0)))\<rparr>"
  have "[0x3f8, 0x3e8] = filter (\<lambda>port. port = 0x3f8 \<or> port = 0x3e8) com_ports" by (simp add: com_ports_def)
  from init_com_enumerates_ports [OF two_uarts_law _ _ this, of ?s "null_io_wrapper :: unit io_wrapper"] console_ok_boot [of "\<lambda>_. 0"]
  obtain s' where "init_com two_uarts (null_io_wrapper :: unit io_wrapper) ?s = Some s'" "take (Suc (Suc 0)) (ci_devices s') = [com_registers 0x3f8, com_registers 0x3e8]"
    "map dev_name (ci_list s') = [''com0'', ''com1'']"
    by (auto simp: com_names_def)
  then show ?thesis by (intro exI [of _ s']) (simp add: numeral_2_eq_2)
qed

end
