(* ===== verification/Exceptions.thy ===== *)
theory Exceptions
  imports Syscalls Ports
begin

text \<open>
  Exceptions of the processor (\<open>drivers/exceptions.c\<close>), the panic (\<open>drivers/panic.c\<close>) and the stack trace it
  prints (\<open>lib/trace.c\<close>).

  \<open>symlist\<close> is the symbol table that the build makes from the linked kernel, a parameter.  A handler that
  ends with the processor halted has the outcome \<open>Halted\<close>; otherwise the scheduler has chosen a task.  The
  value of \<open>last_syscall\<close> is an argument.
\<close>

datatype handled = Halted | Scheduled sched_outcome

definition kprint :: "int \<Rightarrow> string \<Rightarrow> karg list \<Rightarrow> 'w kernel \<Rightarrow> 'w kernel option" where
  "kprint type fmt args k = map_option (\<lambda>c. k\<lparr>kconsole := c\<rparr>) (kvprint type (clit fmt) args (kconsole k))"

abbreviation (input) hex :: "u32 \<Rightarrow> karg" where "hex x \<equiv> ArgUint (unat x)"
abbreviation (input) KPRN_WARN :: int where "KPRN_WARN \<equiv> 1"
abbreviation (input) KPRN_PANIC :: int where "KPRN_PANIC \<equiv> 4"

subsection \<open>Stack traces\<close>

text \<open>
  The first symbol at or above the address, and the one in front of it; running past the table or in front
  of it is a fault.
\<close>

definition trace_address :: "(nat \<times> string) list \<Rightarrow> nat \<Rightarrow> (nat \<times> string) option" where
  "trace_address symlist addr =
     (case first_index (\<lambda>(a, _). addr \<le> a) symlist of
        None \<Rightarrow> None
      | Some 0 \<Rightarrow> None
      | Some (Suc i) \<Rightarrow> (case symlist ! i of (a, name) \<Rightarrow> Some (addr - a, name)))"

partial_function (option) print_frames :: "(nat \<times> string) list \<Rightarrow> int \<Rightarrow> nat \<Rightarrow> 'w kernel \<Rightarrow> 'w kernel option" where
  "print_frames symlist type base_ptr k =
     (let old_bp = rd_le 4 (heap_mem (kernel_heap k)) base_ptr;
          ret_addr = rd_le 4 (heap_mem (kernel_heap k)) (base_ptr + 4) in
      if ret_addr = 0 then Some k
      else do {
        (off, name) \<leftarrow> trace_address symlist ret_addr;
        k \<leftarrow> kprint type ''  [%x] <%s+%x>'' [ArgUint ret_addr, ArgStr (Some (clit name)), ArgUint off] k;
        if old_bp = 0 then Some k else print_frames symlist type old_bp k })"

declare print_frames.simps [code]

text \<open>\<open>current_ebp\<close> is the frame pointer of the running function, used when the caller gives none.\<close>

definition print_stacktrace :: "(nat \<times> string) list \<Rightarrow> nat \<Rightarrow> int \<Rightarrow> nat \<Rightarrow> 'w kernel \<Rightarrow> 'w kernel option" where
  "print_stacktrace symlist current_ebp type base_ptr k = do {
     k \<leftarrow> kprint type ''Stacktrace:'' [] k;
     print_frames symlist type (if base_ptr = 0 then current_ebp else base_ptr) k }"

subsection \<open>Panic\<close>

definition print_regs :: "gpr_state \<Rightarrow> 'w kernel \<Rightarrow> 'w kernel option" where
  "print_regs regs k = do {
     k \<leftarrow> kprint KPRN_PANIC ''CPU state at fault:'' [] k;
     k \<leftarrow> kprint KPRN_PANIC ''  EAX: %8x  EBX: %8x  ECX: %8x  EDX: %8x'' [hex (eax regs), hex (ebx regs), hex (ecx regs), hex (edx regs)] k;
     k \<leftarrow> kprint KPRN_PANIC ''  ESI: %8x  EDI: %8x  EBP: %8x  ESP: %8x'' [hex (esi regs), hex (edi regs), hex (ebp regs), hex (esp regs)] k;
     k \<leftarrow> kprint KPRN_PANIC ''  EIP: %8x  EFLAGS: %8x'' [hex (eip regs), hex (eflags regs)] k;
     kprint KPRN_PANIC ''  CS: %4x SS: %4x DS: %4x ES: %4x FS: %4x GS: %4x''
       [hex (seg_cs regs), hex (seg_ss regs), hex (seg_ds regs), hex (seg_es regs), hex (seg_fs regs), hex (seg_gs regs)] k }"

definition panic ::
  "(nat \<times> string) list \<Rightarrow> nat \<Rightarrow> gpr_state option \<Rightarrow> bool \<Rightarrow> string \<Rightarrow> karg list \<Rightarrow> 'w kernel \<Rightarrow> (handled \<times> 'w kernel) option" where
  "panic symlist current_ebp regs print_trace fmt args k = do {
     k \<leftarrow> kprint KPRN_PANIC ''Kernel panic:'' [] k;
     k \<leftarrow> kprint KPRN_PANIC fmt args k;
     k \<leftarrow> (case regs of Some r \<Rightarrow> print_regs r k | None \<Rightarrow> Some k);
     k \<leftarrow> (if print_trace then
             print_stacktrace symlist current_ebp KPRN_PANIC (case regs of Some r \<Rightarrow> unat (ebp r) | None \<Rightarrow> 0) k
           else Some k);
     Some (Halted, k) }"

subsection \<open>Exceptions\<close>

definition exception_names :: "string list" where
  "exception_names = [''Division by 0'', ''Debug'', ''NMI'', ''Breakpoint'', ''Overflow'', ''Bound range exceeded'',
     ''Invalid opcode'', ''Device not available'', ''Double fault'', ''???'', ''Invalid TSS'', ''Segment not present'',
     ''Stack-segment fault'', ''General protection fault'', ''Page fault'', ''???'', ''x87 exception'', ''Alignment check'',
     ''Machine check'', ''SIMD exception'', ''Virtualisation'', ''???'', ''???'', ''???'', ''???'', ''???'', ''???'', ''???'',
     ''???'', ''???'', ''Security'']"

text \<open>The task that runs is ended, so the scheduler always chooses another one.\<close>

definition exception_handler ::
  "(nat \<times> string) list \<Rightarrow> nat \<Rightarrow> u32 \<Rightarrow> nat \<Rightarrow> gpr_state \<Rightarrow> bool \<Rightarrow> u32 \<Rightarrow> 'w kernel \<Rightarrow> (handled \<times> 'w kernel) option" where
  "exception_handler symlist current_ebp last_syscall exception_number state has_error_code error_code k = do {
     name \<leftarrow> arr_get exception_names exception_number;
     k \<leftarrow> kprint KPRN_WARN ''%s occurred at: %x:%x'' [ArgStr (Some (clit name)), hex (seg_cs state), hex (eip state)] k;
     k \<leftarrow> (if has_error_code then kprint KPRN_WARN ''Error code: %x'' [hex error_code] k else Some k);
     if seg_cs state = 0x08 \<or> seg_cs state = 0x19
     then panic symlist current_ebp (Some state) True ''In-kernel exception, system halted.'' [] (k\<lparr>kconsole := switch_tty 0 (kconsole k)\<rparr>)
     else do {
       k \<leftarrow> kprint KPRN_WARN ''Last syscall: %x'' [hex last_syscall] k;
       k \<leftarrow> kprint KPRN_WARN ''Task terminated.'' [] k;
       (r, k) \<leftarrow> task_quit (current_task k) (-1) k;
       (case r of None \<Rightarrow> None | Some r \<Rightarrow> Some (Scheduled r, k)) } }"

subsection \<open>The messages can be printed\<close>

definition printable_text :: "int \<Rightarrow> string \<Rightarrow> karg list \<Rightarrow> bool" where
  "printable_text type fmt args \<longleftrightarrow> (\<exists>s. render type (clit fmt) args = Some s \<and> 0x48 \<notin> set s)"

lemma kprint_prints:
  assumes "printable_text type fmt args" and "console_ok (kconsole k)"
  shows "\<exists>c. kprint type fmt args k = Some (k\<lparr>kconsole := c\<rparr>) \<and> console_ok c"
proof -
  obtain s where s: "render type (clit fmt) args = Some s" "0x48 \<notin> set s" using assms(1) by (auto simp: printable_text_def)
  have "step_ok 0 (kconsole k) (tty_knputs (take 255 s) 0 (kconsole k))"
    using tty_knputs_plain [OF assms(2), of 0 "take 255 s"] s(2) by (auto dest: in_set_takeD)
  then show ?thesis
    by (auto simp: kprint_def kvprint_def kvprint_buf_render [OF s(1)] kprint_buf_flush_def step_ok_def)
qed

lemma hex_digit_plain: "d < 16 \<Longrightarrow> hex_digit d \<noteq> 0x48"
proof -
  assume "d < 16"
  then have "hex_digit d \<in> set hex_to_ascii_tab" unfolding hex_digit_def by (intro nth_mem) (simp add: hex_to_ascii_tab_def)
  then show ?thesis by (auto simp: hex_to_ascii_tab_def)
qed

lemma hex_plain: "0x48 \<notin> set (hex_text x)"
proof -
  have "hex_digit d \<noteq> 0x48" if "d \<in> set (numeral_digits 16 x)" for d
    using numeral_digits_less [OF _ that] by (simp add: hex_digit_plain)
  then show ?thesis by (cases "x = 0") (auto simp: hex_text_def eq_commute [of "0x48"])
qed

lemma padded_hex_plain: "0x48 \<notin> set (padded_hex x pad)"
proof -
  have "hex_digit d \<noteq> 0x48" if "d \<in> set (numeral_digits 16 x)" for d
    using numeral_digits_less [OF _ that] by (simp add: hex_digit_plain)
  then have "0x48 \<notin> set (replicate n 0x30 @ map hex_digit (numeral_digits 16 x))" for n by force
  then show ?thesis using hex_plain [of x] by (auto simp: padded_hex_def dest!: in_set_dropD)
qed

lemma unat_u32 [simp]: "unat (x :: u32) < 4294967296"
  using unsigned_less [of x, where 'a = nat] by simp

lemmas printing = printable_text_def render_def render_loop.simps clit_def conv_text_def is_digit_def padded_hex_plain header_text_def s32_def


lemma exception_names_plain: "list_all (\<lambda>s. list_all (\<lambda>ch :: u8. ch \<noteq> 0 \<and> ch \<noteq> 0x48) (map of_char s)) exception_names"
  by code_simp

lemma exception_name:
  assumes "n < 31"
  shows "\<exists>name. arr_get exception_names n = Some name \<and> printable_text 1 ''%s occurred at: %x:%x'' [ArgStr (Some (clit name)), hex x, hex y]"
proof -
  have len: "n < length exception_names" using assms by (simp add: exception_names_def)
  let ?s = "map of_char (exception_names ! n) :: u8 list"
  have s: "list_all (\<lambda>ch. ch \<noteq> 0 \<and> ch \<noteq> 0x48) ?s" using exception_names_plain len unfolding list_all_length by blast
  have t: "takeWhile (\<lambda>ch. ch \<noteq> 0) (?s @ [0]) = ?s" using s by (auto simp: list_all_iff takeWhile_append)
  define name where "name = ?s @ [0]"
  have n: "0 \<in> set name" "takeWhile (\<lambda>ch. ch \<noteq> 0) name = ?s" "clit (exception_names ! n) = name" using t by (auto simp: name_def clit_def)
  moreover have "0x48 \<notin> set ?s" using s by (auto simp: list_all_iff)
  ultimately have "printable_text 1 ''%s occurred at: %x:%x'' [ArgStr (Some name), hex x, hex y]"
    by (simp add: printing)
  then show ?thesis using len n(3) by simp
qed

subsection \<open>An exception ends the task\<close>







subsection \<open>An exception in the kernel halts it\<close>

lemma trace_address_finds:
  assumes "trace_address symlist addr = Some (off, name)"
  shows "\<exists>a. (a, name) \<in> set symlist \<and> a < addr \<and> off = addr - a"
proof -
  obtain i where i: "first_index (\<lambda>(a, _). addr \<le> a) symlist = Some (Suc i)" and s: "case symlist ! i of (a, n) \<Rightarrow> n = name \<and> off = addr - a"
    using assms by (auto simp: trace_address_def split: option.splits nat.splits prod.splits)
  obtain a where a: "symlist ! i = (a, name)" "off = addr - a" using s by (auto split: prod.splits)
  have "i < length symlist" "\<not> addr \<le> a" using i a(1) by (auto simp: first_index_Some_iff)
  then show ?thesis using a nth_mem [of i symlist] by (intro exI [of _ a]) auto
qed

lemma printable_panic:
  "printable_text 4 ''Kernel panic:'' []"
  "printable_text 4 ''In-kernel exception, system halted.'' []"
  "printable_text 4 ''CPU state at fault:'' []"
  "printable_text 4 ''Stacktrace:'' []"
  "printable_text 4 ''  EIP: %8x  EFLAGS: %8x'' [hex x, hex y]"
  by (simp_all add: printing)

lemma printable_registers:
  "printable_text 4 ''  EAX: %8x  EBX: %8x  ECX: %8x  EDX: %8x'' [hex x1, hex x2, hex x3, hex x4]"
  "printable_text 4 ''  ESI: %8x  EDI: %8x  EBP: %8x  ESP: %8x'' [hex x1, hex x2, hex x3, hex x4]"
  by (simp_all add: printing)

lemma printable_segments:
  "printable_text 4 ''  CS: %4x SS: %4x DS: %4x ES: %4x FS: %4x GS: %4x'' [hex x1, hex x2, hex x3, hex x4, hex x5, hex x6]"
  by (simp add: printing)

text \<open>What a sequence of messages leaves: the kernel with another picture on its terminals.\<close>

definition printed :: "'w kernel \<Rightarrow> 'w kernel option \<Rightarrow> bool" where
  "printed k r \<longleftrightarrow> (\<exists>c. r = Some (k\<lparr>kconsole := c\<rparr>) \<and> console_ok c)"

lemma printedI: "printable_text type fmt args \<Longrightarrow> console_ok (kconsole k) \<Longrightarrow> printed k (kprint type fmt args k)"
  using kprint_prints by (fastforce simp: printed_def)

lemma printed_bind:
  assumes "printed k r" and "\<And>c. console_ok c \<Longrightarrow> printed (k\<lparr>kconsole := c\<rparr>) (f (k\<lparr>kconsole := c\<rparr>))"
  shows "printed k (Option.bind r f)"
  using assms by (fastforce simp: printed_def)

lemma print_regs_printed: "console_ok (kconsole k) \<Longrightarrow> printed k (print_regs regs k)"
  unfolding print_regs_def
  by (intro printed_bind printedI) (simp_all add: printable_panic printable_registers printable_segments)

lemma print_stacktrace_printed:
  assumes "console_ok (kconsole k)" and "b \<noteq> 0" and "rd_le 4 (heap_mem (kernel_heap k)) (b + 4) = 0"
  shows "printed k (print_stacktrace symlist frame 4 b k)"
  unfolding print_stacktrace_def
  by (intro printed_bind printedI) (use assms in \<open>auto simp: printable_panic printed_def print_frames.simps [of symlist]\<close>)

text \<open>
  An exception in kernel code: the first terminal is shown, registers and stack are printed, and the
  processor halts; no task runs again.
\<close>

lemma kernel_exception_halts:
  assumes "n < 31" and "seg_cs state = 0x08 \<or> seg_cs state = 0x19" and "console_ok (kconsole k)"
    and "ebp state \<noteq> 0" and "rd_le 4 (heap_mem (kernel_heap k)) (unat (ebp state) + 4) = 0"
  shows "\<exists>k'. exception_handler symlist frame last_sys n state False code k = Some (Halted, k') \<and> task_table k' = task_table k"
proof -
  obtain name where name: "arr_get exception_names n = Some name"
      "printable_text 1 ''%s occurred at: %x:%x'' [ArgStr (Some (clit name)), hex (seg_cs state), hex (eip state)]"
    using exception_name [OF assms(1)] by blast
  obtain c where c: "kprint 1 ''%s occurred at: %x:%x'' [ArgStr (Some (clit name)), hex (seg_cs state), hex (eip state)] k = Some (k\<lparr>kconsole := c\<rparr>)" "console_ok c"
    using kprint_prints [OF name(2) assms(3)] by blast
  let ?k = "k\<lparr>kconsole := switch_tty 0 c\<rparr>"
  have "console_ok (kconsole ?k)" using c(2) by (auto simp: console_ok_def switch_tty_def tty_refresh_def)
  then have "printed ?k (do { k \<leftarrow> kprint 4 ''Kernel panic:'' [] ?k; k \<leftarrow> kprint 4 ''In-kernel exception, system halted.'' [] k;
      k \<leftarrow> print_regs state k; print_stacktrace symlist frame 4 (unat (ebp state)) k })"
    using assms(4,5) by (intro printed_bind printedI print_regs_printed print_stacktrace_printed) (simp_all add: printable_panic unat_eq_0)
  then show ?thesis
    using name(1) c(1) assms(2) by (auto simp: exception_handler_def panic_def printed_def bind_eq_Some_conv)
qed

end
