(* ===== verification/Boot.thy ===== *)
theory Boot
  imports Ports Memory
begin

text \<open>
  Steps of the boot sequence that are components of their own: real mode calls (\<open>kernel/src/lib/real.c\<close>) and the
  registration of the terminals as devices (\<open>kernel/src/drivers/tty/tty.c\<close>).

  The code at the address the trampoline is copied to is assembly: \<open>trampoline\<close> is what a call of it with
  the interrupt number and registers at hand does.  So are \<open>escalate\<close> and \<open>deescalate\<close>, the privilege
  changes of \<open>idt.c\<close>; the first reports whether it changed anything.
\<close>

definition init_realmode :: "u8 list \<Rightarrow> memory \<Rightarrow> memory" where
  "init_realmode rm_code m = put_bytes rm_code 0xf000 m"

definition rm_int :: "'p port_io \<Rightarrow> ('p \<Rightarrow> bool \<times> 'p) \<Rightarrow> ('p \<Rightarrow> 'p) \<Rightarrow> ('p \<Rightarrow> 'p) \<Rightarrow> 'p \<Rightarrow> 'p" where
  "rm_int io escalate deescalate trampoline p =
     (let (r, p) = escalate p;
          p = map_PIC io 0x08 0x70 p;
          p = trampoline p;
          p = map_PIC io 0x20 0x28 p
      in if r then deescalate p else p)"

definition tty_names :: "string list" where
  "tty_names = [''tty0'', ''tty1'', ''tty2'', ''tty3'', ''tty4'', ''tty5'', ''tty6'', ''tty7'', ''tty8'', ''tty9'', ''tty10'', ''tty11'']"

fun init_tty_loop :: "'w io_wrapper \<Rightarrow> nat list \<Rightarrow> 'w device_t list \<Rightarrow> 'w device_t list option" where
  "init_tty_loop wrapper [] ds = Some ds"
| "init_tty_loop wrapper (i # is) ds = do {
     ds \<leftarrow> kernel_add_device (tty_names ! i) i 0 wrapper ds;
     init_tty_loop wrapper is ds }"

definition init_tty_drv :: "'w io_wrapper \<Rightarrow> 'w device_t list \<Rightarrow> 'w device_t list option" where
  "init_tty_drv wrapper ds = init_tty_loop wrapper [0..<KRNL_TTY_COUNT] ds"

text \<open>
  A real mode call leaves the interrupt controllers as the kernel needs them: whatever the BIOS code does,
  as long as it leaves both chips in operation with the masks it found, the interrupts come at the kernel's
  vectors again and the same ones are masked.
\<close>

lemma rm_int_restores_vectors:
  assumes "pic_laws io 0x20 master" and "pic_laws io 0xA0 slave" and "pic_phase (master p) = Ready" and "pic_phase (slave p) = Ready"
    and "\<And>p. master (snd (escalate p)) = master p \<and> slave (snd (escalate p)) = slave p"
    and "\<And>p. master (deescalate p) = master p \<and> slave (deescalate p) = slave p"
    and "\<And>p. pic_phase (master (trampoline p)) = pic_phase (master p) \<and> pic_mask (master (trampoline p)) = pic_mask (master p)"
    and "\<And>p. pic_phase (slave (trampoline p)) = pic_phase (slave p) \<and> pic_mask (slave (trampoline p)) = pic_mask (slave p)"
  shows "master (rm_int io escalate deescalate trampoline p) = \<lparr>pic_phase = Ready, pic_offset = 0x20, pic_mask = pic_mask (master p)\<rparr>
    \<and> slave (rm_int io escalate deescalate trampoline p) = \<lparr>pic_phase = Ready, pic_offset = 0x28, pic_mask = pic_mask (slave p)\<rparr>"
proof -
  obtain r p1 where p1: "escalate p = (r, p1)" by fastforce
  have m1: "master p1 = master p" "slave p1 = slave p" using assms(5) [of p] p1 by simp_all
  let ?p2 = "map_PIC io 0x08 0x70 p1" and ?p3 = "trampoline (map_PIC io 0x08 0x70 p1)"
  have 2: "pic_phase (master ?p2) = Ready" "pic_mask (master ?p2) = pic_mask (master p)" "pic_phase (slave ?p2) = Ready" "pic_mask (slave ?p2) = pic_mask (slave p)"
    using remapped [OF assms(1,2), of p1 "0x08" "0x70"] m1 assms(3,4) by simp_all
  have 3: "pic_phase (master ?p3) = Ready" "pic_mask (master ?p3) = pic_mask (master p)" "pic_phase (slave ?p3) = Ready" "pic_mask (slave ?p3) = pic_mask (slave p)"
    using 2 assms(7,8) [of ?p2] by simp_all
  have "master (map_PIC io 0x20 0x28 ?p3) = \<lparr>pic_phase = Ready, pic_offset = 0x20, pic_mask = pic_mask (master p)\<rparr>"
    "slave (map_PIC io 0x20 0x28 ?p3) = \<lparr>pic_phase = Ready, pic_offset = 0x28, pic_mask = pic_mask (slave p)\<rparr>"
    using remapped [OF assms(1,2) 3(1,3), of "0x20" "0x28"] 3 by (simp_all add: pic8259.equality)
  then show ?thesis using assms(6) by (simp add: rm_int_def p1 Let_def)
qed

lemma init_tty_drv_registers:
  "\<exists>ds'. init_tty_drv wrapper ds = Some ds' \<and> ds' = ds @ map (\<lambda>i. \<lparr>dev_name = tty_names ! i, gp_value = i, dev_size = 0, dev_io = wrapper\<rparr>) [0..<KRNL_TTY_COUNT]"
proof -
  have "init_tty_loop wrapper is ds = Some (ds @ map (\<lambda>i. \<lparr>dev_name = tty_names ! i, gp_value = i, dev_size = 0, dev_io = wrapper\<rparr>) is)"
    if "\<forall>i \<in> set is. length (tty_names ! i) < 32" for "is" ds
    using that by (induction "is" arbitrary: ds) (simp_all add: kernel_add_device_def)
  moreover have "\<forall>i \<in> set [0..<KRNL_TTY_COUNT]. length (tty_names ! i) < 32"
    by (auto simp: tty_names_def nth_Cons split: nat.splits)
  ultimately show ?thesis unfolding init_tty_drv_def by blast
qed

end
