(* ===== verification/Echfs_Access.thy ===== *)
theory Echfs_Access
  imports Echfs_Open
begin

text \<open>
  The remaining accessors of \<open>kernel/src/fs/echfs.c\<close>, which no operation of the file system calls at
  present: numbers, strings and directory entries through the kernel handle, and the comparison of a
  string on the disk.  \<open>jk\<close> stands for the contents of the buffers before they are filled.
\<close>

definition rd_num_u :: "nat \<Rightarrow> u8 list \<Rightarrow> int \<Rightarrow> u64 \<Rightarrow> 'w vfs \<Rightarrow> (nat \<times> 'w vfs) option" where
  "rd_num_u n jk h loc v = do {
     (bs, v) \<leftarrow> read_u h loc (take n jk) v;
     Some (rd_le n (\<lambda>i. if i < length bs then bs ! i else 0) 0, v) }"

definition rd_byte_u :: "u8 list \<Rightarrow> int \<Rightarrow> u64 \<Rightarrow> 'w vfs \<Rightarrow> (u8 \<times> 'w vfs) option" where
  "rd_byte_u jk h loc v = map_option (\<lambda>(x, v). (of_nat x, v)) (rd_num_u 1 jk h loc v)"

definition rd_word_u :: "u8 list \<Rightarrow> int \<Rightarrow> u64 \<Rightarrow> 'w vfs \<Rightarrow> (u16 \<times> 'w vfs) option" where
  "rd_word_u jk h loc v = map_option (\<lambda>(x, v). (of_nat x, v)) (rd_num_u 2 jk h loc v)"

definition wr_word_u :: "int \<Rightarrow> u64 \<Rightarrow> u16 \<Rightarrow> 'w vfs \<Rightarrow> 'w vfs option" where
  "wr_word_u h loc x v = write_u h loc (le_bytes 2 (unat x)) v"

definition rd_dword_u :: "u8 list \<Rightarrow> int \<Rightarrow> u64 \<Rightarrow> 'w vfs \<Rightarrow> (u32 \<times> 'w vfs) option" where
  "rd_dword_u jk h loc v = map_option (\<lambda>(x, v). (of_nat x, v)) (rd_num_u 4 jk h loc v)"

definition wr_dword_u :: "int \<Rightarrow> u64 \<Rightarrow> u32 \<Rightarrow> 'w vfs \<Rightarrow> 'w vfs option" where
  "wr_dword_u h loc x v = write_u h loc (le_bytes 4 (unat x)) v"

text \<open>The number of bytes that are read is the length of the string that is in the buffer before.\<close>

definition fstrcpy_in_u :: "u8 list \<Rightarrow> int \<Rightarrow> u64 \<Rightarrow> 'w vfs \<Rightarrow> (u8 list \<times> 'w vfs) option" where
  "fstrcpy_in_u str h loc v =
     (let n = length (takeWhile (\<lambda>c. c \<noteq> 0) str) in
      if n < length str then map_option (\<lambda>(bs, v). (bs @ drop (n + 1) str, v)) (read_u h loc (take (n + 1) str) v) else None)"

definition fstrcpy_out_u :: "int \<Rightarrow> u64 \<Rightarrow> string \<Rightarrow> 'w vfs \<Rightarrow> 'w vfs option" where
  "fstrcpy_out_u h loc str v = write_u h loc (map of_char str @ [0]) v"

definition rd_entry_u :: "u8 list \<Rightarrow> int \<Rightarrow> mount_t \<Rightarrow> u64 \<Rightarrow> 'w vfs \<Rightarrow> (entry_t \<times> 'w vfs) option" where
  "rd_entry_u jk h m entry v = do {
     (bs, v) \<leftarrow> read_u h (entry_loc m entry) (take 256 jk) v;
     Some (entry_at (\<lambda>i. if i < length bs then bs ! i else 0) 0, v) }"

text \<open>Each round reads the byte twice.\<close>

fun fstrcmp :: "string \<Rightarrow> u64 \<Rightarrow> string \<Rightarrow> 'w vfs \<Rightarrow> (int \<times> 'w vfs) option" where
  "fstrcmp dev loc [] v = do {
     (x, v) \<leftarrow> rd_byte dev loc v;
     if x = 0 then Some (1, v) else do { (x, v) \<leftarrow> rd_byte dev loc v; Some (if x \<noteq> 0 then 0 else 1, v) } }"
| "fstrcmp dev loc (c # str) v = do {
     (_, v) \<leftarrow> rd_byte dev loc v;
     (x, v) \<leftarrow> rd_byte dev loc v;
     if x \<noteq> of_char c then Some (0, v) else fstrcmp dev (loc + 1) str v }"

subsection \<open>What was written is read back\<close>

lemma write_then_read_u:
  assumes "on_handle h d E okw cw limit v" and "unat loc + length bs \<le> limit" and "length buf = length bs"
  shows "\<exists>v1 v2. write_u h loc bs v = Some v1 \<and> read_u h loc buf v1 = Some (bs, v2)"
proof -
  obtain v1 where v1: "write_u h loc bs v = Some v1" "on_handle h d E okw cw limit v1"
    "\<forall>q<limit. cw (dev_world (world v1)) q = (if unat loc \<le> q \<and> q < unat loc + length bs then bs ! (q - unat loc) else cw (dev_world (world v)) q)"
    using bh.store_law [OF assms(1,2), where jk = "[]"] by (auto simp: by_handle_def)
  obtain v2 where "read_u h loc buf v1 = Some (map (cw (dev_world (world v1))) [unat loc..<unat loc + length buf], v2)"
    using bh.load_law [OF v1(2), of loc buf, where jk = "[]"] assms(2,3) by (auto simp: by_handle_def)
  moreover have "map (cw (dev_world (world v1))) [unat loc..<unat loc + length buf] = bs"
    using v1(3) assms(2,3) by (intro nth_equalityI) auto
  ultimately show ?thesis using v1(1) by auto
qed

lemma rd_le_list: "rd_le n (\<lambda>i. if i < length (le_bytes n x) then le_bytes n x ! i else 0) 0 = x mod 256 ^ n"
proof -
  have "rd_le n (\<lambda>i. if i < length (le_bytes n x) then le_bytes n x ! i else 0) 0 = rd_le n (wr_le n (\<lambda>_. 0) 0 x) 0"
    by (rule rd_le_cong) (simp flip: put_le_bytes add: put_bytes_apply length_le_bytes)
  then show ?thesis by (simp add: rd_wr_le)
qed

lemma rd_num_u_written:
  assumes "on_handle h d E okw cw limit v" and "unat loc + n \<le> limit" and "n \<le> length jk" and "x < 256 ^ n"
  shows "\<exists>v1 v2. write_u h loc (le_bytes n x) v = Some v1 \<and> rd_num_u n jk h loc v1 = Some (x, v2)"
proof -
  obtain v1 v2 where "write_u h loc (le_bytes n x) v = Some v1" "read_u h loc (take n jk) v1 = Some (le_bytes n x, v2)"
    using write_then_read_u [OF assms(1), of loc "le_bytes n x" "take n jk"] assms(2,3) by (auto simp: length_le_bytes)
  then show ?thesis using rd_le_list [of n x] assms(4) by (auto simp: rd_num_u_def)
qed

lemma word_u_roundtrip:
  assumes "on_handle h d E okw cw limit v" and "unat loc + 2 \<le> limit" and "2 \<le> length jk"
  shows "\<exists>v1 v2. wr_word_u h loc x v = Some v1 \<and> rd_word_u jk h loc v1 = Some (x, v2)"
  using rd_num_u_written [OF assms, of "unat x"] unsigned_less [of x, where 'a = nat] by (auto simp: wr_word_u_def rd_word_u_def)

lemma dword_u_roundtrip:
  assumes "on_handle h d E okw cw limit v" and "unat loc + 4 \<le> limit" and "4 \<le> length jk"
  shows "\<exists>v1 v2. wr_dword_u h loc x v = Some v1 \<and> rd_dword_u jk h loc v1 = Some (x, v2)"
  using rd_num_u_written [OF assms, of "unat x"] unsigned_less [of x, where 'a = nat] by (auto simp: wr_dword_u_def rd_dword_u_def)

lemma entry_u_roundtrip:
  assumes "on_handle h d E okw cw limit v" and "unat (entry_loc m i) + 256 \<le> limit"
    and "length (ename e) < 218" and "NUL \<notin> set (ename e)" and "256 \<le> length jk"
  shows "\<exists>v1 v2. wr_entry_u jk h m i e v = Some v1 \<and> rd_entry_u jk h m i v1 = Some (e, v2)"
proof -
  let ?bs = "entry_bytes jk e"
  have len: "length ?bs = 256" by (rule length_entry_bytes) (use assms in auto)
  have "(\<lambda>i. if i < length ?bs then ?bs ! i else 0) = put_bytes ?bs 0 (\<lambda>_. 0)" by (auto simp: put_bytes_apply fun_eq_iff)
  then have e: "entry_at (\<lambda>i. if i < length ?bs then ?bs ! i else 0) 0 = e"
    using entry_at_entry_bytes [of e jk 0 "\<lambda>_. 0"] assms(3-5) by simp
  obtain v1 v2 where "write_u h (entry_loc m i) ?bs v = Some v1" "read_u h (entry_loc m i) (take 256 jk) v1 = Some (?bs, v2)"
    using write_then_read_u [OF assms(1), of "entry_loc m i" ?bs "take 256 jk"] assms(2,5) len by auto
  then show ?thesis using e by (simp add: wr_entry_u_def rd_entry_u_def)
qed

text \<open>\<open>fstrcmp\<close> decides whether the string on the disk is the one given.\<close>

context disk
begin

lemma yields_fstrcmp:
  assumes "has v C" and "unat loc + length str < limit" and "NUL \<notin> set str"
  shows "yields (fstrcmp dev loc str v)
    (if (\<forall>i<length str. C (unat loc + i) = of_char (str ! i)) \<and> C (unat loc + length str) = 0 then 1 else 0) C"
  using assms
proof (induction str arbitrary: loc v)
  case Nil
  then have loc: "unat loc < limit" by simp
  show ?case
    unfolding fstrcmp.simps
  proof (rule yields_bind [OF yields_rd_byte [OF Nil.prems(1) loc]])
    fix v assume v: "has v C"
    show "yields (if C (unat loc) = 0 then Some (1, v) else do { (x, v) \<leftarrow> rd_byte dev loc v; Some (if x \<noteq> 0 then 0 else 1, v) })
        (if (\<forall>i<length []. C (unat loc + i) = of_char ([] ! i)) \<and> C (unat loc + length []) = 0 then 1 else 0) C"
      using v yields_bind [OF yields_rd_byte [OF v loc], of "\<lambda>x v. Some (if x \<noteq> 0 then 0 else 1, v)" 0 C]
      by (auto simp: yields_return split: if_splits)
  qed
next
  case (Cons c str)
  have loc: "unat loc < limit" using Cons.prems(2) by simp
  have "limit < 2 ^ 63" using limit_small Cons.prems(1) by (auto simp: has_def)
  then have suc: "unat (loc + 1) = Suc (unat loc)" using loc by (simp add: unat_word_ariths)
  show ?case
    unfolding fstrcmp.simps
  proof (rule yields_bind [OF yields_rd_byte [OF Cons.prems(1) loc]], rule yields_bind [OF yields_rd_byte [OF _ loc]])
    fix v assume v: "has v C"
    show "has v C" by (fact v)
    fix v' assume v': "has v' C"
    have all: "(\<forall>i<length (c # str). C (unat loc + i) = of_char ((c # str) ! i)) \<longleftrightarrow>
        C (unat loc) = of_char c \<and> (\<forall>i<length str. C (unat (loc + 1) + i) = of_char (str ! i))"
      by (auto simp: suc less_Suc_eq_0_disj)
    show "yields (if C (unat loc) \<noteq> of_char c then Some (0, v') else fstrcmp dev (loc + 1) str v')
        (if (\<forall>i<length (c # str). C (unat loc + i) = of_char ((c # str) ! i)) \<and> C (unat loc + length (c # str)) = 0 then 1 else 0) C"
      using Cons.IH [OF v', of "loc + 1"] Cons.prems(2,3) v' unfolding all by (cases "C (unat loc) = of_char c") (simp_all add: suc yields_return)
  qed
qed

end

end
