(* ===== verification/User_Calls.thy ===== *)
theory User_Calls
  imports Exec
begin

text \<open>
  The path operations of \<open>kernel/src/vfs.c\<close> as a task calls them.  The task passes addresses of its own
  memory; the entry points add the base of the task and call the kernel's operation.  The path is the string
  found at the relocated address (\<open>None\<close> when memory holds no terminator behind it), and the structure
  \<open>vfs_metadata_t\<close> lies in memory with the layout of the compiler: 2048 bytes of name, the type at
  offset 2048 and the size at offset 2052.
\<close>

definition user_string :: "nat \<Rightarrow> 'w kernel \<Rightarrow> string option" where
  "user_string ptr k = do {
     t \<leftarrow> self k;
     bs \<leftarrow> cstr (heap_mem (kernel_heap k)) (user_addr t (int ptr));
     Some (map (\<lambda>b. char_of (unat b)) bs) }"

definition on_path :: "(string \<Rightarrow> 'w vfs \<Rightarrow> (int \<times> 'w vfs) option) \<Rightarrow> nat \<Rightarrow> 'w kernel \<Rightarrow> (int \<times> 'w kernel) option" where
  "on_path f path k = do {
     s \<leftarrow> user_string path k;
     (r, v) \<leftarrow> f s (kvfs k);
     Some (r, k\<lparr>kvfs := v\<rparr>) }"

definition vfs_read :: "nat \<Rightarrow> u64 \<Rightarrow> 'w kernel \<Rightarrow> (int \<times> 'w kernel) option" where
  "vfs_read path loc k = on_path (\<lambda>s. vfs_kread s loc) path k"

definition vfs_write :: "nat \<Rightarrow> u64 \<Rightarrow> u8 \<Rightarrow> 'w kernel \<Rightarrow> (int \<times> 'w kernel) option" where
  "vfs_write path loc val k = on_path (\<lambda>s. vfs_kwrite s loc val) path k"

definition vfs_remove :: "nat \<Rightarrow> 'w kernel \<Rightarrow> (int \<times> 'w kernel) option" where
  "vfs_remove path k = on_path vfs_kremove path k"

definition vfs_mkdir :: "nat \<Rightarrow> u16 \<Rightarrow> 'w kernel \<Rightarrow> (int \<times> 'w kernel) option" where
  "vfs_mkdir path prm k = on_path (\<lambda>s. vfs_kmkdir s prm) path k"

definition vfs_create :: "nat \<Rightarrow> u16 \<Rightarrow> 'w kernel \<Rightarrow> (int \<times> 'w kernel) option" where
  "vfs_create path prm k = on_path (\<lambda>s. vfs_kcreate s prm) path k"

definition load_metadata :: "memory \<Rightarrow> nat \<Rightarrow> vfs_metadata_t" where
  "load_metadata m a = \<lparr>filename = map (\<lambda>b. char_of (unat b)) (takeWhile (\<lambda>b. b \<noteq> 0) (map m [a..<a + 2048])),
     filetype = s32 (int (rd_le 4 m (a + 2048))), fsize = of_nat (rd_le 8 m (a + 2052))\<rparr>"

definition store_metadata :: "vfs_metadata_t \<Rightarrow> nat \<Rightarrow> memory \<Rightarrow> memory" where
  "store_metadata md a m =
     wr_le 8 (wr_le 4 (put_bytes (clit (filename md)) a m) (a + 2048) (nat (filetype md mod 2 ^ 32))) (a + 2052) (unat (fsize md))"

text \<open>The operation that fills a structure in the memory of the task.\<close>

definition fill_metadata ::
  "(string \<Rightarrow> vfs_metadata_t \<Rightarrow> 'w vfs \<Rightarrow> ((int \<times> vfs_metadata_t) \<times> 'w vfs) option) \<Rightarrow> nat \<Rightarrow> nat \<Rightarrow> 'w kernel \<Rightarrow> (int \<times> 'w kernel) option" where
  "fill_metadata f path metadata k = do {
     t \<leftarrow> self k;
     s \<leftarrow> user_string path k;
     let m = heap_mem (kernel_heap k);
     let a = user_addr t (int metadata);
     ((r, md), v) \<leftarrow> f s (load_metadata m a) (kvfs k);
     Some (r, set_mem (store_metadata md a m) (k\<lparr>kvfs := v\<rparr>)) }"


definition user_list :: "nat \<Rightarrow> nat \<Rightarrow> nat \<Rightarrow> 'w kernel \<Rightarrow> (int \<times> 'w kernel) option" where
  "user_list path metadata entry k = fill_metadata (\<lambda>s md. vfs_list s md entry) path metadata k"

definition user_cd :: "nat \<Rightarrow> 'w kernel \<Rightarrow> (int \<times> 'w kernel) option" where
  "user_cd path k = on_path vfs_cd path k"

subsection \<open>Strings and structures in memory\<close>




lemma nat_s32_mod: "nat (s32 (int x) mod 4294967296) mod 4294967296 = x mod 4294967296"
proof -
  have "s32 (int x) mod 4294967296 = int x mod 4294967296" by (simp add: s32_def mod_simps)
  then show ?thesis by (simp add: nat_mod_distrib nat_int)
qed



subsection \<open>What a task finds out about a file\<close>






end
