(* ===== verification/Boot_Console.thy ===== *)
theory Boot_Console
  imports Kprint
begin

text \<open>
  The boot log: messages on the first terminal.  Whatever the kernel prints during initialisation consists of
  text and numbers without an escape character, so each message leaves the terminal in text mode, ready
  for the next one, and the console intact.
\<close>

definition console_ready :: "console \<Rightarrow> bool" where
  "console_ready c \<longleftrightarrow> console_ok c \<and> \<not> escape (ttys c 0)"

lemma escape_put_cell [simp]: "escape (ttys (put_cell w off v c) u) = escape (ttys c u)"
  by (simp add: put_cell_def Let_def tty_upd_def)

lemma escape_tty_refresh [simp]: "ttys (tty_refresh w c) = ttys c"
  by (simp add: tty_refresh_def)

lemma escape_wr_cell: "wr_cell w off v c = Some c' \<Longrightarrow> escape (ttys c' u) = escape (ttys c u)"
  by (auto simp: wr_cell_def split: if_splits)

lemma escape_clear_cursor: "clear_cursor w c = Some c' \<Longrightarrow> escape (ttys c' u) = escape (ttys c u)"
  by (auto simp: clear_cursor_def dest: escape_wr_cell)

lemma escape_draw_cursor: "draw_cursor w c = Some c' \<Longrightarrow> escape (ttys c' u) = escape (ttys c u)"
  by (auto simp: draw_cursor_def dest: escape_wr_cell split: if_splits)

lemma escape_scroll [simp]: "escape (ttys (scroll w c) u) = escape (ttys c u)"
  by (simp add: scroll_def tty_upd_def)

lemma escape_set_cursor_pos: "text_set_cursor_pos x y w c = Some c' \<Longrightarrow> escape (ttys c' u) = escape (ttys c u)"
  by (auto simp: text_set_cursor_pos_def bind_eq_Some_conv tty_upd_def dest!: escape_clear_cursor escape_draw_cursor split: if_splits)

lemma escape_put_glyph: "put_glyph ch w c = Some c' \<Longrightarrow> escape (ttys c' u) = escape (ttys c u)"
  by (auto simp: put_glyph_def bind_eq_Some_conv tty_upd_def Let_def dest!: escape_clear_cursor escape_draw_cursor escape_wr_cell split: if_splits)

lemma escape_putchar_plain: "text_putchar_plain ch w c = Some c' \<Longrightarrow> ch \<noteq> 0x1B \<Longrightarrow> escape (ttys c' u) = escape (ttys c u)"
  by (auto simp: text_putchar_plain_def put_newline_def put_backspace_def bind_eq_Some_conv tty_upd_def
      dest!: escape_clear_cursor escape_draw_cursor escape_wr_cell escape_set_cursor_pos escape_put_glyph split: if_splits)

lemma knputs_ready: "console_ready c \<Longrightarrow> 0x1B \<notin> set s \<Longrightarrow> \<exists>c'. tty_knputs s 0 c = Some c' \<and> console_ready c'"
proof (induction s arbitrary: c)
  case (Cons ch s)
  have "step_ok 0 c (text_putchar ch 0 c)"
    by (rule text_putchar_step) (use Cons.prems(1) in \<open>simp_all add: console_ready_def putchar_safe_def\<close>)
  then obtain c' where c': "text_putchar ch 0 c = Some c'" "console_ok c'" by (auto simp: step_ok_def)
  have "\<not> escape (ttys c' 0)"
    using c'(1) Cons.prems escape_putchar_plain [of ch 0 c c' 0] by (auto simp: text_putchar_def console_ready_def)
  then have "console_ready c'" using c'(2) by (simp add: console_ready_def)
  from Cons.IH [OF this] Cons.prems(2) c'(1) show ?case by auto
qed simp

lemma kputs_ready:
  assumes "console_ready c" and "0x1B \<notin> set s"
  shows "\<exists>c'. kputs s c = Some c' \<and> console_ready c'"
  using knputs_ready [OF assms(1), of "takeWhile (\<lambda>ch. ch \<noteq> 0) s"] assms(2)
  by (auto simp: kputs_def tty_kputs_def dest: set_takeWhileD)

lemma kuitoa_ready:
  assumes "console_ready c" and "x < 2 ^ 64"
  shows "\<exists>c'. kuitoa x c = Some c' \<and> console_ready c'"
proof -
  have "dec_digit d \<noteq> 0x1B" if "d < 10" for d using dec_digit_is_digit [OF that] by (auto simp: is_digit_def)
  then have "0x1B \<notin> set (dec_text x @ [0])"
    using numeral_digits_less [of 10 _ x] by (auto simp: dec_text_def eq_commute [of "0x1B"])
  from kputs_ready [OF assms(1) this] show ?thesis by (simp add: kuitoa_def kuitoa_text_eq [OF assms(2)])
qed

lemma kxtoa_ready:
  assumes "console_ready c" and "x < 2 ^ 64"
  shows "\<exists>c'. kxtoa x c = Some c' \<and> console_ready c'"
proof (cases "x = 0")
  case True
  then show ?thesis using kputs_ready [OF assms(1), of "clit ''0x0''"] by (simp add: kxtoa_def clit_def)
next
  case False
  let ?ds = "map hex_digit (numeral_digits 16 x)"
  have "replicate (17::nat) (0::u8) = replicate 16 0 @ [0]" by (simp add: replicate_append_same eval_nat_numeral)
  then have "put_digits hex_digit 16 x (replicate 17 0) 15 = Some (replicate (16 - length ?ds) 0 @ ?ds @ [0], int (16 - length ?ds) - 1)"
    using put_digits_eq [of 16 x 16 "replicate 17 0" hex_digit] u64_digits(2) [OF assms(2)] by simp
  then have t: "kxtoa_text x = Some (?ds @ [0])" by (simp add: kxtoa_text_def)
  have "hex_digit d \<noteq> 0x1B" if "d < 16" for d
  proof -
    have "hex_digit d \<in> set hex_to_ascii_tab" using that unfolding hex_digit_def by (intro nth_mem) (simp add: hex_to_ascii_tab_def)
    then show ?thesis by (auto simp: hex_to_ascii_tab_def)
  qed
  then have ds: "0x1B \<notin> set (?ds @ [0])" using numeral_digits_less [of 16 _ x] by (auto simp: eq_commute [of "0x1B"])
  obtain c1 where c1: "kputs (clit ''0x'') c = Some c1" "console_ready c1"
    using kputs_ready [OF assms(1), of "clit ''0x''"] by (auto simp: clit_def)
  from kputs_ready [OF c1(2) ds] show ?thesis using False t c1(1) by (simp add: kxtoa_def)
qed

text \<open>A sequence of messages.\<close>

definition log_step :: "(console \<Rightarrow> console option) \<Rightarrow> bool" where
  "log_step f \<longleftrightarrow> (\<forall>c. console_ready c \<longrightarrow> (\<exists>c'. f c = Some c' \<and> console_ready c'))"

lemma log_steps [intro]:
  "0x1B \<notin> set s \<Longrightarrow> log_step (kputs s)" "x < 2 ^ 64 \<Longrightarrow> log_step (kuitoa x)" "x < 2 ^ 64 \<Longrightarrow> log_step (kxtoa x)"
  by (simp_all add: log_step_def kputs_ready kuitoa_ready kxtoa_ready)

lemma log_bind [intro]: "log_step f \<Longrightarrow> log_step g \<Longrightarrow> log_step (\<lambda>c. do { c \<leftarrow> f c; g c })"
  by (auto simp: log_step_def)

lemma console_ready_boot: "console_ready (switch_tty 0 (init_tty (bss_console vram)))"
  using console_ok_boot by (simp add: console_ready_def switch_tty_def init_tty_def init_tty_t_def)

end
