(* ===== verification/Bios_Calls.thy ===== *)
theory Bios_Calls
  imports Bios_Disk Boot Boot_Console
begin

text \<open>
  The calls of the BIOS in \<open>kernel/src/drivers/bios_harddisks/bd.c\<close>: the disk address packet and the
  registers of interrupt 0x13, the transfer of a sector through a buffer in low memory, the parameters of a
  drive, and the registration of the drives found.

  \<open>int13\<close> is what \<open>rm_int\<close> with interrupt 0x13 does to the registers, to the memory and to the hardware
  \<open>'h\<close>.  The buffer \<open>tmp\<close> and the structures the BIOS is given are locals of the C functions; their
  addresses are arguments.  The kernel relies on the extended disk services as their specification has
  them, \<open>int13_laws\<close>: for a request of one sector by a packet of 16 bytes that exists on the drive the carry
  flag is clear, the sector is in the buffer or the buffer in the sector, and the packet is unchanged.
\<close>

record rm_regs =
  rm_gs :: u16
  rm_fs :: u16
  rm_es :: u16
  rm_ds :: u16
  rm_eflags :: u32
  rm_ebp :: u32
  rm_edi :: u32
  rm_esi :: u32
  rm_edx :: u32
  rm_ecx :: u32
  rm_ebx :: u32
  rm_eax :: u32

definition zero_regs :: rm_regs where
  "zero_regs = \<lparr>rm_gs = 0, rm_fs = 0, rm_es = 0, rm_ds = 0, rm_eflags = 0, rm_ebp = 0, rm_edi = 0, rm_esi = 0,
     rm_edx = 0, rm_ecx = 0, rm_ebx = 0, rm_eax = 0\<rparr>"

definition rm_seg :: "u32 \<Rightarrow> u16" where
  "rm_seg x = ucast (drop_bit 4 (x AND 0xffff0))"

definition rm_off :: "u32 \<Rightarrow> u16" where
  "rm_off x = ucast (x AND 0x0000f)"

definition rm_desegment :: "u16 \<Rightarrow> u16 \<Rightarrow> u32" where
  "rm_desegment seg off = push_bit 4 (ucast seg) + ucast off"

type_synonym 'h int13 = "rm_regs \<Rightarrow> memory \<times> 'h \<Rightarrow> rm_regs \<times> memory \<times> 'h"

definition carry :: "rm_regs \<Rightarrow> bool" where
  "carry r \<longleftrightarrow> rm_eflags r AND 1 \<noteq> 0"

subsection \<open>Sectors\<close>

text \<open>
  The packet at address \<open>d\<close>: its size, the number of sectors, offset and segment of the buffer \<open>tmp\<close>,
  then the sector number.  The functions set the first four fields once and the number for each sector.
\<close>

definition dap_header :: "u32 \<Rightarrow> u32 \<Rightarrow> memory \<Rightarrow> memory" where
  "dap_header d tmp m =
     (let m = wr_le 2 m (unat d) 16;
          m = wr_le 2 m (unat d + 2) 1;
          m = wr_le 2 m (unat d + 6) (unat (rm_seg tmp))
      in wr_le 2 m (unat d + 4) (unat (rm_off tmp)))"

definition dap_lba :: "u32 \<Rightarrow> nat \<Rightarrow> memory \<Rightarrow> memory" where
  "dap_lba d lba m = wr_le 8 m (unat d + 8) lba"

definition disk_regs :: "u32 \<Rightarrow> u32 \<Rightarrow> u32 \<Rightarrow> rm_regs" where
  "disk_regs code drive p = zero_regs\<lparr>rm_eax := code, rm_edx := drive, rm_esi := ucast (rm_off p), rm_ds := rm_seg p\<rparr>"

definition read_step :: "'h int13 \<Rightarrow> u32 \<Rightarrow> u32 \<Rightarrow> (memory \<times> 'h) sector_read" where
  "read_step int13 d tmp drive lba = (\<lambda>(m, h).
     let (r, m, h) = int13 (disk_regs 0x4200 (ucast drive) d) (dap_lba d lba m, h)
     in if carry r then None else Some (map m [unat tmp..<unat tmp + 512], m, h))"

definition write_step :: "'h int13 \<Rightarrow> u32 \<Rightarrow> u32 \<Rightarrow> (memory \<times> 'h) sector_write" where
  "write_step int13 d tmp drive lba bs = (\<lambda>(m, h).
     let (r, m, h) = int13 (disk_regs 0x4300 (ucast drive) d) (put_bytes bs (unat tmp) (dap_lba d lba m), h)
     in if carry r then None else Some (m, h))"

definition bios_read_block :: "'h int13 \<Rightarrow> u32 \<Rightarrow> u32 \<Rightarrow> u8 \<Rightarrow> nat \<Rightarrow> memory \<times> 'h \<Rightarrow> (u8 list \<times> memory \<times> 'h) option" where
  "bios_read_block int13 d tmp drive block = (\<lambda>(m, h).
     disk_read_sector (read_step int13 d tmp) drive block (dap_header d tmp m, h))"

definition bios_write_block :: "'h int13 \<Rightarrow> u32 \<Rightarrow> u32 \<Rightarrow> u8 \<Rightarrow> u8 list \<Rightarrow> nat \<Rightarrow> memory \<times> 'h \<Rightarrow> (memory \<times> 'h) option" where
  "bios_write_block int13 d tmp drive buf block = (\<lambda>(m, h).
     disk_write_sector (write_step int13 d tmp) drive buf block (dap_header d tmp m, h))"

subsection \<open>Drive parameters\<close>

record bios_drive_params =
  buf_size :: u16
  info_flags :: u16
  cyl :: u32
  heads :: u32
  sects :: u32
  lba_count :: u64
  bytes_per_sect :: u16
  edd :: u32

definition load_params :: "memory \<Rightarrow> nat \<Rightarrow> bios_drive_params" where
  "load_params m a = \<lparr>buf_size = of_nat (rd_le 2 m a), info_flags = of_nat (rd_le 2 m (a + 2)), cyl = of_nat (rd_le 4 m (a + 4)),
     heads = of_nat (rd_le 4 m (a + 8)), sects = of_nat (rd_le 4 m (a + 12)), lba_count = of_nat (rd_le 8 m (a + 16)),
     bytes_per_sect = of_nat (rd_le 2 m (a + 24)), edd = of_nat (rd_le 4 m (a + 26))\<rparr>"

definition read_drive_parameters :: "'h int13 \<Rightarrow> u32 \<Rightarrow> nat \<Rightarrow> memory \<times> 'h \<Rightarrow> bios_drive_params option \<times> memory \<times> 'h" where
  "read_drive_parameters int13 p drive = (\<lambda>(m, h).
     let (r, m, h) = int13 (disk_regs 0x4800 (of_nat drive) p) (wr_le 2 m (unat p) 30, h)
     in (if carry r then None else Some (load_params m (unat p)), m, h))"

subsection \<open>Registering the drives\<close>

definition bios_harddrive_names :: "string list" where
  "bios_harddrive_names = [''bd0'', ''bd1'', ''bd2'', ''bd3'', ''bd4'', ''bd5'', ''bd6'', ''bd7'', ''bd8'', ''bd9'',
     ''bd10'', ''bd11'', ''bd12'', ''bd13'', ''bd14'', ''bd15'', ''bd16'', ''bd17'', ''bd18'', ''bd19'',
     ''bd20'', ''bd21'', ''bd22'', ''bd23'', ''bd24'', ''bd25'', ''bd26'']"

record ('w, 'h) bd_boot =
  bb_devices :: "'w device_t list"
  bb_console :: console
  bb_hw :: "memory \<times> 'h"

definition log_drive :: "nat \<Rightarrow> bios_drive_params \<Rightarrow> console \<Rightarrow> console option" where
  "log_drive j dp c = do {
     c \<leftarrow> kputs (0x0a # clit ''BIOS drive:         '') c; c \<leftarrow> kxtoa j c;
     c \<leftarrow> kputs (0x0a # clit ''Cylinder count:     '') c; c \<leftarrow> kuitoa (unat (cyl dp)) c;
     c \<leftarrow> kputs (0x0a # clit ''Head count:         '') c; c \<leftarrow> kuitoa (unat (heads dp)) c;
     c \<leftarrow> kputs (0x0a # clit ''Sect per track:     '') c; c \<leftarrow> kuitoa (unat (sects dp)) c;
     c \<leftarrow> kputs (0x0a # clit ''Sector count:       '') c; kuitoa (unat (lba_count dp)) c }"

definition log_loaded :: "string \<Rightarrow> console \<Rightarrow> console option" where
  "log_loaded name c = do { c \<leftarrow> kputs (0x0a # clit ''Loaded '') c; kputs (clit name) c }"

text \<open>
  A drive that was found: the messages, the device of its name and number, its partitions, which
  \<open>add_part\<close>, the function \<open>add_partitioned_medium\<close>, adds.
\<close>

definition add_drive ::
  "'w io_wrapper \<Rightarrow> (string \<Rightarrow> ('w, 'h) bd_boot \<Rightarrow> ('w, 'h) bd_boot option) \<Rightarrow> string \<Rightarrow> nat \<Rightarrow> bios_drive_params \<Rightarrow>
   ('w, 'h) bd_boot \<Rightarrow> ('w, 'h) bd_boot option" where
  "add_drive io add_part name j dp b = do {
     c \<leftarrow> log_drive j dp (bb_console b);
     ds \<leftarrow> kernel_add_device name j (lba_count dp * 512) io (bb_devices b);
     c \<leftarrow> log_loaded name c;
     add_part name (b\<lparr>bb_devices := ds, bb_console := c\<rparr>) }"

function init_bios_loop ::
  "'h int13 \<Rightarrow> u32 \<Rightarrow> 'w io_wrapper \<Rightarrow> (string \<Rightarrow> ('w, 'h) bd_boot \<Rightarrow> ('w, 'h) bd_boot option) \<Rightarrow>
   nat \<Rightarrow> nat \<Rightarrow> ('w, 'h) bd_boot \<Rightarrow> ('w, 'h) bd_boot option" where
  "init_bios_loop int13 p io add_part i j b =
     (if i \<ge> 26 then Some b
      else if j \<ge> 0xfe then Some b
      else if j = 0xe0 then init_bios_loop int13 p io add_part i (j + 1) b
      else case read_drive_parameters int13 p j (bb_hw b) of
        (None, s) \<Rightarrow> init_bios_loop int13 p io add_part i (j + 1) (b\<lparr>bb_hw := s\<rparr>)
      | (Some dp, s) \<Rightarrow> do {
          b \<leftarrow> add_drive io add_part (bios_harddrive_names ! i) j dp (b\<lparr>bb_hw := s\<rparr>);
          init_bios_loop int13 p io add_part (i + 1) (j + 1) b })"
  by pat_completeness auto
termination
  by (relation "measure (\<lambda>(_, _, _, _, _, j, _). 0xfe - j)") auto

declare init_bios_loop.simps [simp del]

definition init_bios_harddisks ::
  "'h int13 \<Rightarrow> u32 \<Rightarrow> 'w io_wrapper \<Rightarrow> (string \<Rightarrow> ('w, 'h) bd_boot \<Rightarrow> ('w, 'h) bd_boot option) \<Rightarrow>
   ('w, 'h) bd_boot \<Rightarrow> ('w, 'h) bd_boot option" where
  "init_bios_harddisks int13 p io add_part b = do {
     c \<leftarrow> kputs (0x0a # clit ''Initialising BIOS hard disks...'') (bb_console b);
     init_bios_loop int13 p io add_part 0 0x80 (b\<lparr>bb_console := c\<rparr>) }"

subsection \<open>What the kernel relies on\<close>

text \<open>A packet for one sector, number \<open>l\<close>, with its buffer at \<open>b\<close>.\<close>

definition packet_at :: "memory \<Rightarrow> nat \<Rightarrow> nat \<Rightarrow> nat \<Rightarrow> bool" where
  "packet_at m a b l \<longleftrightarrow> rd_le 2 m a = 16 \<and> rd_le 2 m (a + 2) = 1
     \<and> unat (rm_desegment (of_nat (rd_le 2 m (a + 6))) (of_nat (rd_le 2 m (a + 4)))) = b \<and> rd_le 8 m (a + 8) = l"

definition apart :: "nat \<Rightarrow> nat \<Rightarrow> bool" where
  "apart a b \<longleftrightarrow> a + 16 \<le> 2 ^ 20 \<and> b + 512 \<le> 2 ^ 20 \<and> (a + 16 \<le> b \<or> b + 512 \<le> a)"

definition disk_request :: "u32 \<Rightarrow> rm_regs \<Rightarrow> memory \<Rightarrow> u8 \<Rightarrow> nat \<Rightarrow> nat \<Rightarrow> nat \<Rightarrow> bool" where
  "disk_request code r m drive a b l \<longleftrightarrow> rm_eax r = code \<and> rm_edx r = ucast drive
     \<and> unat (rm_desegment (rm_ds r) (ucast (rm_esi r))) = a \<and> packet_at m a b l \<and> apart a b"

definition int13_laws :: "'h int13 \<Rightarrow> ('h \<Rightarrow> u8 \<Rightarrow> nat \<Rightarrow> u8 list) \<Rightarrow> (u8 \<Rightarrow> nat) \<Rightarrow> bool" where
  "int13_laws int13 sec cnt \<longleftrightarrow>
     (\<forall>d. cnt d \<le> 2 ^ 64) \<and> (\<forall>h d l. l < cnt d \<longrightarrow> length (sec h d l) = 512)
   \<and> (\<forall>r m h d a b l. disk_request 0x4200 r m d a b l \<and> l < cnt d \<longrightarrow>
        (\<exists>r' m' h'. int13 r (m, h) = (r', m', h') \<and> \<not> carry r' \<and> sec h' = sec h
           \<and> (\<forall>i<16. m' (a + i) = m (a + i)) \<and> map m' [b..<b + 512] = sec h d l))
   \<and> (\<forall>r m h d a b l. disk_request 0x4300 r m d a b l \<and> l < cnt d \<longrightarrow>
        (\<exists>r' m' h'. int13 r (m, h) = (r', m', h') \<and> \<not> carry r'
           \<and> sec h' = (sec h)(d := (sec h d)(l := map m [b..<b + 512])) \<and> (\<forall>i<16. m' (a + i) = m (a + i))))"

subsection \<open>Addresses in real mode\<close>

lemma unat_rm_seg: "unat (rm_seg x) = unat x div 16 mod 65536"
proof -
  have "drop_bit 4 (x AND 0xffff0) = take_bit 16 (drop_bit 4 x)"
    by (simp add: take_bit_eq_mask mask_eq_exp_minus_1)
  then show ?thesis
    by (simp add: rm_seg_def unsigned_ucast_eq unsigned_take_bit_eq unat_drop_bit_eq take_bit_eq_mod drop_bit_eq_div unat_mod_distrib unat_div_distrib)
qed

lemma unat_rm_off: "unat (rm_off x) = unat x mod 16"
proof -
  have "x AND 0xf = take_bit 4 x" by (simp add: take_bit_eq_mask mask_eq_exp_minus_1)
  then show ?thesis by (simp add: rm_off_def unsigned_ucast_eq unsigned_take_bit_eq take_bit_eq_mod unat_mod_distrib)
qed

text \<open>Segment and offset name the address they were made from exactly when it is below one megabyte.\<close>

lemma rm_address: "unat (rm_desegment (rm_seg x) (rm_off x)) = unat x mod 2 ^ 20"
proof -
  have s: "unat (ucast (rm_seg x) :: u32) = unat x div 16 mod 65536" and o: "unat (ucast (rm_off x) :: u32) = unat x mod 16"
    using unat_rm_seg [of x] unat_rm_off [of x] by (simp_all add: unsigned_ucast_eq take_bit_eq_mod)
  have p: "unat (push_bit 4 (ucast (rm_seg x) :: u32)) = unat x div 16 mod 65536 * 16"
  proof -
    have "unat x div 16 mod 65536 < 65536" by simp
    then have "unat x div 16 mod 65536 * 16 < 2 ^ 32" by simp
    then show ?thesis using s by (simp add: push_bit_eq_mult unat_word_ariths(2))
  qed
  have "unat x div 16 mod 65536 * 16 + unat x mod 16 = unat x mod (16 * 65536)"
    using mod_mult2_eq [of "unat x" 16 65536] by simp
  moreover have "unat x mod (16 * 65536) < 2 ^ 32" by (rule order.strict_trans [of _ "16 * 65536"]) simp_all
  ultimately show ?thesis by (simp add: rm_desegment_def unat_word_ariths(1) p o)
qed

subsection \<open>The driver's requests are well formed\<close>

text \<open>A sector transferred with a packet written anew for it, the reference for the loops.\<close>

definition int13_read :: "'h int13 \<Rightarrow> u32 \<Rightarrow> u32 \<Rightarrow> (memory \<times> 'h) sector_read" where
  "int13_read int13 d tmp drive lba = (\<lambda>(m, h). read_step int13 d tmp drive lba (dap_header d tmp m, h))"

definition int13_write :: "'h int13 \<Rightarrow> u32 \<Rightarrow> u32 \<Rightarrow> (memory \<times> 'h) sector_write" where
  "int13_write int13 d tmp drive lba bs = (\<lambda>(m, h). write_step int13 d tmp drive lba bs (dap_header d tmp m, h))"

definition header_at :: "u32 \<Rightarrow> u32 \<Rightarrow> memory \<Rightarrow> bool" where
  "header_at d tmp m \<longleftrightarrow> dap_header d tmp m = m"

lemma header_fields:
  assumes "header_at d tmp m"
  shows "rd_le 2 m (unat d) = 16" and "rd_le 2 m (unat d + 2) = 1"
    and "rd_le 2 m (unat d + 6) = unat (rm_seg tmp)" and "rd_le 2 m (unat d + 4) = unat (rm_off tmp)"
proof -
  have m: "m = dap_header d tmp m" using assms by (simp add: header_at_def)
  have w: "unat (x :: u16) mod 65536 = unat x" for x using unat_mod_width(2) by simp
  show "rd_le 2 m (unat d) = 16" by (subst m) (simp add: dap_header_def Let_def rd_wr_le_disjoint rd_wr_le)
  show "rd_le 2 m (unat d + 2) = 1" by (subst m) (simp add: dap_header_def Let_def rd_wr_le_disjoint rd_wr_le)
  show "rd_le 2 m (unat d + 6) = unat (rm_seg tmp)" by (subst m) (simp add: dap_header_def Let_def rd_wr_le_disjoint rd_wr_le w)
  show "rd_le 2 m (unat d + 4) = unat (rm_off tmp)" by (subst m) (simp add: dap_header_def Let_def rd_wr_le_disjoint rd_wr_le w)
qed

lemma dap_header_apply: "q < unat d \<or> unat d + 8 \<le> q \<Longrightarrow> dap_header d tmp m q = m q"
  by (auto simp: dap_header_def Let_def)

lemma dap_header_local: "(\<And>i. i < 8 \<Longrightarrow> m (unat d + i) = dap_header d tmp m0 (unat d + i)) \<Longrightarrow> dap_header d tmp m = m"
proof (rule ext)
  fix q
  assume m: "\<And>i. i < 8 \<Longrightarrow> m (unat d + i) = dap_header d tmp m0 (unat d + i)"
  show "dap_header d tmp m q = m q"
  proof (cases "unat d \<le> q \<and> q < unat d + 8")
    case True
    have "dap_header d tmp m q = dap_header d tmp m0 q" using True by (auto simp: dap_header_def Let_def wr_le_apply)
    moreover have "q - unat d < 8" using True by linarith
    ultimately show ?thesis using m [of "q - unat d"] True by simp
  qed (use dap_header_apply in auto)
qed

lemma header_at_dap_header [simp]: "header_at d tmp (dap_header d tmp m)"
  unfolding header_at_def by (rule dap_header_local [of _ d tmp m]) simp

lemma header_at_frame:
  assumes "header_at d tmp m" and "\<And>i. i < 8 \<Longrightarrow> m' (unat d + i) = m (unat d + i)"
  shows "header_at d tmp m'"
  unfolding header_at_def
  by (rule dap_header_local [of _ d tmp m]) (use assms in \<open>simp add: header_at_def\<close>)

lemma request_ok:
  assumes "header_at d tmp m" and "rd_le 8 m (unat d + 8) = l" and "apart (unat d) (unat tmp)"
  shows "disk_request code (disk_regs code (ucast drive) d) m drive (unat d) (unat tmp) l"
proof -
  have off: "ucast (ucast (rm_off d) :: u32) = rm_off d" by (rule bit_word_eqI) (simp add: bit_simps)
  have low: "unat d mod 2 ^ 20 = unat d" "unat tmp mod 2 ^ 20 = unat tmp" using assms(3) by (simp_all add: apart_def)
  have "packet_at m (unat d) (unat tmp) l"
    using header_fields [OF assms(1)] assms(2) rm_address [of tmp] low by (simp add: packet_at_def)
  then show ?thesis
    using assms(3) rm_address [of d] low off by (simp add: disk_request_def disk_regs_def zero_regs_def)
qed

lemma rd_dap_lba: "l < 2 ^ 64 \<Longrightarrow> rd_le 8 (dap_lba d l m) (unat d + 8) = l"
  by (simp add: dap_lba_def rd_wr_le)

lemma header_dap_lba: "header_at d tmp m \<Longrightarrow> header_at d tmp (dap_lba d l m)"
  by (erule header_at_frame) (simp add: dap_lba_def)

lemma int13_lawsD:
  assumes "int13_laws int13 sec cnt"
  shows "l < cnt drive \<Longrightarrow> l < 2 ^ 64" and "l < cnt drive \<Longrightarrow> length (sec h drive l) = 512"
    and "disk_request 0x4200 r m drive a b l \<Longrightarrow> l < cnt drive \<Longrightarrow>
        \<exists>r' m' h'. int13 r (m, h) = (r', m', h') \<and> \<not> carry r' \<and> sec h' = sec h
           \<and> (\<forall>i<16. m' (a + i) = m (a + i)) \<and> map m' [b..<b + 512] = sec h drive l"
    and "disk_request 0x4300 r m drive a b l \<Longrightarrow> l < cnt drive \<Longrightarrow>
        \<exists>r' m' h'. int13 r (m, h) = (r', m', h') \<and> \<not> carry r'
           \<and> sec h' = (sec h)(drive := (sec h drive)(l := map m [b..<b + 512])) \<and> (\<forall>i<16. m' (a + i) = m (a + i))"
proof -
  show "l < cnt drive \<Longrightarrow> l < 2 ^ 64" using assms unfolding int13_laws_def by (meson order.strict_trans2)
  show "l < cnt drive \<Longrightarrow> length (sec h drive l) = 512" using assms unfolding int13_laws_def by blast
qed (use assms in \<open>unfold int13_laws_def, blast\<close>)+

lemma read_step_spec:
  assumes "int13_laws int13 sec cnt" and "header_at d tmp m" and "apart (unat d) (unat tmp)" and "l < cnt drive"
  shows "\<exists>m' h'. read_step int13 d tmp drive l (m, h) = Some (sec h drive l, m', h') \<and> sec h' = sec h \<and> header_at d tmp m'"
proof -
  let ?m = "dap_lba d l m"
  have l: "l < 2 ^ 64" by (rule int13_lawsD(1) [OF assms(1,4)])
  have h: "header_at d tmp ?m" by (rule header_dap_lba [OF assms(2)])
  from int13_lawsD(3) [OF assms(1) request_ok [OF h rd_dap_lba [OF l] assms(3)] assms(4), of h]
  obtain r' m' h' where r: "int13 (disk_regs 0x4200 (ucast drive) d) (?m, h) = (r', m', h')" "\<not> carry r'" "sec h' = sec h"
    "\<forall>i<16. m' (unat d + i) = ?m (unat d + i)" "map m' [unat tmp..<unat tmp + 512] = sec h drive l"
    by blast
  have "header_at d tmp m'" by (rule header_at_frame [OF h]) (use r(4) in simp)
  then show ?thesis using r by (simp add: read_step_def)
qed

lemma write_step_spec:
  assumes "int13_laws int13 sec cnt" and "header_at d tmp m" and "apart (unat d) (unat tmp)" and "l < cnt drive" and "length bs = 512"
  shows "\<exists>m' h'. write_step int13 d tmp drive l bs (m, h) = Some (m', h')
    \<and> sec h' = (sec h)(drive := (sec h drive)(l := bs)) \<and> header_at d tmp m'"
proof -
  let ?m = "put_bytes bs (unat tmp) (dap_lba d l m)"
  have l: "l < 2 ^ 64" by (rule int13_lawsD(1) [OF assms(1,4)])
  have frame: "?m (unat d + i) = dap_lba d l m (unat d + i)" if "i < 16" for i
    using that assms(3,5) by (auto simp: apart_def put_bytes_apply)
  have h: "header_at d tmp ?m" by (rule header_at_frame [OF header_dap_lba [OF assms(2)]]) (use frame in simp)
  have "rd_le 8 ?m (unat d + 8) = rd_le 8 (dap_lba d l m) (unat d + 8)"
    by (rule rd_le_put_bytes) (use assms(3,5) in \<open>auto simp: apart_def\<close>)
  with rd_dap_lba [OF l] have "rd_le 8 ?m (unat d + 8) = l" by metis
  from int13_lawsD(4) [OF assms(1) request_ok [OF h this assms(3)] assms(4), of h]
  obtain r' m' h' where r: "int13 (disk_regs 0x4300 (ucast drive) d) (?m, h) = (r', m', h')" "\<not> carry r'"
    "sec h' = (sec h)(drive := (sec h drive)(l := map ?m [unat tmp..<unat tmp + 512]))"
    "\<forall>i<16. m' (unat d + i) = ?m (unat d + i)"
    by blast
  have "map ?m [unat tmp..<unat tmp + 512] = bs"
    by (rule nth_equalityI) (simp_all add: assms(5) put_bytes_apply del: upt_Suc)
  moreover have "header_at d tmp m'" by (rule header_at_frame [OF h]) (use r(4) in simp)
  ultimately show ?thesis using r by (simp add: write_step_def)
qed

subsection \<open>The loops transfer whole blocks\<close>

lemma read_sectors_one_packet:
  assumes "int13_laws int13 sec cnt" and "apart (unat d) (unat tmp)" and "header_at d tmp m" and "block + n \<le> cnt drive"
  shows "\<exists>buf m' h'. read_sectors (read_step int13 d tmp) drive block n (m, h) = Some (buf, m', h')
    \<and> read_sectors (int13_read int13 d tmp) drive block n (m, h) = Some (buf, m', h') \<and> header_at d tmp m'"
  using assms(4)
proof (induction n)
  case (Suc n)
  then obtain buf m1 h1 where IH: "read_sectors (read_step int13 d tmp) drive block n (m, h) = Some (buf, m1, h1)"
    "read_sectors (int13_read int13 d tmp) drive block n (m, h) = Some (buf, m1, h1)" "header_at d tmp m1" by auto
  from read_step_spec [OF assms(1) IH(3) assms(2), of "block + n" drive h1] Suc.prems
  obtain m2 h2 where "read_step int13 d tmp drive (block + n) (m1, h1) = Some (sec h1 drive (block + n), m2, h2)" "header_at d tmp m2" by auto
  moreover have "int13_read int13 d tmp drive (block + n) (m1, h1) = read_step int13 d tmp drive (block + n) (m1, h1)"
    using IH(3) by (simp add: int13_read_def header_at_def)
  ultimately show ?case using IH by simp
qed (use assms(3) in simp)

lemma write_sectors_one_packet:
  assumes "int13_laws int13 sec cnt" and "apart (unat d) (unat tmp)" and "header_at d tmp m" and "block + n \<le> cnt drive" and "length buf = n * 512 + k"
  shows "\<exists>m' h'. write_sectors (write_step int13 d tmp) drive buf block n (m, h) = Some (m', h')
    \<and> write_sectors (int13_write int13 d tmp) drive buf block n (m, h) = Some (m', h') \<and> header_at d tmp m'"
  using assms(4,5)
proof (induction n arbitrary: k)
  case (Suc n)
  then obtain m1 h1 where IH: "write_sectors (write_step int13 d tmp) drive buf block n (m, h) = Some (m1, h1)"
    "write_sectors (int13_write int13 d tmp) drive buf block n (m, h) = Some (m1, h1)" "header_at d tmp m1"
    using Suc.IH [of "512 + k"] by auto
  have "length (take 512 (drop (512 * n) buf)) = 512" using Suc.prems(2) by simp
  from write_step_spec [OF assms(1) IH(3) assms(2) _ this, of "block + n" drive h1] Suc.prems
  obtain m2 h2 where "write_step int13 d tmp drive (block + n) (take 512 (drop (512 * n) buf)) (m1, h1) = Some (m2, h2)" "header_at d tmp m2" by auto
  moreover have "int13_write int13 d tmp drive (block + n) bs (m1, h1) = write_step int13 d tmp drive (block + n) bs (m1, h1)" for bs
    using IH(3) by (simp add: int13_write_def header_at_def)
  ultimately show ?case using IH by simp
qed (use assms(3) in simp)

lemma read_sectors_first:
  "(\<And>l. rd drive l s = rd drive l s') \<Longrightarrow> 0 < n \<Longrightarrow> read_sectors rd drive block n s = read_sectors rd drive block n s'"
proof (induction n)
  case (Suc n)
  then show ?case by (cases n) auto
qed simp

lemma write_sectors_first:
  "(\<And>l bs. wr drive l bs s = wr drive l bs s') \<Longrightarrow> 0 < n \<Longrightarrow> write_sectors wr drive buf block n s = write_sectors wr drive buf block n s'"
proof (induction n)
  case (Suc n)
  then show ?case by (cases n) auto
qed simp

lemma header_twice: "dap_header d tmp (dap_header d tmp m) = dap_header d tmp m"
  using header_at_dap_header by (simp only: header_at_def)

lemma read_block_eq:
  assumes "int13_laws int13 sec cnt" and "apart (unat d) (unat tmp)" and "block + 64 \<le> cnt drive"
  shows "bios_read_block int13 d tmp drive block s = disk_read_sector (int13_read int13 d tmp) drive block s"
proof -
  obtain m h where s: "s = (m, h)" by fastforce
  have "read_sectors (int13_read int13 d tmp) drive block 64 (dap_header d tmp m, h) = read_sectors (int13_read int13 d tmp) drive block 64 (m, h)"
    by (rule read_sectors_first) (simp_all add: int13_read_def header_twice)
  then show ?thesis
    using read_sectors_one_packet [OF assms(1,2) header_at_dap_header assms(3), of m h]
    by (auto simp: bios_read_block_def disk_read_sector_def s)
qed

lemma write_block_eq:
  assumes "int13_laws int13 sec cnt" and "apart (unat d) (unat tmp)" and "block + 64 \<le> cnt drive" and "length buf = 32768"
  shows "bios_write_block int13 d tmp drive buf block s = disk_write_sector (int13_write int13 d tmp) drive buf block s"
proof -
  obtain m h where s: "s = (m, h)" by fastforce
  have "write_sectors (int13_write int13 d tmp) drive buf block 64 (dap_header d tmp m, h) = write_sectors (int13_write int13 d tmp) drive buf block 64 (m, h)"
    by (rule write_sectors_first) (simp_all add: int13_write_def header_twice)
  then show ?thesis
    using write_sectors_one_packet [OF assms(1,2) header_at_dap_header assms(3), of buf 0 m h] assms(4)
    by (auto simp: bios_write_block_def disk_write_sector_def s)
qed

text \<open>
  C10. The driver speaks the disk services correctly: with the packet and the buffer in low memory and
  apart, every request it makes is well formed, so the sectors seen through it obey the laws the cache of
  the driver relies on; and the loops, which write the constant part of the packet once for all 64 sectors,
  do exactly what transferring each sector by a request of its own would do.
\<close>

theorem int13_driver_refines_sectors:
  assumes "int13_laws int13 sec cnt" and "apart (unat d) (unat tmp)"
  shows "bios_laws (int13_read int13 d tmp) (int13_write int13 d tmp) (\<lambda>s. sec (snd s)) cnt
    \<and> (\<forall>drive block s. block + 64 \<le> cnt drive \<longrightarrow>
        bios_read_block int13 d tmp drive block s = disk_read_sector (int13_read int13 d tmp) drive block s
        \<and> (\<forall>buf. length buf = 32768 \<longrightarrow>
             bios_write_block int13 d tmp drive buf block s = disk_write_sector (int13_write int13 d tmp) drive buf block s))"
proof (intro conjI allI impI)
  show "bios_laws (int13_read int13 d tmp) (int13_write int13 d tmp) (\<lambda>s. sec (snd s)) cnt"
    unfolding bios_laws_def
  proof (intro conjI allI impI)
    fix s :: "memory \<times> 'a" and drive l
    assume l: "l < cnt drive"
    show "length (sec (snd s) drive l) = 512" by (rule int13_lawsD(2) [OF assms(1) l])
    obtain m h where s: "s = (m, h)" by fastforce
    from read_step_spec [OF assms(1) header_at_dap_header assms(2) l, of m h]
    show "\<exists>s'. int13_read int13 d tmp drive l s = Some (sec (snd s) drive l, s') \<and> sec (snd s') = sec (snd s)"
      by (auto simp: int13_read_def s)
    fix bs :: "u8 list"
    assume "length bs = 512"
    from write_step_spec [OF assms(1) header_at_dap_header assms(2) l this, of m h]
    show "\<exists>s'. int13_write int13 d tmp drive l bs s = Some s' \<and> sec (snd s') = (sec (snd s))(drive := (sec (snd s) drive)(l := bs))"
      by (auto simp: int13_write_def s)
  qed
qed (use read_block_eq [OF assms] write_block_eq [OF assms] in auto)

text \<open>Disk services over drives in memory, for the witness.\<close>

definition ram_int13 :: "ram int13" where
  "ram_int13 r = (\<lambda>(m, h).
     let a = unat (rm_desegment (rm_ds r) (ucast (rm_esi r)));
         b = unat (rm_desegment (of_nat (rd_le 2 m (a + 6))) (of_nat (rd_le 2 m (a + 4))));
         l = rd_le 8 m (a + 8); d = (ucast (rm_edx r) :: u8)
     in if l \<ge> ram_count d then (r\<lparr>rm_eflags := 1\<rparr>, m, h)
        else if rm_eax r = 0x4200 then (r\<lparr>rm_eflags := 0\<rparr>, put_bytes (ram_sectors h d l) b m, h)
        else if rm_eax r = 0x4300 then (r\<lparr>rm_eflags := 0\<rparr>, m, h(d := (h d)(l := map m [b..<b + 512])))
        else (r\<lparr>rm_eflags := 1\<rparr>, m, h))"

lemma ram_int13_laws: "int13_laws ram_int13 ram_sectors ram_count"
proof -
  have u: "ucast (ucast d :: u32) = d" for d :: u8 by (rule bit_word_eqI) (simp add: bit_simps)
  have len: "length (ram_sectors h d l) = 512" for h d l by (simp add: ram_sectors_def)
  have upd: "ram_sectors (h(d := (h d)(l := bs))) = (ram_sectors h)(d := (ram_sectors h d)(l := bs))" if "length bs = 512" for h d l bs
    using that by (simp add: ram_sectors_def fun_eq_iff)
  have sector: "map (put_bytes bs b m) [b..<b + 512] = bs" if "length bs = 512" for bs b m
    by (rule nth_equalityI) (simp_all add: that put_bytes_apply del: upt_Suc)
  have apart: "put_bytes bs b m (a + i) = m (a + i)" if "apart a b" "i < 16" "length bs = 512" for bs a b m i
    using that by (auto simp: apart_def put_bytes_apply)
  have rd: "\<exists>r' m' h'. ram_int13 r (m, h) = (r', m', h') \<and> \<not> carry r' \<and> ram_sectors h' = ram_sectors h
      \<and> (\<forall>i<16. m' (a + i) = m (a + i)) \<and> map m' [b..<b + 512] = ram_sectors h d l"
    if "disk_request 0x4200 r m d a b l" "l < ram_count d" for r m h d a b l
    using that apart [of a b _ "ram_sectors h d l" m] sector [of "ram_sectors h d l" b m] len [of h d l]
    by (auto simp: ram_int13_def disk_request_def packet_at_def Let_def u carry_def)
  have wr: "\<exists>r' m' h'. ram_int13 r (m, h) = (r', m', h') \<and> \<not> carry r'
      \<and> ram_sectors h' = (ram_sectors h)(d := (ram_sectors h d)(l := map m [b..<b + 512])) \<and> (\<forall>i<16. m' (a + i) = m (a + i))"
    if "disk_request 0x4300 r m d a b l" "l < ram_count d" for r m h d a b l
    using that upd [of "map m [b..<b + 512]" h d l]
    by (auto simp: ram_int13_def disk_request_def packet_at_def Let_def u carry_def)
  have "ram_count d \<le> 2 ^ 64" for d by (simp add: ram_count_def)
  with rd wr len show ?thesis unfolding int13_laws_def by blast
qed

definition blank_machine :: "memory \<times> ram" where
  "blank_machine = (\<lambda>_. 0, \<lambda>_ _. [])"

theorem int13_driver_refines_sectors_witness:
  "bios_laws (int13_read ram_int13 0x7000 0x7100) (int13_write ram_int13 0x7000 0x7100) (\<lambda>s. ram_sectors (snd s)) ram_count
   \<and> (\<exists>buf s'. bios_read_block ram_int13 0x7000 0x7100 0x80 64 blank_machine = Some (buf, s') \<and> buf ! 5 = 0)"
proof -
  have ap: "apart (unat (0x7000 :: u32)) (unat (0x7100 :: u32))" by (simp add: apart_def)
  note main = int13_driver_refines_sectors [OF ram_int13_laws ap]
  have laws: "bios_laws (int13_read ram_int13 0x7000 0x7100) (int13_write ram_int13 0x7000 0x7100) (\<lambda>s. ram_sectors (snd s)) ram_count"
    and eq: "bios_read_block ram_int13 0x7000 0x7100 0x80 64 s = disk_read_sector (int13_read ram_int13 0x7000 0x7100) 0x80 64 s" for s
    using main [THEN conjunct1] main [THEN conjunct2, rule_format, of 64 "0x80" s] by (auto simp: ram_count_def)
  have "64 + 64 \<le> ram_count 0x80" by (simp add: ram_count_def)
  from read_sectors_medium [OF laws this, of blank_machine]
  obtain buf s' where b: "read_sectors (int13_read ram_int13 0x7000 0x7100) 0x80 64 64 blank_machine = Some (buf, s')"
    "\<forall>i < 64 * 512. buf ! i = medium_byte (\<lambda>s. ram_sectors (snd s)) blank_machine 0x80 (64 * 512 + i)"
    by blast
  have "buf ! 5 = 0" using b(2) [rule_format, of 5] by (simp add: medium_byte_def ram_sectors_def blank_machine_def)
  then show ?thesis using laws eq b(1) by (simp add: disk_read_sector_def)
qed

subsection \<open>Every drive gets its device\<close>

text \<open>
  The drives that are looked at, in order, when \<open>drives\<close> tells the parameters of a drive that exists, and
  the devices they become.
\<close>

definition present_drives :: "(nat \<Rightarrow> bios_drive_params option) \<Rightarrow> nat \<Rightarrow> nat list" where
  "present_drives drives j = filter (\<lambda>j. j \<noteq> 0xe0 \<and> drives j \<noteq> None) [j..<0xfe]"

definition drive_device :: "'w io_wrapper \<Rightarrow> (nat \<Rightarrow> bios_drive_params option) \<Rightarrow> string \<Rightarrow> nat \<Rightarrow> 'w device_t" where
  "drive_device io drives name j = \<lparr>dev_name = name, gp_value = j, dev_size = lba_count (the (drives j)) * 512, dev_io = io\<rparr>"

definition drive_devices ::
  "'w io_wrapper \<Rightarrow> (nat \<Rightarrow> bios_drive_params option) \<Rightarrow> (string \<Rightarrow> 'w device_t list) \<Rightarrow> nat \<Rightarrow> nat \<Rightarrow> 'w device_t list" where
  "drive_devices io drives parts i j = concat (map (\<lambda>(name, j). drive_device io drives name j # parts name)
     (zip (drop i (take 26 bios_harddrive_names)) (present_drives drives j)))"

text \<open>
  What the registration relies on, in states of the hardware that satisfy \<open>ok\<close>: the BIOS gives the same
  answer for a drive every time, and \<open>add_part\<close> adds the partitions of a drive.  Both keep \<open>ok\<close>.
\<close>

definition reports_drives ::
  "(memory \<times> 'h \<Rightarrow> bool) \<Rightarrow> 'h int13 \<Rightarrow> u32 \<Rightarrow> (nat \<Rightarrow> bios_drive_params option) \<Rightarrow> bool" where
  "reports_drives ok int13 p drives \<longleftrightarrow>
     (\<forall>j s. ok s \<longrightarrow> fst (read_drive_parameters int13 p j s) = drives j \<and> ok (snd (read_drive_parameters int13 p j s)))"

definition adds_partitions ::
  "(memory \<times> 'h \<Rightarrow> bool) \<Rightarrow> (string \<Rightarrow> ('w, 'h) bd_boot \<Rightarrow> ('w, 'h) bd_boot option) \<Rightarrow> (string \<Rightarrow> 'w device_t list) \<Rightarrow> bool" where
  "adds_partitions ok add_part parts \<longleftrightarrow>
     (\<forall>name b. console_ready (bb_console b) \<and> ok (bb_hw b) \<longrightarrow>
        (\<exists>b'. add_part name b = Some b' \<and> console_ready (bb_console b') \<and> ok (bb_hw b') \<and> bb_devices b' = bb_devices b @ parts name))"

lemma present_drives_step:
  "j < 0xfe \<Longrightarrow> present_drives drives j =
     (if j \<noteq> 0xe0 \<and> drives j \<noteq> None then j # present_drives drives (j + 1) else present_drives drives (j + 1))"
  by (simp add: present_drives_def upt_conv_Cons)

lemma drive_devices_skip: "j < 0xfe \<Longrightarrow> j = 0xe0 \<or> drives j = None \<Longrightarrow> drive_devices io drives parts i j = drive_devices io drives parts i (j + 1)"
  by (auto simp: drive_devices_def present_drives_step [of j])

lemma drive_devices_found:
  "j < 0xfe \<Longrightarrow> j \<noteq> 0xe0 \<Longrightarrow> drives j \<noteq> None \<Longrightarrow> i < 26 \<Longrightarrow> drive_devices io drives parts i j =
     drive_device io drives (bios_harddrive_names ! i) j # parts (bios_harddrive_names ! i) @ drive_devices io drives parts (i + 1) (j + 1)"
proof -
  assume a: "j < 0xfe" "j \<noteq> 0xe0" "drives j \<noteq> None" "i < 26"
  have "i < length (take 26 bios_harddrive_names)" using a(4) by (simp add: bios_harddrive_names_def)
  from Cons_nth_drop_Suc [OF this] have "drop i (take 26 bios_harddrive_names) =
      bios_harddrive_names ! i # drop (i + 1) (take 26 bios_harddrive_names)" using a(4) by simp
  then show ?thesis using a by (simp add: drive_devices_def present_drives_step [of j])
qed

lemma bios_names_ok: "i < 26 \<Longrightarrow> length (bios_harddrive_names ! i) < 32 \<and> 0x1B \<notin> set (clit (bios_harddrive_names ! i))"
proof -
  have "\<forall>n \<in> set bios_harddrive_names. length n < 32 \<and> 0x1B \<notin> set (clit n)" by (simp add: bios_harddrive_names_def clit_def)
  moreover assume "i < 26"
  then have "bios_harddrive_names ! i \<in> set bios_harddrive_names" by (intro nth_mem) (simp add: bios_harddrive_names_def)
  ultimately show ?thesis by blast
qed

lemma unat_less_64: "unat (x :: u32) < 2 ^ 64" "unat (y :: u64) < 2 ^ 64"
  using unsigned_less [of x, where 'a = nat] unsigned_less [of y, where 'a = nat] by simp_all

lemma log_drive_step: "j < 0xfe \<Longrightarrow> log_step (log_drive j dp)"
  unfolding log_drive_def by (intro log_bind log_steps unat_less_64) (simp_all add: clit_def)

lemma add_drive_registers:
  assumes "console_ready (bb_console b)" and "i < 26" and "j < 0xfe" and "drives j = Some dp" and "name = bios_harddrive_names ! i"
    and "adds_partitions ok add_part parts" and "ok (bb_hw b)"
  shows "\<exists>b'. add_drive io add_part name j dp b = Some b' \<and> console_ready (bb_console b') \<and> ok (bb_hw b')
    \<and> bb_devices b' = bb_devices b @ drive_device io drives name j # parts name"
proof -
  obtain c1 where c1: "log_drive j dp (bb_console b) = Some c1" "console_ready c1"
    using log_drive_step [OF assms(3)] assms(1) by (auto simp: log_step_def)
  have "log_step (log_loaded name)"
    unfolding log_loaded_def by (intro log_bind log_steps) (use bios_names_ok [OF assms(2)] assms(5) in \<open>simp_all add: clit_def\<close>)
  then obtain c2 where c2: "log_loaded name c1 = Some c2" "console_ready c2" using c1(2) by (auto simp: log_step_def)
  have "length name < 32" using bios_names_ok [OF assms(2)] assms(5) by simp
  let ?b = "b\<lparr>bb_devices := bb_devices b @ [drive_device io drives name j], bb_console := c2\<rparr>"
  have "console_ready (bb_console ?b) \<and> ok (bb_hw ?b)" using c2(2) assms(7) by simp
  then obtain b' where "add_part name ?b = Some b'" "console_ready (bb_console b')" "ok (bb_hw b')" "bb_devices b' = bb_devices ?b @ parts name"
    using assms(6) unfolding adds_partitions_def by blast
  with \<open>length name < 32\<close> show ?thesis
    using c1(1) c2 assms(4) by (simp add: add_drive_def kernel_add_device_def drive_device_def)
qed

lemma init_bios_loop_registers:
  assumes "reports_drives ok int13 p drives" and "adds_partitions ok add_part parts"
  shows "console_ready (bb_console b) \<Longrightarrow> ok (bb_hw b) \<Longrightarrow>
    \<exists>b'. init_bios_loop int13 p io add_part i j b = Some b' \<and> console_ready (bb_console b') \<and> ok (bb_hw b')
    \<and> bb_devices b' = bb_devices b @ drive_devices io drives parts i j"
proof (induction "0xfe - j" arbitrary: i j b)
  case 0
  then show ?case by (simp add: init_bios_loop.simps drive_devices_def present_drives_def)
next
  case (Suc k)
  then have j: "j < 0xfe" "k = 0xfe - (j + 1)" by simp_all
  note IH = Suc.hyps(1) [OF j(2)]
  obtain s where r: "read_drive_parameters int13 p j (bb_hw b) = (drives j, s)" "ok s"
    using assms(1) Suc.prems(2) unfolding reports_drives_def by (metis prod.collapse)
  consider "26 \<le> i" | "i < 26" "j = 0xe0" | "i < 26" "j \<noteq> 0xe0" "drives j = None" | dp where "i < 26" "j \<noteq> 0xe0" "drives j = Some dp"
    by (cases "drives j") fastforce+
  then show ?case
  proof cases
    case 1
    then show ?thesis using Suc.prems by (simp add: init_bios_loop.simps drive_devices_def)
  next
    case 2
    then have "drive_devices io drives parts i j = drive_devices io drives parts i (j + 1)" using drive_devices_skip [OF j(1)] by blast
    then show ?thesis using IH [of b i] Suc.prems 2 by (simp add: init_bios_loop.simps [of _ _ _ _ _ "0xe0"])
  next
    case 3
    then have "drive_devices io drives parts i j = drive_devices io drives parts i (j + 1)" using drive_devices_skip [OF j(1)] by blast
    then show ?thesis using IH [of "b\<lparr>bb_hw := s\<rparr>" i] Suc.prems 3 j(1) r
      by (simp add: init_bios_loop.simps [of _ _ _ _ i j])
  next
    case 4
    obtain b1 where b1: "add_drive io add_part (bios_harddrive_names ! i) j dp (b\<lparr>bb_hw := s\<rparr>) = Some b1" "console_ready (bb_console b1)"
      "bb_devices b1 = bb_devices b @ drive_device io drives (bios_harddrive_names ! i) j # parts (bios_harddrive_names ! i)"
      "ok (bb_hw b1)"
      using add_drive_registers [of "b\<lparr>bb_hw := s\<rparr>" i j drives dp _ ok add_part parts io, OF _ 4(1) j(1) 4(3) refl assms(2)] Suc.prems(1) r(2) by auto
    have "init_bios_loop int13 p io add_part i j b = init_bios_loop int13 p io add_part (i + 1) (j + 1) b1"
      using 4 j(1) r b1(1) by (simp add: init_bios_loop.simps [of _ _ _ _ i j])
    moreover have "drive_devices io drives parts i j = drive_device io drives (bios_harddrive_names ! i) j
        # parts (bios_harddrive_names ! i) @ drive_devices io drives parts (i + 1) (j + 1)"
      by (rule drive_devices_found [OF j(1) 4(2) _ 4(1)]) (simp add: 4(3))
    ultimately show ?thesis using IH [OF b1(2,4), of "i + 1"] b1(3) by simp
  qed
qed

text \<open>
  Every drive the BIOS reports, up to 26 of them and the CD excepted, becomes a device, in the order of their
  numbers, with its number and its size in bytes, and is followed by its partitions.
\<close>

lemma init_bios_harddisks_registers:
  assumes "reports_drives ok int13 p drives" and "adds_partitions ok add_part parts"
    and "console_ready (bb_console b)" and "ok (bb_hw b)"
  shows "\<exists>b'. init_bios_harddisks int13 p io add_part b = Some b' \<and> console_ready (bb_console b') \<and> ok (bb_hw b')
    \<and> bb_devices b' = bb_devices b @ drive_devices io drives parts 0 0x80"
proof -
  obtain c where "kputs (0x0a # clit ''Initialising BIOS hard disks...'') (bb_console b) = Some c" "console_ready c"
    using kputs_ready [OF assms(3), of "0x0a # clit ''Initialising BIOS hard disks...''"] by (auto simp: clit_def)
  then show ?thesis
    using init_bios_loop_registers [OF assms(1,2), where b = "b\<lparr>bb_console := c\<rparr>" and io = io and i = 0 and j = "0x80"] assms(4) by (simp add: init_bios_harddisks_def)
qed

end
