(* ===== verification/Shell_Builtins.thy ===== *)
theory Shell_Builtins
  imports Shell_Run
begin

text \<open>
  The built-in commands of the shell and its main loop, \<open>main\<close> in \<open>shell/shell.c\<close>.

  The commands call the kernel (\<open>OS_\<close> functions) and the C library; the record \<open>sys\<close> holds these
  calls, each a function on the state \<open>'w\<close> of everything outside the shell.  \<open>None\<close> is a call that does not
  return.  \<open>sys_fputs\<close> stands for \<open>puts\<close>, \<open>fputs\<close>, \<open>putchar\<close>, \<open>printf\<close> and \<open>fprintf\<close>, with the text
  they put on a stream; \<open>load_fs\<close> for the assembly statement that loads a segment register.
\<close>

datatype ostream = Stdout | Stderr

record vdev_vars =
  sh_vdev :: int
  vdev_reg :: bool
  vdev_in :: u8
  vdev_in_flag :: int
  vdev_out :: u8
  vdev_out_flag :: int

record 'w sys =
  sys_fputs :: "ostream \<Rightarrow> string \<Rightarrow> 'w \<Rightarrow> 'w option"
  sys_fgets :: "nat \<Rightarrow> 'w \<Rightarrow> (string \<times> 'w) option"
  sys_getcwd :: "'w \<Rightarrow> (string \<times> 'w) option"
  OS_what_streams :: "'w \<Rightarrow> (string \<times> string \<times> string) option"
  OS_get_heap_base :: "'w \<Rightarrow> (int \<times> 'w) option"
  OS_get_heap_size :: "'w \<Rightarrow> (int \<times> 'w) option"
  OS_resize_heap :: "int \<Rightarrow> 'w \<Rightarrow> (int \<times> 'w) option"
  OS_new_segment :: "int \<Rightarrow> int \<Rightarrow> int \<Rightarrow> 'w \<Rightarrow> (u16 \<times> 'w) option"
  load_fs :: "u16 \<Rightarrow> 'w \<Rightarrow> 'w option"
  OS_vdev_register :: "'w \<Rightarrow> (int \<times> 'w) option"
  OS_vdev_in_ready :: "int \<Rightarrow> 'w \<Rightarrow> (int \<times> 'w) option"
  OS_vdev_out_ready :: "int \<Rightarrow> 'w \<Rightarrow> (int \<times> 'w) option"
  OS_vdev_await :: "vdev_vars \<Rightarrow> 'w \<Rightarrow> ((int \<times> vdev_vars) \<times> 'w) option"
  OS_getpid :: "'w \<Rightarrow> (int \<times> 'w) option"
  OS_open :: "string \<Rightarrow> int \<Rightarrow> int \<Rightarrow> 'w \<Rightarrow> (int \<times> 'w) option"
  OS_read :: "int \<Rightarrow> nat \<Rightarrow> 'w \<Rightarrow> ((int \<times> u8 list) \<times> 'w) option"
  OS_write :: "int \<Rightarrow> u8 list \<Rightarrow> 'w \<Rightarrow> (int \<times> 'w) option"
  OS_close :: "int \<Rightarrow> 'w \<Rightarrow> (int \<times> 'w) option"
  OS_vfs_mkdir :: "string \<Rightarrow> int \<Rightarrow> 'w \<Rightarrow> (int \<times> 'w) option"
  OS_vfs_create :: "string \<Rightarrow> int \<Rightarrow> 'w \<Rightarrow> (int \<times> 'w) option"
  OS_vfs_remove :: "string \<Rightarrow> 'w \<Rightarrow> (int \<times> 'w) option"
  OS_vfs_get_metadata :: "string \<Rightarrow> int \<Rightarrow> 'w \<Rightarrow> (int \<times> 'w) option"
  OS_vfs_list :: "string \<Rightarrow> vfs_metadata_t \<Rightarrow> nat \<Rightarrow> 'w \<Rightarrow> ((int \<times> vfs_metadata_t) \<times> 'w) option"
  OS_vfs_cd :: "string \<Rightarrow> 'w \<Rightarrow> (int \<times> 'w) option"
  OS_vfs_read :: "string \<Rightarrow> int \<Rightarrow> 'w \<Rightarrow> (int \<times> 'w) option"
  OS_vfs_write :: "string \<Rightarrow> int \<Rightarrow> int \<Rightarrow> 'w \<Rightarrow> (int \<times> 'w) option"
  OS_ipc_resolve_name :: "string \<Rightarrow> 'w \<Rightarrow> (u32 \<times> 'w) option"
  OS_ipc_send_packet :: "u32 \<Rightarrow> string \<Rightarrow> nat \<Rightarrow> 'w \<Rightarrow> 'w option"
  OS_general_execute :: "task_info_t \<Rightarrow> 'w \<Rightarrow> (int \<times> 'w) option"
  OS_general_execute_block :: "task_info_t \<Rightarrow> 'w \<Rightarrow> (int \<times> 'w) option"
  sys_fork :: "'w \<Rightarrow> (int \<times> 'w) option"
  sys_remove :: "string \<Rightarrow> 'w \<Rightarrow> (int \<times> 'w) option"
  sys_fopen :: "string \<Rightarrow> string \<Rightarrow> 'w \<Rightarrow> (nat option \<times> 'w) option"
  sys_fgetc :: "nat \<Rightarrow> 'w \<Rightarrow> (int \<times> 'w) option"
  sys_fputc :: "int \<Rightarrow> nat \<Rightarrow> 'w \<Rightarrow> 'w option"
  sys_fseek_end :: "nat \<Rightarrow> 'w \<Rightarrow> 'w option"
  sys_ftell :: "nat \<Rightarrow> 'w \<Rightarrow> (int \<times> 'w) option"
  sys_fclose :: "nat \<Rightarrow> 'w \<Rightarrow> 'w option"

text \<open>The conversions of \<open>printf\<close> that the shell uses, and \<open>atoi\<close>.\<close>

definition digit_char :: "nat \<Rightarrow> char" where
  "digit_char d = ''0123456789abcdef'' ! d"

definition digits_of :: "nat \<Rightarrow> nat \<Rightarrow> string" where
  "digits_of base n = (if n = 0 then ''0'' else map digit_char (numeral_digits base n))"

definition fmt_d :: "int \<Rightarrow> string" where
  "fmt_d i = (if i < 0 then CHR ''-'' # digits_of 10 (nat (- i)) else digits_of 10 (nat i))"

definition fmt_04x :: "u16 \<Rightarrow> string" where
  "fmt_04x x = (let s = digits_of 16 (unat x) in replicate (4 - length s) (CHR ''0'') @ s)"

definition char_digit :: "char \<Rightarrow> nat option" where
  "char_digit c = (let n = of_char c :: nat in if 48 \<le> n \<and> n \<le> 57 then Some (n - 48) else None)"

fun atoi_from :: "int \<Rightarrow> string \<Rightarrow> int" where
  "atoi_from v [] = v"
| "atoi_from v (c # cs) = (case char_digit c of None \<Rightarrow> v | Some d \<Rightarrow> atoi_from (v * 10 + int d) cs)"

definition atoi :: "string \<Rightarrow> int" where
  "atoi s = (case s of c # cs \<Rightarrow> if c = CHR ''-'' then - atoi_from 0 cs else if c = CHR ''+'' then atoi_from 0 cs else atoi_from 0 s | [] \<Rightarrow> 0)"

abbreviation (input) ESC :: char where "ESC \<equiv> CHR 0x1B"
abbreviation (input) say :: "'w sys \<Rightarrow> string \<Rightarrow> 'w \<Rightarrow> 'w option" where "say S \<equiv> sys_fputs S Stdout"
abbreviation (input) complain :: "'w sys \<Rightarrow> string \<Rightarrow> 'w \<Rightarrow> 'w option" where "complain S \<equiv> sys_fputs S Stderr"

text \<open>
  The variables of the shell that outlive a round, besides those of \<open>session\<close>, and how a round ends: with
  the next round, with the end of the shell, or in the division error of \<open>div0\<close>.  The strings of \<open>argv\<close> are
  read where the pointers point to; a pointer that was never set is a fault.
\<close>

record locals =
  cwd_buf :: string
  metadata :: vfs_metadata_t
  vdevs :: vdev_vars

datatype outcome = Next | Exit int | Division_Error

definition argv :: "session \<Rightarrow> nat \<Rightarrow> string option" where
  "argv s i = do { p \<leftarrow> Option.bind (arr_get (s_argv s) i) id; Some (text_at (input s) p) }"

subsection \<open>Memory, segments, terminal colours\<close>

definition cmd_heap :: "'w sys \<Rightarrow> 'w \<Rightarrow> 'w option" where
  "cmd_heap S w = do {
     (b, w) \<leftarrow> OS_get_heap_base S w;
     (n, w) \<leftarrow> OS_get_heap_size S w;
     w \<leftarrow> say S (''heap base: '' @ fmt_d b @ [newline] @ ''heap size: '' @ fmt_d n @ [newline]) w;
     (r, w) \<leftarrow> OS_resize_heap S 0x100 w;
     Some w }"

definition cmd_segm :: "'w sys \<Rightarrow> 'w \<Rightarrow> 'w option" where
  "cmd_segm S w = do {
     (seg, w) \<leftarrow> OS_new_segment S 0x10 1 0 w;
     w \<leftarrow> say S (''created LDT segment: 0x'' @ fmt_04x seg @ [newline]) w;
     load_fs S seg w }"

definition colour_bar :: string where
  "colour_bar = concat (map (\<lambda>n. ESC # ''['' @ n @ ''m '') [''40'', ''41'', ''42'', ''43'', ''44'', ''45'', ''46'', ''47'']) @ ESC # ''[40m''"

definition cmd_col :: "'w sys \<Rightarrow> 'w \<Rightarrow> 'w option" where
  "cmd_col S w = say S (colour_bar @ [newline]) w"

subsection \<open>Virtual devices\<close>

definition cmd_vdev :: "'w sys \<Rightarrow> vdev_vars \<Rightarrow> 'w \<Rightarrow> (vdev_vars \<times> 'w) option" where
  "cmd_vdev S v w =
     (if vdev_reg v then map_option (Pair v) (say S (''vdev already registered'' @ [newline]) w)
      else do {
        w \<leftarrow> say S (''registering vdev'' @ [newline]) w;
        (n, w) \<leftarrow> OS_vdev_register S w;
        let v = v\<lparr>sh_vdev := n\<rparr>;
        if n = -1 then map_option (Pair v) (say S (''vdev registration failed'' @ [newline]) w)
        else map_option (Pair (v\<lparr>vdev_reg := True\<rparr>)) (say S (''vdev'' @ fmt_d n @ '' registered successfully'' @ [newline]) w) })"

definition cmd_vdevin :: "'w sys \<Rightarrow> vdev_vars \<Rightarrow> 'w \<Rightarrow> (vdev_vars \<times> 'w) option" where
  "cmd_vdevin S v w =
     (if \<not> vdev_reg v then map_option (Pair v) (say S (''vdev not registered'' @ [newline]) w)
      else do {
        (r, w) \<leftarrow> OS_vdev_in_ready S (sh_vdev v) w;
        ((n, v), w) \<leftarrow> OS_vdev_await S v w;
        w \<leftarrow> say S (''activity on vdev'' @ fmt_d n @ '': `'' @ [char_of (unat (vdev_in v))] @ ''`'' @ [newline]) w;
        Some (v, w) })"

definition cmd_vdevout :: "'w sys \<Rightarrow> nat \<Rightarrow> session \<Rightarrow> vdev_vars \<Rightarrow> 'w \<Rightarrow> (vdev_vars \<times> 'w) option" where
  "cmd_vdevout S argc s v w =
     (if argc = 1 then Some (v, w)
      else if \<not> vdev_reg v then map_option (Pair v) (say S (''vdev not registered'' @ [newline]) w)
      else do {
        a \<leftarrow> argv s 1;
        let v = v\<lparr>vdev_out := of_char (case a of [] \<Rightarrow> NUL | c # _ \<Rightarrow> c)\<rparr>;
        (r, w) \<leftarrow> OS_vdev_out_ready S (sh_vdev v) w;
        ((n, v), w) \<leftarrow> OS_vdev_await S v w;
        w \<leftarrow> say S (''activity on vdev'' @ fmt_d n @ [newline]) w;
        Some (v, w) })"

subsection \<open>Processes and files\<close>

definition cmd_pid :: "'w sys \<Rightarrow> 'w \<Rightarrow> 'w option" where
  "cmd_pid S w = do { (p, w) \<leftarrow> OS_getpid S w; say S (''pid: '' @ fmt_d p @ [newline]) w }"

abbreviation (input) ECH_O_RDONLY :: int where "ECH_O_RDONLY \<equiv> 1"
abbreviation (input) ECH_O_WRONLY_CREAT_TRUNC :: int where "ECH_O_WRONLY_CREAT_TRUNC \<equiv> 50"

text \<open>The common end of \<open>read\<close> and \<open>write\<close>.  A handle that could not be opened is used all the same.\<close>

definition close_handle :: "'w sys \<Rightarrow> int \<Rightarrow> 'w \<Rightarrow> 'w option" where
  "close_handle S h w = do {
     (r, w) \<leftarrow> OS_close S h w;
     say S ((if r = -1 then ''couldn't close'' else ''handle closed'') @ [newline]) w }"

definition open_handle :: "'w sys \<Rightarrow> string \<Rightarrow> int \<Rightarrow> 'w \<Rightarrow> (int \<times> 'w) option" where
  "open_handle S path flags w = do {
     (h, w) \<leftarrow> OS_open S path flags 0 w;
     w \<leftarrow> (if h = -1 then complain S (''couldn't open file'' @ [newline]) w else Some w);
     w \<leftarrow> say S (''received handle '' @ fmt_d h @ [newline]) w;
     Some (h, w) }"

definition cmd_read :: "'w sys \<Rightarrow> nat \<Rightarrow> session \<Rightarrow> 'w \<Rightarrow> 'w option" where
  "cmd_read S argc s w =
     (if argc = 1 then Some w
      else do {
        a \<leftarrow> argv s 1;
        (h, w) \<leftarrow> open_handle S a ECH_O_RDONLY w;
        ((r, bs), w) \<leftarrow> OS_read S h 5 w;
        w \<leftarrow> say S ((if r = -1 then ''couldn't read'' else ''read 5 bytes'') @ [newline]) w;
        w \<leftarrow> say S (map (\<lambda>b. char_of (unat b)) (takeWhile (\<lambda>b. b \<noteq> 0) (take 5 bs)) @ [newline]) w;
        close_handle S h w })"

definition cmd_write :: "'w sys \<Rightarrow> nat \<Rightarrow> session \<Rightarrow> 'w \<Rightarrow> 'w option" where
  "cmd_write S argc s w =
     (if argc = 1 then Some w
      else do {
        a \<leftarrow> argv s 1;
        (h, w) \<leftarrow> open_handle S a ECH_O_WRONLY_CREAT_TRUNC w;
        (r, w) \<leftarrow> OS_write S h (map of_char ''12345'') w;
        w \<leftarrow> say S ((if r = -1 then ''couldn't write'' else ''wrote 5 bytes'') @ [newline]) w;
        w \<leftarrow> say S (''12345'' @ [newline]) w;
        close_handle S h w })"

definition cmd_esc :: "'w sys \<Rightarrow> nat \<Rightarrow> session \<Rightarrow> 'w \<Rightarrow> 'w option" where
  "cmd_esc S argc s w =
     (if argc = 1 then Some w
      else do { w \<leftarrow> say S [ESC] w; a \<leftarrow> argv s 1; say S a w })"

definition cmd_mkdir :: "'w sys \<Rightarrow> nat \<Rightarrow> session \<Rightarrow> 'w \<Rightarrow> 'w option" where
  "cmd_mkdir S argc s w =
     (if argc = 1 then Some w
      else do {
        a \<leftarrow> argv s 1;
        (r, w) \<leftarrow> OS_vfs_mkdir S a 0 w;
        if r \<noteq> 0 then complain S (''couldn't create directory `'' @ a @ ''`.'' @ [newline]) w else Some w })"

definition cmd_touch :: "'w sys \<Rightarrow> nat \<Rightarrow> session \<Rightarrow> 'w \<Rightarrow> 'w option" where
  "cmd_touch S argc s w =
     (if argc = 1 then Some w
      else do {
        a \<leftarrow> argv s 1;
        (r, w) \<leftarrow> OS_vfs_create S a 0 w;
        if r \<noteq> 0 then complain S (''couldn't create file `'' @ a @ ''`.'' @ [newline]) w else Some w })"

definition cmd_rm :: "'w sys \<Rightarrow> nat \<Rightarrow> session \<Rightarrow> 'w \<Rightarrow> 'w option" where
  "cmd_rm S argc s w =
     (if argc = 1 then Some w
      else do {
        a \<leftarrow> argv s 1;
        (r, w) \<leftarrow> OS_vfs_remove S a w;
        if r \<noteq> 0 then complain S (''couldn't remove file `'' @ a @ ''`.'' @ [newline]) w else Some w })"

definition cmd_clear :: "'w sys \<Rightarrow> 'w \<Rightarrow> 'w option" where
  "cmd_clear S w = say S (ESC # ''[2J'' @ ESC # ''[H'') w"

definition cmd_fork :: "'w sys \<Rightarrow> 'w \<Rightarrow> 'w option" where
  "cmd_fork S w = do {
     (p, w) \<leftarrow> sys_fork S w;
     say S ((if p = -1 then ''Fork fail.'' else if p = 0 then ''Child process OK.'' else ''Child PID: '' @ fmt_d p) @ [newline]) w }"

text \<open>\<open>ls\<close> asks for the entries by number until the answer is \<open>-2\<close>; the number is a signed integer.\<close>

definition ls_line :: "vfs_metadata_t \<Rightarrow> string" where
  "ls_line md = (if filetype md = 1 then ESC # ''[36m'' else []) @ (if filetype md = 2 then ESC # ''[33m'' else [])
     @ filename md @ ESC # ''[0m'' @ [newline]"

partial_function (option) ls_loop :: "'w sys \<Rightarrow> string \<Rightarrow> nat \<Rightarrow> vfs_metadata_t \<Rightarrow> 'w \<Rightarrow> (vfs_metadata_t \<times> 'w) option" where
  "ls_loop S path i md w =
     (if 2 ^ 31 \<le> i then None
      else do {
        ((r, md), w) \<leftarrow> OS_vfs_list S path md i w;
        if r = -2 then Some (md, w)
        else do { w \<leftarrow> say S (ls_line md) w; ls_loop S path (i + 1) md w } })"

declare ls_loop.simps [code]

definition cmd_ls :: "'w sys \<Rightarrow> nat \<Rightarrow> session \<Rightarrow> locals \<Rightarrow> 'w \<Rightarrow> (locals \<times> 'w) option" where
  "cmd_ls S argc s l w = do {
     path \<leftarrow> (if argc = 1 then Some (cwd_buf l) else argv s 1);
     (md, w) \<leftarrow> ls_loop S path 0 (metadata l) w;
     Some (l\<lparr>metadata := md\<rparr>, w) }"

definition cmd_beep :: "'w sys \<Rightarrow> nat \<Rightarrow> session \<Rightarrow> 'w \<Rightarrow> 'w option" where
  "cmd_beep S argc s w =
     (if argc = 1 then Some w
      else do { a \<leftarrow> argv s 1; (r, w) \<leftarrow> OS_vfs_write S ''/dev/PC Speaker'' 0 (atoi a) w; Some w })"

definition cmd_rdspk :: "'w sys \<Rightarrow> 'w \<Rightarrow> 'w option" where
  "cmd_rdspk S w = do { (r, w) \<leftarrow> OS_vfs_read S ''/dev/PC Speaker'' 0 w; say S (fmt_d r @ [newline]) w }"

text \<open>The number of a task is printed as a signed integer.\<close>

definition cmd_send :: "'w sys \<Rightarrow> session \<Rightarrow> 'w \<Rightarrow> 'w option" where
  "cmd_send S s w = do {
     (p, w) \<leftarrow> OS_ipc_resolve_name S ''server'' w;
     w \<leftarrow> say S (''server's PID is: '' @ fmt_d (sint p) @ [newline]) w;
     a \<leftarrow> argv s 1;
     w \<leftarrow> say S (''payload is: '' @ a @ [newline]) w;
     OS_ipc_send_packet S p a (length a + 1) w }"

subsection \<open>Streams\<close>

definition cant_open :: "'w sys \<Rightarrow> string \<Rightarrow> 'w \<Rightarrow> 'w option" where
  "cant_open S a w = complain S (''can't open `'' @ a @ ''`.'' @ [newline]) w"

definition file_length :: "'w sys \<Rightarrow> nat \<Rightarrow> 'w \<Rightarrow> 'w option" where
  "file_length S fp w = do {
     (n, w) \<leftarrow> sys_ftell S fp w;
     w \<leftarrow> say S ([newline] @ ''File length: '' @ fmt_d (s32 n) @ [newline]) w;
     sys_fclose S fp w }"

partial_function (option) dump_loop :: "'w sys \<Rightarrow> nat \<Rightarrow> 'w \<Rightarrow> 'w option" where
  "dump_loop S fp w = do {
     (c, w) \<leftarrow> sys_fgetc S fp w;
     if c = -1 then Some w
     else do { w \<leftarrow> say S [char_of (nat (c mod 256))] w; dump_loop S fp w } }"

declare dump_loop.simps [code]

definition cmd_dump :: "'w sys \<Rightarrow> nat \<Rightarrow> session \<Rightarrow> 'w \<Rightarrow> 'w option" where
  "cmd_dump S argc s w =
     (if argc = 1 then Some w
      else do {
        a \<leftarrow> argv s 1;
        (fp, w) \<leftarrow> sys_fopen S a ''r'' w;
        case fp of None \<Rightarrow> cant_open S a w
        | Some fp \<Rightarrow> do { w \<leftarrow> dump_loop S fp w; file_length S fp w } })"

definition cmd_size :: "'w sys \<Rightarrow> nat \<Rightarrow> session \<Rightarrow> 'w \<Rightarrow> 'w option" where
  "cmd_size S argc s w =
     (if argc = 1 then Some w
      else do {
        a \<leftarrow> argv s 1;
        (fp, w) \<leftarrow> sys_fopen S a ''r'' w;
        case fp of None \<Rightarrow> cant_open S a w
        | Some fp \<Rightarrow> do { w \<leftarrow> sys_fseek_end S fp w; file_length S fp w } })"

partial_function (option) copy_loop :: "'w sys \<Rightarrow> nat \<Rightarrow> nat \<Rightarrow> 'w \<Rightarrow> 'w option" where
  "copy_loop S src dest w = do {
     (c, w) \<leftarrow> sys_fgetc S src w;
     if c = -1 then Some w
     else do { w \<leftarrow> sys_fputc S c dest w; copy_loop S src dest w } }"

declare copy_loop.simps [code]

text \<open>Only the destination is closed.\<close>

definition cmd_dumpr :: "'w sys \<Rightarrow> nat \<Rightarrow> session \<Rightarrow> 'w \<Rightarrow> 'w option" where
  "cmd_dumpr S argc s w =
     (if argc < 3 then Some w
      else do {
        a \<leftarrow> argv s 1;
        (src, w) \<leftarrow> sys_fopen S a ''rb'' w;
        case src of None \<Rightarrow> cant_open S a w
        | Some src \<Rightarrow> do {
            b \<leftarrow> argv s 2;
            (dest, w) \<leftarrow> sys_fopen S b ''rb+'' w;
            case dest of None \<Rightarrow> cant_open S b w
            | Some dest \<Rightarrow> do { w \<leftarrow> copy_loop S src dest w; sys_fclose S dest w } } })"

definition cmd_cd :: "'w sys \<Rightarrow> nat \<Rightarrow> session \<Rightarrow> 'w \<Rightarrow> 'w option" where
  "cmd_cd S argc s w =
     (if argc = 1 then Some w
      else do {
        a \<leftarrow> argv s 1;
        (r, w) \<leftarrow> OS_vfs_cd S a w;
        if r = -2 then complain S (''shell: invalid directory: `'' @ a @ ''`.'' @ [newline]) w else Some w })"

subsection \<open>A round and the main loop\<close>

abbreviation (input) next_round :: "locals \<Rightarrow> 'w option \<Rightarrow> (outcome \<times> locals \<times> 'w) option" where
  "next_round l r \<equiv> map_option (\<lambda>w. (Next, l, w)) r"

definition run_builtin :: "'w sys \<Rightarrow> string \<Rightarrow> nat \<Rightarrow> session \<Rightarrow> locals \<Rightarrow> 'w \<Rightarrow> (outcome \<times> locals \<times> 'w) option" where
  "run_builtin S name argc s l w =
     (if name = ''heap'' then next_round l (cmd_heap S w)
      else if name = ''segm'' then next_round l (cmd_segm S w)
      else if name = ''col'' then next_round l (cmd_col S w)
      else if name = ''vdev'' then map_option (\<lambda>(v, w). (Next, l\<lparr>vdevs := v\<rparr>, w)) (cmd_vdev S (vdevs l) w)
      else if name = ''vdevin'' then map_option (\<lambda>(v, w). (Next, l\<lparr>vdevs := v\<rparr>, w)) (cmd_vdevin S (vdevs l) w)
      else if name = ''vdevout'' then map_option (\<lambda>(v, w). (Next, l\<lparr>vdevs := v\<rparr>, w)) (cmd_vdevout S argc s (vdevs l) w)
      else if name = ''pid'' then next_round l (cmd_pid S w)
      else if name = ''read'' then next_round l (cmd_read S argc s w)
      else if name = ''write'' then next_round l (cmd_write S argc s w)
      else if name = ''div0'' then Some (Division_Error, l, w)
      else if name = ''esc'' then next_round l (cmd_esc S argc s w)
      else if name = ''mkdir'' then next_round l (cmd_mkdir S argc s w)
      else if name = ''touch'' then next_round l (cmd_touch S argc s w)
      else if name = ''rm'' then next_round l (cmd_rm S argc s w)
      else if name = ''clear'' then next_round l (cmd_clear S w)
      else if name = ''fork'' then next_round l (cmd_fork S w)
      else if name = ''ls'' then map_option (\<lambda>(l, w). (Next, l, w)) (cmd_ls S argc s l w)
      else if name = ''beep'' then next_round l (cmd_beep S argc s w)
      else if name = ''rdspk'' then next_round l (cmd_rdspk S w)
      else if name = ''send'' then next_round l (cmd_send S s w)
      else if name = ''exit'' then Some (Exit 0, l, w)
      else if name = ''dump'' then next_round l (cmd_dump S argc s w)
      else if name = ''size'' then next_round l (cmd_size S argc s w)
      else if name = ''dumpr'' then next_round l (cmd_dumpr S argc s w)
      else if name = ''cd'' then next_round l (cmd_cd S argc s w)
      else None)"

text \<open>The calls \<open>get_argv\<close> makes for redirections, in their order.\<close>

fun redirect_calls :: "'w sys \<Rightarrow> os_call list \<Rightarrow> 'w \<Rightarrow> 'w option" where
  "redirect_calls S [] w = Some w"
| "redirect_calls S (Remove f # cs) w = do { (r, w) \<leftarrow> sys_remove S f w; redirect_calls S cs w }"
| "redirect_calls S (Create f # cs) w = do { (r, w) \<leftarrow> OS_vfs_create S f 0 w; redirect_calls S cs w }"
| "redirect_calls S (Look_Up f # cs) w = do {
     (r, w) \<leftarrow> OS_vfs_get_metadata S f FILE_TYPE w;
     w \<leftarrow> (if r = -2 then map_option snd (OS_vfs_get_metadata S f DEVICE_TYPE w) else Some w);
     redirect_calls S cs w }"

definition run_program :: "'w sys \<Rightarrow> task_info_t \<Rightarrow> bool \<Rightarrow> session \<Rightarrow> 'w \<Rightarrow> 'w option" where
  "run_program S ti block s w =
     (let invalid = ''shell: invalid command: `'' @ text_at (input s) 0 @ ''`.'' @ [newline] in
      if block then do {
        (r, w) \<leftarrow> OS_general_execute_block S ti w;
        if r = -1 then complain S invalid w else Some w }
      else do {
        (r, w) \<leftarrow> OS_general_execute S ti w;
        complain S (if r = -1 then invalid else ''PID '' @ fmt_d r @ '' launched.'' @ [newline]) w })"

definition prompt :: "string \<Rightarrow> string" where
  "prompt cwd = ESC # ''[32mechidnaOS'' @ ESC # ''[0m:'' @ ESC # ''[36m'' @ cwd @ ESC # ''[0m# ''"

definition shell_main_round :: "'w sys \<Rightarrow> session \<Rightarrow> locals \<Rightarrow> 'w \<Rightarrow> (outcome \<times> session \<times> locals \<times> 'w) option" where
  "shell_main_round S s l w = do {
     (cwd, w) \<leftarrow> sys_getcwd S w;
     let l = l\<lparr>cwd_buf := cwd\<rparr>;
     w \<leftarrow> say S (prompt cwd) w;
     (line, w) \<leftarrow> sys_fgets S 256 w;
     std \<leftarrow> OS_what_streams S w;
     (cmd, s) \<leftarrow> shell_round std cwd line (s\<lparr>vars := (vars s)\<lparr>os_calls := []\<rparr>\<rparr>);
     w \<leftarrow> redirect_calls S (os_calls (vars s)) w;
     case cmd of
       Builtin name \<Rightarrow> do {
         (oc, l, w) \<leftarrow> run_builtin S name (s_argc s) s l w;
         Some (oc, s, l, w) }
     | No_Input \<Rightarrow> Some (Next, s, l, w)
     | Program ti block \<Rightarrow> do { w \<leftarrow> run_program S ti block s w; Some (Next, s, l, w) } }"

partial_function (option) shell_main :: "'w sys \<Rightarrow> session \<Rightarrow> locals \<Rightarrow> 'w \<Rightarrow> (int \<times> 'w) option" where
  "shell_main S s l w = do {
     (oc, s, l, w) \<leftarrow> shell_main_round S s l w;
     case oc of Exit r \<Rightarrow> Some (r, w) | Next \<Rightarrow> shell_main S s l w | Division_Error \<Rightarrow> None }"

declare shell_main.simps [code]

subsection \<open>The words of a built-in command\<close>

lemma shell_round_builtin:
  assumes "length line \<le> 254" and "NUL \<notin> set line" and "newline \<notin> set line" and "list_all short_name (tokens line)"
    and "words (tokens line) = c # args" and "c \<in> set builtins" and "length (s_argv s) = 128"
  shows "\<exists>s'. shell_round std cwd (line @ newline # rest) s = Some (Builtin c, s') \<and> s_argc s' = length (c # args)
    \<and> (\<forall>i < length (c # args). argv s' i = Some ((c # args) ! i))
    \<and> vars s' = fold obey (tokens line) (initial_vars std (vars s)) \<and> length (s_argv s') = 128"
proof -
  obtain out ps s1 where r: "length ps = length (c # args)" "s_argc s1 = length (c # args)" "vars s1 = fold obey (tokens line) (initial_vars std (vars s))"
      "s_argv s1 = map Some ps @ drop (length ps) (s_argv s)" "length (s_argv s1) = 128" "map (text_at (input s1)) ps = c # args"
    and round: "shell_round std cwd (line @ newline # rest) s = (if c \<in> set builtins then Some (Builtin c, s1) else if input s1 ! 0 = NUL then Some (No_Input, s1)
        else do { ti \<leftarrow> prog_info_for cwd (length (c # args)) c s1; Some (Program ti (\<not> no_block (fold obey (tokens line) (initial_vars std (vars s)))), s1) })"
    using shell_round_cut [OF assms(1-5,7) refl, of std cwd rest] by (elim exE conjE) (rule that; assumption)
  have "argv s1 i = Some ((c # args) ! i)" if "i < length (c # args)" for i
  proof -
    have "text_at (input s1) (ps ! i) = (c # args) ! i" using that r(1,6) by (metis nth_map)
    then show ?thesis using that r(1,4,5) by (simp add: argv_def arr_get_def nth_append)
  qed
  with r round assms(6) show ?thesis by (intro exI [of _ s1]) simp
qed

text \<open>
  A round that reads such a line, without redirections: the prompt, the line, the command.
\<close>

lemma main_round_builtin:
  assumes "length line \<le> 254" and "NUL \<notin> set line" and "newline \<notin> set line" and "list_all short_name (tokens line)"
    and "words (tokens line) = c # args" and "c \<in> set builtins" and "length (s_argv s) = 128"
    and "os_calls (fold obey (tokens line) (initial_vars std ((vars s)\<lparr>os_calls := []\<rparr>))) = []"
    and "sys_getcwd S w = Some (cwd, w1)" and "say S (prompt cwd) w1 = Some w2" and "sys_fgets S 256 w2 = Some (line @ [newline], w3)"
    and "OS_what_streams S w3 = Some std"
  shows "\<exists>s'. s_argc s' = length (c # args) \<and> (\<forall>i < length (c # args). argv s' i = Some ((c # args) ! i)) \<and> length (s_argv s') = 128
    \<and> shell_main_round S s l w = map_option (\<lambda>(oc, l, w). (oc, s', l, w)) (run_builtin S c (length (c # args)) s' (l\<lparr>cwd_buf := cwd\<rparr>) w3)"
proof -
  obtain s' where s': "shell_round std cwd (line @ newline # []) (s\<lparr>vars := (vars s)\<lparr>os_calls := []\<rparr>\<rparr>) = Some (Builtin c, s')"
    "s_argc s' = length (c # args)" "\<forall>i < length (c # args). argv s' i = Some ((c # args) ! i)" "os_calls (vars s') = []" "length (s_argv s') = 128"
    using shell_round_builtin [OF assms(1-6), of "s\<lparr>vars := (vars s)\<lparr>os_calls := []\<rparr>\<rparr>" std cwd "[]"] assms(7,8) by auto
  then have "shell_main_round S s l w = map_option (\<lambda>(oc, l, w). (oc, s', l, w)) (run_builtin S c (length (c # args)) s' (l\<lparr>cwd_buf := cwd\<rparr>) w3)"
    using assms(9-12)
    by (cases "run_builtin S c (length (c # args)) s' (l\<lparr>cwd_buf := cwd\<rparr>) w3") (auto simp: shell_main_round_def)
  with s' show ?thesis by blast
qed

subsection \<open>Listing a directory\<close>

text \<open>
  \<open>lists S path entries w\<close>: in state \<open>w\<close> and after any output to the terminal, the kernel answers the
  request for entry \<open>i\<close> of the directory with \<open>entries ! i\<close>, as the data \<open>md\<close> with its name and type filled
  in, and with \<open>-2\<close> behind the last one.  \<open>shown\<close> is the text on the terminal.
\<close>

definition lists :: "'w sys \<Rightarrow> ('w \<Rightarrow> string) \<Rightarrow> ('w \<Rightarrow> bool) \<Rightarrow> string \<Rightarrow> (string \<times> int) list \<Rightarrow> bool" where
  "lists S shown ok path entries \<longleftrightarrow>
     (\<forall>w txt. ok w \<longrightarrow> (\<exists>w'. say S txt w = Some w' \<and> ok w' \<and> shown w' = shown w @ txt))
   \<and> (\<forall>w md i. ok w \<and> i < length entries \<longrightarrow> (\<exists>r md' w'. OS_vfs_list S path md i w = Some ((r, md'), w') \<and> r \<noteq> -2
        \<and> ok w' \<and> shown w' = shown w \<and> filename md' = fst (entries ! i) \<and> filetype md' = snd (entries ! i)))
   \<and> (\<forall>w md. ok w \<longrightarrow> (\<exists>md' w'. OS_vfs_list S path md (length entries) w = Some ((-2, md'), w') \<and> ok w' \<and> shown w' = shown w))"

definition ls_entry :: "string \<times> int \<Rightarrow> string" where
  "ls_entry e = ls_line \<lparr>filename = fst e, filetype = snd e, fsize = 0\<rparr>"

lemma ls_line_entry: "ls_line md = ls_entry (filename md, filetype md)"
  by (simp add: ls_line_def ls_entry_def)

lemma ls_loop_lists:
  assumes "lists S shown ok path entries" and "length entries < 2 ^ 31"
  shows "i \<le> length entries \<Longrightarrow> ok w \<Longrightarrow> \<exists>md' w'. ls_loop S path i md w = Some (md', w') \<and> ok w'
    \<and> shown w' = shown w @ concat (map ls_entry (drop i entries))"
proof (induction "length entries - i" arbitrary: i md w)
  case 0
  then have i: "i = length entries" by simp
  from assms(1) 0(3) obtain md' w' where "OS_vfs_list S path md (length entries) w = Some ((-2, md'), w')" "ok w'" "shown w' = shown w"
    unfolding lists_def by blast
  then show ?case using assms(2) i by (simp add: ls_loop.simps [of S path "length entries"])
next
  case (Suc n)
  then have i: "i < length entries" "n = length entries - (i + 1)" "i + 1 \<le> length entries" by simp_all
  from assms(1) i(1) Suc.prems(2) obtain r md1 w1 where 1: "OS_vfs_list S path md i w = Some ((r, md1), w1)" "r \<noteq> -2" "ok w1" "shown w1 = shown w"
      "filename md1 = fst (entries ! i)" "filetype md1 = snd (entries ! i)"
    unfolding lists_def by blast
  from assms(1) 1(3) obtain w2 where 2: "say S (ls_line md1) w1 = Some w2" "ok w2" "shown w2 = shown w1 @ ls_line md1"
    unfolding lists_def by blast
  have "ls_line md1 = ls_entry (entries ! i)" using 1(5,6) by (simp add: ls_line_entry)
  moreover have "drop i entries = entries ! i # drop (i + 1) entries" using Cons_nth_drop_Suc [OF i(1)] by simp
  moreover have "ls_loop S path i md w = ls_loop S path (i + 1) md1 w2" using 1(1,2) 2(1) i(1) assms(2) by (simp add: ls_loop.simps [of S path i])
  moreover note Suc.hyps(1) [OF i(2,3) 2(2), of md1]
  ultimately show ?case using 1(4) 2(3) by simp
qed

lemma ls_lists_directory:
  assumes "lists S shown ok path entries" and "length entries < 2 ^ 31" and "ok w"
    and "if argc = 1 then cwd_buf l = path else argv s 1 = Some path"
  shows "\<exists>l' w'. run_builtin S ''ls'' argc s l w = Some (Next, l', w') \<and> ok w'
    \<and> shown w' = shown w @ concat (map ls_entry entries)"
proof -
  from ls_loop_lists [OF assms(1,2), of 0 w "metadata l"] assms(3) obtain md' w' where
    "ls_loop S path 0 (metadata l) w = Some (md', w')" "ok w'" "shown w' = shown w @ concat (map ls_entry entries)" by auto
  then show ?thesis using assms(4) by (auto simp: run_builtin_def cmd_ls_def split: if_splits)
qed

subsection \<open>Printing and copying files\<close>

text \<open>
  What the commands rely on of the C library: a stream is the contents of its file and a position, and text
  goes to the end of what is shown.
\<close>

definition stdio_laws :: "'w sys \<Rightarrow> ('w \<Rightarrow> string) \<Rightarrow> ('w \<Rightarrow> nat \<Rightarrow> u8 list \<times> nat) \<Rightarrow> bool" where
  "stdio_laws S shown file \<longleftrightarrow>
     (\<forall>w txt. \<exists>w'. say S txt w = Some w' \<and> shown w' = shown w @ txt \<and> file w' = file w)
   \<and> (\<forall>w fp cs p. file w fp = (cs, p) \<and> p < length cs \<longrightarrow>
        (\<exists>w'. sys_fgetc S fp w = Some (uint (cs ! p), w') \<and> shown w' = shown w \<and> file w' = (file w)(fp := (cs, p + 1))))
   \<and> (\<forall>w fp cs p. file w fp = (cs, p) \<and> length cs \<le> p \<longrightarrow>
        (\<exists>w'. sys_fgetc S fp w = Some (-1, w') \<and> shown w' = shown w \<and> file w' = file w))
   \<and> (\<forall>w fp c. \<exists>w'. sys_fputc S c fp w = Some w' \<and> shown w' = shown w
        \<and> file w' = (file w)(fp := (take (snd (file w fp)) (fst (file w fp)) @ word_of_int c # drop (snd (file w fp) + 1) (fst (file w fp)),
              snd (file w fp) + 1)))
   \<and> (\<forall>w fp. \<exists>w'. sys_fseek_end S fp w = Some w' \<and> shown w' = shown w \<and> file w' = (file w)(fp := (fst (file w fp), length (fst (file w fp)))))
   \<and> (\<forall>w fp. \<exists>w'. sys_ftell S fp w = Some (int (snd (file w fp)), w') \<and> shown w' = shown w \<and> file w' = file w)
   \<and> (\<forall>w fp. \<exists>w'. sys_fclose S fp w = Some w' \<and> shown w' = shown w \<and> file w' = file w)"

lemma stdio_lawsD:
  assumes "stdio_laws S shown file"
  obtains (say) w' where "say S txt w = Some w'" "shown w' = shown w @ txt" "file w' = file w"
  using assms unfolding stdio_laws_def by metis

lemma stdio_fgetc:
  assumes "stdio_laws S shown file" and "file w fp = (cs, p)"
  shows "p < length cs \<Longrightarrow> \<exists>w'. sys_fgetc S fp w = Some (uint (cs ! p), w') \<and> shown w' = shown w \<and> file w' = (file w)(fp := (cs, p + 1))"
    and "length cs \<le> p \<Longrightarrow> \<exists>w'. sys_fgetc S fp w = Some (-1, w') \<and> shown w' = shown w \<and> file w' = file w"
  using assms unfolding stdio_laws_def by blast+

lemma stdio_fputc:
  assumes "stdio_laws S shown file" and "file w fp = (cs, p)"
  shows "\<exists>w'. sys_fputc S c fp w = Some w' \<and> shown w' = shown w \<and> file w' = (file w)(fp := (take p cs @ word_of_int c # drop (p + 1) cs, p + 1))"
proof -
  have "\<exists>w'. sys_fputc S c fp w = Some w' \<and> shown w' = shown w
        \<and> file w' = (file w)(fp := (take (snd (file w fp)) (fst (file w fp)) @ word_of_int c # drop (snd (file w fp) + 1) (fst (file w fp)),
              snd (file w fp) + 1))"
    using assms(1) unfolding stdio_laws_def by blast
  then show ?thesis using assms(2) by simp
qed

lemma stdio_close:
  assumes "stdio_laws S shown file"
  shows "\<exists>w'. sys_ftell S fp w = Some (int (snd (file w fp)), w') \<and> shown w' = shown w \<and> file w' = file w"
    and "\<exists>w'. sys_fclose S fp w = Some w' \<and> shown w' = shown w \<and> file w' = file w"
proof -
  have "\<forall>w fp. \<exists>w'. sys_ftell S fp w = Some (int (snd (file w fp)), w') \<and> shown w' = shown w \<and> file w' = file w"
    using assms unfolding stdio_laws_def by (elim conjE)
  then show "\<exists>w'. sys_ftell S fp w = Some (int (snd (file w fp)), w') \<and> shown w' = shown w \<and> file w' = file w" by blast
  have "\<forall>w fp. \<exists>w'. sys_fclose S fp w = Some w' \<and> shown w' = shown w \<and> file w' = file w"
    using assms unfolding stdio_laws_def by (elim conjE)
  then show "\<exists>w'. sys_fclose S fp w = Some w' \<and> shown w' = shown w \<and> file w' = file w" by blast
qed

definition file_text :: "u8 list \<Rightarrow> string" where
  "file_text cs = map (\<lambda>b. char_of (unat b)) cs"

lemma byte_char: "char_of (nat (uint b mod 256)) = (char_of (unat b) :: char)" for b :: u8
proof -
  have "uint b < 256" using unsigned_less [of b, where 'a = int] by simp
  then have "uint b mod 256 = uint b" by simp
  then show ?thesis by (simp only: nat_uint_eq)
qed

lemma dump_loop_prints:
  assumes "stdio_laws S shown file"
  shows "file w fp = (cs, p) \<Longrightarrow> p \<le> length cs \<Longrightarrow> \<exists>w'. dump_loop S fp w = Some w' \<and> shown w' = shown w @ file_text (drop p cs)
    \<and> file w' fp = (cs, length cs)"
proof (induction "length cs - p" arbitrary: p w)
  case 0
  then have p: "p = length cs" by simp
  from stdio_fgetc(2) [OF assms 0(2)] p obtain w' where "sys_fgetc S fp w = Some (-1, w')" "shown w' = shown w" "file w' = file w" by auto
  then show ?case using 0(2) p by (simp add: dump_loop.simps [of S fp w] file_text_def)
next
  case (Suc n)
  then have p: "p < length cs" "n = length cs - (p + 1)" "p + 1 \<le> length cs" by simp_all
  from stdio_fgetc(1) [OF assms Suc.prems(1) p(1)] obtain w1 where
    1: "sys_fgetc S fp w = Some (uint (cs ! p), w1)" "shown w1 = shown w" "file w1 = (file w)(fp := (cs, p + 1))" by blast
  obtain w2 where 2: "say S [char_of (unat (cs ! p))] w1 = Some w2" "shown w2 = shown w1 @ [char_of (unat (cs ! p))]" "file w2 = file w1"
    by (rule stdio_lawsD [OF assms])
  have "uint (cs ! p) \<noteq> -1" using uint_ge_0 [of "cs ! p"] by linarith
  then have "dump_loop S fp w = dump_loop S fp w2" using 1(1) 2(1) by (simp add: dump_loop.simps [of S fp w] byte_char)
  moreover have "drop p cs = cs ! p # drop (p + 1) cs" using Cons_nth_drop_Suc [OF p(1)] by simp
  moreover have "file w2 fp = (cs, p + 1)" using 1(3) 2(3) by simp
  note Suc.hyps(1) [OF p(2) this p(3)]
  ultimately show ?case using 1(2) 2(2) by (simp add: file_text_def)
qed

lemma file_length_prints:
  assumes "stdio_laws S shown file" and "snd (file w fp) < 2 ^ 31"
  shows "\<exists>w'. file_length S fp w = Some w' \<and> shown w' = shown w @ newline # ''File length: '' @ fmt_d (int (snd (file w fp))) @ [newline]"
proof -
  obtain w1 where 1: "sys_ftell S fp w = Some (int (snd (file w fp)), w1)" "shown w1 = shown w" "file w1 = file w"
    using stdio_close(1) [OF assms(1)] by blast
  obtain w2 where 2: "say S (newline # ''File length: '' @ fmt_d (int (snd (file w fp))) @ [newline]) w1 = Some w2"
      "shown w2 = shown w1 @ newline # ''File length: '' @ fmt_d (int (snd (file w fp))) @ [newline]" "file w2 = file w1"
    by (rule stdio_lawsD [OF assms(1)])
  obtain w3 where 3: "sys_fclose S fp w2 = Some w3" "shown w3 = shown w2" using stdio_close(2) [OF assms(1)] by blast
  have "s32 (int (snd (file w fp))) = int (snd (file w fp))" using assms(2) by (intro s32_id) simp_all
  then show ?thesis using 1 2 3 by (simp add: file_length_def)
qed

lemma dump_shows_file:
  assumes "stdio_laws S shown file" and "argc \<noteq> 1" and "argv s 1 = Some f" and "sys_fopen S f ''r'' w = Some (Some fp, w1)"
    and "shown w1 = shown w" and "file w1 fp = (cs, 0)" and "length cs < 2 ^ 31"
  shows "\<exists>w'. run_builtin S ''dump'' argc s l w = Some (Next, l, w')
    \<and> shown w' = shown w @ file_text cs @ newline # ''File length: '' @ fmt_d (int (length cs)) @ [newline]"
proof -
  from dump_loop_prints [OF assms(1,6)] obtain w2 where 2: "dump_loop S fp w1 = Some w2" "shown w2 = shown w1 @ file_text cs" "file w2 fp = (cs, length cs)" by auto
  from file_length_prints [OF assms(1), of w2 fp] 2(3) assms(7) obtain w3 where
    "file_length S fp w2 = Some w3" "shown w3 = shown w2 @ newline # ''File length: '' @ fmt_d (int (length cs)) @ [newline]" by auto
  then show ?thesis using assms(2-5) 2 by (simp add: run_builtin_def cmd_dump_def)
qed

text \<open>
  \<open>dumpr\<close> copies byte by byte over the start of the destination, which keeps what lies behind the length of
  the source.
\<close>

lemma copy_loop_copies:
  assumes "stdio_laws S shown file" and "src \<noteq> dest"
  shows "file w src = (cs, p) \<Longrightarrow> file w dest = (ds, p) \<Longrightarrow> p \<le> length cs \<Longrightarrow> take p ds = take p cs \<Longrightarrow> p \<le> length ds \<Longrightarrow>
    \<exists>w'. copy_loop S src dest w = Some w' \<and> shown w' = shown w \<and> fst (file w' dest) = cs @ drop (length cs) ds"
proof (induction "length cs - p" arbitrary: p w ds)
  case 0
  then have p: "p = length cs" by simp
  from stdio_fgetc(2) [OF assms(1) 0(2)] p obtain w' where "sys_fgetc S src w = Some (-1, w')" "shown w' = shown w" "file w' = file w" by auto
  moreover have "ds = cs @ drop (length cs) ds" using 0(5) p append_take_drop_id [of "length cs" ds] by simp
  ultimately show ?case using 0(3) by (simp add: copy_loop.simps [of S src dest w])
next
  case (Suc n)
  then have p: "p < length cs" "n = length cs - (p + 1)" "p + 1 \<le> length cs" by simp_all
  from stdio_fgetc(1) [OF assms(1) Suc.prems(1) p(1)] obtain w1 where
    1: "sys_fgetc S src w = Some (uint (cs ! p), w1)" "shown w1 = shown w" "file w1 = (file w)(src := (cs, p + 1))" by blast
  have d: "file w1 dest = (ds, p)" using 1(3) assms(2) Suc.prems(2) by simp
  let ?ds = "take p ds @ cs ! p # drop (p + 1) ds"
  from stdio_fputc [OF assms(1) d, of "uint (cs ! p)"] obtain w2 where
    2: "sys_fputc S (uint (cs ! p)) dest w1 = Some w2" "shown w2 = shown w1" "file w2 = (file w1)(dest := (?ds, p + 1))" by auto
  have "uint (cs ! p) \<noteq> -1" using uint_ge_0 [of "cs ! p"] by linarith
  then have step: "copy_loop S src dest w = copy_loop S src dest w2" using 1(1) 2(1) by (simp add: copy_loop.simps [of S src dest w])
  have f: "file w2 src = (cs, p + 1)" "file w2 dest = (?ds, p + 1)" using 1(3) 2(3) assms(2) by simp_all
  have t: "take (p + 1) ?ds = take (p + 1) cs" "p + 1 \<le> length ?ds"
    using Suc.prems(4,5) p(1) by (simp_all add: take_Suc_conv_app_nth min_def)
  have "length cs - p = Suc (length cs - Suc p)" using p(1) by simp
  moreover have "Suc (length cs - Suc 0) = length cs" using p(1) by simp
  ultimately have "drop (length cs) ?ds = drop (length cs) ds" using p Suc.prems(5) by (simp add: min_def)
  with Suc.hyps(1) [OF p(2) f p(3) t] step 1(2) 2(2) show ?case by simp
qed

lemma dumpr_copies_file:
  assumes "stdio_laws S shown file" and "3 \<le> argc" and "argv s 1 = Some f" and "argv s 2 = Some g"
    and "sys_fopen S f ''rb'' w = Some (Some src, w1)" and "sys_fopen S g ''rb+'' w1 = Some (Some dest, w2)" and "src \<noteq> dest"
    and "shown w2 = shown w" and "file w2 src = (cs, 0)" and "file w2 dest = (ds, 0)"
  shows "\<exists>w'. run_builtin S ''dumpr'' argc s l w = Some (Next, l, w') \<and> shown w' = shown w \<and> fst (file w' dest) = cs @ drop (length cs) ds"
proof -
  from copy_loop_copies [OF assms(1,7,9,10)] obtain w3 where 3: "copy_loop S src dest w2 = Some w3" "shown w3 = shown w2"
    "fst (file w3 dest) = cs @ drop (length cs) ds" by auto
  obtain w4 where "sys_fclose S dest w3 = Some w4" "shown w4 = shown w3" "file w4 = file w3" using stdio_close(2) [OF assms(1)] by blast
  then show ?thesis using 3 assms(2-6,8) by (simp add: run_builtin_def cmd_dumpr_def)
qed

subsection \<open>The end of the input\<close>

text \<open>
  The result of \<open>fgets\<close> is not looked at: at the end of the input the last line stays in the buffer, loses
  one more character and is obeyed again, until the buffer is empty and the store in front of it fails.
\<close>

lemma end_of_input_overruns:
  assumes "text_at (input s) 0 = []"
  shows "shell_round std cwd [] s = None"
  using assms by (simp add: shell_round_def fgets_def strip_last_def)

text \<open>
  C14. \<open>dump\<close> of an existing file, typed at the prompt: the shell prints the prompt, then every byte of the
  file in order, then its length, and is ready for the next line; in particular its loop ends.
\<close>

theorem dump_prints_file:
  assumes "stdio_laws S shown file" and "words (tokens line) = [''dump'', f]" and "\<forall>t \<in> set (tokens line). \<exists>v. t = Word v"
    and "length line \<le> 254" and "NUL \<notin> set line" and "CHR 0x0A \<notin> set line" and "length (s_argv s) = 128"
    and "sys_getcwd S w = Some (cwd, w1)" and "shown w1 = shown w" and "\<And>w. OS_what_streams S w = Some std"
    and "\<And>w2. \<exists>w3. sys_fgets S 256 w2 = Some (line @ [CHR 0x0A], w3) \<and> shown w3 = shown w2"
    and "\<And>w3. \<exists>w4. sys_fopen S f ''r'' w3 = Some (Some fp, w4) \<and> shown w4 = shown w3 \<and> file w4 fp = (cs, 0)" and "length cs < 2 ^ 31"
  shows "\<exists>s' w'. shell_main_round S s l w = Some (Next, s', l\<lparr>cwd_buf := cwd\<rparr>, w') \<and> length (s_argv s') = 128
    \<and> shown w' = shown w @ prompt cwd @ file_text cs @ CHR 0x0A # ''File length: '' @ fmt_d (int (length cs)) @ [CHR 0x0A]"
proof -
  have plain: "fold obey ts sh = sh" if "\<forall>t \<in> set ts. \<exists>v. t = Word v" for ts sh
    using that by (induction ts arbitrary: sh) auto
  obtain w2 where 2: "say S (prompt cwd) w1 = Some w2" "shown w2 = shown w1 @ prompt cwd" by (rule stdio_lawsD [OF assms(1)])
  obtain w3 where 3: "sys_fgets S 256 w2 = Some (line @ [newline], w3)" "shown w3 = shown w2" using assms(11) by blast
  have short: "list_all short_name (tokens line)" using assms(3) by (auto simp: list_all_iff)
  have calls: "os_calls (fold obey (tokens line) (initial_vars std ((vars s)\<lparr>os_calls := []\<rparr>))) = []" by (simp add: plain [OF assms(3)])
  have b: "''dump'' \<in> set builtins" by (simp add: builtins_def)
  obtain s' where s': "\<forall>i < length [''dump'', f]. argv s' i = Some ([''dump'', f] ! i)" "length (s_argv s') = 128"
    "shell_main_round S s l w = map_option (\<lambda>(oc, l, w). (oc, s', l, w)) (run_builtin S ''dump'' (length [''dump'', f]) s' (l\<lparr>cwd_buf := cwd\<rparr>) w3)"
    using main_round_builtin [OF assms(4-6) short assms(2) b assms(7) calls assms(8) 2(1) 3(1) assms(10)] by blast
  obtain w4 where 4: "sys_fopen S f ''r'' w3 = Some (Some fp, w4)" "shown w4 = shown w3" "file w4 fp = (cs, 0)" using assms(12) by blast
  have a: "argv s' 1 = Some f" using s'(1) by fastforce
  from dump_shows_file [OF assms(1) _ a 4 assms(13), of "length [''dump'', f]" "l\<lparr>cwd_buf := cwd\<rparr>"] obtain w5 where
    "run_builtin S ''dump'' (length [''dump'', f]) s' (l\<lparr>cwd_buf := cwd\<rparr>) w3 = Some (Next, l\<lparr>cwd_buf := cwd\<rparr>, w5)"
    "shown w5 = shown w3 @ file_text cs @ newline # ''File length: '' @ fmt_d (int (length cs)) @ [newline]" by auto
  then show ?thesis using s'(2,3) 2(2) 3(2) assms(9) by simp
qed

text \<open>For the witnesses: calls that are refused, with one line of input, and a library with one file on top of them.\<close>

definition idle_sys :: "string \<Rightarrow> 'w sys" where
  "idle_sys line = \<lparr>sys_fputs = (\<lambda>st txt w. Some w),
     sys_fgets = (\<lambda>n w. Some (line @ [CHR 0x0A], w)), sys_getcwd = (\<lambda>w. Some (''/'', w)),
     OS_what_streams = (\<lambda>w. Some (''i'', ''o'', ''e'')), OS_get_heap_base = (\<lambda>w. None), OS_get_heap_size = (\<lambda>w. None),
     OS_resize_heap = (\<lambda>n w. None), OS_new_segment = (\<lambda>a b c w. None), load_fs = (\<lambda>s w. None), OS_vdev_register = (\<lambda>w. None),
     OS_vdev_in_ready = (\<lambda>n w. None), OS_vdev_out_ready = (\<lambda>n w. None), OS_vdev_await = (\<lambda>v w. None), OS_getpid = (\<lambda>w. Some (1, w)),
     OS_open = (\<lambda>p f m w. Some (-1, w)), OS_read = (\<lambda>h n w. None), OS_write = (\<lambda>h bs w. None), OS_close = (\<lambda>h w. None),
     OS_vfs_mkdir = (\<lambda>p m w. Some (-2, w)), OS_vfs_create = (\<lambda>p m w. Some (-2, w)), OS_vfs_remove = (\<lambda>p w. Some (-2, w)),
     OS_vfs_get_metadata = (\<lambda>p t w. Some (-2, w)), OS_vfs_list = (\<lambda>p md i w. Some ((-2, md), w)), OS_vfs_cd = (\<lambda>p w. Some (-2, w)),
     OS_vfs_read = (\<lambda>p l w. None), OS_vfs_write = (\<lambda>p l v w. None), OS_ipc_resolve_name = (\<lambda>n w. None),
     OS_ipc_send_packet = (\<lambda>p t n w. None), OS_general_execute = (\<lambda>ti w. Some (-1, w)), OS_general_execute_block = (\<lambda>ti w. Some (-1, w)),
     sys_fork = (\<lambda>w. Some (-1, w)), sys_remove = (\<lambda>p w. Some (-1, w)), sys_fopen = (\<lambda>p m w. Some (None, w)),
     sys_fgetc = (\<lambda>fp w. None), sys_fputc = (\<lambda>c fp w. None), sys_fseek_end = (\<lambda>fp w. None), sys_ftell = (\<lambda>fp w. None),
     sys_fclose = (\<lambda>fp w. None)\<rparr>"

type_synonym toy = "string \<times> (nat \<Rightarrow> u8 list \<times> nat)"

definition toy_sys :: "toy sys" where
  "toy_sys = (idle_sys ''dump a'')\<lparr>sys_fputs := (\<lambda>st txt (out, f). Some (if st = Stdout then out @ txt else out, f)),
     sys_fopen := (\<lambda>p m (out, f). Some (Some 3, out, f(3 := ([0x68, 0x69], 0)))),
     sys_fgetc := (\<lambda>fp (out, f). case f fp of (cs, p) \<Rightarrow> if p < length cs then Some (uint (cs ! p), out, f(fp := (cs, p + 1))) else Some (-1, out, f)),
     sys_fputc := (\<lambda>c fp (out, f). case f fp of (cs, p) \<Rightarrow> Some (out, f(fp := (take p cs @ word_of_int c # drop (p + 1) cs, p + 1)))),
     sys_fseek_end := (\<lambda>fp (out, f). Some (out, f(fp := (fst (f fp), length (fst (f fp)))))),
     sys_ftell := (\<lambda>fp (out, f). Some (int (snd (f fp)), out, f)), sys_fclose := (\<lambda>fp w. Some w)\<rparr>"

definition toy_session :: session where
  "toy_session = \<lparr>input = replicate 256 NUL, s_argc = 0, s_argv = replicate 128 None,
     vars = \<lparr>prog_stdin = [], prog_stdout = [], prog_stderr = [], no_block = False, os_calls = []\<rparr>\<rparr>"

definition toy_locals :: locals where
  "toy_locals = \<lparr>cwd_buf = [], metadata = \<lparr>filename = [], filetype = 0, fsize = 0\<rparr>,
     vdevs = \<lparr>sh_vdev = 0, vdev_reg = False, vdev_in = 0, vdev_in_flag = 0, vdev_out = 0, vdev_out_flag = 0\<rparr>\<rparr>"

lemma toy_stdio: "stdio_laws toy_sys fst snd"
  by (auto simp: stdio_laws_def toy_sys_def idle_sys_def split: prod.splits)

definition toy_start :: toy where
  "toy_start = ([], \<lambda>_. ([], 0))"

theorem dump_prints_file_witness:
  "\<exists>s' w'. shell_main_round toy_sys toy_session toy_locals toy_start = Some (Next, s', toy_locals\<lparr>cwd_buf := ''/''\<rparr>, w')
     \<and> fst w' = prompt ''/'' @ ''hi'' @ CHR 0x0A # ''File length: 2'' @ [CHR 0x0A]"
proof -
  have t: "tokens ''dump a'' = [Word ''dump'', Word ''a'']" by code_simp
  have f: "fmt_d 2 = ''2''" by (simp add: fmt_d_def digits_of_def digit_char_def numeral_digits.simps)
  have h: "file_text [0x68, 0x69] = ''hi''" by code_simp
  have "\<exists>s' w'. shell_main_round toy_sys toy_session toy_locals toy_start = Some (Next, s', toy_locals\<lparr>cwd_buf := ''/''\<rparr>, w')
      \<and> length (s_argv s') = 128 \<and> fst w' = fst toy_start @ prompt ''/'' @ file_text [0x68, 0x69] @ CHR 0x0A # ''File length: ''
        @ fmt_d (int (length [0x68 :: u8, 0x69])) @ [CHR 0x0A]"
  proof (rule dump_prints_file [OF toy_stdio, where line = "''dump a''" and f = "''a''" and fp = 3 and std = "(''i'', ''o'', ''e'')"])
    show "length (s_argv toy_session) = 128" by (simp add: toy_session_def)
  qed (auto simp: t toy_sys_def idle_sys_def NUL_def toy_start_def)
  then show ?thesis using f h by (auto simp: toy_start_def)
qed

end
