(* ===== verification/Shell_Kernel.thy ===== *)
theory Shell_Kernel
  imports Shell_Builtins Dev_Mount User_Calls
begin

text \<open>
  The shell on the kernel: the calls of \<open>Shell_Builtins\<close> that the system call table in
  \<open>kernel/asm/isr.asm\<close> leads to the modelled functions of the kernel.  What the shell prints appears on
  \<open>screen\<close>; the calls that are not served here, those of the C library and those that wait, stay those of
  the given \<open>base\<close>.
\<close>

record 'w shell_machine =
  screen :: string
  kern :: "'w kernel"

definition on_kernel :: "('w kernel \<Rightarrow> ('r \<times> 'w kernel) option) \<Rightarrow> 'w shell_machine \<Rightarrow> ('r \<times> 'w shell_machine) option" where
  "on_kernel f m = map_option (\<lambda>(r, k). (r, m\<lparr>kern := k\<rparr>)) (f (kern m))"

definition on_vfs :: "('w vfs \<Rightarrow> ('r \<times> 'w vfs) option) \<Rightarrow> 'w kernel \<Rightarrow> ('r \<times> 'w kernel) option" where
  "on_vfs f k = map_option (\<lambda>(r, v). (r, k\<lparr>kvfs := v\<rparr>)) (f (kvfs k))"

definition kernel_sys :: "'w shell_machine sys \<Rightarrow> 'w shell_machine sys" where
  "kernel_sys base = base\<lparr>sys_fputs := (\<lambda>st txt m. Some (m\<lparr>screen := screen m @ txt\<rparr>)),
     OS_general_execute := (\<lambda>ti. on_kernel (general_execute ti)),
     OS_get_heap_base := on_kernel (\<lambda>k. map_option (\<lambda>n. (s32 (int n), k)) (get_heap_base k)),
     OS_get_heap_size := on_kernel (\<lambda>k. map_option (\<lambda>n. (s32 (int n), k)) (get_heap_size k)),
     OS_resize_heap := (\<lambda>n. on_kernel (resize_heap (u32_of n))),
     OS_getpid := on_kernel (\<lambda>k. Some (int (getpid k), k)),
     OS_open := (\<lambda>p flags mode. on_kernel (sys_open p (word_of_int flags) mode)),
     OS_close := (\<lambda>h. on_kernel (sys_close h)),
     OS_vfs_cd := (\<lambda>p. on_kernel (on_vfs (vfs_cd p))),
     OS_vfs_list := (\<lambda>p md i. on_kernel (on_vfs (vfs_list p md i))),
     OS_vfs_get_metadata := (\<lambda>p type. on_kernel (on_vfs (\<lambda>v. map_option (\<lambda>((r, md), v). (r, v)) (vfs_kget_metadata p no_metadata type v)))),
     OS_vfs_remove := (\<lambda>p. on_kernel (on_vfs (vfs_kremove p))),
     OS_vfs_mkdir := (\<lambda>p prm. on_kernel (on_vfs (vfs_kmkdir p (word_of_int prm)))),
     OS_vfs_create := (\<lambda>p prm. on_kernel (on_vfs (vfs_kcreate p (word_of_int prm))))\<rparr>"

subsection \<open>Listing the devices\<close>






subsection \<open>Changing the directory\<close>

text \<open>\<open>cd\<close> to a directory that exists makes its normal form the working directory of the shell's task.\<close>

lemma cd_moves_task:
  assumes "argv s 1 = Some p" and "argc \<noteq> 1" and "absolute_path p (kvfs (kern m)) = Some ap"
    and "vfs_kget_metadata ap no_metadata DIRECTORY_TYPE (kvfs (kern m)) = Some ((r, md), v)" and "r \<noteq> FAILURE"
  shows "run_builtin (kernel_sys base) ''cd'' argc s l m =
    Some (Next, l, m\<lparr>kern := (kern m)\<lparr>kvfs := v\<lparr>pwd_of := (pwd_of v)(current_pid v := ap)\<rparr>\<rparr>\<rparr>)"
  using assms by (simp add: run_builtin_def cmd_cd_def kernel_sys_def on_kernel_def on_vfs_def vfs_cd_def)

lemma cd_missing_directory:
  assumes "argv s 1 = Some p" and "argc \<noteq> 1" and "absolute_path p (kvfs (kern m)) = Some ap"
    and "vfs_kget_metadata ap no_metadata DIRECTORY_TYPE (kvfs (kern m)) = Some ((FAILURE, md), v)"
  shows "run_builtin (kernel_sys base) ''cd'' argc s l m =
    Some (Next, l, m\<lparr>screen := screen m @ ''shell: invalid directory: `'' @ p @ ''`.'' @ [CHR 0x0A], kern := (kern m)\<lparr>kvfs := v\<rparr>\<rparr>)"
  using assms by (simp add: run_builtin_def cmd_cd_def kernel_sys_def on_kernel_def on_vfs_def vfs_cd_def)

text \<open>
  The constant the shell's header gives for truncating a file is a different flag for the kernel, so the
  \<open>write\<close> command opens an existing file without truncating it.
\<close>

lemma write_does_not_truncate: "(word_of_int ECH_O_WRONLY_CREAT_TRUNC :: u32) AND O_TRUNC = 0"
  by simp

subsection \<open>A shell with two devices\<close>




end
