(* ===== verification/Init.thy ===== *)
theory Init
  imports Bios_Calls Exec Serial_Tty Dev_Mount
begin




subsection \<open>A call of the BIOS\<close>



subsection \<open>Serial terminals\<close>



subsection \<open>The stages\<close>







definition shell_exec :: "string \<Rightarrow> task_info_t" where
  "shell_exec tty_path = \<lparr>ti_path = ''/sys/init'', ti_stdin = tty_path, ti_stdout = tty_path, ti_stderr = tty_path,
     ti_pwd = ''/'', ti_name = ''shell'', ti_server_name = [], ti_argc = 0, ti_argv = []\<rparr>"

definition launch_shells :: "'w kernel \<Rightarrow> 'w kernel option" where
  "launch_shells k = do {
     (r, k) \<leftarrow> general_execute (shell_exec ''/dev/tty0'') k;
     (r, k) \<leftarrow> general_execute (shell_exec ''/dev/tty2'') k;
     (r, k) \<leftarrow> general_execute (shell_exec ''/dev/tty3'') k;
     Some (k\<lparr>ts_enable := True\<rparr>) }"



subsection \<open>The interrupt controllers during the boot\<close>










subsection \<open>Drivers\<close>













subsection \<open>The whole sequence\<close>








subsection \<open>The shells\<close>

text \<open>
  A shell that starts is an active child of the kernel task without arguments.  That one cannot be started is
  not noticed: without the program on the root file system the kernel goes on to schedule no task at all.
\<close>

lemma shell_starts:
  assumes "general_execute (shell_exec tty) k = Some (pid, k')" and "pid \<noteq> -1"
  shows "\<exists>t. get_task (nat pid) k' = Some t \<and> t_status t = Active \<and> t_parent t = current_task k \<and> t_name t = ''shell''
    \<and> rd_le 4 (heap_mem (kernel_heap k')) (t_base t + 0x1000) = 0"
  using program_finds_arguments [OF assms] by (auto simp: shell_exec_def args_size_def)

lemma missing_shell_ignored:
  assumes "self k = Some t" and "\<And>md. \<exists>md'. vfs_kget_metadata ''/sys/init'' md FILE_TYPE (kvfs k) = Some ((FAILURE, md'), kvfs k)"
  shows "launch_shells k = Some (k\<lparr>ts_enable := True\<rparr>)"
proof -
  obtain md where "vfs_kget_metadata ''/sys/init'' no_metadata FILE_TYPE (kvfs k) = Some ((FAILURE, md), kvfs k)" using assms(2) by blast
  then have "general_execute (shell_exec tty) k = Some (-1, k)" for tty
    using assms(1) by (simp add: general_execute_def shell_exec_def)
  then show ?thesis by (simp add: launch_shells_def)
qed

subsection \<open>A machine without drives\<close>














end
