(* ===== verification/Spec2Isabelle.thy ===== *)
theory Spec2Isabelle
  imports Klib_Strings Handles Pmm Kheap Descriptors Tty Keyboard Kprint Partition Vfs Echfs_Open Echfs_Grow Exec Vdev Shell_Run
    Serial_Tty Exceptions Boot Echfs_Access
    User_Calls Bios_Calls Shell_Kernel Init
begin

text \<open>
  Verification of echidnaOS (\<open>kernel/\<close>, 32-bit x86, C, and \<open>shell/\<close>).

  \<^bold>\<open>The program.\<close>  The kernel boots from stivale, builds a bitmap of the physical pages
  (\<open>mm/pmm.c\<close>) and a page-granular heap on it (\<open>klib.c\<close>), loads its descriptor tables
  (\<open>drivers/gdt.c\<close>, \<open>drivers/idt.c\<close>), and drives seven text terminals in the VGA text buffer
  (\<open>drivers/tty.c\<close>) with a keyboard (\<open>drivers/keyboard.c\<close>).  Drivers register byte devices
  (\<open>dev.c\<close>); the disk driver (\<open>drivers/bios_harddisks/bd.c\<close>) and the partitions on a disk
  (\<open>part.c\<close>) are such devices.  \<open>fs/devfs.c\<close> makes the devices files, \<open>fs/echfs.c\<close> keeps files on
  a disk, \<open>vfs.c\<close> resolves path names, chooses the mounted file system and keeps the handles of the
  tasks.  \<open>task.c\<close> holds the tasks, schedules them round robin and starts programs; \<open>syscalls.c\<close> is
  their entry to the kernel and lets them send messages; \<open>drivers/vdev\<close> lets a task serve a device.
  The shell reads command lines and starts programs.

  \<^bold>\<open>Conventions.\<close>  A C function that changes state is a function from state to state;
  a result \<open>None\<close> of an operation is a fault of the program: an access outside an array, a null
  pointer, a missing terminator, a loop that never ends.  So a theorem that an operation returns \<open>Some\<close>
  includes that it is safe and returns.  Machine integers are words (\<open>u8\<close>, \<open>u16\<close>, \<open>u32\<close>, \<open>u64\<close>) where
  their width matters, and natural numbers or integers with the reduction written out (\<open>s32\<close>) elsewhere.
  Arrays are lists, or functions from indices where they are large.  Ports, BIOS services and the
  symbol table of the build are parameters; what is needed of them is a hypothesis (\<open>bios_laws\<close>,
  \<open>int13_laws\<close>, \<open>pic_laws\<close>, \<open>scratch_law\<close>, \<open>stdio_laws\<close>) that a concrete device satisfies.

  \<^bold>\<open>The theories.\<close>
  \<^item> \<open>Prelude\<close>, \<open>Kernel_Types\<close>, \<open>Memory\<close>: word types, bounded array access, first index
    search, iteration; the structures and constants of \<open>kernel.h\<close>; a byte memory with
    little-endian fields.
  \<^item> \<open>Klib_Strings\<close>: \<open>kstrcpy\<close>, \<open>kstrcmp\<close>, \<open>kstrncmp\<close>, \<open>kstrlen\<close>, \<open>power\<close> of
    \<open>klib.c\<close> on buffers of characters.  Copying succeeds exactly when the string with its
    terminator fits; comparison decides equality.
  \<^item> \<open>Handles\<close>: the handle tables of a task.  The locale \<open>handle_table\<close> is the contract of a
    table that hands out the lowest free slot; the two tables here and those of \<open>Devfs\<close> and \<open>Echfs\<close>
    interpret it.
  \<^item> \<open>Pmm\<close>: \<open>init_pmm\<close>, \<open>pmm_alloc\<close>, \<open>pmm_allocz\<close>, \<open>pmm_free\<close>.  Soundness of
    allocation, what a failure means, the round trip with release, the state after booting.
  \<^item> \<open>Kheap\<close>: \<open>kalloc\<close>, \<open>krealloc\<close>, \<open>kfree\<close> on the page allocator and the memory.  New
    blocks are zeroed and disjoint from live ones; reallocation keeps contents.
  \<^item> \<open>Descriptors\<close>: \<open>set_segment\<close>, \<open>load_gdt\<close>, \<open>load_ldt\<close>, \<open>load_idt\<close>.  Encoded
    base and limit, and which gates user code can enter.
  \<^item> \<open>Tty\<close>: the terminals, \<open>text_putchar\<close> with its escape sequence parser, \<open>tty_kputs\<close>.  The
    invariant \<open>console_ok\<close> (cursors on the screen, video memory equal to the terminal on
    display), functional behaviour of text and of cursor addressing.
  \<^item> \<open>Keyboard\<close>: \<open>keyboard_handler\<close>, \<open>keyboard_fetch_char\<close>, \<open>tty_io_wrapper\<close>.  Refinement
    of an abstract line editor; the locale \<open>fifo\<close>, interpreted on the second input buffer.
  \<^item> \<open>Kprint\<close>: the number printers of \<open>klib.c\<close> and the formatted log of \<open>lib/kprint.c\<close>,
    compared with a reference rendering of the format.
  \<^item> \<open>Devices\<close>, \<open>Devfs\<close>: the device list, the stream devices and the device file system.
    The locale \<open>byte_device\<close> is the contract of a device that stores bytes.
  \<^item> \<open>Bios_Disk\<close>: the write-back cache of the disk driver.  The BIOS sector services are
    parameters with the laws \<open>bios_laws\<close> (a sector reads back as last written, a sector
    beyond the disk is refused), satisfied by a disk in memory.  The cache is transparent; a disk is
    a \<open>byte_device\<close>.
  \<^item> \<open>Bios_Calls\<close>, \<open>Boot_Console\<close>: the calls of the BIOS below that cache, with registers, disk address packet
    and buffer in low memory; they provide the laws \<open>bios_laws\<close> from the specification of interrupt 0x13
    (\<open>int13_laws\<close>).  The drives found at boot, with the boot log, which keeps the console intact.
  \<^item> \<open>Partition\<close>: partition tables and the sector cache of a partition.  A partition on a
    \<open>byte_device\<close> opened through \<open>Devfs\<close> is again a \<open>byte_device\<close>, confined to its window.
  \<^item> \<open>Paths\<close>: \<open>vfs_get_absolute_path\<close>, equal to a reference that splits a path at slashes
    and drops a component for each double dot, and \<open>vfs_translate_mnt\<close>.
  \<^item> \<open>Vfs\<close>, \<open>Dev_Mount\<close>: the switch: dispatch by path and by handle, mounting, installing; the device
    file system as one of its file systems.
  \<^item> \<open>User_Calls\<close>: the entries of \<open>vfs.c\<close> for tasks, on strings and structures in the memory of the task.
  \<^item> \<open>Echfs_Disk\<close>, \<open>Echfs_Dir\<close>: the directory table of echfs.  The locale \<open>disk\<close> extends \<open>byte_device\<close> to
    a disk that is reached by a path; in it the accessors, the entries and the path resolution are proved,
    and the interpretations \<open>ed\<close> and \<open>dd\<close> give them for devices of the list and of the device file
    system.  Entries read back as written, resolution is the walk of an abstract directory tree, a created
    file is found.
  \<^item> \<open>Echfs\<close>, \<open>Echfs_File\<close>, \<open>Echfs_Open\<close>, \<open>Echfs_Grow\<close>: files.  The locale \<open>block_store\<close> is what the block
    cache of a file needs of the disk, provided by path (a \<open>sublocale\<close> of \<open>disk\<close>) and by handle
    (interpretation \<open>bh\<close>); opening, reading, overwriting, growing by a block.
  \<^item> \<open>Echfs_Access\<close>: the accessors of \<open>echfs.c\<close> that no operation uses, with their round trips.
  \<^item> \<open>Task\<close>: the task table and the scheduler with its polling of pending requests.  The loop of the
    scheduler is a round robin; an active task runs again; what the end of a task changes.
  \<^item> \<open>Syscalls\<close>: the system calls, the message queues and the heap of a task.
  \<^item> \<open>Exec\<close>: \<open>task_fork\<close>, \<open>general_execute\<close>, \<open>execve\<close>.  A forked task is a copy; a started program finds
    its arguments.
  \<^item> \<open>Vdev\<close>: devices served by tasks, with a step relation and the invariant of the table.
  \<^item> \<open>Ports\<close>: interrupt controllers, timer, speaker, debug console and serial ports over abstract ports.
  \<^item> \<open>Serial_Tty\<close>: terminals on serial ports.
  \<^item> \<open>Boot\<close>: real mode calls, which leave the interrupt controllers as they were, and the terminal devices.
  \<^item> \<open>Init\<close>: \<open>kernel_init\<close> as the composition of the initialisation functions on one machine: the devices, file
    systems and tables it leaves, the interrupt controllers, the mounts, and how the boot ends.
  \<^item> \<open>Exceptions\<close>: the exception handler, the panic and the stack trace.  An exception in a task ends that
    task only; one in the kernel halts.
  \<^item> \<open>Shell\<close>, \<open>Shell_Run\<close>: \<open>get_argc\<close> and \<open>get_argv\<close> of the shell against a reference reading of the line,
    and what a round of the shell makes of the line.
  \<^item> \<open>Shell_Builtins\<close>: the built-in commands and the main loop over a record of the calls to the C library and
    the kernel.  \<open>Shell_Kernel\<close> fills in the modelled kernel for the calls the system call table leads to it.
  \<^item> This theory composes them: a file is read from a path down to the sectors of the BIOS, and the words of
    a command line reach the memory of the program they start.

  \<^bold>\<open>Termination and fuel.\<close>  Loops with a bound are total functions with a measure: the allocator's
  scan, the printers, the parsers.  Loops that need not end are \<open>partial_function (option)\<close>: the scheduler
  (\<open>task_scheduler\<close>), the loops of the shell, the search for a free block and the chains of echfs, the wait for a serial port, the
  string of unknown length in \<open>execve\<close>, the walk over stack frames; that they return is part of the
  theorems about them.  Only the loop of \<open>add_partitioned_medium\<close> has fuel: it can run for ever, and
  \<open>Partition\<close> shows when it does.

  \<^bold>\<open>Defects.\<close>  Where the code does not do what it means to, the theory has a lemma about the behaviour it
  does have: among others the bitmap's own last page marked free, segment limits, the cursor sequence with
  coordinate zero, the full input line, the incomplete last block of a disk, the medium without partition
  table, the block given to a file twice, handles left dangling by a further open file, the orphan that
  cannot end, the message that leaks kernel memory, the page count \<open>execve\<close> does not update, the device
  of a task that has ended, the serial terminal that always fails.

  \<^bold>\<open>Not modelled.\<close>  Inline assembly
  (descriptor loading, privilege changes, context switch, the real mode trampoline, halting), whose effect is
  a parameter or an outcome; the C library, which is a record of parameters of the shell; code the sources
  have commented out (the earlier file handles and the user heap of \<open>syscalls.c\<close>, \<open>task_start\<close>).
  Interrupts are not interleaved with the operations: the kernel runs them with interrupts disabled or the
  operations are called from one context.
\<close>

section \<open>From a path to the sectors of a disk\<close>

text \<open>
  A volume on a partition of a BIOS disk: the device \<open>dev\<close> of the list is the partition, whose medium is
  open through the device file system on the disk \<open>bd\<close> of the BIOS driver.
\<close>

abbreviation (input) drive_of :: "'w device_t \<Rightarrow> u8" where "drive_of bd \<equiv> of_nat (gp_value bd)"

definition bios_partition ::
  "'h sector_read \<Rightarrow> 'h sector_write \<Rightarrow> ('h \<Rightarrow> u8 \<Rightarrow> nat \<Rightarrow> u8 list) \<Rightarrow> (u8 \<Rightarrow> nat) \<Rightarrow> 'h bios_disks device_t \<Rightarrow> nat \<Rightarrow>
   part \<times> 'h bios_disks devfs \<Rightarrow> bool" where
  "bios_partition rd wr sec cnt bd N = (\<lambda>(p, ds).
     bios_laws rd wr sec cnt \<and> bd_inv sec cnt (dev_world ds) \<and> dev_io bd = bios_harddisks_io_wrapper rd wr
     \<and> open_on bd (dev_size bd) (fd p) ds \<and> (unat (first_sect p) + N) * 512 \<le> cnt (drive_of bd) div CACHE_SECTS * CACHE_SIZE
     \<and> (unat (first_sect p) + N) * 512 \<le> unat (dev_size bd) \<and> (unat (first_sect p) + N) * 512 < 2 ^ 31
     \<and> length (part_cache p) = 512 \<and> cache_state p = 0 \<and> cache_status (dev_world ds) = CacheNotReady)"

definition registered :: "string \<Rightarrow> 'w device_t \<Rightarrow> nat \<Rightarrow> 'w devfs vfs \<Rightarrow> bool" where
  "registered dev d sz v \<longleftrightarrow> devices_shared v
     \<and> (\<exists>i. find_device dev (device_list (world v)) = Some i \<and> device_list (world v) ! i = d)
     \<and> (\<exists>k local dv. resolve_absolute (''/dev/'' @ dev) v = Some (k, devfs_fs, local, dv) \<and> skip_slash local = dev)
     \<and> dev_size d = of_nat sz \<and> 0 < sz \<and> sz < 2 ^ 31
     \<and> length dev + 5 < length (stack v) \<and> length dev < 1023"

definition volume_byte :: "('h \<Rightarrow> u8 \<Rightarrow> nat \<Rightarrow> u8 list) \<Rightarrow> 'h bios_disks device_t \<Rightarrow> part \<times> 'h bios_disks devfs \<Rightarrow> nat \<Rightarrow> u8" where
  "volume_byte sec bd = (\<lambda>(p, ds) q. medium_byte sec (hw (dev_world ds)) (drive_of bd) (unat (first_sect p) * 512 + q))"

lemma bios_partition_dev_disk:
  assumes "bios_partition rd wr sec cnt bd N (dev_world (world v))" and "registered dev d (N * 512) v"
    and "dev_io d = partitioned_medium_io_wrapper"
  shows "dev_disk dev d (part_ok (\<lambda>s. bios_laws rd wr sec cnt \<and> bd_inv sec cnt s) (\<lambda>s. disk_byte sec s (drive_of bd))
      (cnt (drive_of bd) div CACHE_SECTS * CACHE_SIZE) bd (dev_size bd) N) (part_byte (\<lambda>s. disk_byte sec s (drive_of bd))) (N * 512) v"
    (is "dev_disk _ _ (part_ok ?ok ?content ?limit _ _ _) _ _ _")
proof -
  obtain p ds where w: "dev_world (world v) = (p, ds)" by fastforce
  have bd: "byte_device (dev_io bd) (gp_value bd) ?ok ?content ?limit"
    using assms(1) bd.byte_device_axioms [of rd wr "gp_value bd" sec cnt] by (simp add: bios_partition_def w)
  then have "part_ok ?ok ?content ?limit bd (dev_size bd) N (p, ds)"
    using assms(1) by (simp add: part_ok_def bios_partition_def w)
  moreover have "byte_device (dev_io d) (gp_value d) (part_ok ?ok ?content ?limit bd (dev_size bd) N) (part_byte ?content) (N * 512)"
    using pt.byte_device_axioms assms(3) by simp
  moreover have "unat (of_nat x :: u64) = x \<and> uint (of_nat x :: u64) = int x" if "x < 2 ^ 31" for x
    using that by (simp add: unat_of_nat take_bit_nat_eq_self unsigned_of_nat)
  moreover have "0 < (y :: u64)" if "unat y > 0" for y using that by (metis less_irrefl unsigned_0 word_gt_0)
  ultimately show ?thesis
    using assms(2) unfolding dev_disk_def registered_def w by (auto simp del: of_nat_mult)
qed

lemma part_byte_volume:
  assumes "bios_partition rd wr sec cnt bd N w"
  shows "part_byte (\<lambda>s. disk_byte sec s (drive_of bd)) w = volume_byte sec bd w"
  using assms by (auto simp: bios_partition_def part_byte_def volume_byte_def disk_byte_def cache_hit_def fun_eq_iff split: prod.splits)

text \<open>
  C1. Reading a file through every layer of the storage: a file on an echfs volume, in a partition of a
  disk of the BIOS, is opened by its path and read; the task receives exactly the bytes that stand on the
  medium in the blocks of the file, up to the size in its directory entry.  The path is resolved by the
  virtual file system, walked in the directory by echfs, whose accesses go through the device file system
  to the sector cache of the partition, from there through the device file system to the block cache of
  the disk driver, and from there to the sectors the BIOS delivers.
\<close>

theorem file_read_reaches_medium:
  assumes "\<not> direct_device name" and "absolute_path name V = Some ap"
    and "resolve_absolute ap V = Some (mp, echfs_fs, path, '':://'' @ dev)" and "world V = s"
    and "w = dev_world (world (evfs s))" and "bios_partition rd wr sec cnt bd N w"
    and "registered dev d (N * 512) (evfs s)" and "dev_io d = partitioned_medium_io_wrapper"
    and "find_mount ('':://'' @ dev) (mounts s) = Some (k, m)" and "C = volume_byte sec bd w"
    and "file_on_disk C (N * 512) m n dirs fname j e blks" and "path_to dirs fname path" and "length path < 1024"
    and "\<not> cf_lost s" and "\<forall>f \<in> set (cached_files s). cf_path f \<noteq> path"
    and "flags AND O_CREAT = 0" and "flags AND O_TRUNC = 0" and "flags AND O_APPEND = 0" and "c \<le> 4096"
  shows "\<exists>h V1 V2. vfs_open name flags mode V = Some (int h, V1)
    \<and> vfs_uread (int h) (int c) V1 = Some ((int (min c (unat (esize e))),
        map (\<lambda>q. C (unat (blks ! (q div BYTES_PER_BLOCK)) * BYTES_PER_BLOCK + q mod BYTES_PER_BLOCK)) [0..<min c (unat (esize e))]), V2)"
proof -
  note disk = bios_partition_dev_disk [OF assms(6) [unfolded assms(5)] assms(7,8)]
  have C: "C = part_byte (\<lambda>s. disk_byte sec s (drive_of bd)) (dev_world (world (evfs s)))"
    using part_byte_volume [OF assms(6)] assms(5,10) by simp
  from echfs_open_then_read [OF disk C assms(9,11-18), of mode c] obtain hn s1 stat s2 where
    o: "echfs_open path flags mode ('':://'' @ dev) s = Some (int hn, s1)"
    and r: "echfs_uread (int hn) (int c) s1 = Some ((int (min c (unat (esize e))),
        map (\<lambda>q. C (unat (blks ! (q div 32768)) * 32768 + q mod 32768)) [0..<min c (unat (esize e))], stat), s2)"
    by auto
  have "fs_open echfs_fs path flags mode ('':://'' @ dev) (world V) = Some (int hn, s1)" using o assms(4) by (simp add: echfs_fs_def)
  from open_binds_handle [OF assms(1-3) this] obtain h V1 where
    v: "vfs_open name flags mode V = Some (int h, V1)" "world V1 = s1" "current_pid V1 = current_pid V"
      "handle_fs (current_pid V) (int h) V1 = Some (\<lparr>f2_free = False, f2_mountpoint = int mp, f2_internal_handle = int hn\<rparr>, echfs_fs)"
    by auto
  then have "vfs_uread (int h) (int c) V1 = Some ((int (min c (unat (esize e))),
        map (\<lambda>q. C (unat (blks ! (q div 32768)) * 32768 + q mod 32768)) [0..<min c (unat (esize e))]), V1\<lparr>world := s2, vfs_read_stat := stat\<rparr>)"
    using r assms(19) by (simp add: vfs_uread_def uread_for_def echfs_fs_def)
  with v(1) show ?thesis by auto
qed

subsection \<open>A disk with one file\<close>

definition image_read :: "(u8 \<Rightarrow> nat \<Rightarrow> u8) sector_read" where
  "image_read d l h = (if l < 2112 then Some (map (h d) [l * 512..<l * 512 + 512], h) else None)"

definition image_write :: "(u8 \<Rightarrow> nat \<Rightarrow> u8) sector_write" where
  "image_write d l bs h = (if l < 2112 \<and> length bs = 512 then Some (h(d := put_bytes bs (l * 512) (h d))) else None)"

definition image_sectors :: "(u8 \<Rightarrow> nat \<Rightarrow> u8) \<Rightarrow> u8 \<Rightarrow> nat \<Rightarrow> u8 list" where
  "image_sectors h d l = map (h d) [l * 512..<l * 512 + 512]"

lemma image_laws: "bios_laws image_read image_write image_sectors (\<lambda>_. 2112)"
proof -
  have "map (put_bytes bs (l * 512) C) [l' * 512..<l' * 512 + 512] = (if l' = l then bs else map C [l' * 512..<l' * 512 + 512])"
    if "length bs = 512" for bs l l' and C :: "nat \<Rightarrow> u8"
    using that by (intro nth_equalityI) (auto simp: put_bytes_apply)
  then have "image_sectors (h(d := put_bytes bs (l * 512) (h d))) = (image_sectors h)(d := (image_sectors h d)(l := bs))"
    if "length bs = 512" for h d l bs
    using that by (intro ext) (simp add: image_sectors_def del: upt_Suc map_eq_conv)
  then show ?thesis by (simp add: bios_laws_def image_read_def image_write_def) (simp add: image_sectors_def)
qed

definition image_disk :: "(u8 \<Rightarrow> nat \<Rightarrow> u8) bios_disks device_t" where
  "image_disk = \<lparr>dev_name = ''bd0'', gp_value = 0x80, dev_size = 1081344, dev_io = bios_harddisks_io_wrapper image_read image_write\<rparr>"

definition image_part :: "part \<times> (u8 \<Rightarrow> nat \<Rightarrow> u8) bios_disks devfs" where
  "image_part = (ram_part\<lparr>first_sect := 2, sect_count := 2048\<rparr>,
     \<lparr>device_list = [image_disk], devfs_handles = [\<lparr>df_free = False, df_path = ''bd0'', df_flags = 2, df_mode = 0,
        df_ptr = 0, df_begin = 0, df_end = 1081344, df_isblock = False, df_device = 0\<rparr>],
      read_stat = False, write_stat = False,
      dev_world = \<lparr>cache_status = CacheNotReady, cached_drive = 0, cached_block = 0, disk_cache = [], hw = (\<lambda>_ a. notes_disk (a - 1024))\<rparr>\<rparr>)"

definition image_volume :: "(part \<times> (u8 \<Rightarrow> nat \<Rightarrow> u8) bios_disks devfs) device_t" where
  "image_volume = \<lparr>dev_name = ''ram'', gp_value = 0, dev_size = 1048576, dev_io = partitioned_medium_io_wrapper\<rparr>"

definition image_echfs :: "(part \<times> (u8 \<Rightarrow> nat \<Rightarrow> u8) bios_disks devfs) devfs echfs" where
  "image_echfs = \<lparr>mounts = [mem_mount], cached_files = [], cf_gen = 0, cf_lost = False, echfs_handles = [],
     junk = replicate 218 7, junk_md = \<lparr>filename = [], filetype = 0, fsize = 0\<rparr>,
     evfs = \<lparr>filesystems = [devfs_fs], mountpoints = [\<lparr>mp_mountpoint = ''/dev'', mp_device = ''devfs'', mp_filesystem = ''devfs''\<rparr>],
       vfs_devices = [lift_device image_volume], current_pid = 0, pwd_of = (\<lambda>_. ''/''), handles_of = (\<lambda>_. []),
       vfs_read_stat = False, vfs_write_stat = False, stack = replicate 2048 NUL,
       world = \<lparr>device_list = [image_volume], devfs_handles = [], read_stat = False, write_stat = False, dev_world = image_part\<rparr>\<rparr>\<rparr>"

definition image_vfs :: "(part \<times> (u8 \<Rightarrow> nat \<Rightarrow> u8) bios_disks devfs) devfs echfs vfs" where
  "image_vfs = \<lparr>filesystems = [echfs_fs], mountpoints = [\<lparr>mp_mountpoint = ''/'', mp_device = '':://ram'', mp_filesystem = ''echfs''\<rparr>],
     vfs_devices = [], current_pid = 1, pwd_of = (\<lambda>_. ''/''), handles_of = (\<lambda>_. []), vfs_read_stat = False,
     vfs_write_stat = False, stack = replicate 2048 NUL, world = image_echfs\<rparr>"

lemma image_partition: "bios_partition image_read image_write image_sectors (\<lambda>_. 2112) image_disk 2048 image_part"
proof -
  have "open_on image_disk 1081344 0 (snd image_part)"
    by (simp add: open_on_def handle_device_def image_part_def Let_def)
  then show ?thesis
    by (simp add: bios_partition_def image_part_def image_laws bd_inv_def image_disk_def ram_part_def)
qed

lemma image_registered: "registered ''ram'' image_volume (2048 * 512) (evfs image_echfs)"
proof -
  have "resolve_absolute (''/dev/'' @ ''ram'') (evfs image_echfs) = Some (0, devfs_fs, ''/ram'', ''devfs'')"
    by (simp add: resolve_absolute_def vfs_translate_mnt_def mount_matches_def image_echfs_def vfs_translate_fs_def devfs_fs_def)
  then show ?thesis
    by (auto simp: registered_def devices_shared_def image_echfs_def image_volume_def find_device_def skip_slash_def)
qed

lemma image_bytes: "volume_byte image_sectors image_disk image_part = notes_disk"
proof
  fix q
  have "medium_byte image_sectors (\<lambda>_ a. notes_disk (a - 1024)) d (1024 + q) = notes_disk q" for d
  proof -
    have "(1024 + q) div 512 * 512 + (1024 + q) mod 512 = 1024 + q" by (rule div_mult_mod_eq)
    then show ?thesis by (simp add: medium_byte_def image_sectors_def del: upt_Suc)
  qed
  then show "volume_byte image_sectors image_disk image_part q = notes_disk q"
    by (simp add: volume_byte_def image_part_def)
qed

theorem file_read_reaches_medium_witness:
  "\<exists>h V1 V2. vfs_open ''/notes'' 2 0 image_vfs = Some (int h, V1) \<and> vfs_uread (int h) 10 V1 = Some ((3, [104, 105, 33]), V2)"
proof -
  have "normalise [] ''/notes'' = [''notes'']" by (simp add: normalise_def components.simps walk_def)
  then obtain buf where "vfs_get_absolute_path ''/'' ''/notes'' (replicate 2048 NUL) = Some buf" "holds_string buf ''/notes''"
    using absolute_path_normal [of "[]" "''/''" "''/notes''" "replicate 2048 NUL"]
    by (auto simp: good_components_def render_path_def NUL_def)
  then have 1: "absolute_path ''/notes'' image_vfs = Some ''/notes''"
    by (simp add: absolute_path_def image_vfs_def holds_string_takeWhile)
  have 2: "resolve_absolute ''/notes'' image_vfs = Some (0, echfs_fs, ''notes'', '':://'' @ ''ram'')"
    by (simp add: resolve_absolute_def vfs_translate_mnt_def mount_matches_def image_vfs_def vfs_translate_fs_def echfs_fs_def)
  have 3: "world image_vfs = image_echfs" "image_part = dev_world (world (evfs image_echfs))" "find_mount ('':://'' @ ''ram'') (mounts image_echfs) = Some (0, mem_mount)"
    by (simp_all add: image_vfs_def) (simp_all add: image_echfs_def find_mount_def mem_mount_def)
  have 4: "path_to [] ''notes'' ''notes''" by (simp add: path_to_def path_text_def)
  have 5: "file_on_disk notes_disk (2048 * 512) mem_mount 1 [] ''notes'' 0 notes_entry [22]" using notes_on_disk by simp
  show ?thesis
    using file_read_reaches_medium [OF _ 1 2 3(1,2) image_partition image_registered _ 3(3) image_bytes [symmetric] 5 4, of 2 10 0]
    by (simp add: direct_device_def image_volume_def image_echfs_def notes_entry_def upt_conv_Cons notes_bytes)
qed

section \<open>From a command line to the arguments of a program\<close>

text \<open>
  C2. What is typed reaches the program: when a line starts with a word that is no built-in command, the
  shell asks the kernel to run the program of that name, with the streams the redirections of the line
  select, and waits for it unless the line has an ampersand; and whenever the kernel then makes a task,
  that task finds in its memory the number of words of the line, the array of pointers to them ended by a
  null pointer, and at each pointer the word with its terminator.
\<close>

theorem command_line_reaches_program:
  fixes k :: "'w kernel"
  assumes "length line \<le> 254" and "NUL \<notin> set line" and "CHR 0x0A \<notin> set line" and "\<forall>t \<in> set (tokens line). short_name t"
    and "starts_with_word line" and "words (tokens line) = c # args" and "c \<notin> set builtins" and "length c < 128" and "length cwd < 128"
    and "length (s_argv s) = 128"
    and "sh = fold obey (tokens line) ((vars s)\<lparr>no_block := False, prog_stdin := i, prog_stdout := o', prog_stderr := e\<rparr>)"
    and "ti = \<lparr>ti_path = c, ti_stdin = prog_stdin sh, ti_stdout = prog_stdout sh, ti_stderr = prog_stderr sh,
      ti_pwd = cwd, ti_name = c, ti_server_name = [], ti_argc = int (length (c # args)), ti_argv = c # args\<rparr>"
  shows "(\<exists>s'. shell_round (i, o', e) cwd (line @ CHR 0x0A # rest) s = Some (Program ti (\<not> no_block sh), s'))
    \<and> (general_execute ti k = Some (pid, k') \<and> pid \<noteq> -1 \<longrightarrow>
        (\<exists>t m. get_task (nat pid) k' = Some t \<and> m = heap_mem (kernel_heap k') \<and> t_parent t = current_task k \<and> t_name t = c
          \<and> rd_le 4 m (t_base t + 0x1000) = length (c # args) \<and> rd_le 4 m (t_base t + 0x1010 + 4 * length (c # args)) = 0
          \<and> (\<forall>j<length (c # args). string_at m (t_base t + rd_le 4 m (t_base t + 0x1010 + 4 * j)) ((c # args) ! j))))"
proof (intro conjI impI)
  show "\<exists>s'. shell_round (i, o', e) cwd (line @ CHR 0x0A # rest) s = Some (Program ti (\<not> no_block sh), s')"
    using shell_round_program [OF assms(1-3) _ assms(5-10), of sh "(i, o', e)" rest] assms(4,11) by (simp add: list_all_iff assms(12))
next
  assume "general_execute ti k = Some (pid, k') \<and> pid \<noteq> -1"
  then have run: "general_execute ti k = Some (pid, k')" "pid \<noteq> -1" by auto
  have "length (c # args) \<le> 128" using words_bound [of line] assms(1,6) by (simp split: if_splits)
  moreover have "args_size (c # args) \<le> 255" using args_size_words [of line] assms(1,6) by (simp split: if_splits)
  ultimately have "args_size (ti_argv ti) < 2 ^ 31" "0 \<le> ti_argc ti" "ti_argc ti < 0xbfb" "nat (ti_argc ti) = length (c # args)"
    by (simp_all add: assms(12) del: args_size_simps)
  from program_finds_arguments [OF run this(2,3,1)] this(4)
  show "\<exists>t m. get_task (nat pid) k' = Some t \<and> m = heap_mem (kernel_heap k') \<and> t_parent t = current_task k \<and> t_name t = c
      \<and> rd_le 4 m (t_base t + 0x1000) = length (c # args) \<and> rd_le 4 m (t_base t + 0x1010 + 4 * length (c # args)) = 0
      \<and> (\<forall>j<length (c # args). string_at m (t_base t + rd_le 4 m (t_base t + 0x1010 + 4 * j)) ((c # args) ! j))"
    by (auto simp: assms(12))
qed

definition fresh_session :: session where
  "fresh_session = \<lparr>input = replicate 256 NUL, s_argc = 0, s_argv = replicate 128 None,
     vars = \<lparr>prog_stdin = [], prog_stdout = [], prog_stderr = [], no_block = False, os_calls = []\<rparr>\<rparr>"

lemma p_tokens: "tokens ''/p x'' = [Word ''/p'', Word ''x'']"
  by code_simp

definition p_info :: task_info_t where
  "p_info = \<lparr>ti_path = ''/p'', ti_stdin = ''/p'', ti_stdout = ''/p'', ti_stderr = ''/p'', ti_pwd = ''/'', ti_name = ''/p'',
     ti_server_name = [], ti_argc = 2, ti_argv = [''/p'', ''x'']\<rparr>"

theorem command_line_reaches_program_witness:
  "\<exists>s' k' t m. shell_round (''/p'', ''/p'', ''/p'') ''/'' (''/p x'' @ [CHR 0x0A]) fresh_session = Some (Program p_info True, s')
    \<and> general_execute p_info prog_kernel = Some (3, k') \<and> get_task 3 k' = Some t \<and> m = heap_mem (kernel_heap k')
    \<and> rd_le 4 m (t_base t + 0x1000) = 2 \<and> string_at m (t_base t + rd_le 4 m (t_base t + 0x1014)) ''x''"
proof -
  obtain k' where k': "general_execute p_info prog_kernel = Some (3, k')"
    using prog_runs [of p_info] by (auto simp: prog_start_def p_info_def)
  have start: "starts_with_word ''/p x''" by code_simp
  have w: "words (tokens ''/p x'') = ''/p'' # [''x'']" "\<forall>t \<in> set (tokens ''/p x''). short_name t" by (simp_all add: p_tokens)
  have b: "''/p'' \<notin> set builtins" by (simp add: builtins_def)
  let ?sh = "fold obey (tokens ''/p x'') ((vars fresh_session)\<lparr>no_block := False, prog_stdin := ''/p'', prog_stdout := ''/p'', prog_stderr := ''/p''\<rparr>)"
  have sh: "prog_stdin ?sh = ''/p''" "prog_stdout ?sh = ''/p''" "prog_stderr ?sh = ''/p''" "\<not> no_block ?sh"
    by (simp_all add: p_tokens fresh_session_def)
  then have ti: "p_info = \<lparr>ti_path = ''/p'', ti_stdin = prog_stdin ?sh, ti_stdout = prog_stdout ?sh, ti_stderr = prog_stderr ?sh,
      ti_pwd = ''/'', ti_name = ''/p'', ti_server_name = [], ti_argc = int (length (''/p'' # [''x''])), ti_argv = ''/p'' # [''x'']\<rparr>"
    by (simp add: p_info_def)
  have n: "length (s_argv fresh_session) = 128" by (simp add: fresh_session_def)
  note main = command_line_reaches_program [OF _ _ _ w(2) start w(1) b _ _ n refl ti, of "[]" prog_kernel 3 k']
  have "\<exists>s'. shell_round (''/p'', ''/p'', ''/p'') ''/'' (''/p x'' @ [CHR 0x0A]) fresh_session = Some (Program p_info True, s')"
    using main sh(4) by (simp add: NUL_def)
  moreover obtain t m where "get_task 3 k' = Some t" "m = heap_mem (kernel_heap k')" "rd_le 4 m (t_base t + 0x1000) = 2"
      and args: "\<forall>j<2. string_at m (t_base t + rd_le 4 m (t_base t + 0x1010 + 4 * j)) ([''/p'', ''x''] ! j)"
    using main k' by (auto simp: NUL_def numeral_2_eq_2)
  moreover from args [rule_format, of 1] have "string_at m (t_base t + rd_le 4 m (t_base t + 0x1014)) ''x''" by (simp add: add.commute)
  ultimately show ?thesis using k' by blast
qed

end
